(* ===== verification/Prelude.thy ===== *)
theory Prelude
  imports Main "HOL-Library.Word" "HOL-Library.Signed_Division"
begin

text \<open>
  Shared vocabulary of the development: the faults a Soroban contract call can end in, the result
  type with its sequencing operator, the host environment a call sees, the machine integers of the
  contracts (\<open>i128\<close> as \<open>int\<close>, \<open>u32\<close> and \<open>u64\<close> as \<open>nat\<close>, each operation writing out its range
  check, saturation or wrap-around), the event log, the part of the storage every contract has
  (pause flag, reentrancy flag, event log), and sums over finite maps.
\<close>

section \<open>Results\<close>

text \<open>
  A call either returns a value, returns one of the contract's typed errors, or traps. The host
  rolls back every storage write of a call that does not return a value, so a failed call carries no
  state.
\<close>

datatype 'e fault = Err 'e | Trap

type_synonym ('e, 'a) res = "'e fault + 'a"

definition bind_res :: "('e, 'a) res \<Rightarrow> ('a \<Rightarrow> ('e, 'b) res) \<Rightarrow> ('e, 'b) res" where
  "bind_res m k = (case m of Inl e \<Rightarrow> Inl e | Inr x \<Rightarrow> k x)"

text \<open>\<open>opt.ok_or(e)?\<close>\<close>

definition ok_or :: "'a option \<Rightarrow> 'e \<Rightarrow> ('e, 'a) res" where
  "ok_or x e = (case x of None \<Rightarrow> Inl (Err e) | Some y \<Rightarrow> Inr y)"

text \<open>\<open>opt.unwrap_or(d)\<close>\<close>

definition unwrap_or :: "'a option \<Rightarrow> 'a \<Rightarrow> 'a" where
  "unwrap_or x d = (case x of None \<Rightarrow> d | Some y \<Rightarrow> y)"

lemma unwrap_or_simps [simp]: "unwrap_or None d = d" "unwrap_or (Some y) d = y"
  by (simp_all add: unwrap_or_def)

text \<open>A host call that traps when it fails.\<close>

definition or_trap :: "'a option \<Rightarrow> ('e, 'a) res" where
  "or_trap x = (case x of None \<Rightarrow> Inl Trap | Some y \<Rightarrow> Inr y)"

text \<open>\<open>result.map_err(f)\<close>: a typed error is renamed, a trap stays a trap.\<close>

definition map_err :: "('e \<Rightarrow> 'f) \<Rightarrow> ('e, 'a) res \<Rightarrow> ('f, 'a) res" where
  "map_err f m = (case m of Inl (Err e) \<Rightarrow> Inl (Err (f e)) | Inl Trap \<Rightarrow> Inl Trap | Inr x \<Rightarrow> Inr x)"

text \<open>\<open>if !c { return Err(e) }\<close>\<close>

definition ensure :: "bool \<Rightarrow> 'e \<Rightarrow> ('e, unit) res" where
  "ensure c e = (if c then Inr () else Inl (Err e))"

named_theorems res_simps \<open>inversion of a result that is a returned value\<close>

lemma bind_res_simps [simp]:
  "bind_res (Inl e) k = Inl e" "bind_res (Inr x) k = k x"
  by (simp_all add: bind_res_def)

lemma ok_or_simps [simp]: "ok_or None e = Inl (Err e)" "ok_or (Some x) e = Inr x"
  by (simp_all add: ok_or_def)

lemma or_trap_simps [simp]: "or_trap None = Inl Trap" "or_trap (Some x) = Inr x"
  by (simp_all add: or_trap_def)

lemma map_err_simps [simp]:
  "map_err f (Inl (Err e)) = Inl (Err (f e))" "map_err f (Inl Trap) = Inl Trap"
  "map_err f (Inr x) = Inr x"
  by (simp_all add: map_err_def)

lemma ensure_simps [simp]: "ensure True e = Inr ()" "ensure False e = Inl (Err e)"
  by (simp_all add: ensure_def)

lemma bind_res_Inr [res_simps]: "bind_res m k = Inr r \<longleftrightarrow> (\<exists>x. m = Inr x \<and> k x = Inr r)"
  by (cases m) auto

lemma ok_or_Inr [res_simps]: "ok_or x e = Inr y \<longleftrightarrow> x = Some y"
  by (cases x) auto

lemma or_trap_Inr [res_simps]: "or_trap x = Inr y \<longleftrightarrow> x = Some y"
  by (cases x) auto

lemma map_err_Inr [res_simps]: "map_err f m = Inr y \<longleftrightarrow> m = Inr y"
  by (cases m) (auto simp: map_err_def split: fault.splits)

lemma ensure_Inr [res_simps]: "ensure c e = Inr u \<longleftrightarrow> c"
  by (auto simp: ensure_def)

lemma if_Inl_Inr [res_simps]: "(if c then Inl e else k) = Inr r \<longleftrightarrow> \<not> c \<and> k = Inr r"
  by auto

lemma case_option_Inr [res_simps]:
  "(case x of None \<Rightarrow> Inl e | Some y \<Rightarrow> k y) = Inr r \<longleftrightarrow> (\<exists>y. x = Some y \<and> k y = Inr r)"
  by (cases x) auto

lemma ensure_Inl: "ensure c e = Inl f \<longleftrightarrow> \<not> c \<and> f = Err e"
  by (auto simp: ensure_def)

lemma bind_res_assoc: "bind_res (bind_res m k) l = bind_res m (\<lambda>x. bind_res (k x) l)"
  by (cases m) auto

section \<open>Addresses, the host environment, events\<close>

text \<open>
  Soroban addresses are totally ordered opaque values; the natural numbers stand for them. \<open>host\<close>
  is what a call reads from its environment: the contract's own address, the ledger's timestamp
  (\<open>u64\<close>) and sequence number (\<open>u32\<close>), and which addresses have authorized this call.
\<close>

type_synonym addr = nat

record host =
  self :: addr
  now :: nat
  seq :: nat
  authorized :: "addr \<Rightarrow> bool"

definition require_auth :: "host \<Rightarrow> addr \<Rightarrow> ('e, unit) res" where
  "require_auth h a = (if authorized h a then Inr () else Inl Trap)"

lemma require_auth_Inr [res_simps]: "require_auth h a = Inr u \<longleftrightarrow> authorized h a"
  by (auto simp: require_auth_def)

text \<open>An event: the symbol among its topics, its other topics and its data, in the order of the source.\<close>

type_synonym bytes = "8 word list"

datatype val = AddrV addr | IntV int | BoolV bool | SymV string | BytesV bytes | OptV "val option"

datatype event = Event string "val list" "val list"

abbreviation NatV :: "nat \<Rightarrow> val" where "NatV n \<equiv> IntV (int n)"

section \<open>What every contract's storage has\<close>

text \<open>
  \<open>cb_paused\<close> is the instance entry \<open>paused\<close>, \<open>cb_reent\<close> the temporary entry \<open>reent\<close> and
  \<open>cb_events\<close> the events published so far. A contract that moves tokens extends this record with
  the token ledgers it can see (\<open>cb_ledger\<close>).
\<close>

record contract_base =
  cb_paused :: "bool option"
  cb_reent :: "bool option"
  cb_events :: "event list"

record 'l token_base = contract_base +
  cb_ledger :: 'l

definition publish :: "event \<Rightarrow> 'a contract_base_scheme \<Rightarrow> 'a contract_base_scheme" where
  "publish ev s = s\<lparr>cb_events := cb_events s @ [ev]\<rparr>"

lemma publish_sel [simp]:
  "cb_paused (publish ev s) = cb_paused s" "cb_reent (publish ev s) = cb_reent s"
  "cb_events (publish ev s) = cb_events s @ [ev]"
  "contract_base.more (publish ev s) = contract_base.more s"
  by (simp_all add: publish_def)

section \<open>Machine integers\<close>

definition i128_max :: int where "i128_max = 170141183460469231731687303715884105727"

definition i128_min :: int where "i128_min = - 170141183460469231731687303715884105728"

lemma i128_range: "i128_max = 2 ^ 127 - 1" "i128_min = - (2 ^ 127)"
  by (simp_all add: i128_max_def i128_min_def)

definition in_i128 :: "int \<Rightarrow> bool" where
  "in_i128 x \<longleftrightarrow> i128_min \<le> x \<and> x \<le> i128_max"

definition chk_i128 :: "int \<Rightarrow> int option" where
  "chk_i128 x = (if in_i128 x then Some x else None)"

definition i128_checked_add :: "int \<Rightarrow> int \<Rightarrow> int option" where
  "i128_checked_add a b = chk_i128 (a + b)"

definition i128_checked_sub :: "int \<Rightarrow> int \<Rightarrow> int option" where
  "i128_checked_sub a b = chk_i128 (a - b)"

definition i128_checked_mul :: "int \<Rightarrow> int \<Rightarrow> int option" where
  "i128_checked_mul a b = chk_i128 (a * b)"

text \<open>Rust's \<open>/\<close> truncates towards zero.\<close>

definition i128_checked_div :: "int \<Rightarrow> int \<Rightarrow> int option" where
  "i128_checked_div a b = (if b = 0 then None else chk_i128 (a sdiv b))"

definition i128_saturating_add :: "int \<Rightarrow> int \<Rightarrow> int" where
  "i128_saturating_add a b = max i128_min (min i128_max (a + b))"

text \<open>
  The release profile of the workspace does not set \<open>overflow-checks\<close>, so plain \<open>+\<close>, \<open>-\<close> and
  \<open>*\<close> wrap in the deployed contracts; \<open>wrap_i128\<close> and \<open>wrap_u\<close> are that wrap-around, and also the
  truncating \<open>as\<close> casts.
\<close>

definition wrap_i128 :: "int \<Rightarrow> int" where
  "wrap_i128 x = (x + 2 ^ 127) mod 2 ^ 128 - 2 ^ 127"

definition wrap_u :: "nat \<Rightarrow> int \<Rightarrow> nat" where
  "wrap_u w x = nat (x mod 2 ^ w)"

definition u_checked_add :: "nat \<Rightarrow> nat \<Rightarrow> nat \<Rightarrow> nat option" where
  "u_checked_add w a b = (if a + b < 2 ^ w then Some (a + b) else None)"

definition u_checked_mul :: "nat \<Rightarrow> nat \<Rightarrow> nat \<Rightarrow> nat option" where
  "u_checked_mul w a b = (if a * b < 2 ^ w then Some (a * b) else None)"

definition u_saturating_add :: "nat \<Rightarrow> nat \<Rightarrow> nat \<Rightarrow> nat" where
  "u_saturating_add w a b = min (2 ^ w - 1) (a + b)"

definition u_saturating_mul :: "nat \<Rightarrow> nat \<Rightarrow> nat \<Rightarrow> nat" where
  "u_saturating_mul w a b = min (2 ^ w - 1) (a * b)"

text \<open>\<open>saturating_sub\<close> on an unsigned type is the truncated subtraction of \<open>nat\<close>.\<close>

abbreviation u_saturating_sub :: "nat \<Rightarrow> nat \<Rightarrow> nat" where
  "u_saturating_sub a b \<equiv> a - b"

named_theorems int_simps \<open>inversion of checked machine arithmetic\<close>

lemma chk_i128_Some [int_simps]: "chk_i128 x = Some y \<longleftrightarrow> y = x \<and> in_i128 x"
  by (auto simp: chk_i128_def)

lemma i128_checked_add_Some [int_simps]:
  "i128_checked_add a b = Some c \<longleftrightarrow> c = a + b \<and> in_i128 (a + b)"
  by (simp add: i128_checked_add_def int_simps)

lemma i128_checked_sub_Some [int_simps]:
  "i128_checked_sub a b = Some c \<longleftrightarrow> c = a - b \<and> in_i128 (a - b)"
  by (simp add: i128_checked_sub_def int_simps)

lemma i128_checked_mul_Some [int_simps]:
  "i128_checked_mul a b = Some c \<longleftrightarrow> c = a * b \<and> in_i128 (a * b)"
  by (simp add: i128_checked_mul_def int_simps)

lemma i128_checked_div_Some [int_simps]:
  "i128_checked_div a b = Some c \<longleftrightarrow> b \<noteq> 0 \<and> c = a sdiv b \<and> in_i128 (a sdiv b)"
  by (auto simp: i128_checked_div_def int_simps)

lemma u_checked_add_Some [int_simps]:
  "u_checked_add w a b = Some c \<longleftrightarrow> c = a + b \<and> a + b < 2 ^ w"
  by (auto simp: u_checked_add_def)

lemma u_checked_mul_Some [int_simps]:
  "u_checked_mul w a b = Some c \<longleftrightarrow> c = a * b \<and> a * b < 2 ^ w"
  by (auto simp: u_checked_mul_def)

lemma in_i128I: "i128_min \<le> x \<Longrightarrow> x \<le> i128_max \<Longrightarrow> in_i128 x"
  by (simp add: in_i128_def)

lemma in_i128_mono: "in_i128 b \<Longrightarrow> 0 \<le> a \<Longrightarrow> a \<le> b \<Longrightarrow> in_i128 a"
  by (simp add: in_i128_def i128_min_def)

lemma sdiv_nonneg: "0 \<le> a \<Longrightarrow> 0 \<le> b \<Longrightarrow> (a::int) sdiv b = a div b"
  by (cases "a = 0"; cases "b = 0") (simp_all add: signed_divide_int_def sgn_if)

lemma wrap_i128_id [simp]: "in_i128 x \<Longrightarrow> wrap_i128 x = x"
  by (simp add: wrap_i128_def in_i128_def i128_range)

lemma wrap_u_id [simp]: "x < 2 ^ w \<Longrightarrow> wrap_u w (int x) = x"
  by (simp add: wrap_u_def nat_mod_distrib)

lemma wrap_u_less: "wrap_u w x < 2 ^ w"
proof -
  have "x mod 2 ^ w < 2 ^ w" and "0 \<le> x mod 2 ^ w" by simp_all
  then show ?thesis by (simp add: wrap_u_def nat_less_iff)
qed

section \<open>Sums over finite maps\<close>

text \<open>
  Many invariants say that a stored total is the sum of a quantity over a map. \<open>msum f m\<close> is that
  sum; the two lemmas below say how storing and removing an entry change it.
\<close>

definition msum :: "('v \<Rightarrow> int) \<Rightarrow> ('k \<rightharpoonup> 'v) \<Rightarrow> int" where
  "msum f m = (\<Sum>k\<in>dom m. f (the (m k)))"

definition opt_val :: "('v \<Rightarrow> int) \<Rightarrow> 'v option \<Rightarrow> int" where
  "opt_val f x = (case x of None \<Rightarrow> 0 | Some v \<Rightarrow> f v)"

lemma opt_val_simps [simp]: "opt_val f None = 0" "opt_val f (Some v) = f v"
  by (simp_all add: opt_val_def)

lemma msum_empty [simp]: "msum f Map.empty = 0"
  by (simp add: msum_def)

lemma msum_extract:
  assumes "finite (dom m)"
  shows "msum f m = opt_val f (m k) + (\<Sum>j\<in>dom m - {k}. f (the (m j)))"
proof (cases "m k")
  case None
  then have "dom m - {k} = dom m" by auto
  with None show ?thesis by (simp add: msum_def)
next
  case (Some v)
  then have "k \<in> dom m" by auto
  with assms Some show ?thesis by (simp add: msum_def sum.remove)
qed

lemma msum_upd:
  assumes "finite (dom m)"
  shows "msum f (m(k \<mapsto> v)) = msum f m - opt_val f (m k) + f v"
proof -
  have "finite (dom (m(k \<mapsto> v)))" using assms by simp
  from msum_extract [OF this, of f k]
  have "msum f (m(k \<mapsto> v)) = f v + (\<Sum>j\<in>dom m - {k}. f (the ((m(k \<mapsto> v)) j)))" by simp
  also have "(\<Sum>j\<in>dom m - {k}. f (the ((m(k \<mapsto> v)) j))) = (\<Sum>j\<in>dom m - {k}. f (the (m j)))"
    by (rule sum.cong) auto
  finally show ?thesis using msum_extract [OF assms, of f k] by linarith
qed

lemma msum_del:
  assumes "finite (dom m)"
  shows "msum f (m(k := None)) = msum f m - opt_val f (m k)"
proof -
  have "msum f (m(k := None)) = (\<Sum>j\<in>dom m - {k}. f (the ((m(k := None)) j)))"
    by (simp add: msum_def)
  also have "\<dots> = (\<Sum>j\<in>dom m - {k}. f (the (m j)))" by (rule sum.cong) auto
  finally show ?thesis using msum_extract [OF assms, of f k] by simp
qed

lemma msum_nonneg: "(\<And>k v. m k = Some v \<Longrightarrow> 0 \<le> f v) \<Longrightarrow> 0 \<le> msum f m"
  unfolding msum_def by (rule sum_nonneg) auto

lemma msum_ge_entry:
  assumes "finite (dom m)" and "\<And>k v. m k = Some v \<Longrightarrow> 0 \<le> f v" and "m k = Some v"
  shows "f v \<le> msum f m"
proof -
  have "0 \<le> (\<Sum>j\<in>dom m - {k}. f (the (m j)))"
    by (rule sum_nonneg) (use assms(2) in auto)
  with msum_extract [OF assms(1), of f k] assms(3) show ?thesis by simp
qed

section \<open>Lists\<close>

lemma sum_list_int_update:
  fixes xs :: "int list"
  shows "i < length xs \<Longrightarrow> sum_list (xs[i := x]) = sum_list xs - xs ! i + x"
proof (induction xs arbitrary: i)
  case Nil
  then show ?case by simp
next
  case (Cons y xs)
  then show ?case by (cases i) auto
qed

text \<open>Copying a vector without one value, the loop the contracts write out by hand.\<close>

fun vec_without :: "'a \<Rightarrow> 'a list \<Rightarrow> 'a list" where
  "vec_without x [] = []"
| "vec_without x (y # ys) = (if y \<noteq> x then y # vec_without x ys else vec_without x ys)"

lemma vec_without_filter: "vec_without x ys = filter (\<lambda>y. y \<noteq> x) ys"
  by (induction ys) auto

lemma set_vec_without [simp]: "set (vec_without x ys) = set ys - {x}"
  by (induction ys) auto

lemma distinct_vec_without: "distinct ys \<Longrightarrow> distinct (vec_without x ys)"
  by (simp add: vec_without_filter)

end
