(* ===== verification/Token_Interface.thy ===== *)
theory Token_Interface
  imports Prelude
begin

text \<open>
  The token contract as its clients see it. The contracts of the workspace hold the address of a
  token and call it through the SDK's client; which contract is behind the address is not known to
  them, so the two calls they make are a parameter. \<open>'l\<close> is the state of all token contracts
  together. \<open>tk_transfer T l t a b x\<close> is the call \<open>transfer(a, b, x)\<close> on the token at address \<open>t\<close>;
  \<open>None\<close> is a trap, whatever its reason (no such contract, \<open>a\<close> has not authorized the call,
  insufficient balance, frozen or paused token). The locale \<open>sep41\<close> states what the SEP-41 token
  standard says of them; \<open>ok\<close> is the invariant under which a token contract keeps the standard.
\<close>

record 'l token_api =
  tk_balance :: "'l \<Rightarrow> addr \<Rightarrow> addr \<Rightarrow> int"
  tk_transfer :: "'l \<Rightarrow> addr \<Rightarrow> addr \<Rightarrow> addr \<Rightarrow> int \<Rightarrow> 'l option"

text \<open>A contract's call \<open>client.transfer(a, b, x)\<close> on its own view of the ledgers.\<close>

definition token_transfer ::
    "'l token_api \<Rightarrow> addr \<Rightarrow> addr \<Rightarrow> addr \<Rightarrow> int \<Rightarrow> ('l, 'a) token_base_scheme
      \<Rightarrow> ('e, ('l, 'a) token_base_scheme) res" where
  "token_transfer T t a b x s =
     bind_res (or_trap (tk_transfer T (cb_ledger s) t a b x)) (\<lambda>l. Inr (s\<lparr>cb_ledger := l\<rparr>))"

lemma token_transfer_Inr [res_simps]:
  "token_transfer T t a b x s = Inr s' \<longleftrightarrow>
     (\<exists>l. tk_transfer T (cb_ledger s) t a b x = Some l \<and> s' = s\<lparr>cb_ledger := l\<rparr>)"
  by (auto simp: token_transfer_def res_simps)

lemma publish_ledger [simp]: "cb_ledger (publish ev s) = cb_ledger s"
  by (simp add: publish_def)

locale sep41 =
  fixes T :: "'l token_api"
    and ok :: "'l \<Rightarrow> bool"
  assumes transfer_ok: "ok l \<Longrightarrow> tk_transfer T l t a b x = Some l' \<Longrightarrow> ok l'"
    and transfer_balance: "ok l \<Longrightarrow> tk_transfer T l t a b x = Some l' \<Longrightarrow>
      tk_balance T l' t c =
        tk_balance T l t c - (if c = a then x else 0) + (if c = b then x else 0)"
    and transfer_other_token: "ok l \<Longrightarrow> tk_transfer T l t a b x = Some l' \<Longrightarrow> u \<noteq> t \<Longrightarrow>
      tk_balance T l' u c = tk_balance T l u c"
    and transfer_amount: "ok l \<Longrightarrow> tk_transfer T l t a b x = Some l' \<Longrightarrow>
      0 \<le> x \<and> x \<le> tk_balance T l t a"
    and balance_range: "ok l \<Longrightarrow> 0 \<le> tk_balance T l t c \<and> tk_balance T l t c \<le> i128_max"
begin

lemma transfer_in_i128:
  "ok l \<Longrightarrow> tk_transfer T l t a b x = Some l' \<Longrightarrow> in_i128 x"
  using transfer_amount [of l t a b x l'] balance_range [of l t a]
  by (simp add: in_i128_def i128_min_def)

lemma deposit_balance:
  "ok l \<Longrightarrow> tk_transfer T l t a me x = Some l' \<Longrightarrow> a \<noteq> me \<Longrightarrow>
    tk_balance T l' t me = tk_balance T l t me + x"
  by (simp add: transfer_balance)

lemma payout_balance:
  "ok l \<Longrightarrow> tk_transfer T l t me b x = Some l' \<Longrightarrow> b \<noteq> me \<Longrightarrow>
    tk_balance T l' t me = tk_balance T l t me - x"
  by (simp add: transfer_balance)

text \<open>A transfer out of the contract lowers its balance by at most the amount, whoever receives it.\<close>

lemma payout_balance_ge:
  "ok l \<Longrightarrow> tk_transfer T l t me b x = Some l' \<Longrightarrow>
    tk_balance T l t me - x \<le> tk_balance T l' t me"
  using transfer_amount [of l t me b x l'] by (simp add: transfer_balance)

text \<open>A transfer by somebody else never lowers the contract's balance.\<close>

lemma foreign_transfer_balance_ge:
  "ok l \<Longrightarrow> tk_transfer T l t a b x = Some l' \<Longrightarrow> a \<noteq> me \<Longrightarrow>
    tk_balance T l u me \<le> tk_balance T l' u me"
  using transfer_amount [of l t a b x l']
  by (cases "u = t") (simp_all add: transfer_balance transfer_other_token)

end

end
