(* ===== verification/Common_Lib.thy ===== *)
theory Common_Lib
  imports Token_Interface
begin

text \<open>
  The crate \<open>common\<close>: checked and fixed-point arithmetic (\<open>math.rs\<close>), the pause flag
  (\<open>pause.rs\<close>), the reentrancy guard (\<open>reentrancy.rs\<close>), caller checks (\<open>access.rs\<close>), the token
  transfer helper (\<open>token_transfer.rs\<close>), the implementation pointer (\<open>upgrade.rs\<close>) and the explorer
  links (\<open>explorer.rs\<close>). The crate's VRF is the theory \<open>Vrf\<close>.
\<close>

section \<open>Checked arithmetic\<close>

datatype math_error = Overflow | Underflow | DivisionByZero

definition safe_add :: "int \<Rightarrow> int \<Rightarrow> (math_error, int) res" where
  "safe_add a b = ok_or (i128_checked_add a b) Overflow"

definition safe_sub :: "int \<Rightarrow> int \<Rightarrow> (math_error, int) res" where
  "safe_sub a b = ok_or (i128_checked_sub a b) Underflow"

definition safe_mul :: "int \<Rightarrow> int \<Rightarrow> (math_error, int) res" where
  "safe_mul a b = ok_or (i128_checked_mul a b) Overflow"

definition safe_div :: "int \<Rightarrow> int \<Rightarrow> (math_error, int) res" where
  "safe_div a b =
     (if b = 0 then Inl (Err DivisionByZero) else ok_or (i128_checked_div a b) Overflow)"

definition calculate_percentage :: "int \<Rightarrow> int \<Rightarrow> (math_error, int) res" where
  "calculate_percentage amount bps =
     (if bps < 0 \<or> bps > 10000 then Inl (Err Overflow)
      else bind_res (safe_mul amount bps) (\<lambda>p. safe_div p 10000))"

definition apply_fee :: "int \<Rightarrow> int \<Rightarrow> (math_error, int \<times> int) res" where
  "apply_fee amount fee_bps =
     bind_res (calculate_percentage amount fee_bps) (\<lambda>fee.
     bind_res (safe_sub amount fee) (\<lambda>net. Inr (net, fee)))"

definition calculate_penalty :: "int \<Rightarrow> int \<Rightarrow> (math_error, int) res" where
  "calculate_penalty amount penalty_bps = calculate_percentage amount penalty_bps"

subsection \<open>Fixed-point arithmetic\<close>

definition SCALAR :: int where "SCALAR = 10000000"

definition fp_add :: "int \<Rightarrow> int \<Rightarrow> (math_error, int) res" where
  "fp_add a b = ok_or (i128_checked_add a b) Overflow"

definition fp_sub :: "int \<Rightarrow> int \<Rightarrow> (math_error, int) res" where
  "fp_sub a b = ok_or (i128_checked_sub a b) Underflow"

definition fp_mul :: "int \<Rightarrow> int \<Rightarrow> (math_error, int) res" where
  "fp_mul a b =
     bind_res (ok_or (i128_checked_mul a b) Overflow) (\<lambda>product.
     ok_or (i128_checked_div product SCALAR) Overflow)"

definition fp_div :: "int \<Rightarrow> int \<Rightarrow> (math_error, int) res" where
  "fp_div a b =
     (if b = 0 then Inl (Err DivisionByZero)
      else bind_res (ok_or (i128_checked_mul a SCALAR) Overflow) (\<lambda>scaled.
           ok_or (i128_checked_div scaled b) Overflow))"

definition convert_shares :: "int \<Rightarrow> int \<Rightarrow> int \<Rightarrow> (math_error, int) res" where
  "convert_shares member_shares total_shares pool_amount =
     (if total_shares = 0 then Inl (Err DivisionByZero)
      else bind_res (safe_mul member_shares pool_amount) (\<lambda>numerator.
           safe_div numerator total_shares))"

section \<open>Pause flag\<close>

datatype pause_error = PausedError

definition is_paused :: "'a contract_base_scheme \<Rightarrow> bool" where
  "is_paused s = (case cb_paused s of None \<Rightarrow> False | Some b \<Rightarrow> b)"

definition common_pause ::
    "host \<Rightarrow> addr \<Rightarrow> 'a contract_base_scheme \<Rightarrow> (pause_error, 'a contract_base_scheme) res" where
  "common_pause h admin s =
     bind_res (require_auth h admin) (\<lambda>_.
     if is_paused s then Inr s
     else Inr (publish (Event ''paused'' [AddrV admin] []) (s\<lparr>cb_paused := Some True\<rparr>)))"

definition common_unpause ::
    "host \<Rightarrow> addr \<Rightarrow> 'a contract_base_scheme \<Rightarrow> (pause_error, 'a contract_base_scheme) res" where
  "common_unpause h admin s =
     bind_res (require_auth h admin) (\<lambda>_.
     if \<not> is_paused s then Inr s
     else Inr (publish (Event ''unpaused'' [AddrV admin] []) (s\<lparr>cb_paused := Some False\<rparr>)))"

definition when_not_paused :: "'a contract_base_scheme \<Rightarrow> (pause_error, unit) res" where
  "when_not_paused s = (if is_paused s then Inl (Err PausedError) else Inr ())"

text \<open>The call every mutating handler starts with, its error renamed to the contract's own.\<close>

abbreviation not_paused_or :: "'e \<Rightarrow> 'a contract_base_scheme \<Rightarrow> ('e, unit) res" where
  "not_paused_or e s \<equiv> map_err (\<lambda>_. e) (when_not_paused s)"

section \<open>Reentrancy guard\<close>

datatype reentrancy_error = ReentrantCall

definition guard_new ::
    "'a contract_base_scheme \<Rightarrow> (reentrancy_error, 'a contract_base_scheme) res" where
  "guard_new s =
     (if (case cb_reent s of None \<Rightarrow> False | Some b \<Rightarrow> b) then Inl (Err ReentrantCall)
      else Inr (s\<lparr>cb_reent := Some True\<rparr>))"

text \<open>\<open>leave\<close>, which \<open>drop\<close> runs when the guard goes out of scope.\<close>

definition guard_leave :: "'a contract_base_scheme \<Rightarrow> 'a contract_base_scheme" where
  "guard_leave s = s\<lparr>cb_reent := Some False\<rparr>"

definition with_reentrancy_guard ::
    "(reentrancy_error \<Rightarrow> 'e)
      \<Rightarrow> ('a contract_base_scheme \<Rightarrow> ('e, 'b \<times> 'a contract_base_scheme) res)
      \<Rightarrow> 'a contract_base_scheme \<Rightarrow> ('e, 'b \<times> 'a contract_base_scheme) res" where
  "with_reentrancy_guard conv f s =
     bind_res (map_err conv (guard_new s)) (\<lambda>s.
     bind_res (f s) (\<lambda>(r, s). Inr (r, guard_leave s)))"

abbreviation guard_or ::
    "'e \<Rightarrow> 'a contract_base_scheme \<Rightarrow> ('e, 'a contract_base_scheme) res" where
  "guard_or e s \<equiv> map_err (\<lambda>_. e) (guard_new s)"

section \<open>Caller checks\<close>

datatype access_error = AccessNotInitialized | AccessUnauthorized

definition require_self_or_admin :: "host \<Rightarrow> addr \<Rightarrow> addr \<Rightarrow> (access_error, unit) res" where
  "require_self_or_admin h a stored_admin =
     (if self h = a then Inr ()
      else if a = stored_admin then Inr ()
      else Inl (Err AccessUnauthorized))"

section \<open>Token transfer helper\<close>

datatype token_transfer_error = InsufficientBalance | Unauthorized | TransferFailed

definition safe_transfer ::
    "'l token_api \<Rightarrow> addr \<Rightarrow> addr \<Rightarrow> addr \<Rightarrow> int \<Rightarrow> 'l \<Rightarrow> (token_transfer_error, 'l) res" where
  "safe_transfer T token sender receiver amount l =
     (if amount \<le> 0 then Inl (Err TransferFailed)
      else if tk_balance T l token sender < amount then Inl (Err InsufficientBalance)
      else or_trap (tk_transfer T l token sender receiver amount))"

definition transfer_from_contract ::
    "'l token_api \<Rightarrow> host \<Rightarrow> addr \<Rightarrow> addr \<Rightarrow> int \<Rightarrow> 'l \<Rightarrow> (token_transfer_error, 'l) res" where
  "transfer_from_contract T h token receiver amount l =
     safe_transfer T token (self h) receiver amount l"

definition transfer_to_contract ::
    "'l token_api \<Rightarrow> host \<Rightarrow> addr \<Rightarrow> addr \<Rightarrow> int \<Rightarrow> 'l \<Rightarrow> (token_transfer_error, 'l) res" where
  "transfer_to_contract T h token sender amount l =
     safe_transfer T token sender (self h) amount l"

text \<open>The helper as a contract calls it, its error renamed to the contract's own.\<close>

definition safe_transfer_or ::
    "(token_transfer_error \<Rightarrow> 'e) \<Rightarrow> 'l token_api \<Rightarrow> addr \<Rightarrow> addr \<Rightarrow> addr \<Rightarrow> int
      \<Rightarrow> ('l, 'a) token_base_scheme \<Rightarrow> ('e, ('l, 'a) token_base_scheme) res" where
  "safe_transfer_or conv T token sender receiver amount s =
     bind_res (map_err conv (safe_transfer T token sender receiver amount (cb_ledger s))) (\<lambda>l.
     Inr (s\<lparr>cb_ledger := l\<rparr>))"

section \<open>Implementation pointer\<close>

record upgrade_state = contract_base +
  up_impl :: "addr option"
  up_wasm :: bytes

definition get_implementation :: "'a upgrade_state_scheme \<Rightarrow> addr option" where
  "get_implementation s = up_impl s"

definition set_implementation ::
    "host \<Rightarrow> addr \<Rightarrow> addr \<Rightarrow> 'a upgrade_state_scheme \<Rightarrow> ('e, 'a upgrade_state_scheme) res" where
  "set_implementation h admin new_impl s =
     bind_res (require_auth h admin) (\<lambda>_.
     Inr (publish (Event ''upgraded'' [AddrV admin] [AddrV new_impl])
       (s\<lparr>up_impl := Some new_impl\<rparr>)))"

definition upgrade_contract ::
    "host \<Rightarrow> addr \<Rightarrow> bytes \<Rightarrow> 'a upgrade_state_scheme \<Rightarrow> ('e, 'a upgrade_state_scheme) res" where
  "upgrade_contract h admin new_wasm_hash s =
     bind_res (require_auth h admin) (\<lambda>_.
     Inr (publish (Event ''contract_upgraded'' [] [AddrV admin, BytesV new_wasm_hash])
       (s\<lparr>up_wasm := new_wasm_hash\<rparr>)))"

section \<open>Explorer links\<close>

datatype network = Testnet | Public | Futurenet

fun get_explorer_base_url :: "network \<Rightarrow> string" where
  "get_explorer_base_url Testnet = ''https://stellar.expert/explorer/testnet/tx/''"
| "get_explorer_base_url Public = ''https://stellar.expert/explorer/public/tx/''"
| "get_explorer_base_url Futurenet = ''https://stellar.expert/explorer/futurenet/tx/''"

definition construct_tx_explorer_url :: "network \<Rightarrow> string \<Rightarrow> string" where
  "construct_tx_explorer_url n tx_hash = get_explorer_base_url n"

section \<open>Lemmas\<close>

lemma when_not_paused_Inr [res_simps]: "when_not_paused s = Inr u \<longleftrightarrow> \<not> is_paused s"
  by (auto simp: when_not_paused_def)

lemma is_paused_cong: "cb_paused s = cb_paused t \<Longrightarrow> is_paused s = is_paused t"
  by (simp add: is_paused_def)

lemma is_paused_publish [simp]: "is_paused (publish ev s) = is_paused s"
  by (simp add: is_paused_def)

lemma is_paused_reent [simp]: "is_paused (s\<lparr>cb_reent := x\<rparr>) = is_paused s"
  by (simp add: is_paused_def)

lemma guard_new_Inr [res_simps]:
  "guard_new s = Inr t \<longleftrightarrow> cb_reent s \<noteq> Some True \<and> t = s\<lparr>cb_reent := Some True\<rparr>"
  by (auto simp: guard_new_def split: option.splits)

lemma guard_new_reentrant: "cb_reent s = Some True \<Longrightarrow> guard_new s = Inl (Err ReentrantCall)"
  by (simp add: guard_new_def)

lemma safe_add_Inr [res_simps]: "safe_add a b = Inr c \<longleftrightarrow> c = a + b \<and> in_i128 (a + b)"
  by (simp add: safe_add_def res_simps int_simps)

lemma safe_sub_Inr [res_simps]: "safe_sub a b = Inr c \<longleftrightarrow> c = a - b \<and> in_i128 (a - b)"
  by (simp add: safe_sub_def res_simps int_simps)

lemma safe_mul_Inr [res_simps]: "safe_mul a b = Inr c \<longleftrightarrow> c = a * b \<and> in_i128 (a * b)"
  by (simp add: safe_mul_def res_simps int_simps)

lemma safe_div_Inr [res_simps]:
  "safe_div a b = Inr c \<longleftrightarrow> b \<noteq> 0 \<and> c = a sdiv b \<and> in_i128 (a sdiv b)"
  by (auto simp: safe_div_def res_simps int_simps)

lemma calculate_percentage_Inr [res_simps]:
  "calculate_percentage a bps = Inr p \<longleftrightarrow>
     0 \<le> bps \<and> bps \<le> 10000 \<and> in_i128 (a * bps) \<and> in_i128 ((a * bps) sdiv 10000)
     \<and> p = (a * bps) sdiv 10000"
  by (auto simp: calculate_percentage_def res_simps)

lemma calculate_percentage_nonneg:
  assumes "0 \<le> a" "calculate_percentage a bps = Inr p"
  shows "p = a * bps div 10000 \<and> 0 \<le> p \<and> p \<le> a"
proof -
  from assms have p: "p = a * bps div 10000" and b: "0 \<le> bps" "bps \<le> 10000"
    by (auto simp: res_simps sdiv_nonneg)
  have "a * bps div 10000 \<le> a * 10000 div 10000"
    by (rule zdiv_mono1) (use assms(1) b in \<open>auto intro: mult_left_mono\<close>)
  moreover have "0 \<le> a * bps div 10000"
    using assms(1) b by (simp add: pos_imp_zdiv_nonneg_iff)
  ultimately show ?thesis using p by simp
qed

text \<open>The fee split loses nothing: net and fee add up to the amount, both within it.\<close>

lemma apply_fee_split:
  assumes "0 \<le> a" "apply_fee a bps = Inr (net, fee)"
  shows "net + fee = a \<and> 0 \<le> fee \<and> 0 \<le> net \<and> fee = a * bps div 10000"
proof -
  from assms(2) have "calculate_percentage a bps = Inr fee" and "net = a - fee"
    by (auto simp: apply_fee_def bind_res_Inr safe_sub_Inr)
  with calculate_percentage_nonneg [OF assms(1)] show ?thesis by force
qed

lemma safe_transfer_Inr [res_simps]:
  "safe_transfer T t a b x l = Inr l' \<longleftrightarrow>
     0 < x \<and> x \<le> tk_balance T l t a \<and> tk_transfer T l t a b x = Some l'"
  by (auto simp: safe_transfer_def res_simps)

lemma safe_transfer_or_Inr [res_simps]:
  "safe_transfer_or c T t a b x s = Inr s' \<longleftrightarrow>
     0 < x \<and> x \<le> tk_balance T (cb_ledger s) t a
     \<and> (\<exists>l. tk_transfer T (cb_ledger s) t a b x = Some l \<and> s' = s\<lparr>cb_ledger := l\<rparr>)"
  by (auto simp: safe_transfer_or_def res_simps)

lemma convert_shares_Inr [res_simps]:
  "convert_shares k n p = Inr v \<longleftrightarrow>
     n \<noteq> 0 \<and> in_i128 (k * p) \<and> in_i128 ((k * p) sdiv n) \<and> v = (k * p) sdiv n"
  by (auto simp: convert_shares_def res_simps)

lemma fp_mul_Inr [res_simps]:
  "fp_mul a b = Inr v \<longleftrightarrow>
     in_i128 (a * b) \<and> in_i128 ((a * b) sdiv SCALAR) \<and> v = (a * b) sdiv SCALAR"
  by (auto simp: fp_mul_def res_simps int_simps SCALAR_def)

lemma fp_div_Inr [res_simps]:
  "fp_div a b = Inr v \<longleftrightarrow>
     b \<noteq> 0 \<and> in_i128 (a * SCALAR) \<and> in_i128 ((a * SCALAR) sdiv b) \<and> v = (a * SCALAR) sdiv b"
  by (auto simp: fp_div_def res_simps int_simps)

text \<open>Rounding down loses less than one unit of the divisor per entry of a list.\<close>

lemma sum_list_div_bounds:
  assumes "0 < (n::int)"
  shows "n * sum_list (map (\<lambda>k. k * p div n) ks) \<le> sum_list ks * p
    \<and> sum_list ks * p \<le> n * sum_list (map (\<lambda>k. k * p div n) ks) + int (length ks) * (n - 1)"
proof (induction ks)
  case Nil
  then show ?case by simp
next
  case (Cons k ks)
  let ?S = "sum_list (map (\<lambda>k. k * p div n) ks)"
  have "n * (k * p div n) + k * p mod n = k * p" by simp
  moreover have "0 \<le> k * p mod n" "k * p mod n < n" using assms by simp_all
  moreover have "n * sum_list (map (\<lambda>k. k * p div n) (k # ks)) = n * (k * p div n) + n * ?S"
    by (simp add: distrib_left)
  moreover have "sum_list (k # ks) * p = k * p + sum_list ks * p" by (simp add: distrib_right)
  moreover have "int (length (k # ks)) * (n - 1) = int (length ks) * (n - 1) + (n - 1)"
    by (simp add: algebra_simps)
  ultimately show ?case using Cons by linarith
qed

section \<open>Properties\<close>

text \<open>
  The fee split is exact and its range check is total. For a non-negative amount whose product
  with the rate fits an \<open>i128\<close>, \<open>apply_fee\<close> succeeds exactly for rates of 0 to 10000 basis points; net
  and fee then are non-negative, add up to the amount, and the fee is the rate's share rounded down;
  any other rate is refused.
\<close>

theorem apply_fee_exact:
  assumes "0 \<le> a" "in_i128 a" "0 \<le> bps \<Longrightarrow> bps \<le> 10000 \<Longrightarrow> in_i128 (a * bps)"
  shows "(if 0 \<le> bps \<and> bps \<le> 10000
     then \<exists>net fee. apply_fee a bps = Inr (net, fee) \<and> net + fee = a \<and> 0 \<le> net \<and> 0 \<le> fee
            \<and> fee = a * bps div 10000
     else apply_fee a bps = Inl (Err Overflow))"
proof (cases "0 \<le> bps \<and> bps \<le> 10000")
  case True
  have "a * bps div 10000 \<le> a * 10000 div 10000"
    by (rule zdiv_mono1) (use True assms(1) in \<open>auto intro: mult_left_mono\<close>)
  then have le: "a * bps div 10000 \<le> a" by simp
  have nn: "0 \<le> a * bps div 10000" using True assms(1) by (simp add: pos_imp_zdiv_nonneg_iff)
  have sd: "(a * bps) sdiv 10000 = a * bps div 10000" using True assms(1) by (simp add: sdiv_nonneg)
  have rng: "in_i128 (a * bps div 10000)" "in_i128 (a - a * bps div 10000)"
    using in_i128_mono [OF assms(2)] nn le by simp_all
  have "calculate_percentage a bps = Inr (a * bps div 10000)"
    using True assms(3) rng(1) by (simp add: calculate_percentage_Inr sd)
  then have "apply_fee a bps = Inr (a - a * bps div 10000, a * bps div 10000)"
    using rng(2) by (simp add: apply_fee_def safe_sub_Inr bind_res_Inr)
  with True nn le show ?thesis by simp
next
  case False
  then show ?thesis by (auto simp: apply_fee_def calculate_percentage_def)
qed

text \<open>
  Distributing a pool over shares never pays out more than the pool, and the rounding dust left is
  less than one unit per member: if every member's conversion of a share of the total succeeds, the
  payouts add up to at most the pool and to more than the pool less the number of members.
\<close>

theorem share_conversion_within_pool:
  assumes "0 \<le> pool" "\<forall>k\<in>set ks. 0 \<le> k" "0 < sum_list ks"
    and "list_all2 (\<lambda>k v. convert_shares k (sum_list ks) pool = Inr v) ks vs"
  shows "sum_list vs \<le> pool \<and> pool < sum_list vs + int (length ks) \<and> (\<forall>v\<in>set vs. 0 \<le> v)"
proof -
  let ?n = "sum_list ks"
  have "vs = map (\<lambda>k. k * pool div ?n) ks"
  proof (rule nth_equalityI)
    show "length vs = length (map (\<lambda>k. k * pool div ?n) ks)" using assms(4) list_all2_lengthD by fastforce
    fix i assume "i < length vs"
    with assms(4) have i: "convert_shares (ks ! i) ?n pool = Inr (vs ! i)" "i < length ks"
      by (auto simp: list_all2_conv_all_nth)
    with assms(1-3) show "vs ! i = map (\<lambda>k. k * pool div ?n) ks ! i"
      by (simp add: convert_shares_Inr sdiv_nonneg)
  qed
  moreover have "0 \<le> k * pool div ?n" if "k \<in> set ks" for k
    using that assms by (simp add: pos_imp_zdiv_nonneg_iff)
  moreover from sum_list_div_bounds [OF assms(3), of pool ks]
  have le: "?n * sum_list (map (\<lambda>k. k * pool div ?n) ks) \<le> ?n * pool"
    and ge: "?n * pool \<le> ?n * sum_list (map (\<lambda>k. k * pool div ?n) ks) + int (length ks) * (?n - 1)"
    by simp_all
  from le have "sum_list (map (\<lambda>k. k * pool div ?n) ks) \<le> pool" using assms(3) by simp
  moreover have "pool < sum_list (map (\<lambda>k. k * pool div ?n) ks) + int (length ks)"
  proof -
    have "ks \<noteq> []" using assms(3) by auto
    then have "int (length ks) * (?n - 1) < int (length ks) * ?n" by simp
    moreover have "?n * (sum_list (map (\<lambda>k. k * pool div ?n) ks) + int (length ks))
        = ?n * sum_list (map (\<lambda>k. k * pool div ?n) ks) + int (length ks) * ?n"
      by (simp add: distrib_left)
    ultimately have "?n * pool < ?n * (sum_list (map (\<lambda>k. k * pool div ?n) ks) + int (length ks))"
      using ge by linarith
    then show ?thesis using assms(3) by simp
  qed
  ultimately show ?thesis by auto
qed

text \<open>
  Fixed-point multiplication and division round-trip from below: dividing a product by its
  second factor gives back the first factor or less, and the error times the factor stays below one
  whole unit plus the factor.
\<close>

theorem fp_mul_div_round_trip:
  assumes "0 \<le> a" "0 < b" "fp_mul a b = Inr p" "fp_div p b = Inr q"
  shows "q \<le> a \<and> (a - q) * b < SCALAR + b"
proof -
  have S: "0 < SCALAR" by (simp add: SCALAR_def)
  from assms have p: "p = a * b div SCALAR" by (simp add: fp_mul_Inr sdiv_nonneg SCALAR_def)
  then have p0: "0 \<le> p" using assms(1,2) S by (simp add: pos_imp_zdiv_nonneg_iff)
  with assms(2,4) S have q: "q = p * SCALAR div b" by (simp add: fp_div_Inr sdiv_nonneg)
  have 1: "p * SCALAR + a * b mod SCALAR = a * b" using p by simp
  have 2: "q * b + p * SCALAR mod b = p * SCALAR" using q by simp
  have m: "0 \<le> a * b mod SCALAR" "a * b mod SCALAR < SCALAR" "0 \<le> p * SCALAR mod b" "p * SCALAR mod b < b"
    using S assms(2) by simp_all
  from 1 2 m have "q * b \<le> a * b" by linarith
  then have "q \<le> a" using assms(2) by simp
  moreover from 1 2 m have "a * b - q * b < SCALAR + b" by linarith
  ultimately show ?thesis by (simp add: algebra_simps)
qed

section \<open>The properties on concrete inputs\<close>

theorem apply_fee_exact_witness:
  "(\<exists>net fee. apply_fee 1001 250 = Inr (net, fee) \<and> net + fee = 1001 \<and> fee = 25)
    \<and> apply_fee 1001 10001 = Inl (Err Overflow)"
  using apply_fee_exact [of 1001 250] apply_fee_exact [of 1001 10001]
  by (simp add: in_i128_def i128_min_def i128_max_def)

theorem share_conversion_within_pool_witness:
  "list_all2 (\<lambda>k v. convert_shares k (sum_list [1, 1, 1]) 100 = Inr v) [1, 1, 1] [33, 33, 33]
    \<and> sum_list [33, 33, 33] \<le> (100::int)"
proof -
  have l: "list_all2 (\<lambda>k v. convert_shares k (sum_list [1, 1, 1]) 100 = Inr v) [1, 1, 1] [33, 33, 33]"
    by (simp add: convert_shares_Inr sdiv_nonneg in_i128_def i128_min_def i128_max_def)
  from share_conversion_within_pool [OF _ _ _ l] l show ?thesis by simp
qed

theorem fp_mul_div_round_trip_witness:
  "fp_mul 15 20000000 = Inr 30 \<and> fp_div 30 20000000 = Inr 15 \<and> (15::int) \<le> 15"
proof -
  have "fp_mul 15 20000000 = Inr 30" "fp_div 30 20000000 = Inr 15"
    by (simp_all add: fp_mul_Inr fp_div_Inr sdiv_nonneg in_i128_def i128_min_def i128_max_def SCALAR_def)
  with fp_mul_div_round_trip [OF _ _ this] show ?thesis by simp
qed

end
