(* ===== verification/Gov_Token.thy ===== *)
theory Gov_Token
  imports Common_Lib
begin

text \<open>
  The governance token (\<open>packages/governance-token\<close>): a SEP-41 token with an administrator, minting,
  burning and clawback, allowances with an expiration ledger, frozen accounts and a recipient
  allowlist. Every entry of its storage is a field, \<open>None\<close> while the key is absent; \<open>gt_op\<close> and
  \<open>gt_exec\<close> collect the contract's mutating entry points.
\<close>

section \<open>State\<close>

record allowance_data =
  al_amount :: int
  al_expiration_ledger :: nat

record token_metadata =
  md_decimal :: nat
  md_name :: string
  md_symbol :: string

datatype token_error =
    NotInitialized | Unauthorized | InsufficientBalance | InvalidAmount | Overflow
  | AllowanceExpired | AllowanceExceeded | NegativeAllowance | NotAdmin | ContractPaused
  | Underflow | Frozen | RecipientNotAllowlisted | InvalidExpirationLedger | CannotTransferToSelf

record gov_token = contract_base +
  gt_admin :: "addr option"
  gt_metadata :: "token_metadata option"
  gt_total :: "int option"
  gt_balances :: "(addr \<rightharpoonup> int) option"
  gt_allowances :: "(addr \<times> addr \<rightharpoonup> allowance_data) option"
  gt_frozen :: "(addr \<rightharpoonup> bool) option"
  gt_allowlist_mode :: "bool option"
  gt_allowlist :: "(addr \<rightharpoonup> bool) option"

definition gt_empty :: gov_token where
  "gt_empty = \<lparr>cb_paused = None, cb_reent = None, cb_events = [], gt_admin = None,
     gt_metadata = None, gt_total = None, gt_balances = None, gt_allowances = None,
     gt_frozen = None, gt_allowlist_mode = None, gt_allowlist = None\<rparr>"

text \<open>A muxed address is an account with an optional id.\<close>

type_synonym muxed_addr = "addr \<times> nat option"

section \<open>Queries and guards\<close>

definition is_initialized :: "gov_token \<Rightarrow> bool" where
  "is_initialized s \<longleftrightarrow> gt_admin s \<noteq> None"

definition is_frozen :: "gov_token \<Rightarrow> addr \<Rightarrow> bool" where
  "is_frozen s a = unwrap_or (unwrap_or (gt_frozen s) Map.empty a) False"

definition validate_non_frozen :: "gov_token \<Rightarrow> addr \<Rightarrow> (token_error, unit) res" where
  "validate_non_frozen s a = (if is_frozen s a then Inl (Err Frozen) else Inr ())"

definition require_admin :: "gov_token \<Rightarrow> addr \<Rightarrow> (token_error, unit) res" where
  "require_admin s caller =
     bind_res (ok_or (gt_admin s) NotInitialized) (\<lambda>stored.
     if caller \<noteq> stored then Inl (Err Unauthorized) else Inr ())"

definition is_allowlist_mode_enabled :: "gov_token \<Rightarrow> bool" where
  "is_allowlist_mode_enabled s = unwrap_or (gt_allowlist_mode s) False"

definition is_allowlisted :: "gov_token \<Rightarrow> addr \<Rightarrow> bool" where
  "is_allowlisted s a = unwrap_or (unwrap_or (gt_allowlist s) Map.empty a) False"

definition validate_allowlisted :: "gov_token \<Rightarrow> addr \<Rightarrow> (token_error, unit) res" where
  "validate_allowlisted s a =
     (if is_allowlist_mode_enabled s \<and> \<not> is_allowlisted s a
      then Inl (Err RecipientNotAllowlisted) else Inr ())"

definition is_expiration_valid :: "host \<Rightarrow> nat \<Rightarrow> bool" where
  "is_expiration_valid h expiration_ledger \<longleftrightarrow>
     expiration_ledger = 0 \<or> expiration_ledger \<ge> seq h"

definition is_expired :: "host \<Rightarrow> allowance_data \<Rightarrow> bool" where
  "is_expired h a \<longleftrightarrow> al_expiration_ledger a \<noteq> 0 \<and> seq h > al_expiration_ledger a"

definition balance :: "gov_token \<Rightarrow> addr \<Rightarrow> int" where
  "balance s a = unwrap_or (unwrap_or (gt_balances s) Map.empty a) 0"

definition total_supply :: "gov_token \<Rightarrow> int" where
  "total_supply s = unwrap_or (gt_total s) 0"

definition get_allowance_data :: "gov_token \<Rightarrow> addr \<Rightarrow> addr \<Rightarrow> allowance_data" where
  "get_allowance_data s owner spender =
     unwrap_or (unwrap_or (gt_allowances s) Map.empty (owner, spender))
       \<lparr>al_amount = 0, al_expiration_ledger = 0\<rparr>"

definition allowance :: "host \<Rightarrow> gov_token \<Rightarrow> addr \<Rightarrow> addr \<Rightarrow> int" where
  "allowance h s owner spender =
     (let data = get_allowance_data s owner spender
      in if is_expired h data then 0 else al_amount data)"

text \<open>The metadata accessor of the token SDK traps when the entry is absent.\<close>

definition token_name :: "gov_token \<Rightarrow> (token_error, string) res" where
  "token_name s =
     (if \<not> is_initialized s then Inr ''''
      else bind_res (or_trap (gt_metadata s)) (\<lambda>m. Inr (md_name m)))"

definition token_symbol :: "gov_token \<Rightarrow> (token_error, string) res" where
  "token_symbol s =
     (if \<not> is_initialized s then Inr ''''
      else bind_res (or_trap (gt_metadata s)) (\<lambda>m. Inr (md_symbol m)))"

definition token_decimals :: "gov_token \<Rightarrow> (token_error, nat) res" where
  "token_decimals s =
     (if \<not> is_initialized s then Inr 0
      else bind_res (or_trap (gt_metadata s)) (\<lambda>m. Inr (md_decimal m)))"

definition get_admin :: "gov_token \<Rightarrow> (token_error, addr) res" where
  "get_admin s = ok_or (gt_admin s) NotInitialized"

section \<open>Operations\<close>

definition initialize ::
    "host \<Rightarrow> addr \<Rightarrow> string \<Rightarrow> string \<Rightarrow> nat \<Rightarrow> gov_token \<Rightarrow> (token_error, gov_token) res" where
  "initialize h admin name symbol decimals s =
     (if gt_admin s \<noteq> None then Inl (Err NotInitialized)
      else Inr (s\<lparr>gt_admin := Some admin,
                  gt_metadata := Some \<lparr>md_decimal = decimals, md_name = name, md_symbol = symbol\<rparr>,
                  gt_total := Some 0,
                  gt_balances := Some Map.empty,
                  gt_allowances := Some Map.empty,
                  gt_frozen := Some Map.empty\<rparr>))"

text \<open>The balance update shared by \<open>transfer\<close> and \<open>transfer_from\<close>.\<close>

definition move_balance ::
    "addr \<Rightarrow> addr \<Rightarrow> int \<Rightarrow> gov_token \<Rightarrow> (token_error, gov_token) res" where
  "move_balance sender recipient amount s =
     bind_res (ok_or (gt_balances s) NotInitialized) (\<lambda>balances.
     let from_balance = unwrap_or (balances sender) 0 in
     if from_balance < amount then Inl (Err InsufficientBalance) else
     bind_res (ok_or (i128_checked_sub from_balance amount) Underflow) (\<lambda>nf.
     let balances = balances(sender \<mapsto> nf);
         to_balance = unwrap_or (balances recipient) 0 in
     bind_res (ok_or (i128_checked_add to_balance amount) Overflow) (\<lambda>nt.
     Inr (s\<lparr>gt_balances := Some (balances(recipient \<mapsto> nt))\<rparr>))))"

definition publish_transfer :: "addr \<Rightarrow> muxed_addr \<Rightarrow> int \<Rightarrow> gov_token \<Rightarrow> gov_token" where
  "publish_transfer sender dest amount s =
     (case snd dest of
        Some to_muxed_id \<Rightarrow>
          publish (Event ''transfer'' [AddrV sender, AddrV (fst dest)]
            [IntV amount, OptV (Some (NatV to_muxed_id))]) s
      | None \<Rightarrow>
          publish (Event ''transfer'' [AddrV sender, AddrV (fst dest)] [IntV amount]) s)"

definition transfer ::
    "host \<Rightarrow> addr \<Rightarrow> muxed_addr \<Rightarrow> int \<Rightarrow> gov_token \<Rightarrow> (token_error, gov_token) res" where
  "transfer h sender dest amount s =
     bind_res (not_paused_or ContractPaused s) (\<lambda>_.
     bind_res (require_auth h sender) (\<lambda>_.
     let recipient = fst dest in
     if recipient = self h then Inl (Err CannotTransferToSelf) else
     bind_res (validate_non_frozen s sender) (\<lambda>_.
     bind_res (validate_non_frozen s recipient) (\<lambda>_.
     bind_res (validate_allowlisted s recipient) (\<lambda>_.
     if amount \<le> 0 then Inl (Err InvalidAmount) else
     bind_res (move_balance sender recipient amount s) (\<lambda>s.
     Inr (publish_transfer sender dest amount s)))))))"

definition consume_allowance ::
    "host \<Rightarrow> addr \<Rightarrow> addr \<Rightarrow> int \<Rightarrow> gov_token \<Rightarrow> (token_error, gov_token) res" where
  "consume_allowance h owner spender amount s =
     bind_res (ok_or (gt_allowances s) NotInitialized) (\<lambda>allowances.
     bind_res (ok_or (allowances (owner, spender)) Unauthorized) (\<lambda>a.
     if is_expired h a then Inl (Err AllowanceExpired) else
     if al_amount a < amount then Inl (Err AllowanceExceeded) else
     bind_res (ok_or (i128_checked_sub (al_amount a) amount) Underflow) (\<lambda>new_allowance.
     Inr (s\<lparr>gt_allowances := Some (allowances((owner, spender) \<mapsto>
            \<lparr>al_amount = new_allowance,
             al_expiration_ledger = al_expiration_ledger a\<rparr>))\<rparr>))))"

definition transfer_from ::
    "host \<Rightarrow> addr \<Rightarrow> addr \<Rightarrow> addr \<Rightarrow> int \<Rightarrow> gov_token \<Rightarrow> (token_error, gov_token) res" where
  "transfer_from h spender owner dest amount s =
     bind_res (not_paused_or ContractPaused s) (\<lambda>_.
     bind_res (require_auth h spender) (\<lambda>_.
     if dest = self h then Inl (Err CannotTransferToSelf) else
     bind_res (validate_non_frozen s owner) (\<lambda>_.
     bind_res (validate_non_frozen s dest) (\<lambda>_.
     bind_res (validate_allowlisted s dest) (\<lambda>_.
     if amount \<le> 0 then Inl (Err InvalidAmount) else
     bind_res (consume_allowance h owner spender amount s) (\<lambda>s.
     bind_res (move_balance owner dest amount s) (\<lambda>s.
     Inr (publish (Event ''transfer'' [AddrV owner, AddrV dest] [IntV amount]) s))))))))"

definition approve ::
    "host \<Rightarrow> addr \<Rightarrow> addr \<Rightarrow> int \<Rightarrow> nat \<Rightarrow> gov_token \<Rightarrow> (token_error, gov_token) res" where
  "approve h owner spender amount expiration_ledger s =
     bind_res (not_paused_or ContractPaused s) (\<lambda>_.
     bind_res (require_auth h owner) (\<lambda>_.
     if amount < 0 then Inl (Err InvalidAmount) else
     if amount > 0 \<and> \<not> is_expiration_valid h expiration_ledger
     then Inl (Err InvalidExpirationLedger) else
     bind_res (ok_or (gt_allowances s) NotInitialized) (\<lambda>allowances.
     Inr (publish (Event ''approve'' [AddrV owner, AddrV spender]
            [IntV amount, NatV expiration_ledger])
          (s\<lparr>gt_allowances := Some (allowances((owner, spender) \<mapsto>
               \<lparr>al_amount = amount, al_expiration_ledger = expiration_ledger\<rparr>))\<rparr>)))))"

definition mint ::
    "host \<Rightarrow> addr \<Rightarrow> addr \<Rightarrow> int \<Rightarrow> gov_token \<Rightarrow> (token_error, gov_token) res" where
  "mint h admin dest amount s =
     bind_res (not_paused_or ContractPaused s) (\<lambda>_.
     bind_res (require_auth h admin) (\<lambda>_.
     bind_res (require_admin s admin) (\<lambda>_.
     if dest = self h then Inl (Err CannotTransferToSelf) else
     bind_res (validate_non_frozen s dest) (\<lambda>_.
     if amount \<le> 0 then Inl (Err InvalidAmount) else
     bind_res (ok_or (gt_balances s) NotInitialized) (\<lambda>balances.
     let current = unwrap_or (balances dest) 0 in
     bind_res (ok_or (i128_checked_add current amount) Overflow) (\<lambda>nb.
     let s = s\<lparr>gt_balances := Some (balances(dest \<mapsto> nb))\<rparr>;
         total = unwrap_or (gt_total s) 0 in
     bind_res (ok_or (i128_checked_add total amount) Overflow) (\<lambda>nt.
     Inr (publish (Event ''mint'' [AddrV dest] [IntV amount])
            (s\<lparr>gt_total := Some nt\<rparr>)))))))))"

text \<open>Removes an amount from a balance and from the supply; \<open>burn\<close> has the same lines inline.\<close>

definition burn_balance :: "addr \<Rightarrow> int \<Rightarrow> gov_token \<Rightarrow> (token_error, gov_token) res" where
  "burn_balance owner amount s =
     bind_res (ok_or (gt_balances s) NotInitialized) (\<lambda>balances.
     let current = unwrap_or (balances owner) 0 in
     if current < amount then Inl (Err InsufficientBalance) else
     bind_res (ok_or (i128_checked_sub current amount) Underflow) (\<lambda>nb.
     let s = s\<lparr>gt_balances := Some (balances(owner \<mapsto> nb))\<rparr>;
         total = unwrap_or (gt_total s) 0 in
     bind_res (ok_or (i128_checked_sub total amount) Underflow) (\<lambda>new_total.
     Inr (s\<lparr>gt_total := Some new_total\<rparr>))))"

definition burn :: "host \<Rightarrow> addr \<Rightarrow> int \<Rightarrow> gov_token \<Rightarrow> (token_error, gov_token) res" where
  "burn h owner amount s =
     bind_res (not_paused_or ContractPaused s) (\<lambda>_.
     bind_res (require_auth h owner) (\<lambda>_.
     bind_res (validate_non_frozen s owner) (\<lambda>_.
     if amount \<le> 0 then Inl (Err InvalidAmount) else
     bind_res (burn_balance owner amount s) (\<lambda>s.
     Inr (publish (Event ''burn'' [AddrV owner] [IntV amount]) s)))))"

definition burn_from ::
    "host \<Rightarrow> addr \<Rightarrow> addr \<Rightarrow> int \<Rightarrow> gov_token \<Rightarrow> (token_error, gov_token) res" where
  "burn_from h spender owner amount s =
     bind_res (not_paused_or ContractPaused s) (\<lambda>_.
     bind_res (require_auth h spender) (\<lambda>_.
     if amount \<le> 0 then Inl (Err InvalidAmount) else
     bind_res (validate_non_frozen s owner) (\<lambda>_.
     bind_res (consume_allowance h owner spender amount s) (\<lambda>s.
     bind_res (burn_balance owner amount s) (\<lambda>s.
     Inr (publish (Event ''burn'' [AddrV owner] [IntV amount]) s))))))"

definition admin_burn_from ::
    "host \<Rightarrow> addr \<Rightarrow> addr \<Rightarrow> int \<Rightarrow> gov_token \<Rightarrow> (token_error, gov_token) res" where
  "admin_burn_from h admin owner amount s =
     bind_res (not_paused_or ContractPaused s) (\<lambda>_.
     bind_res (require_auth h admin) (\<lambda>_.
     bind_res (require_admin s admin) (\<lambda>_.
     bind_res (validate_non_frozen s owner) (\<lambda>_.
     if amount \<le> 0 then Inl (Err InvalidAmount) else
     bind_res (burn_balance owner amount s) (\<lambda>s.
     Inr (publish (Event ''burn'' [AddrV owner] [IntV amount]) s))))))"

definition clawback ::
    "host \<Rightarrow> addr \<Rightarrow> addr \<Rightarrow> int \<Rightarrow> gov_token \<Rightarrow> (token_error, gov_token) res" where
  "clawback h admin owner amount s =
     bind_res (not_paused_or ContractPaused s) (\<lambda>_.
     bind_res (require_auth h admin) (\<lambda>_.
     bind_res (require_admin s admin) (\<lambda>_.
     if amount \<le> 0 then Inl (Err InvalidAmount) else
     bind_res (burn_balance owner amount s) (\<lambda>s.
     Inr (publish (Event ''clawback'' [AddrV owner] [IntV amount]) s)))))"

definition freeze :: "host \<Rightarrow> addr \<Rightarrow> addr \<Rightarrow> gov_token \<Rightarrow> (token_error, gov_token) res" where
  "freeze h admin account s =
     bind_res (not_paused_or ContractPaused s) (\<lambda>_.
     bind_res (require_auth h admin) (\<lambda>_.
     bind_res (require_admin s admin) (\<lambda>_.
     bind_res (ok_or (gt_frozen s) NotInitialized) (\<lambda>frozen.
     Inr (publish (Event ''account_frozen'' [] [AddrV account])
       (s\<lparr>gt_frozen := Some (frozen(account \<mapsto> True))\<rparr>))))))"

definition unfreeze :: "host \<Rightarrow> addr \<Rightarrow> addr \<Rightarrow> gov_token \<Rightarrow> (token_error, gov_token) res" where
  "unfreeze h admin account s =
     bind_res (not_paused_or ContractPaused s) (\<lambda>_.
     bind_res (require_auth h admin) (\<lambda>_.
     bind_res (require_admin s admin) (\<lambda>_.
     bind_res (ok_or (gt_frozen s) NotInitialized) (\<lambda>frozen.
     Inr (publish (Event ''account_unfrozen'' [] [AddrV account])
       (s\<lparr>gt_frozen := Some (frozen(account \<mapsto> False))\<rparr>))))))"

definition set_admin :: "host \<Rightarrow> addr \<Rightarrow> addr \<Rightarrow> gov_token \<Rightarrow> (token_error, gov_token) res" where
  "set_admin h admin new_admin s =
     bind_res (not_paused_or ContractPaused s) (\<lambda>_.
     bind_res (require_auth h admin) (\<lambda>_.
     bind_res (require_admin s admin) (\<lambda>_.
     Inr (publish (Event ''admin_changed'' [AddrV admin] [AddrV new_admin])
       (s\<lparr>gt_admin := Some new_admin\<rparr>)))))"

definition token_pause :: "host \<Rightarrow> addr \<Rightarrow> gov_token \<Rightarrow> (token_error, gov_token) res" where
  "token_pause h admin s =
     bind_res (require_admin s admin) (\<lambda>_.
     map_err (\<lambda>_. ContractPaused) (common_pause h admin s))"

definition token_unpause :: "host \<Rightarrow> addr \<Rightarrow> gov_token \<Rightarrow> (token_error, gov_token) res" where
  "token_unpause h admin s =
     bind_res (require_admin s admin) (\<lambda>_.
     map_err (\<lambda>_. ContractPaused) (common_unpause h admin s))"

definition set_allowlist_mode ::
    "host \<Rightarrow> addr \<Rightarrow> bool \<Rightarrow> gov_token \<Rightarrow> (token_error, gov_token) res" where
  "set_allowlist_mode h admin enabled s =
     bind_res (not_paused_or ContractPaused s) (\<lambda>_.
     bind_res (require_auth h admin) (\<lambda>_.
     bind_res (require_admin s admin) (\<lambda>_.
     Inr (publish (Event ''allowlist_mode_changed'' [] [BoolV enabled])
       (s\<lparr>gt_allowlist_mode := Some enabled\<rparr>)))))"

definition add_to_allowlist ::
    "host \<Rightarrow> addr \<Rightarrow> addr \<Rightarrow> gov_token \<Rightarrow> (token_error, gov_token) res" where
  "add_to_allowlist h admin account s =
     bind_res (not_paused_or ContractPaused s) (\<lambda>_.
     bind_res (require_auth h admin) (\<lambda>_.
     bind_res (require_admin s admin) (\<lambda>_.
     let list = unwrap_or (gt_allowlist s) Map.empty in
     Inr (publish (Event ''allowlist_added'' [] [AddrV account])
       (s\<lparr>gt_allowlist := Some (list(account \<mapsto> True))\<rparr>)))))"

definition remove_from_allowlist ::
    "host \<Rightarrow> addr \<Rightarrow> addr \<Rightarrow> gov_token \<Rightarrow> (token_error, gov_token) res" where
  "remove_from_allowlist h admin account s =
     bind_res (not_paused_or ContractPaused s) (\<lambda>_.
     bind_res (require_auth h admin) (\<lambda>_.
     bind_res (require_admin s admin) (\<lambda>_.
     let list = unwrap_or (gt_allowlist s) Map.empty in
     Inr (publish (Event ''allowlist_removed'' [] [AddrV account])
       (s\<lparr>gt_allowlist := Some (list(account \<mapsto> False))\<rparr>)))))"

section \<open>The contract as a state machine\<close>

datatype gt_op =
    Initialize addr string string nat
  | Transfer addr muxed_addr int
  | TransferFrom addr addr addr int
  | Approve addr addr int nat
  | Mint addr addr int
  | Burn addr int
  | BurnFrom addr addr int
  | AdminBurnFrom addr addr int
  | Clawback addr addr int
  | Freeze addr addr
  | Unfreeze addr addr
  | SetAdmin addr addr
  | TokenPause addr
  | TokenUnpause addr
  | SetAllowlistMode addr bool
  | AddToAllowlist addr addr
  | RemoveFromAllowlist addr addr

fun gt_exec :: "host \<Rightarrow> gt_op \<Rightarrow> gov_token \<Rightarrow> (token_error, gov_token) res" where
  "gt_exec h (Initialize a n y d) s = initialize h a n y d s"
| "gt_exec h (Transfer a b x) s = transfer h a b x s"
| "gt_exec h (TransferFrom p a b x) s = transfer_from h p a b x s"
| "gt_exec h (Approve a p x e) s = approve h a p x e s"
| "gt_exec h (Mint a b x) s = mint h a b x s"
| "gt_exec h (Burn a x) s = burn h a x s"
| "gt_exec h (BurnFrom p a x) s = burn_from h p a x s"
| "gt_exec h (AdminBurnFrom d a x) s = admin_burn_from h d a x s"
| "gt_exec h (Clawback d a x) s = clawback h d a x s"
| "gt_exec h (Freeze d a) s = freeze h d a s"
| "gt_exec h (Unfreeze d a) s = unfreeze h d a s"
| "gt_exec h (SetAdmin d a) s = set_admin h d a s"
| "gt_exec h (TokenPause d) s = token_pause h d s"
| "gt_exec h (TokenUnpause d) s = token_unpause h d s"
| "gt_exec h (SetAllowlistMode d b) s = set_allowlist_mode h d b s"
| "gt_exec h (AddToAllowlist d a) s = add_to_allowlist h d a s"
| "gt_exec h (RemoveFromAllowlist d a) s = remove_from_allowlist h d a s"

inductive gt_reachable :: "gov_token \<Rightarrow> bool" where
  gt_start: "gt_reachable gt_empty"
| gt_call: "gt_reachable s \<Longrightarrow> gt_exec h op s = Inr s' \<Longrightarrow> gt_reachable s'"

section \<open>Balances and supply\<close>

text \<open>
  The invariant of the token: no balance is negative, and the stored supply is the sum of all
  balances and fits an \<open>i128\<close> (so every single balance does).
\<close>

definition gt_inv :: "gov_token \<Rightarrow> bool" where
  "gt_inv s \<longleftrightarrow> (\<forall>m. gt_balances s = Some m \<longrightarrow>
     finite (dom m) \<and> (\<forall>a v. m a = Some v \<longrightarrow> 0 \<le> v)
     \<and> gt_total s = Some (msum id m) \<and> msum id m \<le> i128_max)"

lemmas gt_guards = when_not_paused_Inr validate_non_frozen_def validate_allowlisted_def
  require_admin_def

lemma unwrap_or_opt_val: "unwrap_or x 0 = opt_val id x"
  by (cases x) simp_all

lemma move_balance_Inr:
  "move_balance a b x s = Inr s' \<longleftrightarrow>
     (\<exists>m nf nt. gt_balances s = Some m \<and> x \<le> opt_val id (m a)
        \<and> nf = opt_val id (m a) - x \<and> in_i128 nf
        \<and> nt = opt_val id ((m(a \<mapsto> nf)) b) + x \<and> in_i128 nt
        \<and> s' = s\<lparr>gt_balances := Some (m(a \<mapsto> nf, b \<mapsto> nt))\<rparr>)"
  by (auto simp: move_balance_def res_simps int_simps Let_def unwrap_or_opt_val not_less
      simp del: fun_upd_apply)

lemma move_balance_balance:
  assumes "move_balance a b x s = Inr s'"
  shows "balance s' c = balance s c - (if c = a then x else 0) + (if c = b then x else 0)"
    and "x \<le> balance s a"
  using assms by (auto simp: move_balance_Inr balance_def unwrap_or_opt_val)

lemma move_balance_inv:
  assumes mv: "move_balance a b x s = Inr s'" and inv: "gt_inv s" and x: "0 \<le> x"
  shows "gt_inv s'"
proof -
  from mv obtain m nf nt where m: "gt_balances s = Some m" and nf: "nf = opt_val id (m a) - x"
    and nn: "x \<le> opt_val id (m a)" and nt: "nt = opt_val id ((m(a \<mapsto> nf)) b) + x"
    and s': "s' = s\<lparr>gt_balances := Some (m(a \<mapsto> nf, b \<mapsto> nt))\<rparr>"
    unfolding move_balance_Inr by blast
  from inv m have fin: "finite (dom m)" and pos: "\<And>c v. m c = Some v \<Longrightarrow> 0 \<le> v"
    and tot: "gt_total s = Some (msum id m)" and le: "msum id m \<le> i128_max"
    by (auto simp: gt_inv_def)
  let ?m = "m(a \<mapsto> nf)"
  have "msum id ?m = msum id m - x" using msum_upd [OF fin, of id a nf] nf by simp
  moreover have "msum id (?m(b \<mapsto> nt)) = msum id ?m + x"
    using msum_upd [of ?m id b nt] fin nt by simp
  ultimately have sum: "msum id (?m(b \<mapsto> nt)) = msum id m" by simp
  have pos': "0 \<le> v" if "?m c = Some v" for c v
    using that pos nf nn by (auto split: if_splits)
  then have "0 \<le> opt_val id (?m b)" by (cases "?m b") simp_all
  then have "0 \<le> nt" using nt x by simp
  then have "0 \<le> v" if "(?m(b \<mapsto> nt)) c = Some v" for c v
    using that pos' by (cases "c = b") auto
  then show ?thesis using s' fin tot le sum by (simp add: gt_inv_def)
qed

lemma burn_balance_Inr:
  "burn_balance a x s = Inr s' \<longleftrightarrow>
     (\<exists>m nb t. gt_balances s = Some m \<and> x \<le> opt_val id (m a)
        \<and> nb = opt_val id (m a) - x \<and> in_i128 nb
        \<and> t = unwrap_or (gt_total s) 0 - x \<and> in_i128 t
        \<and> s' = s\<lparr>gt_balances := Some (m(a \<mapsto> nb)), gt_total := Some t\<rparr>)"
  by (auto simp: burn_balance_def res_simps int_simps Let_def unwrap_or_opt_val not_less)

lemma burn_balance_inv:
  assumes bb: "burn_balance a x s = Inr s'" and inv: "gt_inv s" and x: "\<not> x \<le> 0"
  shows "gt_inv s'"
proof -
  from bb obtain m nb t where m: "gt_balances s = Some m" and nb: "nb = opt_val id (m a) - x"
    and nn: "x \<le> opt_val id (m a)" and t: "t = unwrap_or (gt_total s) 0 - x"
    and s': "s' = s\<lparr>gt_balances := Some (m(a \<mapsto> nb)), gt_total := Some t\<rparr>"
    unfolding burn_balance_Inr by blast
  from inv m have fin: "finite (dom m)" and pos: "\<And>c v. m c = Some v \<Longrightarrow> 0 \<le> v"
    and tot: "gt_total s = Some (msum id m)" and le: "msum id m \<le> i128_max"
    by (auto simp: gt_inv_def)
  have "msum id (m(a \<mapsto> nb)) = msum id m - x" using msum_upd [OF fin, of id a nb] nb by simp
  then show ?thesis using s' fin tot le t x nb nn pos
    by (auto simp: gt_inv_def split: if_splits)
qed

lemma burn_balance_balance:
  assumes "burn_balance a x s = Inr s'"
  shows "balance s' c = balance s c - (if c = a then x else 0)"
    and "total_supply s' = total_supply s - x" and "x \<le> balance s a"
  using assms by (auto simp: burn_balance_Inr balance_def unwrap_or_opt_val total_supply_def)

lemma consume_allowance_frame:
  assumes "consume_allowance h a p x s = Inr s'"
  shows "gt_balances s' = gt_balances s" "gt_total s' = gt_total s"
  using assms by (auto simp: consume_allowance_def res_simps)

lemma gt_inv_cong:
  "gt_balances s' = gt_balances s \<Longrightarrow> gt_total s' = gt_total s \<Longrightarrow> gt_inv s' = gt_inv s"
  by (simp add: gt_inv_def)

lemma publish_gov_token [simp]:
  "gt_balances (publish ev s) = gt_balances s" "gt_total (publish ev s) = gt_total s"
  "gt_allowances (publish ev s) = gt_allowances s" "gt_admin (publish ev s) = gt_admin s"
  "gt_frozen (publish ev s) = gt_frozen s"
  by (simp_all add: publish_def)

lemma gt_inv_publish [simp]: "gt_inv (publish ev s) = gt_inv s"
  by (rule gt_inv_cong) simp_all

lemma balance_publish [simp]: "balance (publish ev s) a = balance s a"
  by (simp add: balance_def)

lemma publish_transfer_frame [simp]:
  "gt_inv (publish_transfer a b x s) = gt_inv s"
  "balance (publish_transfer a b x s) c = balance s c"
  "gt_total (publish_transfer a b x s) = gt_total s"
  by (simp_all add: publish_transfer_def split: option.splits)

text \<open>Each operation keeps the invariant.\<close>

lemma initialize_inv: "initialize h a n y d s = Inr s' \<Longrightarrow> gt_inv s'"
  by (auto simp: initialize_def res_simps gt_inv_def i128_max_def)

lemma transfer_Inr:
  "transfer h a b x s = Inr s' \<longleftrightarrow>
     \<not> is_paused s \<and> authorized h a \<and> fst b \<noteq> self h \<and> \<not> is_frozen s a \<and> \<not> is_frozen s (fst b)
     \<and> (is_allowlist_mode_enabled s \<longrightarrow> is_allowlisted s (fst b)) \<and> 0 < x
     \<and> (\<exists>t. move_balance a (fst b) x s = Inr t \<and> s' = publish_transfer a b x t)"
  by (auto simp: transfer_def res_simps Let_def gt_guards)

lemma transfer_from_Inr:
  "transfer_from h p a b x s = Inr s' \<longleftrightarrow>
     \<not> is_paused s \<and> authorized h p \<and> b \<noteq> self h \<and> \<not> is_frozen s a \<and> \<not> is_frozen s b
     \<and> (is_allowlist_mode_enabled s \<longrightarrow> is_allowlisted s b) \<and> 0 < x
     \<and> (\<exists>t u. consume_allowance h a p x s = Inr t \<and> move_balance a b x t = Inr u
           \<and> s' = publish (Event ''transfer'' [AddrV a, AddrV b] [IntV x]) u)"
  by (auto simp: transfer_from_def res_simps gt_guards)

lemma mint_Inr:
  "mint h d a x s = Inr s' \<longleftrightarrow>
     \<not> is_paused s \<and> authorized h d \<and> gt_admin s = Some d \<and> a \<noteq> self h \<and> \<not> is_frozen s a \<and> 0 < x
     \<and> (\<exists>m. gt_balances s = Some m \<and> in_i128 (opt_val id (m a) + x)
           \<and> in_i128 (unwrap_or (gt_total s) 0 + x)
           \<and> s' = publish (Event ''mint'' [AddrV a] [IntV x])
                (s\<lparr>gt_balances := Some (m(a \<mapsto> opt_val id (m a) + x)),
                   gt_total := Some (unwrap_or (gt_total s) 0 + x)\<rparr>))"
  by (auto simp: mint_def res_simps int_simps Let_def gt_guards unwrap_or_opt_val)

lemma mint_inv:
  assumes "gt_inv s" "mint h d a x s = Inr s'"
  shows "gt_inv s'"
proof -
  from assms obtain m where x: "0 < x" and m: "gt_balances s = Some m"
    and fin: "finite (dom m)" and pos: "\<And>c v. m c = Some v \<Longrightarrow> 0 \<le> v"
    and tot: "gt_total s = Some (msum id m)" and rng: "in_i128 (msum id m + x)"
    and s': "s' = publish (Event ''mint'' [AddrV a] [IntV x])
      (s\<lparr>gt_balances := Some (m(a \<mapsto> opt_val id (m a) + x)), gt_total := Some (msum id m + x)\<rparr>)"
    by (auto simp: mint_Inr gt_inv_def)
  have "0 \<le> opt_val id (m a)" using pos by (cases "m a") simp_all
  moreover have "msum id (m(a \<mapsto> opt_val id (m a) + x)) = msum id m + x"
    using msum_upd [OF fin, of id a "opt_val id (m a) + x"] by simp
  ultimately show ?thesis using s' fin x pos rng
    by (auto simp: gt_inv_def in_i128_def split: if_splits)
qed

lemma gt_admin_op_frame:
  "approve h a p x e s = Inr s' \<Longrightarrow> gt_inv s' = gt_inv s"
  "freeze h d a s = Inr s' \<Longrightarrow> gt_inv s' = gt_inv s"
  "unfreeze h d a s = Inr s' \<Longrightarrow> gt_inv s' = gt_inv s"
  "set_admin h d a s = Inr s' \<Longrightarrow> gt_inv s' = gt_inv s"
  "token_pause h d s = Inr s' \<Longrightarrow> gt_inv s' = gt_inv s"
  "token_unpause h d s = Inr s' \<Longrightarrow> gt_inv s' = gt_inv s"
  "set_allowlist_mode h d b s = Inr s' \<Longrightarrow> gt_inv s' = gt_inv s"
  "add_to_allowlist h d a s = Inr s' \<Longrightarrow> gt_inv s' = gt_inv s"
  "remove_from_allowlist h d a s = Inr s' \<Longrightarrow> gt_inv s' = gt_inv s"
  by (auto simp: approve_def freeze_def unfreeze_def set_admin_def token_pause_def
      token_unpause_def set_allowlist_mode_def add_to_allowlist_def remove_from_allowlist_def
      common_pause_def common_unpause_def res_simps gt_guards Let_def gt_inv_def
      split: if_splits)

lemma consume_allowance_inv: "consume_allowance h a p x s = Inr s' \<Longrightarrow> gt_inv s \<Longrightarrow> gt_inv s'"
  using gt_inv_cong [of s' s] by (auto dest: consume_allowance_frame)

lemma gt_exec_inv:
  assumes inv: "gt_inv s" and ex: "gt_exec h op s = Inr s'"
  shows "gt_inv s'"
proof (cases op)
  case (Initialize a n y d)
  with ex show ?thesis by (auto intro: initialize_inv)
next
  case (Transfer a b x)
  with ex obtain t where "0 < x" "move_balance a (fst b) x s = Inr t"
    "s' = publish_transfer a b x t" by (auto simp: transfer_Inr)
  with inv show ?thesis by (simp add: move_balance_inv)
next
  case (TransferFrom p a b x)
  with ex obtain t u where c: "0 < x" "consume_allowance h a p x s = Inr t"
    "move_balance a b x t = Inr u" "s' = publish (Event ''transfer'' [AddrV a, AddrV b] [IntV x]) u"
    by (auto simp: transfer_from_Inr)
  from move_balance_inv [OF c(3) consume_allowance_inv [OF c(2) inv]] c show ?thesis by simp
next
  case (Mint d a x)
  with ex inv show ?thesis by (auto intro: mint_inv)
next
  case (Burn a x)
  with ex inv show ?thesis
    by (auto simp: burn_def res_simps gt_guards intro: burn_balance_inv)
next
  case (BurnFrom p a x)
  with ex inv show ?thesis
    by (auto simp: burn_from_def res_simps gt_guards
        dest!: consume_allowance_inv burn_balance_inv)
next
  case (AdminBurnFrom d a x)
  with ex inv show ?thesis
    by (auto simp: admin_burn_from_def res_simps gt_guards intro: burn_balance_inv)
next
  case (Clawback d a x)
  with ex inv show ?thesis
    by (auto simp: clawback_def res_simps gt_guards intro: burn_balance_inv)
qed (use inv ex in \<open>auto simp: gt_admin_op_frame\<close>)

lemma gt_reachable_inv: "gt_reachable s \<Longrightarrow> gt_inv s"
proof (induction rule: gt_reachable.induct)
  case gt_start
  show ?case by (simp add: gt_inv_def gt_empty_def)
next
  case (gt_call s h op s')
  then show ?case by (blast intro: gt_exec_inv)
qed

lemma gt_inv_balance_range:
  assumes "gt_inv s"
  shows "0 \<le> balance s a \<and> balance s a \<le> i128_max"
proof (cases "gt_balances s")
  case None
  then show ?thesis by (simp add: balance_def i128_max_def)
next
  case (Some m)
  with assms have m: "finite (dom m)" "\<And>c v. m c = Some v \<Longrightarrow> 0 \<le> v" "msum id m \<le> i128_max"
    by (auto simp: gt_inv_def)
  show ?thesis
  proof (cases "m a")
    case None
    with Some show ?thesis by (simp add: balance_def i128_max_def)
  next
    case (Some v)
    with m msum_ge_entry [of m id a v] \<open>gt_balances s = Some m\<close> show ?thesis
      by (auto simp: balance_def)
  qed
qed

section \<open>The governance token as a token contract\<close>

text \<open>
  The token contract at every address is an instance of the governance token; a client's call is a
  call of \<open>transfer\<close> in the frame of that address. This is the model's own provider of the
  interface \<open>sep41\<close>.
\<close>

definition gt_api :: "host \<Rightarrow> (addr \<Rightarrow> gov_token) token_api" where
  "gt_api h =
     \<lparr>tk_balance = (\<lambda>l t a. balance (l t) a),
      tk_transfer = (\<lambda>l t a b x.
        case transfer (h\<lparr>self := t\<rparr>) a (b, None) x (l t) of
          Inl e \<Rightarrow> None | Inr s \<Rightarrow> Some (l(t := s)))\<rparr>"

definition gt_ok :: "(addr \<Rightarrow> gov_token) \<Rightarrow> bool" where
  "gt_ok l \<longleftrightarrow> (\<forall>t. gt_inv (l t))"

lemma gt_api_transfer:
  "tk_transfer (gt_api h) l t a b x = Some l' \<longleftrightarrow>
     (\<exists>s. transfer (h\<lparr>self := t\<rparr>) a (b, None) x (l t) = Inr s \<and> l' = l(t := s))"
  by (auto simp: gt_api_def split: sum.splits)

lemma transfer_balances:
  assumes "transfer h a b x s = Inr s'"
  shows "balance s' c = balance s c - (if c = a then x else 0) + (if c = fst b then x else 0)"
    and "0 < x" and "x \<le> balance s a"
  using assms by (auto simp: transfer_Inr move_balance_balance)

lemma transfer_inv:
  assumes "gt_inv s" "transfer h a b x s = Inr s'"
  shows "gt_inv s'"
proof -
  from assms(2) obtain t where "0 < x" "move_balance a (fst b) x s = Inr t"
    "s' = publish_transfer a b x t" by (auto simp: transfer_Inr)
  with assms(1) show ?thesis by (simp add: move_balance_inv)
qed

interpretation gov: sep41 "gt_api h" gt_ok for h
proof
  fix l l' t a b x
  assume ok: "gt_ok l" and tr: "tk_transfer (gt_api h) l t a b x = Some l'"
  then obtain s where s: "transfer (h\<lparr>self := t\<rparr>) a (b, None) x (l t) = Inr s"
    and l': "l' = l(t := s)" by (auto simp: gt_api_transfer)
  from ok have "gt_inv (l t)" by (simp add: gt_ok_def)
  from transfer_inv [OF this s] ok l' show "gt_ok l'" by (simp add: gt_ok_def)
  from transfer_balances(2,3) [OF s]
  show "0 \<le> x \<and> x \<le> tk_balance (gt_api h) l t a" by (simp add: gt_api_def)
  from transfer_balances(1) [OF s] l'
  show "tk_balance (gt_api h) l' t c = tk_balance (gt_api h) l t c
      - (if c = a then x else 0) + (if c = b then x else 0)" for c
    by (simp add: gt_api_def)
  show "tk_balance (gt_api h) l' u c = tk_balance (gt_api h) l u c" if "u \<noteq> t" for u c
    using l' that by (simp add: gt_api_def)
next
  fix l t c
  assume "gt_ok l"
  then show "0 \<le> tk_balance (gt_api h) l t c \<and> tk_balance (gt_api h) l t c \<le> i128_max"
    using gt_inv_balance_range by (simp add: gt_api_def gt_ok_def)
qed

text \<open>Ledgers for concrete inputs: at every address a token with the given balances.\<close>

definition gov_ledger :: "(addr \<times> int) list \<Rightarrow> addr \<Rightarrow> gov_token" where
  "gov_ledger xs = (\<lambda>_. gt_empty\<lparr>gt_admin := Some 1, gt_balances := Some (map_of xs),
     gt_total := Some (sum_list (map snd xs)), gt_allowances := Some Map.empty,
     gt_frozen := Some Map.empty\<rparr>)"

lemma msum_map_of:
  "distinct (map fst xs) \<Longrightarrow> msum f (map_of xs) = sum_list (map (\<lambda>x. f (snd x)) xs)"
proof (induction xs)
  case Nil
  then show ?case by (simp add: msum_def)
next
  case (Cons x xs)
  then have "map_of xs (fst x) = None" by (simp add: map_of_eq_None_iff)
  then have "msum f ((map_of xs)(fst x \<mapsto> snd x)) = msum f (map_of xs) + f (snd x)"
    by (simp add: msum_upd finite_dom_map_of del: fun_upd_apply)
  with Cons show ?case by (simp del: fun_upd_apply)
qed

lemma gov_ledger_ok:
  assumes "distinct (map fst xs)" "\<forall>x\<in>set xs. 0 \<le> snd x" "sum_list (map snd xs) \<le> i128_max"
  shows "gt_ok (gov_ledger xs)"
proof -
  have "0 \<le> v" if "map_of xs a = Some v" for a v
    using map_of_SomeD [OF that] assms(2) by force
  with assms msum_map_of [OF assms(1), of id] show ?thesis
    by (simp add: gt_ok_def gov_ledger_def gt_inv_def finite_dom_map_of)
qed

lemma gov_ledger_transfer:
  assumes "map_of xs a = Some v" "0 < x" "x \<le> v" "v \<le> i128_max" "b \<noteq> t"
    and "a = b \<or> in_i128 (unwrap_or (map_of xs b) 0 + x)" "authorized h a"
  shows "\<exists>l. tk_transfer (gt_api h) (gov_ledger xs) t a b x = Some l"
proof -
  have "in_i128 (v - x)" "in_i128 v" using assms(2-4) by (simp_all add: in_i128_def i128_min_def)
  with assms show ?thesis
    by (cases "a = b") (auto simp: gt_api_transfer transfer_Inr move_balance_Inr gov_ledger_def gt_empty_def
        is_paused_def is_frozen_def is_allowlist_mode_enabled_def unwrap_or_opt_val)
qed

text \<open>Tokens without restrictions: a transfer succeeds whenever the amount is there and fits.\<close>

definition gov_open :: "(addr \<Rightarrow> gov_token) \<Rightarrow> bool" where
  "gov_open l \<longleftrightarrow> (\<forall>t. cb_paused (l t) = None \<and> gt_frozen (l t) = Some Map.empty
     \<and> gt_allowlist_mode (l t) = None \<and> gt_balances (l t) \<noteq> None)"

lemma gov_ledger_open: "gov_open (gov_ledger xs)"
  by (simp add: gov_open_def gov_ledger_def gt_empty_def)

lemma gov_pay:
  assumes ok: "gt_ok l" and op: "gov_open l" and au: "authorized h a" and x: "0 < x"
    and le: "x \<le> tk_balance (gt_api h) l t a"
    and fit: "tk_balance (gt_api h) l t b + x \<le> i128_max" and bt: "b \<noteq> t"
  shows "\<exists>l'. tk_transfer (gt_api h) l t a b x = Some l' \<and> gt_ok l' \<and> gov_open l'"
proof -
  from op obtain m where m: "gt_balances (l t) = Some m" "cb_paused (l t) = None"
    "gt_frozen (l t) = Some Map.empty" "gt_allowlist_mode (l t) = None"
    unfolding gov_open_def by blast
  have b: "tk_balance (gt_api h) l t c = opt_val id (m c)" for c
    by (simp add: gt_api_def balance_def m unwrap_or_opt_val)
  have nn: "0 \<le> opt_val id (m c) \<and> opt_val id (m c) \<le> i128_max" for c
    using gov.balance_range [OF ok, of h t c] by (simp add: b)
  have r: "in_i128 (opt_val id (m a) - x)" "in_i128 (opt_val id ((m(a \<mapsto> opt_val id (m a) - x)) b) + x)"
    using nn [of a] nn [of b] x le fit by (auto simp: b in_i128_def i128_min_def)
  have "\<exists>s. move_balance a b x (l t) = Inr s \<and> cb_paused s = None \<and> gt_frozen s = Some Map.empty
      \<and> gt_allowlist_mode s = None \<and> gt_balances s \<noteq> None"
    using m r le unfolding move_balance_Inr b by auto
  then obtain s where s: "move_balance a b x (l t) = Inr s" "cb_paused s = None"
    "gt_frozen s = Some Map.empty" "gt_allowlist_mode s = None" "gt_balances s \<noteq> None" by blast
  have "transfer (h\<lparr>self := t\<rparr>) a (b, None) x (l t) = Inr (publish_transfer a (b, None) x s)"
    using s(1) au x bt m by (simp add: transfer_Inr is_paused_def is_frozen_def is_allowlist_mode_enabled_def)
  then have tr: "tk_transfer (gt_api h) l t a b x = Some (l(t := publish_transfer a (b, None) x s))"
    by (auto simp: gt_api_transfer)
  moreover have "gov_open (l(t := publish_transfer a (b, None) x s))"
    using op s by (simp add: gov_open_def publish_transfer_def publish_def)
  ultimately show ?thesis using gov.transfer_ok [OF ok tr] by blast
qed

section \<open>Allowances and authority\<close>

lemma consume_allowance_Inr:
  "consume_allowance h a p x s = Inr s' \<longleftrightarrow>
     (\<exists>m d. gt_allowances s = Some m \<and> m (a, p) = Some d \<and> \<not> is_expired h d \<and> x \<le> al_amount d
        \<and> in_i128 (al_amount d - x)
        \<and> s' = s\<lparr>gt_allowances := Some (m((a, p) \<mapsto> \<lparr>al_amount = al_amount d - x,
              al_expiration_ledger = al_expiration_ledger d\<rparr>))\<rparr>)"
  by (auto simp: consume_allowance_def res_simps int_simps not_less)

lemma consume_allowance_allowance:
  assumes "consume_allowance h a p x s = Inr t"
  shows "x \<le> allowance h s a p" "allowance h t a p = allowance h s a p - x"
    and "(a', p') \<noteq> (a, p) \<Longrightarrow> allowance h t a' p' = allowance h s a' p'"
    and "balance t c = balance s c" "total_supply t = total_supply s" "gt_admin t = gt_admin s"
  using assms
  by (auto simp: consume_allowance_Inr allowance_def get_allowance_data_def Let_def is_expired_def
      balance_def total_supply_def)

lemma move_balance_frame:
  assumes "move_balance a b x s = Inr t"
  shows "gt_allowances t = gt_allowances s" "total_supply t = total_supply s" "gt_admin t = gt_admin s"
  using assms by (auto simp: move_balance_Inr total_supply_def)

lemma allowance_cong: "gt_allowances t = gt_allowances s \<Longrightarrow> allowance h t a p = allowance h s a p"
  by (simp add: allowance_def get_allowance_data_def)

lemma publish_transfer_allowances [simp]:
  "gt_allowances (publish_transfer a b x s) = gt_allowances s"
  "total_supply (publish_transfer a b x s) = total_supply s"
  "gt_admin (publish_transfer a b x s) = gt_admin s"
  by (simp_all add: publish_transfer_def total_supply_def split: option.splits)

lemma total_supply_publish [simp]: "total_supply (publish ev s) = total_supply s"
  by (simp add: total_supply_def)

lemma transfer_from_effect:
  assumes "transfer_from h p a b x s = Inr s'"
  shows "0 < x" "x \<le> allowance h s a p" "allowance h s' a p = allowance h s a p - x"
    and "(a', p') \<noteq> (a, p) \<Longrightarrow> allowance h s' a' p' = allowance h s a' p'"
    and "balance s' c = balance s c - (if c = a then x else 0) + (if c = b then x else 0)"
    and "total_supply s' = total_supply s" "authorized h p" "\<not> is_frozen s a"
proof -
  obtain t u where x: "0 < x" and c: "consume_allowance h a p x s = Inr t"
    and m: "move_balance a b x t = Inr u" and s': "s' = publish (Event ''transfer'' [AddrV a, AddrV b] [IntV x]) u"
    and au: "authorized h p" "\<not> is_frozen s a"
    using assms unfolding transfer_from_Inr by blast
  have al: "allowance h s' a'' p'' = allowance h t a'' p''" for a'' p''
    by (rule allowance_cong) (simp add: s' move_balance_frame(1) [OF m])
  show "0 < x" "x \<le> allowance h s a p" "allowance h s' a p = allowance h s a p - x"
    "(a', p') \<noteq> (a, p) \<Longrightarrow> allowance h s' a' p' = allowance h s a' p'"
    "balance s' c = balance s c - (if c = a then x else 0) + (if c = b then x else 0)"
    "total_supply s' = total_supply s" "authorized h p" "\<not> is_frozen s a"
    by (rule x, rule consume_allowance_allowance(1) [OF c],
        simp add: al consume_allowance_allowance(2) [OF c],
        simp add: al consume_allowance_allowance(3) [OF c],
        simp add: s' move_balance_balance(1) [OF m] consume_allowance_allowance(4) [OF c],
        simp add: s' move_balance_frame [OF m] consume_allowance_allowance(5) [OF c], rule au, rule au)
qed

lemma burn_from_effect:
  assumes "burn_from h p a x s = Inr s'"
  shows "x \<le> allowance h s a p" "authorized h p" "\<not> is_frozen s a"
    and "balance s' c = balance s c - (if c = a then x else 0)"
proof -
  from assms obtain t u where "\<not> is_frozen s a" "authorized h p"
    "consume_allowance h a p x s = Inr t" "burn_balance a x t = Inr u"
    "s' = publish (Event ''burn'' [AddrV a] [IntV x]) u"
    by (auto simp: burn_from_def res_simps gt_guards)
  then show "x \<le> allowance h s a p" "authorized h p" "\<not> is_frozen s a"
    "balance s' c = balance s c - (if c = a then x else 0)"
    using consume_allowance_allowance burn_balance_balance(1) by auto
qed

text \<open>A token that has no administrator yet has no balances either.\<close>

definition gt_init_inv :: "gov_token \<Rightarrow> bool" where
  "gt_init_inv s \<longleftrightarrow> (gt_admin s = None \<longrightarrow> gt_balances s = None)"

lemma token_ops_admin:
  "transfer h a b x s = Inr s' \<Longrightarrow> gt_admin s' = gt_admin s \<and> gt_balances s \<noteq> None"
  "transfer_from h p a c x s = Inr s' \<Longrightarrow> gt_admin s' = gt_admin s \<and> gt_balances s \<noteq> None"
  "mint h d a x s = Inr s' \<Longrightarrow> gt_admin s' = gt_admin s \<and> gt_balances s \<noteq> None"
  "burn h a x s = Inr s' \<Longrightarrow> gt_admin s' = gt_admin s \<and> gt_balances s \<noteq> None"
  "burn_from h p a x s = Inr s' \<Longrightarrow> gt_admin s' = gt_admin s \<and> gt_balances s \<noteq> None"
  "admin_burn_from h d a x s = Inr s' \<Longrightarrow> gt_admin s' = gt_admin s \<and> gt_balances s \<noteq> None"
  "clawback h d a x s = Inr s' \<Longrightarrow> gt_admin s' = gt_admin s \<and> gt_balances s \<noteq> None"
proof -
  show "transfer h a b x s = Inr s' \<Longrightarrow> gt_admin s' = gt_admin s \<and> gt_balances s \<noteq> None"
    by (auto simp: transfer_Inr move_balance_Inr)
  show "transfer_from h p a c x s = Inr s' \<Longrightarrow> gt_admin s' = gt_admin s \<and> gt_balances s \<noteq> None"
    unfolding transfer_from_Inr consume_allowance_Inr move_balance_Inr by clarsimp
  show "mint h d a x s = Inr s' \<Longrightarrow> gt_admin s' = gt_admin s \<and> gt_balances s \<noteq> None"
    unfolding mint_Inr by clarsimp
  show "burn h a x s = Inr s' \<Longrightarrow> gt_admin s' = gt_admin s \<and> gt_balances s \<noteq> None"
    unfolding burn_def by (clarsimp simp: res_simps burn_balance_Inr)
  show "burn_from h p a x s = Inr s' \<Longrightarrow> gt_admin s' = gt_admin s \<and> gt_balances s \<noteq> None"
    unfolding burn_from_def by (clarsimp simp: res_simps consume_allowance_Inr burn_balance_Inr)
  show "admin_burn_from h d a x s = Inr s' \<Longrightarrow> gt_admin s' = gt_admin s \<and> gt_balances s \<noteq> None"
    unfolding admin_burn_from_def by (clarsimp simp: res_simps burn_balance_Inr)
  show "clawback h d a x s = Inr s' \<Longrightarrow> gt_admin s' = gt_admin s \<and> gt_balances s \<noteq> None"
    unfolding clawback_def by (clarsimp simp: res_simps burn_balance_Inr)
qed

lemma admin_ops_admin:
  "set_admin h d a s = Inr s' \<Longrightarrow> gt_admin s' = Some a"
  "approve h a p x e s = Inr s' \<Longrightarrow> gt_admin s' = gt_admin s \<and> gt_balances s' = gt_balances s"
  "freeze h d a s = Inr s' \<Longrightarrow> gt_admin s' = gt_admin s \<and> gt_balances s' = gt_balances s"
  "unfreeze h d a s = Inr s' \<Longrightarrow> gt_admin s' = gt_admin s \<and> gt_balances s' = gt_balances s"
  "token_pause h d s = Inr s' \<Longrightarrow> gt_admin s' = gt_admin s \<and> gt_balances s' = gt_balances s"
  "token_unpause h d s = Inr s' \<Longrightarrow> gt_admin s' = gt_admin s \<and> gt_balances s' = gt_balances s"
  "set_allowlist_mode h d b s = Inr s' \<Longrightarrow> gt_admin s' = gt_admin s \<and> gt_balances s' = gt_balances s"
  "add_to_allowlist h d a s = Inr s' \<Longrightarrow> gt_admin s' = gt_admin s \<and> gt_balances s' = gt_balances s"
  "remove_from_allowlist h d a s = Inr s' \<Longrightarrow> gt_admin s' = gt_admin s \<and> gt_balances s' = gt_balances s"
  by (auto simp: approve_def freeze_def unfreeze_def set_admin_def token_pause_def
      token_unpause_def set_allowlist_mode_def add_to_allowlist_def remove_from_allowlist_def
      common_pause_def common_unpause_def res_simps Let_def split: if_splits)

lemma gt_exec_init_inv:
  assumes "gt_init_inv s" "gt_exec h op s = Inr s'"
  shows "gt_init_inv s'"
  using assms
  by (cases op) (auto simp: gt_init_inv_def initialize_def dest!: token_ops_admin admin_ops_admin split: if_splits)

lemma gt_reachable_init_inv: "gt_reachable s \<Longrightarrow> gt_init_inv s"
proof (induction rule: gt_reachable.induct)
  case gt_start
  show ?case by (simp add: gt_init_inv_def gt_empty_def)
next
  case (gt_call s h op s')
  from gt_exec_init_inv [OF gt_call(3,2)] show ?case .
qed

lemma gt_exec_total:
  assumes "gt_balances s = None \<longrightarrow> gt_total s = None" "gt_exec h op s = Inr s'"
  shows "gt_balances s' = None \<longrightarrow> gt_total s' = None"
proof (cases "gt_balances s")
  case None
  with assms show ?thesis
    by (cases op) (auto simp: initialize_def approve_def freeze_def unfreeze_def set_admin_def
        token_pause_def token_unpause_def set_allowlist_mode_def add_to_allowlist_def
        remove_from_allowlist_def common_pause_def common_unpause_def res_simps Let_def
        dest!: token_ops_admin split: if_splits)
next
  case (Some m)
  have "gt_balances s' \<noteq> None"
  proof (cases op)
    case (Transfer a b x)
    with assms(2) show ?thesis
      by (auto simp: transfer_Inr move_balance_Inr publish_transfer_def split: option.splits)
  next
    case (TransferFrom p a b x)
    with assms(2) show ?thesis by (auto simp: transfer_from_Inr move_balance_Inr)
  next
    case (Mint d a x)
    with assms(2) show ?thesis by (auto simp: mint_Inr)
  next
    case (BurnFrom p a x)
    with assms(2) show ?thesis by (auto simp: burn_from_def res_simps burn_balance_Inr)
  qed (use Some assms(2) in \<open>auto simp: initialize_def burn_def admin_burn_from_def clawback_def
      res_simps burn_balance_Inr set_admin_def dest!: admin_ops_admin split: if_splits\<close>)
  then show ?thesis by auto
qed

lemma gt_reachable_total: "gt_reachable s \<Longrightarrow> gt_balances s = None \<Longrightarrow> gt_total s = None"
proof (induction rule: gt_reachable.induct)
  case gt_start
  show ?case by (simp add: gt_empty_def)
next
  case (gt_call s h op s')
  then show ?case using gt_exec_total [of s h op s'] by simp
qed

lemma gt_admin_ops_balance:
  "approve h a p x e s = Inr s' \<Longrightarrow> balance s' c = balance s c"
  "freeze h d a s = Inr s' \<Longrightarrow> balance s' c = balance s c"
  "unfreeze h d a s = Inr s' \<Longrightarrow> balance s' c = balance s c"
  "set_admin h d a s = Inr s' \<Longrightarrow> balance s' c = balance s c"
  "token_pause h d s = Inr s' \<Longrightarrow> balance s' c = balance s c"
  "token_unpause h d s = Inr s' \<Longrightarrow> balance s' c = balance s c"
  "set_allowlist_mode h d b s = Inr s' \<Longrightarrow> balance s' c = balance s c"
  "add_to_allowlist h d a s = Inr s' \<Longrightarrow> balance s' c = balance s c"
  "remove_from_allowlist h d a s = Inr s' \<Longrightarrow> balance s' c = balance s c"
  by (auto simp: approve_def freeze_def unfreeze_def set_admin_def token_pause_def
      token_unpause_def set_allowlist_mode_def add_to_allowlist_def remove_from_allowlist_def
      common_pause_def common_unpause_def res_simps Let_def balance_def
      split: if_splits)

section \<open>Properties\<close>

definition holders :: "gov_token \<Rightarrow> addr set" where
  "holders s = dom (unwrap_or (gt_balances s) Map.empty)"

text \<open>
  C14: the token's supply is conserved. In every state the contract can reach by any sequence of calls
  from deployment on, the reported total supply is the sum of the holders' balances, no balance is
  negative, no balance exceeds the supply, and an account without an entry has balance 0.
\<close>

theorem supply_is_sum_of_balances:
  assumes "gt_reachable s"
  shows "finite (holders s) \<and> total_supply s = (\<Sum>a\<in>holders s. balance s a)
    \<and> (\<forall>a. 0 \<le> balance s a \<and> balance s a \<le> total_supply s) \<and> total_supply s \<le> i128_max"
proof (cases "gt_balances s")
  case None
  with gt_reachable_total [OF assms] show ?thesis
    by (simp add: holders_def balance_def total_supply_def i128_max_def)
next
  case (Some m)
  with gt_reachable_inv [OF assms] have m: "finite (dom m)" "\<And>a v. m a = Some v \<Longrightarrow> 0 \<le> v"
    "gt_total s = Some (msum id m)" "msum id m \<le> i128_max" by (auto simp: gt_inv_def)
  have "msum id m = (\<Sum>a\<in>dom m. balance s a)"
    unfolding msum_def by (rule sum.cong) (auto simp: balance_def Some)
  moreover have "0 \<le> balance s a \<and> balance s a \<le> msum id m" for a
    using msum_ge_entry [OF m(1), of id a] msum_nonneg [of m id] m(2)
    by (cases "m a") (auto simp: balance_def Some)
  ultimately show ?thesis using m Some by (simp add: holders_def total_supply_def)
qed

text \<open>
  C29: nobody else can take tokens. If a call lowers the balance of an account, then the account
  authorized it, or a spender authorized it whose unexpired allowance covered the whole loss, or the
  administrator did; and if the account is frozen, the call was the administrator's clawback.
\<close>

theorem balance_lowered_only_with_authority:
  assumes "gt_reachable s" "gt_exec h op s = Inr s'" "balance s' a < balance s a"
  shows "(authorized h a
      \<or> (\<exists>p. authorized h p \<and> balance s a - balance s' a \<le> allowance h s a p)
      \<or> (\<exists>d. gt_admin s = Some d \<and> authorized h d))
    \<and> (is_frozen s a \<longrightarrow> (\<exists>d x. op = Clawback d a x \<and> gt_admin s = Some d \<and> authorized h d))"
proof (cases op)
  case (Initialize d n y k)
  with assms(2) have "gt_admin s = None" by (auto simp: initialize_def split: if_splits)
  with gt_reachable_init_inv [OF assms(1)] have "balance s a = 0"
    by (simp add: gt_init_inv_def balance_def)
  moreover from Initialize assms(2) have "balance s' a = 0"
    by (auto simp: initialize_def balance_def split: if_splits)
  ultimately show ?thesis using assms(3) by simp
next
  case (Transfer c b x)
  with assms(2) have t: "transfer h c b x s = Inr s'" by simp
  then have "authorized h c" "\<not> is_frozen s c" unfolding transfer_Inr by simp_all
  with transfer_balances [OF t] assms(3) show ?thesis by (auto split: if_splits)
next
  case (TransferFrom p c b x)
  with assms(2) have "transfer_from h p c b x s = Inr s'" by simp
  note eff = transfer_from_effect [OF this]
  from eff(1) eff(5) [of a] assms(3) have "a = c" "balance s a - balance s' a \<le> x"
    by (auto split: if_splits)
  with eff(2,7,8) show ?thesis by force
next
  case (Mint d b x)
  with assms(2,3) show ?thesis by (auto simp: mint_Inr balance_def unwrap_or_opt_val split: if_splits)
next
  case (Approve b p x e)
  with assms(2,3) gt_admin_ops_balance show ?thesis by simp
next
  case (Burn b x)
  with assms(2) obtain t where b: "burn_balance b x s = Inr t" "balance s' a = balance t a"
    "authorized h b" "\<not> is_frozen s b"
    by (auto simp: burn_def res_simps gt_guards)
  with burn_balance_balance(1) [OF b(1), of a] assms(3) show ?thesis by (auto split: if_splits)
next
  case (BurnFrom p b x)
  with assms(2) have "burn_from h p b x s = Inr s'" by simp
  note eff = burn_from_effect [OF this]
  from eff(4) [of a] assms(3) have "a = b" "balance s a - balance s' a = x" by (auto split: if_splits)
  with eff show ?thesis by auto
next
  case (AdminBurnFrom d b x)
  with assms(2) obtain t where b: "burn_balance b x s = Inr t" "balance s' a = balance t a"
    "authorized h d" "\<not> is_frozen s b" "gt_admin s = Some d"
    by (auto simp: admin_burn_from_def res_simps gt_guards)
  with burn_balance_balance(1) [OF b(1), of a] assms(3) show ?thesis by (auto split: if_splits)
next
  case (Clawback d b x)
  with assms(2) obtain t where b: "burn_balance b x s = Inr t" "balance s' a = balance t a"
    "authorized h d" "gt_admin s = Some d"
    by (auto simp: clawback_def res_simps gt_guards)
  with burn_balance_balance(1) [OF b(1), of a] assms(3) Clawback show ?thesis by (auto split: if_splits)
qed (use assms(2,3) gt_admin_ops_balance in \<open>simp_all\<close>)

text \<open>
  A transfer on behalf of another account uses up the allowance by exactly the amount moved and
  nothing else. A successful \<open>transfer_from\<close> had an unexpired allowance of at least the amount,
  lowers it by the amount, leaves every other allowance and the supply alone, and moves the amount
  between the two balances; with an expired allowance it fails with \<open>AllowanceExpired\<close>.
\<close>

theorem transfer_from_spends_allowance:
  assumes "transfer_from h p a b x s = Inr s'"
  shows "x \<le> allowance h s a p \<and> allowance h s' a p = allowance h s a p - x
    \<and> (\<forall>a' p'. (a', p') \<noteq> (a, p) \<longrightarrow> allowance h s' a' p' = allowance h s a' p')
    \<and> (\<forall>c. balance s' c = balance s c - (if c = a then x else 0) + (if c = b then x else 0))
    \<and> total_supply s' = total_supply s
    \<and> (\<forall>h'. authorized h' p \<and> self h' = self h \<and> is_expired h' (get_allowance_data s a p)
         \<longrightarrow> transfer_from h' p a b x s = Inl (Err AllowanceExpired))"
proof -
  note eff = transfer_from_effect [OF assms]
  have "transfer_from h' p a b x s = Inl (Err AllowanceExpired)"
    if "authorized h' p" "self h' = self h" "is_expired h' (get_allowance_data s a p)" for h'
    using assms that unfolding transfer_from_Inr consume_allowance_Inr
    by (auto simp: transfer_from_def consume_allowance_def when_not_paused_def require_auth_def
        validate_non_frozen_def validate_allowlisted_def get_allowance_data_def)
  with eff show ?thesis by auto
qed

section \<open>The properties on concrete inputs\<close>

definition gt_host :: "nat \<Rightarrow> host" where
  "gt_host q = \<lparr>self = 100, now = 50, seq = q, authorized = (\<lambda>a. a \<noteq> 100)\<rparr>"

text \<open>A token after deployment: 50 tokens minted to account 7, 20 of them approved to account 8.\<close>

definition gt_sample :: gov_token where
  "gt_sample = gt_empty\<lparr>gt_admin := Some 1,
     gt_metadata := Some \<lparr>md_decimal = 7, md_name = ''Moi'', md_symbol = ''MOI''\<rparr>,
     gt_total := Some 50, gt_balances := Some [7 \<mapsto> 50],
     gt_allowances := Some [(7, 8) \<mapsto> \<lparr>al_amount = 20, al_expiration_ledger = 9\<rparr>],
     gt_frozen := Some Map.empty,
     cb_events := [Event ''mint'' [AddrV 7] [IntV 50], Event ''approve'' [AddrV 7, AddrV 8] [IntV 20, IntV 9]]\<rparr>"

lemma gt_sample_reachable: "gt_reachable gt_sample"
proof -
  let ?s1 = "gt_empty\<lparr>gt_admin := Some 1,
     gt_metadata := Some \<lparr>md_decimal = 7, md_name = ''Moi'', md_symbol = ''MOI''\<rparr>,
     gt_total := Some 0, gt_balances := Some Map.empty, gt_allowances := Some Map.empty,
     gt_frozen := Some Map.empty\<rparr>"
  let ?s2 = "?s1\<lparr>gt_total := Some 50, gt_balances := Some [7 \<mapsto> 50],
     cb_events := [Event ''mint'' [AddrV 7] [IntV 50]]\<rparr>"
  have "gt_exec (gt_host 5) (Initialize 1 ''Moi'' ''MOI'' 7) gt_empty = Inr ?s1"
    by (simp add: initialize_def gt_empty_def)
  then have "gt_reachable ?s1" by (rule gt_call [OF gt_start])
  moreover have "gt_exec (gt_host 5) (Mint 1 7 50) ?s1 = Inr ?s2"
    by (simp add: mint_Inr gt_empty_def gt_host_def is_paused_def is_frozen_def in_i128_def
        i128_min_def i128_max_def publish_def)
  ultimately have "gt_reachable ?s2" by (rule gt_call)
  moreover have "gt_exec (gt_host 5) (Approve 7 8 20 9) ?s2 = Inr gt_sample"
    by (simp add: approve_def gt_empty_def gt_host_def gt_sample_def when_not_paused_def is_paused_def
        require_auth_def is_expiration_valid_def publish_def)
  ultimately show ?thesis by (rule gt_call)
qed

lemma gt_sample_spend:
  "\<exists>s'. transfer_from (gt_host 9) 8 7 6 15 gt_sample = Inr s' \<and> balance s' 7 = 35 \<and> balance gt_sample 7 = 50"
  by (simp add: transfer_from_Inr consume_allowance_Inr move_balance_Inr gt_sample_def gt_empty_def
      gt_host_def is_paused_def is_frozen_def is_expired_def is_allowlist_mode_enabled_def in_i128_def
      i128_min_def i128_max_def balance_def)

theorem supply_is_sum_of_balances_witness:
  "total_supply gt_sample = (\<Sum>a\<in>holders gt_sample. balance gt_sample a) \<and> total_supply gt_sample = 50"
  using supply_is_sum_of_balances [OF gt_sample_reachable]
  by (simp add: gt_sample_def gt_empty_def total_supply_def)

theorem balance_lowered_only_with_authority_witness:
  "\<exists>s' p. gt_exec (gt_host 9) (TransferFrom 8 7 6 15) gt_sample = Inr s'
     \<and> authorized (gt_host 9) p \<and> balance s' 7 < balance gt_sample 7 \<and> \<not> is_frozen gt_sample 7"
proof -
  obtain s' where "transfer_from (gt_host 9) 8 7 6 15 gt_sample = Inr s'" "balance s' 7 = 35"
    "balance gt_sample 7 = 50" using gt_sample_spend by blast
  with balance_lowered_only_with_authority [OF gt_sample_reachable, of "gt_host 9"
      "TransferFrom 8 7 6 15" s' 7] show ?thesis by auto
qed

theorem transfer_from_spends_allowance_witness:
  "\<exists>s'. transfer_from (gt_host 9) 8 7 6 15 gt_sample = Inr s' \<and> allowance (gt_host 9) s' 7 8 = 5
     \<and> transfer_from (gt_host 10) 8 7 6 15 gt_sample = Inl (Err AllowanceExpired)"
proof -
  obtain s' where t: "transfer_from (gt_host 9) 8 7 6 15 gt_sample = Inr s'"
    using gt_sample_spend by blast
  have "allowance (gt_host 9) gt_sample 7 8 = 20" "is_expired (gt_host 10) (get_allowance_data gt_sample 7 8)"
    by (simp_all add: allowance_def get_allowance_data_def gt_sample_def is_expired_def gt_host_def)
  with transfer_from_spends_allowance [OF t] t show ?thesis by (simp add: gt_host_def)
qed

end
