(* ===== verification/Token_Types.thy ===== *)
theory Token_Types
  imports Gov_Token
begin

text \<open>
  The storage of the governance token is well typed: calls whose arguments fit the machine types leave
  every stored number in the range of its type, no allowance is ever negative, and the entries written by
  \<open>initialize\<close> are present together, so that no query traps.
\<close>

section \<open>Well-typed calls and states\<close>

fun typed_op :: "gt_op \<Rightarrow> bool" where
  "typed_op (Initialize a n y d) \<longleftrightarrow> d < 2 ^ 32"
| "typed_op (Transfer a b x) \<longleftrightarrow> in_i128 x"
| "typed_op (TransferFrom p a b x) \<longleftrightarrow> in_i128 x"
| "typed_op (Approve a p x e) \<longleftrightarrow> in_i128 x \<and> e < 2 ^ 32"
| "typed_op (Mint a b x) \<longleftrightarrow> in_i128 x"
| "typed_op (Burn a x) \<longleftrightarrow> in_i128 x"
| "typed_op (BurnFrom p a x) \<longleftrightarrow> in_i128 x"
| "typed_op (AdminBurnFrom d a x) \<longleftrightarrow> in_i128 x"
| "typed_op (Clawback d a x) \<longleftrightarrow> in_i128 x"
| "typed_op _ \<longleftrightarrow> True"

inductive typed_run :: "gov_token \<Rightarrow> bool" where
  tr_start: "typed_run gt_empty"
| tr_call: "typed_run s \<Longrightarrow> typed_op op \<Longrightarrow> gt_exec h op s = Inr s' \<Longrightarrow> typed_run s'"

definition typed_allowance :: "allowance_data \<Rightarrow> bool" where
  "typed_allowance d \<longleftrightarrow> 0 \<le> al_amount d \<and> al_amount d \<le> i128_max \<and> al_expiration_ledger d < 2 ^ 32"

definition gt_typed :: "gov_token \<Rightarrow> bool" where
  "gt_typed s \<longleftrightarrow> (\<forall>m a p d. gt_allowances s = Some m \<longrightarrow> m (a, p) = Some d \<longrightarrow> typed_allowance d)
     \<and> (\<forall>md. gt_metadata s = Some md \<longrightarrow> md_decimal md < 2 ^ 32)
     \<and> (gt_admin s \<noteq> None \<longleftrightarrow> gt_metadata s \<noteq> None) \<and> (gt_admin s \<noteq> None \<longleftrightarrow> gt_balances s \<noteq> None)
     \<and> (gt_admin s \<noteq> None \<longleftrightarrow> gt_allowances s \<noteq> None) \<and> (gt_admin s \<noteq> None \<longleftrightarrow> gt_frozen s \<noteq> None)
     \<and> (gt_admin s \<noteq> None \<longleftrightarrow> gt_total s \<noteq> None)"

section \<open>Every call keeps the types\<close>

lemma gt_metadata_publish [simp]: "gt_metadata (publish ev s) = gt_metadata s"
  by (simp add: publish_def)

lemma gt_typed_publish [simp]: "gt_typed (publish ev s) = gt_typed s"
  by (simp add: gt_typed_def)

lemma move_balance_typed: "move_balance a b x s = Inr s' \<Longrightarrow> gt_typed s \<Longrightarrow> gt_typed s'"
  by (auto simp: move_balance_Inr gt_typed_def)

lemma burn_balance_typed: "burn_balance a x s = Inr s' \<Longrightarrow> gt_typed s \<Longrightarrow> gt_typed s'"
  by (auto simp: burn_balance_Inr gt_typed_def)

lemma consume_allowance_typed:
  assumes "consume_allowance h a p x s = Inr s'" "gt_typed s" "0 < x"
  shows "gt_typed s'"
proof -
  from assms(1) obtain m d where d: "gt_allowances s = Some m" "m (a, p) = Some d" "x \<le> al_amount d"
    and s': "s' = s\<lparr>gt_allowances := Some (m((a, p) \<mapsto> \<lparr>al_amount = al_amount d - x,
              al_expiration_ledger = al_expiration_ledger d\<rparr>))\<rparr>" by (auto simp: consume_allowance_Inr)
  from assms(2) d(1,2) have "typed_allowance d" unfolding gt_typed_def by blast
  then have "typed_allowance \<lparr>al_amount = al_amount d - x, al_expiration_ledger = al_expiration_ledger d\<rparr>"
    using d(3) assms(3) by (simp add: typed_allowance_def)
  with assms(2) d(1) show ?thesis by (auto simp: gt_typed_def s' split: if_splits)
qed

lemma approve_typed:
  assumes "approve h a p x e s = Inr s'" "gt_typed s" "in_i128 x" "e < 2 ^ 32"
  shows "gt_typed s'"
proof -
  from assms(1) obtain m where m: "gt_allowances s = Some m" "0 \<le> x"
    and s': "s' = publish (Event ''approve'' [AddrV a, AddrV p] [IntV x, NatV e])
      (s\<lparr>gt_allowances := Some (m((a, p) \<mapsto> \<lparr>al_amount = x, al_expiration_ledger = e\<rparr>))\<rparr>)"
    by (auto simp: approve_def bind_res_Inr ok_or_Inr if_Inl_Inr)
  from m(2) assms(3,4) have "typed_allowance \<lparr>al_amount = x, al_expiration_ledger = e\<rparr>"
    by (simp add: typed_allowance_def in_i128_def)
  with assms(2) m(1) show ?thesis by (auto simp: gt_typed_def s' split: if_splits)
qed

lemma gt_exec_typed:
  assumes "gt_exec h op s = Inr s'" "typed_op op" "gt_typed s"
  shows "gt_typed s'"
proof (cases op)
  case (Transfer a b x)
  with assms show ?thesis
    by (auto simp: transfer_Inr publish_transfer_def intro: move_balance_typed split: option.splits)
next
  case (TransferFrom p a b x)
  with assms show ?thesis
    by (auto simp: transfer_from_Inr intro: move_balance_typed [OF _ consume_allowance_typed])
next
  case (Approve a p x e)
  with assms show ?thesis by (auto intro: approve_typed)
next
  case (Mint a b x)
  with assms show ?thesis by (auto simp: mint_Inr gt_typed_def)
next
  case (Burn a x)
  with assms show ?thesis by (auto simp: burn_def res_simps intro: burn_balance_typed)
next
  case (BurnFrom p a x)
  with assms show ?thesis
    by (auto simp: burn_from_def res_simps not_le intro: burn_balance_typed [OF _ consume_allowance_typed])
next
  case (AdminBurnFrom d a x)
  with assms show ?thesis by (auto simp: admin_burn_from_def res_simps intro: burn_balance_typed)
next
  case (Clawback d a x)
  with assms show ?thesis by (auto simp: clawback_def res_simps intro: burn_balance_typed)
next
  case (Initialize a n y d)
  with assms show ?thesis by (auto simp: initialize_def gt_typed_def split: if_splits)
qed (use assms in \<open>auto simp: freeze_def unfreeze_def set_admin_def token_pause_def token_unpause_def
    set_allowlist_mode_def add_to_allowlist_def remove_from_allowlist_def common_pause_def common_unpause_def
    require_admin_def res_simps Let_def gt_typed_def split: if_splits\<close>)

lemma typed_run_typed: "typed_run s \<Longrightarrow> gt_typed s"
proof (induction rule: typed_run.induct)
  case tr_start
  show ?case by (simp add: gt_typed_def gt_empty_def)
next
  case (tr_call s op h s')
  then show ?case using gt_exec_typed by blast
qed

lemma typed_run_reachable: "typed_run s \<Longrightarrow> gt_reachable s"
  by (induction rule: typed_run.induct) (auto intro: gt_reachable.intros)

section \<open>Property\<close>

text \<open>
  C39: The storage is well typed. After any sequence of calls whose arguments fit their machine types,
  every balance and the supply are non-negative \<open>i128\<close> values, every allowance record holds a non-negative
  \<open>i128\<close> amount and a \<open>u32\<close> ledger, the amount reported to a spender is never negative, and no query traps:
  the name, the symbol and the decimals (a \<open>u32\<close>) are answered in every state.
\<close>

theorem token_state_well_typed:
  assumes "typed_run s"
  shows "0 \<le> balance s a \<and> balance s a \<le> i128_max \<and> 0 \<le> total_supply s \<and> total_supply s \<le> i128_max
    \<and> 0 \<le> al_amount (get_allowance_data s a p) \<and> al_amount (get_allowance_data s a p) \<le> i128_max
    \<and> al_expiration_ledger (get_allowance_data s a p) < 2 ^ 32
    \<and> 0 \<le> allowance h s a p \<and> (\<exists>n. token_name s = Inr n) \<and> (\<exists>y. token_symbol s = Inr y)
    \<and> (\<exists>d. token_decimals s = Inr d \<and> d < 2 ^ 32)"
proof (intro conjI)
  note t = typed_run_typed [OF assms] and r = typed_run_reachable [OF assms]
  from gt_inv_balance_range [OF gt_reachable_inv [OF r]]
  show "0 \<le> balance s a" "balance s a \<le> i128_max" by simp_all
  show "0 \<le> total_supply s" "total_supply s \<le> i128_max"
  proof -
    have "0 \<le> total_supply s \<and> total_supply s \<le> i128_max"
    proof (cases "gt_balances s")
      case None
      with gt_reachable_total [OF r] show ?thesis by (simp add: total_supply_def i128_max_def)
    next
      case (Some m)
      with gt_reachable_inv [OF r] have "gt_total s = Some (msum id m)" "msum id m \<le> i128_max"
        "\<And>c v. m c = Some v \<Longrightarrow> 0 \<le> v" by (auto simp: gt_inv_def)
      moreover from this(3) have "0 \<le> msum id m" by (intro msum_nonneg) auto
      ultimately show ?thesis by (simp add: total_supply_def)
    qed
    then show "0 \<le> total_supply s" "total_supply s \<le> i128_max" by simp_all
  qed
  have "typed_allowance (get_allowance_data s a p)"
  proof (cases "unwrap_or (gt_allowances s) Map.empty (a, p)")
    case None
    then show ?thesis by (simp add: get_allowance_data_def typed_allowance_def i128_max_def)
  next
    case (Some d)
    then obtain m where "gt_allowances s = Some m" "m (a, p) = Some d" by (cases "gt_allowances s") simp_all
    with t have "typed_allowance d" unfolding gt_typed_def by blast
    with Some show ?thesis by (simp add: get_allowance_data_def)
  qed
  then show "0 \<le> al_amount (get_allowance_data s a p)" "al_amount (get_allowance_data s a p) \<le> i128_max"
    "al_expiration_ledger (get_allowance_data s a p) < 2 ^ 32" "0 \<le> allowance h s a p"
    by (simp_all add: typed_allowance_def allowance_def Let_def)
  show "\<exists>n. token_name s = Inr n" "\<exists>y. token_symbol s = Inr y" "\<exists>d. token_decimals s = Inr d \<and> d < 2 ^ 32"
    using t by (auto simp: token_name_def token_symbol_def token_decimals_def is_initialized_def gt_typed_def)
qed

theorem token_state_well_typed_witness:
  "\<exists>s. typed_run s \<and> token_decimals s = Inr 7 \<and> 0 \<le> balance s 7"
proof -
  have "gt_exec (gt_host 5) (Initialize 1 ''Moi'' ''MOI'' 7) gt_empty = Inr (gt_empty\<lparr>gt_admin := Some 1,
     gt_metadata := Some \<lparr>md_decimal = 7, md_name = ''Moi'', md_symbol = ''MOI''\<rparr>,
     gt_total := Some 0, gt_balances := Some Map.empty, gt_allowances := Some Map.empty,
     gt_frozen := Some Map.empty\<rparr>)" (is "_ = Inr ?s")
    by (simp add: initialize_def gt_empty_def)
  from tr_call [OF tr_start _ this] have run: "typed_run ?s" by simp
  from token_state_well_typed [OF run, of 7] run show ?thesis
    by (intro exI [of _ ?s]) (simp add: token_decimals_def is_initialized_def)
qed

end
