(* ===== verification/Staking.thy ===== *)
theory Staking
  imports Gov_Token
begin

text \<open>
  Staking (\<open>packages/staking\<close>): positions with a lock period and a voting-power multiplier, top-ups,
  unstaking with a 14-day unbonding period, and slashing, directly or after a notice period. The
  staker registry is an insertion-ordered list. \<open>query_stakers_page\<close> caps its limit with a constant
  the crate does not define, which is a parameter here.
\<close>

section \<open>State\<close>

datatype staking_period = OneMonth | ThreeMonths | SixMonths | TwelveMonths

fun multiplier :: "staking_period \<Rightarrow> nat" where
  "multiplier OneMonth = 1"
| "multiplier ThreeMonths = 2"
| "multiplier SixMonths = 3"
| "multiplier TwelveMonths = 5"

fun as_seconds :: "staking_period \<Rightarrow> nat" where
  "as_seconds OneMonth = 2592000"
| "as_seconds ThreeMonths = 7776000"
| "as_seconds SixMonths = 15552000"
| "as_seconds TwelveMonths = 31104000"

definition period_from_u32 :: "nat \<Rightarrow> staking_period option" where
  "period_from_u32 v =
     (if v = 1 then Some OneMonth else if v = 3 then Some ThreeMonths
      else if v = 6 then Some SixMonths else if v = 12 then Some TwelveMonths else None)"

definition UNBONDING_PERIOD_SECONDS :: nat where "UNBONDING_PERIOD_SECONDS = 1209600"

definition MIN_STAKE_AMOUNT :: int where "MIN_STAKE_AMOUNT = 10000000"

record stake_position =
  sp_amount :: int
  sp_period :: staking_period
  sp_start_time :: nat
  sp_unlock_time :: nat
  sp_voting_power :: int
  sp_start_ledger :: nat
  sp_unlock_ledger :: nat

record unbonding_position =
  ub_amount :: int
  ub_start_time :: nat
  ub_claimable_time :: nat

datatype staking_error =
    NotInitialized | Unauthorized | ContractPaused | InvalidAmount | InvalidPeriod | TokenError
  | InsufficientBalance | NoActiveStake | StakeNotUnlocked | UnbondingNotComplete
  | NoUnbondingPosition | AlreadyStaked | Overflow | InsufficientContractBalance
  | SlashNoticePeriodActive | NoActiveSlashNotice | SlashNotAuthorized | SlashNoticeExpired
  | ReentrantCall | StakerIndexOutOfRange

record 'l staking = "'l token_base" +
  sk_admin :: "addr option"
  sk_token :: "addr option"
  sk_stake :: "addr \<rightharpoonup> stake_position"
  sk_unbonding :: "addr \<rightharpoonup> unbonding_position"
  sk_total :: "int option"
  sk_stakers :: "addr list option"
  sk_notice :: "addr \<rightharpoonup> int \<times> nat \<times> addr"
  sk_notice_period :: "nat option"

definition staking_empty :: "'l \<Rightarrow> 'l staking" where
  "staking_empty l = \<lparr>cb_paused = None, cb_reent = None, cb_events = [], cb_ledger = l,
     sk_admin = None, sk_token = None, sk_stake = Map.empty, sk_unbonding = Map.empty,
     sk_total = None, sk_stakers = None, sk_notice = Map.empty, sk_notice_period = None\<rparr>"

section \<open>Staking and unstaking\<close>

definition staking_init :: "host \<Rightarrow> addr \<Rightarrow> addr \<Rightarrow> 'l staking \<Rightarrow> (staking_error, 'l staking) res" where
  "staking_init h admin token s =
     bind_res (require_auth h admin) (\<lambda>_.
     Inr (s\<lparr>sk_admin := Some admin, sk_token := Some token, cb_paused := Some False,
            sk_total := Some 0, sk_stakers := Some []\<rparr>))"

definition is_period_elapsed :: "nat \<Rightarrow> nat \<Rightarrow> bool" where
  "is_period_elapsed t deadline \<longleftrightarrow> t \<ge> deadline"

definition stake ::
    "'l token_api \<Rightarrow> host \<Rightarrow> addr \<Rightarrow> int \<Rightarrow> nat \<Rightarrow> 'l staking \<Rightarrow> (staking_error, 'l staking) res" where
  "stake T h user amount period_months s =
     bind_res (not_paused_or ContractPaused s) (\<lambda>_.
     bind_res (guard_or ReentrantCall s) (\<lambda>s.
     bind_res (require_auth h user) (\<lambda>_.
     if amount < MIN_STAKE_AMOUNT then Inl (Err InvalidAmount) else
     bind_res (ok_or (period_from_u32 period_months) InvalidPeriod) (\<lambda>period.
     if sk_stake s user \<noteq> None then Inl (Err AlreadyStaked) else
     bind_res (ok_or (sk_token s) NotInitialized) (\<lambda>token_address.
     bind_res (token_transfer T token_address user (self h) amount s) (\<lambda>s.
     bind_res (ok_or (i128_checked_mul amount (int (multiplier period))) Overflow) (\<lambda>voting_power.
     let period_seconds = as_seconds period;
         period_ledgers = wrap_u 32 (int (period_seconds div 5)) in
     bind_res (ok_or (u_checked_add 64 (now h) period_seconds) Overflow) (\<lambda>unlock_time.
     bind_res (ok_or (u_checked_add 32 (seq h) period_ledgers) Overflow) (\<lambda>unlock_ledger.
     let s = s\<lparr>sk_stake := (sk_stake s)(user \<mapsto>
           \<lparr>sp_amount = amount, sp_period = period, sp_start_time = now h,
            sp_unlock_time = unlock_time, sp_voting_power = voting_power,
            sp_start_ledger = seq h, sp_unlock_ledger = unlock_ledger\<rparr>)\<rparr>;
         total_staked = unwrap_or (sk_total s) 0 in
     bind_res (ok_or (i128_checked_add total_staked amount) Overflow) (\<lambda>new_total.
     let s = s\<lparr>sk_total := Some new_total\<rparr>;
         stakers = unwrap_or (sk_stakers s) [] @ [user];
         s = s\<lparr>sk_stakers := Some stakers\<rparr>
     in Inr (guard_leave (publish (Event ''staked'' [AddrV user]
          [IntV amount, NatV period_months, NatV (multiplier period), IntV voting_power]) s))))))))))))"

text \<open>Removes a user from the registry, the loop \<open>unstake\<close> and \<open>slash\<close> share.\<close>

definition drop_staker :: "addr \<Rightarrow> 'l staking \<Rightarrow> 'l staking" where
  "drop_staker user s = s\<lparr>sk_stakers := Some (vec_without user (unwrap_or (sk_stakers s) []))\<rparr>"

definition unstake :: "host \<Rightarrow> addr \<Rightarrow> 'l staking \<Rightarrow> (staking_error, 'l staking) res" where
  "unstake h user s =
     bind_res (not_paused_or ContractPaused s) (\<lambda>_.
     bind_res (require_auth h user) (\<lambda>_.
     bind_res (ok_or (sk_stake s user) NoActiveStake) (\<lambda>pos.
     if \<not> is_period_elapsed (now h) (sp_unlock_time pos) then Inl (Err StakeNotUnlocked) else
     bind_res (ok_or (u_checked_add 64 (now h) UNBONDING_PERIOD_SECONDS) Overflow) (\<lambda>claimable_time.
     let s = s\<lparr>sk_unbonding := (sk_unbonding s)(user \<mapsto>
           \<lparr>ub_amount = sp_amount pos, ub_start_time = now h, ub_claimable_time = claimable_time\<rparr>)\<rparr>;
         s = s\<lparr>sk_stake := (sk_stake s)(user := None)\<rparr>;
         s = drop_staker user s;
         total_staked = unwrap_or (sk_total s) 0 in
     bind_res (ok_or (i128_checked_sub total_staked (sp_amount pos)) InsufficientBalance) (\<lambda>new_total.
     Inr (publish (Event ''unstake'' [AddrV user] [IntV (sp_amount pos), NatV claimable_time])
       (s\<lparr>sk_total := Some new_total\<rparr>)))))))"

definition claim :: "'l token_api \<Rightarrow> host \<Rightarrow> addr \<Rightarrow> 'l staking \<Rightarrow> (staking_error, 'l staking) res" where
  "claim T h user s =
     bind_res (not_paused_or ContractPaused s) (\<lambda>_.
     bind_res (guard_or ReentrantCall s) (\<lambda>s.
     bind_res (require_auth h user) (\<lambda>_.
     bind_res (ok_or (sk_unbonding s user) NoUnbondingPosition) (\<lambda>ub.
     if \<not> is_period_elapsed (now h) (ub_claimable_time ub) then Inl (Err UnbondingNotComplete) else
     bind_res (ok_or (sk_token s) NotInitialized) (\<lambda>token_address.
     let contract_balance = tk_balance T (cb_ledger s) token_address (self h) in
     if contract_balance < ub_amount ub then Inl (Err InsufficientContractBalance) else
     bind_res (token_transfer T token_address (self h) user (ub_amount ub) s) (\<lambda>s.
     let s = s\<lparr>sk_unbonding := (sk_unbonding s)(user := None)\<rparr>
     in Inr (guard_leave (publish (Event ''claimed'' [AddrV user] [IntV (ub_amount ub)]) s))))))))"

section \<open>Queries\<close>

definition get_voting_power :: "addr \<Rightarrow> 'l staking \<Rightarrow> int \<times> 'l staking" where
  "get_voting_power user s =
     (case sk_stake s user of
        Some pos \<Rightarrow> (sp_voting_power pos,
          publish (Event ''vp_query'' [AddrV user] [IntV (sp_voting_power pos)]) s)
      | None \<Rightarrow>
          if sk_unbonding s user \<noteq> None
          then (0, publish (Event ''vp_query'' [AddrV user] [IntV 0]) s)
          else (0, publish (Event ''vp_query'' [AddrV user] [IntV 0]) s))"

definition get_stake :: "addr \<Rightarrow> 'l staking \<Rightarrow> stake_position option" where
  "get_stake user s = sk_stake s user"

definition get_stake_amount :: "addr \<Rightarrow> 'l staking \<Rightarrow> int" where
  "get_stake_amount user s = unwrap_or (map_option sp_amount (sk_stake s user)) 0"

definition get_all_stakers :: "'l staking \<Rightarrow> addr list" where
  "get_all_stakers s = unwrap_or (sk_stakers s) []"

definition get_unbonding :: "addr \<Rightarrow> 'l staking \<Rightarrow> unbonding_position option" where
  "get_unbonding user s = sk_unbonding s user"

definition get_total_staked :: "'l staking \<Rightarrow> int" where
  "get_total_staked s = unwrap_or (sk_total s) 0"

text \<open>A page: its entries (address and amount), the next cursor and the total.\<close>

fun stakers_page_loop ::
    "'l staking \<Rightarrow> addr list \<Rightarrow> nat list \<Rightarrow> (addr \<times> int) list \<Rightarrow> (staking_error, (addr \<times> int) list) res" where
  "stakers_page_loop s stakers [] entries = Inr entries"
| "stakers_page_loop s stakers (i # is) entries =
     bind_res (ok_or (if i < length stakers then Some (stakers ! i) else None) StakerIndexOutOfRange)
       (\<lambda>address. stakers_page_loop s stakers is (entries @ [(address, get_stake_amount address s)]))"

definition query_stakers_page ::
    "nat \<Rightarrow> nat \<Rightarrow> nat \<Rightarrow> 'l staking \<Rightarrow> (staking_error, (addr \<times> int) list \<times> nat \<times> nat) res" where
  "query_stakers_page max_page_size cursor limit s =
     (let stakers = unwrap_or (sk_stakers s) [];
          total = length stakers;
          page_size = min limit max_page_size;
          start = min cursor total;
          end_idx = min (u_saturating_add 32 start page_size) total in
      bind_res (stakers_page_loop s stakers [start..<end_idx] []) (\<lambda>entries.
      Inr (entries, end_idx, total)))"

section \<open>Administration\<close>

definition staking_check_admin :: "addr \<Rightarrow> 'l staking \<Rightarrow> (staking_error, unit) res" where
  "staking_check_admin admin s =
     bind_res (ok_or (sk_admin s) NotInitialized) (\<lambda>stored_admin.
     if admin \<noteq> stored_admin then Inl (Err Unauthorized) else Inr ())"

definition staking_pause :: "host \<Rightarrow> addr \<Rightarrow> 'l staking \<Rightarrow> (staking_error, 'l staking) res" where
  "staking_pause h admin s =
     bind_res (staking_check_admin admin s) (\<lambda>_.
     map_err (\<lambda>_. ContractPaused) (common_pause h admin s))"

definition staking_unpause :: "host \<Rightarrow> addr \<Rightarrow> 'l staking \<Rightarrow> (staking_error, 'l staking) res" where
  "staking_unpause h admin s =
     bind_res (staking_check_admin admin s) (\<lambda>_.
     map_err (\<lambda>_. ContractPaused) (common_unpause h admin s))"

definition update_admin :: "host \<Rightarrow> addr \<Rightarrow> addr \<Rightarrow> 'l staking \<Rightarrow> (staking_error, 'l staking) res" where
  "update_admin h current_admin new_admin s =
     bind_res (not_paused_or ContractPaused s) (\<lambda>_.
     bind_res (staking_check_admin current_admin s) (\<lambda>_.
     bind_res (require_auth h current_admin) (\<lambda>_.
     Inr (s\<lparr>sk_admin := Some new_admin\<rparr>))))"

section \<open>Slashing and topping up\<close>

definition slash ::
    "host \<Rightarrow> addr \<Rightarrow> addr \<Rightarrow> int \<Rightarrow> 'l staking \<Rightarrow> (staking_error, int \<times> 'l staking) res" where
  "slash h admin user shortfall s =
     bind_res (not_paused_or ContractPaused s) (\<lambda>_.
     bind_res (staking_check_admin admin s) (\<lambda>_.
     bind_res (require_auth h admin) (\<lambda>_.
     bind_res (ok_or (sk_stake s user) NoActiveStake) (\<lambda>pos.
     if shortfall \<le> 0 then Inl (Err InvalidAmount) else
     let slash_amount = (if shortfall \<ge> sp_amount pos then sp_amount pos else shortfall) in
     bind_res (ok_or (i128_checked_sub (sp_amount pos) slash_amount) InsufficientBalance) (\<lambda>new_amount.
     bind_res
       (if new_amount = 0
        then Inr (drop_staker user (s\<lparr>sk_stake := (sk_stake s)(user := None)\<rparr>))
        else
          bind_res (ok_or (i128_checked_mul new_amount (int (multiplier (sp_period pos)))) Overflow)
            (\<lambda>new_voting_power.
            Inr (s\<lparr>sk_stake := (sk_stake s)(user \<mapsto>
              pos\<lparr>sp_amount := new_amount, sp_voting_power := new_voting_power\<rparr>)\<rparr>))) (\<lambda>s.
     let total_staked = unwrap_or (sk_total s) 0 in
     bind_res (ok_or (i128_checked_sub total_staked slash_amount) InsufficientBalance) (\<lambda>new_total.
     Inr (slash_amount, publish (Event ''slashed'' [AddrV user] [IntV slash_amount, IntV shortfall])
       (s\<lparr>sk_total := Some new_total\<rparr>)))))))))"

text \<open>The weighted duration of \<open>top_up\<close>: \<open>u128\<close> arithmetic, saturating, cast back to \<open>u64\<close>.\<close>

definition weighted_duration :: "int \<Rightarrow> nat \<Rightarrow> int \<Rightarrow> nat" where
  "weighted_duration amount elapsed new_amount =
     (if new_amount > 0
      then wrap_u 64 (int (u_saturating_mul 128 (wrap_u 128 amount) elapsed div wrap_u 128 new_amount))
      else 0)"

definition top_up ::
    "'l token_api \<Rightarrow> host \<Rightarrow> addr \<Rightarrow> int \<Rightarrow> 'l staking \<Rightarrow> (staking_error, 'l staking) res" where
  "top_up T h user amount s =
     bind_res (not_paused_or ContractPaused s) (\<lambda>_.
     bind_res (guard_or ReentrantCall s) (\<lambda>s.
     bind_res (require_auth h user) (\<lambda>_.
     if amount \<le> 0 then Inl (Err InvalidAmount) else
     bind_res (ok_or (sk_stake s user) NoActiveStake) (\<lambda>pos.
     if now h > sp_unlock_time pos then Inl (Err StakeNotUnlocked) else
     bind_res (ok_or (sk_token s) NotInitialized) (\<lambda>token_address.
     bind_res (token_transfer T token_address user (self h) amount s) (\<lambda>s.
     bind_res (ok_or (i128_checked_add (sp_amount pos) amount) Overflow) (\<lambda>new_amount.
     bind_res (ok_or (i128_checked_mul new_amount (int (multiplier (sp_period pos)))) Overflow)
       (\<lambda>new_voting_power.
     let elapsed = now h - sp_start_time pos;
         effective_start_time = now h - weighted_duration (sp_amount pos) elapsed new_amount;
         s = s\<lparr>sk_stake := (sk_stake s)(user \<mapsto>
           \<lparr>sp_amount = new_amount, sp_period = sp_period pos, sp_start_time = effective_start_time,
            sp_unlock_time = sp_unlock_time pos, sp_voting_power = new_voting_power,
            sp_start_ledger = sp_start_ledger pos, sp_unlock_ledger = sp_unlock_ledger pos\<rparr>)\<rparr>;
         total_staked = unwrap_or (sk_total s) 0 in
     bind_res (ok_or (i128_checked_add total_staked amount) Overflow) (\<lambda>new_total.
     Inr (guard_leave (publish (Event ''top_up'' [AddrV user]
       [IntV amount, IntV new_amount, NatV (sp_unlock_time pos), IntV new_voting_power])
       (s\<lparr>sk_total := Some new_total\<rparr>))))))))))))"

definition get_time_weighted_amount :: "host \<Rightarrow> addr \<Rightarrow> 'l staking \<Rightarrow> int" where
  "get_time_weighted_amount h user s =
     (case sk_stake s user of
        Some pos \<Rightarrow>
          let total_span = sp_unlock_time pos - sp_start_time pos in
          if total_span = 0 \<or> now h \<le> sp_start_time pos then sp_amount pos
          else
            let elapsed = min (now h - sp_start_time pos) total_span
            in wrap_i128 (int (u_saturating_mul 128 (wrap_u 128 (sp_amount pos)) elapsed div total_span))
      | None \<Rightarrow> 0)"

definition get_slash_notice_period :: "'l staking \<Rightarrow> nat" where
  "get_slash_notice_period s = unwrap_or (sk_notice_period s) 86400"

definition set_slash_notice_period ::
    "host \<Rightarrow> addr \<Rightarrow> nat \<Rightarrow> 'l staking \<Rightarrow> (staking_error, 'l staking) res" where
  "set_slash_notice_period h admin period_seconds s =
     bind_res (not_paused_or ContractPaused s) (\<lambda>_.
     bind_res (staking_check_admin admin s) (\<lambda>_.
     bind_res (require_auth h admin) (\<lambda>_.
     Inr (s\<lparr>sk_notice_period := Some period_seconds\<rparr>))))"

definition get_slash_notice :: "addr \<Rightarrow> 'l staking \<Rightarrow> (int \<times> nat \<times> addr) option" where
  "get_slash_notice user s = sk_notice s user"

definition create_slash_notice ::
    "host \<Rightarrow> addr \<Rightarrow> addr \<Rightarrow> int \<Rightarrow> 'l staking \<Rightarrow> (staking_error, 'l staking) res" where
  "create_slash_notice h admin user amount s =
     bind_res (not_paused_or ContractPaused s) (\<lambda>_.
     bind_res (staking_check_admin admin s) (\<lambda>_.
     bind_res (require_auth h admin) (\<lambda>_.
     if amount \<le> 0 then Inl (Err InvalidAmount) else
     bind_res (ok_or (sk_stake s user) NoActiveStake) (\<lambda>pos.
     if amount > sp_amount pos then Inl (Err InvalidAmount) else
     if sk_notice s user \<noteq> None then Inl (Err SlashNoticePeriodActive) else
     let notice_period = get_slash_notice_period s in
     bind_res (ok_or (u_checked_add 64 (now h) notice_period) Overflow) (\<lambda>notice_until.
     Inr (publish (Event ''slash_notice'' [AddrV admin] [AddrV user, IntV amount, NatV notice_until])
       (s\<lparr>sk_notice := (sk_notice s)(user \<mapsto> (amount, notice_until, admin))\<rparr>)))))))"

definition cancel_slash :: "host \<Rightarrow> addr \<Rightarrow> addr \<Rightarrow> 'l staking \<Rightarrow> (staking_error, 'l staking) res" where
  "cancel_slash h admin user s =
     bind_res (not_paused_or ContractPaused s) (\<lambda>_.
     bind_res (staking_check_admin admin s) (\<lambda>_.
     bind_res (require_auth h admin) (\<lambda>_.
     bind_res (ok_or (sk_notice s user) NoActiveSlashNotice) (\<lambda>(amount, notice_until, executor).
     if now h \<ge> notice_until then Inl (Err SlashNoticeExpired) else
     Inr (publish (Event ''slash_cancelled'' [AddrV admin] [AddrV user, IntV amount])
       (s\<lparr>sk_notice := (sk_notice s)(user := None)\<rparr>))))))"

definition execute_slash :: "host \<Rightarrow> addr \<Rightarrow> addr \<Rightarrow> 'l staking \<Rightarrow> (staking_error, 'l staking) res" where
  "execute_slash h admin user s =
     bind_res (not_paused_or ContractPaused s) (\<lambda>_.
     bind_res (staking_check_admin admin s) (\<lambda>_.
     bind_res (require_auth h admin) (\<lambda>_.
     bind_res (ok_or (sk_notice s user) NoActiveSlashNotice) (\<lambda>(slash_amount, notice_until, executor).
     if now h < notice_until then Inl (Err SlashNoticePeriodActive) else
     bind_res (ok_or (sk_stake s user) NoActiveStake) (\<lambda>pos.
     bind_res (map_err (\<lambda>_. InvalidAmount) (safe_sub (sp_amount pos) slash_amount)) (\<lambda>new_amount.
     let pos = pos\<lparr>sp_amount := new_amount,
           sp_voting_power := wrap_i128 (new_amount * int (multiplier (sp_period pos)))\<rparr>;
         s = s\<lparr>sk_stake := (sk_stake s)(user \<mapsto> pos)\<rparr>;
         total_staked = unwrap_or (sk_total s) 0 in
     bind_res (map_err (\<lambda>_. InvalidAmount) (safe_sub total_staked slash_amount)) (\<lambda>new_total.
     Inr (publish (Event ''slash_executed'' [AddrV admin] [AddrV user, IntV slash_amount])
       (s\<lparr>sk_total := Some new_total, sk_notice := (sk_notice s)(user := None)\<rparr>)))))))))"

section \<open>The contract as a state machine\<close>

datatype sk_op =
    SkInit addr addr
  | Stake addr int nat
  | Unstake addr
  | Claim addr
  | SkPause addr
  | SkUnpause addr
  | UpdateAdmin addr addr
  | Slash addr addr int
  | TopUp addr int
  | SetNoticePeriod addr nat
  | CreateNotice addr addr int
  | CancelNotice addr addr
  | ExecuteSlash addr addr

fun sk_exec :: "'l token_api \<Rightarrow> host \<Rightarrow> sk_op \<Rightarrow> 'l staking \<Rightarrow> (staking_error, 'l staking) res" where
  "sk_exec T h (SkInit a t) s = staking_init h a t s"
| "sk_exec T h (Stake u x p) s = stake T h u x p s"
| "sk_exec T h (Unstake u) s = unstake h u s"
| "sk_exec T h (Claim u) s = claim T h u s"
| "sk_exec T h (SkPause a) s = staking_pause h a s"
| "sk_exec T h (SkUnpause a) s = staking_unpause h a s"
| "sk_exec T h (UpdateAdmin a b) s = update_admin h a b s"
| "sk_exec T h (Slash a u x) s = bind_res (slash h a u x s) (\<lambda>(_, s). Inr s)"
| "sk_exec T h (TopUp u x) s = top_up T h u x s"
| "sk_exec T h (SetNoticePeriod a p) s = set_slash_notice_period h a p s"
| "sk_exec T h (CreateNotice a u x) s = create_slash_notice h a u x s"
| "sk_exec T h (CancelNotice a u) s = cancel_slash h a u s"
| "sk_exec T h (ExecuteSlash a u) s = execute_slash h a u s"

text \<open>
  Runs of a staking contract at the address \<open>me\<close>: calls of every entry point that changes state, as far
  as \<open>P\<close> admits them, with transfers by other accounts in between; the contract never authorizes its own
  entry points as a user. A repeated call of \<open>init\<close> is a call like the others, since the code accepts it;
  \<open>P\<close> is how a property says which calls it needs to leave out, and \<open>\<lambda>_. True\<close> leaves out none.
\<close>

inductive sk_run :: "'l token_api \<Rightarrow> (sk_op \<Rightarrow> bool) \<Rightarrow> addr \<Rightarrow> 'l staking \<Rightarrow> 'l staking \<Rightarrow> bool"
  for T :: "'l token_api" and P :: "sk_op \<Rightarrow> bool" and me :: addr where
  sk_refl: "sk_run T P me s s"
| sk_call: "sk_run T P me s s1 \<Longrightarrow> P op \<Longrightarrow> self h = me \<Longrightarrow> \<not> authorized h me \<Longrightarrow>
    sk_exec T h op s1 = Inr s2 \<Longrightarrow> sk_run T P me s s2"
| sk_env: "sk_run T P me s s1 \<Longrightarrow> a \<noteq> me \<Longrightarrow> tk_transfer T (cb_ledger s1) t a b x = Some l \<Longrightarrow>
    sk_run T P me s (s1\<lparr>cb_ledger := l\<rparr>)"

section \<open>What the operations do on success\<close>

lemma publish_staking [simp]:
  "sk_admin (publish ev s) = sk_admin s" "sk_token (publish ev s) = sk_token s"
  "sk_stake (publish ev s) = sk_stake s" "sk_unbonding (publish ev s) = sk_unbonding s"
  "sk_total (publish ev s) = sk_total s" "sk_stakers (publish ev s) = sk_stakers s"
  "sk_notice (publish ev s) = sk_notice s" "sk_notice_period (publish ev s) = sk_notice_period s"
  by (simp_all add: publish_def)

lemma guard_leave_staking [simp]:
  "sk_admin (guard_leave s) = sk_admin s" "sk_token (guard_leave s) = sk_token s"
  "sk_stake (guard_leave s) = sk_stake s" "sk_unbonding (guard_leave s) = sk_unbonding s"
  "sk_total (guard_leave s) = sk_total s" "sk_stakers (guard_leave s) = sk_stakers s"
  "sk_notice (guard_leave s) = sk_notice s" "cb_ledger (guard_leave s) = cb_ledger s"
  "cb_reent (guard_leave s) = Some False"
  by (simp_all add: guard_leave_def)

lemma staking_check_admin_Inr [res_simps]: "staking_check_admin a s = Inr u \<longleftrightarrow> sk_admin s = Some a"
  by (auto simp: staking_check_admin_def res_simps)

lemmas staking_gets = get_total_staked_def get_all_stakers_def

text \<open>The part of the state a step of the registry leaves alone.\<close>

definition staking_frame :: "'l staking \<Rightarrow> 'l staking \<Rightarrow> bool" where
  "staking_frame s s' \<longleftrightarrow> sk_token s' = sk_token s \<and> sk_notice s' = sk_notice s"

lemma stake_InrD:
  assumes "stake T h u x p s = Inr s'"
  shows "\<exists>period t. period_from_u32 p = Some period \<and> sk_token s = Some t
    \<and> tk_transfer T (cb_ledger s) t u (self h) x = Some (cb_ledger s')
    \<and> authorized h u \<and> MIN_STAKE_AMOUNT \<le> x \<and> sk_stake s u = None \<and> \<not> is_paused s
    \<and> in_i128 (x * int (multiplier period))
    \<and> sk_stake s' = (sk_stake s)(u \<mapsto> \<lparr>sp_amount = x, sp_period = period,
         sp_start_time = now h, sp_unlock_time = now h + as_seconds period,
         sp_voting_power = x * int (multiplier period), sp_start_ledger = seq h,
         sp_unlock_ledger = seq h + wrap_u 32 (int (as_seconds period div 5))\<rparr>)
    \<and> sk_unbonding s' = sk_unbonding s
    \<and> get_total_staked s' = get_total_staked s + x
    \<and> get_all_stakers s' = get_all_stakers s @ [u] \<and> staking_frame s s'
    \<and> cb_reent s \<noteq> Some True \<and> cb_reent s' = Some False"
  using assms
  by (clarsimp simp: stake_def res_simps int_simps Let_def staking_gets staking_frame_def not_less)

lemma unstake_InrD:
  assumes "unstake h u s = Inr s'"
  shows "\<exists>pos. sk_stake s u = Some pos \<and> authorized h u \<and> sp_unlock_time pos \<le> now h \<and> \<not> is_paused s
    \<and> sk_stake s' = (sk_stake s)(u := None)
    \<and> sk_unbonding s' = (sk_unbonding s)(u \<mapsto> \<lparr>ub_amount = sp_amount pos,
         ub_start_time = now h, ub_claimable_time = now h + UNBONDING_PERIOD_SECONDS\<rparr>)
    \<and> get_total_staked s' = get_total_staked s - sp_amount pos
    \<and> get_all_stakers s' = vec_without u (get_all_stakers s) \<and> staking_frame s s'
    \<and> cb_reent s' = cb_reent s \<and> cb_ledger s' = cb_ledger s"
  using assms
  by (clarsimp simp: unstake_def res_simps int_simps Let_def staking_gets staking_frame_def not_less
      drop_staker_def is_period_elapsed_def)

lemma claim_InrD:
  assumes "claim T h u s = Inr s'"
  shows "\<exists>t ub. sk_unbonding s u = Some ub \<and> sk_token s = Some t \<and> authorized h u \<and> \<not> is_paused s
    \<and> ub_claimable_time ub \<le> now h
    \<and> tk_transfer T (cb_ledger s) t (self h) u (ub_amount ub) = Some (cb_ledger s')
    \<and> sk_stake s' = sk_stake s \<and> sk_unbonding s' = (sk_unbonding s)(u := None)
    \<and> get_total_staked s' = get_total_staked s \<and> get_all_stakers s' = get_all_stakers s
    \<and> staking_frame s s' \<and> cb_reent s \<noteq> Some True \<and> cb_reent s' = Some False"
  using assms
  by (clarsimp simp: claim_def res_simps int_simps Let_def staking_gets staking_frame_def not_less
      is_period_elapsed_def)

lemma slash_InrD:
  assumes "slash h a u x s = Inr (v, s')"
  shows "\<exists>pos. sk_stake s u = Some pos \<and> sk_admin s = Some a \<and> authorized h a \<and> 0 < x \<and> \<not> is_paused s
    \<and> v = min x (sp_amount pos)
    \<and> (if v = sp_amount pos
       then sk_stake s' = (sk_stake s)(u := None) \<and> get_all_stakers s' = vec_without u (get_all_stakers s)
       else in_i128 ((sp_amount pos - v) * int (multiplier (sp_period pos)))
         \<and> sk_stake s' = (sk_stake s)(u \<mapsto> pos\<lparr>sp_amount := sp_amount pos - v,
             sp_voting_power := (sp_amount pos - v) * int (multiplier (sp_period pos))\<rparr>)
         \<and> get_all_stakers s' = get_all_stakers s)
    \<and> sk_unbonding s' = sk_unbonding s \<and> get_total_staked s' = get_total_staked s - v
    \<and> staking_frame s s' \<and> cb_reent s' = cb_reent s \<and> cb_ledger s' = cb_ledger s"
proof -
  from assms obtain pos where pos: "sk_stake s u = Some pos" by (auto simp: slash_def res_simps)
  show ?thesis
  proof (cases "sp_amount pos \<le> x")
    case True
    with assms pos show ?thesis
      by (intro exI [of _ pos]) (clarsimp simp: slash_def res_simps int_simps Let_def staking_gets
        staking_frame_def drop_staker_def)
  next
    case False
    with assms pos show ?thesis
      by (intro exI [of _ pos]) (clarsimp simp: slash_def res_simps int_simps Let_def staking_gets
        staking_frame_def)
  qed
qed

lemma stake_position_update:
  "\<lparr>sp_amount = a, sp_period = sp_period p, sp_start_time = t, sp_unlock_time = sp_unlock_time p,
    sp_voting_power = v, sp_start_ledger = sp_start_ledger p, sp_unlock_ledger = sp_unlock_ledger p\<rparr>
   = p\<lparr>sp_amount := a, sp_start_time := t, sp_voting_power := v\<rparr>"
  by (cases p) simp

lemma top_up_InrD:
  assumes "top_up T h u x s = Inr s'"
  shows "\<exists>t pos. sk_stake s u = Some pos \<and> sk_token s = Some t \<and> authorized h u \<and> 0 < x \<and> \<not> is_paused s
    \<and> now h \<le> sp_unlock_time pos
    \<and> tk_transfer T (cb_ledger s) t u (self h) x = Some (cb_ledger s')
    \<and> in_i128 (sp_amount pos + x) \<and> in_i128 ((sp_amount pos + x) * int (multiplier (sp_period pos)))
    \<and> sk_stake s' = (sk_stake s)(u \<mapsto> pos\<lparr>sp_amount := sp_amount pos + x,
         sp_start_time := now h - weighted_duration (sp_amount pos) (now h - sp_start_time pos) (sp_amount pos + x),
         sp_voting_power := (sp_amount pos + x) * int (multiplier (sp_period pos))\<rparr>)
    \<and> sk_unbonding s' = sk_unbonding s \<and> get_total_staked s' = get_total_staked s + x
    \<and> get_all_stakers s' = get_all_stakers s \<and> staking_frame s s'
    \<and> cb_reent s \<noteq> Some True \<and> cb_reent s' = Some False"
  using assms
  by (clarsimp simp: top_up_def stake_position_update res_simps int_simps Let_def staking_gets staking_frame_def not_less)

lemma execute_slash_InrD:
  assumes "execute_slash h a u s = Inr s'"
  shows "\<exists>pos v n e. sk_stake s u = Some pos \<and> sk_notice s u = Some (v, n, e) \<and> n \<le> now h
    \<and> sk_admin s = Some a \<and> authorized h a \<and> \<not> is_paused s
    \<and> sk_stake s' = (sk_stake s)(u \<mapsto> pos\<lparr>sp_amount := sp_amount pos - v,
        sp_voting_power := wrap_i128 ((sp_amount pos - v) * int (multiplier (sp_period pos)))\<rparr>)
    \<and> sk_unbonding s' = sk_unbonding s \<and> get_total_staked s' = get_total_staked s - v
    \<and> get_all_stakers s' = get_all_stakers s \<and> sk_token s' = sk_token s
    \<and> sk_notice s' = (sk_notice s)(u := None) \<and> cb_reent s' = cb_reent s \<and> cb_ledger s' = cb_ledger s"
  using assms
  by (clarsimp simp: execute_slash_def res_simps int_simps Let_def staking_gets not_less)

text \<open>The other operations touch neither positions nor tokens.\<close>

definition same_positions :: "'l staking \<Rightarrow> 'l staking \<Rightarrow> bool" where
  "same_positions s s' \<longleftrightarrow> sk_stake s' = sk_stake s \<and> sk_unbonding s' = sk_unbonding s
     \<and> sk_total s' = sk_total s \<and> sk_stakers s' = sk_stakers s \<and> sk_token s' = sk_token s
     \<and> cb_reent s' = cb_reent s \<and> cb_ledger s' = cb_ledger s"

lemma staking_admin_ops:
  "staking_pause h a s = Inr s' \<Longrightarrow> same_positions s s' \<and> sk_notice s' = sk_notice s"
  "staking_unpause h a s = Inr s' \<Longrightarrow> same_positions s s' \<and> sk_notice s' = sk_notice s"
  "update_admin h a b s = Inr s' \<Longrightarrow> same_positions s s' \<and> sk_notice s' = sk_notice s"
  "set_slash_notice_period h a p s = Inr s' \<Longrightarrow> same_positions s s' \<and> sk_notice s' = sk_notice s"
  "create_slash_notice h a u x s = Inr s' \<Longrightarrow> same_positions s s'
     \<and> (\<exists>t. sk_notice s' = (sk_notice s)(u \<mapsto> (x, t, a))) \<and> 0 < x"
  "cancel_slash h a u s = Inr s' \<Longrightarrow> same_positions s s' \<and> sk_notice s' = (sk_notice s)(u := None)"
  by (auto simp: staking_pause_def staking_unpause_def common_pause_def common_unpause_def
      update_admin_def set_slash_notice_period_def create_slash_notice_def cancel_slash_def
      same_positions_def res_simps int_simps Let_def not_le split: if_splits)

section \<open>The registry invariant\<close>

definition position_ok :: "stake_position \<Rightarrow> bool" where
  "position_ok p \<longleftrightarrow> (0 \<le> sp_amount p \<longrightarrow> in_i128 (sp_amount p * int (multiplier (sp_period p)))
     \<and> sp_voting_power p = sp_amount p * int (multiplier (sp_period p)))"

definition notices_ok :: "(addr \<rightharpoonup> int \<times> nat \<times> addr) \<Rightarrow> bool" where
  "notices_ok m \<longleftrightarrow> (\<forall>u v n e. m u = Some (v, n, e) \<longrightarrow> 0 < v)"

lemma notices_ok_upd: "notices_ok m \<Longrightarrow> 0 < v \<Longrightarrow> notices_ok (m(u \<mapsto> (v, n, e)))"
  by (simp add: notices_ok_def)

lemma notices_ok_del: "notices_ok m \<Longrightarrow> notices_ok (m(u := None))"
  by (simp add: notices_ok_def)

lemma notices_okD: "notices_ok m \<Longrightarrow> m u = Some (v, n, e) \<Longrightarrow> 0 < v"
  unfolding notices_ok_def by blast

text \<open>
  The part behind \<open>b\<close>, that the total is the sum and every staker is listed, is what a second call of \<open>init\<close>
  breaks: it resets both and leaves the positions.
\<close>

definition registry_inv :: "bool \<Rightarrow> 'l staking \<Rightarrow> bool" where
  "registry_inv b s \<longleftrightarrow> finite (dom (sk_stake s)) \<and> finite (dom (sk_unbonding s))
     \<and> distinct (get_all_stakers s) \<and> set (get_all_stakers s) \<subseteq> dom (sk_stake s)
     \<and> (b \<longrightarrow> get_total_staked s = msum sp_amount (sk_stake s)
          \<and> dom (sk_stake s) \<subseteq> set (get_all_stakers s))
     \<and> (\<forall>u p. sk_stake s u = Some p \<longrightarrow> position_ok p)
     \<and> notices_ok (sk_notice s) \<and> cb_reent s \<noteq> Some True"

text \<open>What the contract owes: every position that is not negative, staked or unbonding.\<close>

definition obligations :: "'l staking \<Rightarrow> int" where
  "obligations s = msum (\<lambda>p. max 0 (sp_amount p)) (sk_stake s)
     + msum (\<lambda>b. max 0 (ub_amount b)) (sk_unbonding s)"

lemma registry_inv_same:
  "same_positions s s' \<Longrightarrow> notices_ok (sk_notice s') \<Longrightarrow>
     registry_inv b s \<Longrightarrow> registry_inv b s'"
  by (simp add: registry_inv_def same_positions_def staking_gets)

lemma stake_registry:
  assumes inv: "registry_inv b s" and ex: "stake T h u x p s = Inr s'"
  shows "registry_inv b s' \<and> obligations s' = obligations s + x"
proof -
  from stake_InrD [OF ex] obtain period pos where
    new: "sk_stake s u = None" "MIN_STAKE_AMOUNT \<le> x" "sk_stake s' = (sk_stake s)(u \<mapsto> pos)"
      "sp_amount pos = x" "position_ok pos"
    and rest: "sk_unbonding s' = sk_unbonding s" "get_total_staked s' = get_total_staked s + x"
      "get_all_stakers s' = get_all_stakers s @ [u]" "staking_frame s s'" "cb_reent s' = Some False"
    by (auto simp: position_ok_def)
  from inv have fin: "finite (dom (sk_stake s))" by (simp add: registry_inv_def)
  have "0 < x" using new(2) by (simp add: MIN_STAKE_AMOUNT_def)
  then have "obligations s' = obligations s + x"
    using msum_upd [OF fin, of "\<lambda>p. max 0 (sp_amount p)" u pos] new rest(1) by (simp add: obligations_def)
  moreover have "registry_inv b s'"
    using inv new rest msum_upd [OF fin, of sp_amount u pos]
    by (auto simp: registry_inv_def staking_frame_def)
  ultimately show ?thesis by simp
qed

lemma unstake_registry:
  assumes inv: "registry_inv b s" and ex: "unstake h u s = Inr s'"
  shows "registry_inv b s' \<and> obligations s' \<le> obligations s"
proof -
  let ?ub = "\<lambda>pos. \<lparr>ub_amount = sp_amount pos, ub_start_time = now h,
    ub_claimable_time = now h + UNBONDING_PERIOD_SECONDS\<rparr>"
  from unstake_InrD [OF ex] obtain pos where
    old: "sk_stake s u = Some pos"
    and s': "sk_stake s' = (sk_stake s)(u := None)" "sk_unbonding s' = (sk_unbonding s)(u \<mapsto> ?ub pos)"
      "get_total_staked s' = get_total_staked s - sp_amount pos"
      "get_all_stakers s' = vec_without u (get_all_stakers s)" "staking_frame s s'" "cb_reent s' = cb_reent s"
    by auto
  from inv have fin: "finite (dom (sk_stake s))" "finite (dom (sk_unbonding s))"
    by (simp_all add: registry_inv_def)
  have "0 \<le> opt_val (\<lambda>b. max 0 (ub_amount b)) (sk_unbonding s u)" by (cases "sk_unbonding s u") simp_all
  then have "obligations s' \<le> obligations s"
    using msum_del [OF fin(1), of "\<lambda>p. max 0 (sp_amount p)" u]
      msum_upd [OF fin(2), of "\<lambda>b. max 0 (ub_amount b)" u "?ub pos"] old s'(1,2)
    by (simp add: obligations_def)
  moreover have "registry_inv b s'"
    using inv s' old msum_del [OF fin(1), of sp_amount u] distinct_vec_without [of "get_all_stakers s" u]
    by (auto simp: registry_inv_def staking_frame_def split: if_splits)
  ultimately show ?thesis by simp
qed

lemma claim_registry:
  assumes inv: "registry_inv b s" and ex: "claim T h u s = Inr s'"
  shows "registry_inv b s' \<and> (\<exists>ub. sk_unbonding s u = Some ub
    \<and> obligations s' = obligations s - max 0 (ub_amount ub))"
proof -
  from claim_InrD [OF ex] obtain ub where
    old: "sk_unbonding s u = Some ub"
    and s': "sk_stake s' = sk_stake s" "sk_unbonding s' = (sk_unbonding s)(u := None)"
      "get_total_staked s' = get_total_staked s" "get_all_stakers s' = get_all_stakers s"
      "staking_frame s s'" "cb_reent s' = Some False"
    by auto
  from inv have fin: "finite (dom (sk_unbonding s))" by (simp add: registry_inv_def)
  have "obligations s' = obligations s - max 0 (ub_amount ub)"
    using msum_del [OF fin, of "\<lambda>b. max 0 (ub_amount b)" u] old s'(1,2) by (simp add: obligations_def)
  moreover have "registry_inv b s'" using inv s' by (simp add: registry_inv_def staking_frame_def)
  ultimately show ?thesis using old by simp
qed

text \<open>Replacing one position by another with the same period.\<close>

lemma replace_position:
  assumes inv: "registry_inv b s" and old: "sk_stake s u = Some pos"
    and s': "sk_stake s' = (sk_stake s)(u \<mapsto> pos')" "sk_unbonding s' = sk_unbonding s"
      "get_total_staked s' = get_total_staked s + (sp_amount pos' - sp_amount pos)"
      "get_all_stakers s' = get_all_stakers s" "cb_reent s' \<noteq> Some True"
    and n: "notices_ok (sk_notice s')" and ok: "position_ok pos'"
  shows "registry_inv b s' \<and> obligations s' = obligations s - max 0 (sp_amount pos) + max 0 (sp_amount pos')"
proof -
  from inv have fin: "finite (dom (sk_stake s))" by (simp add: registry_inv_def)
  have "obligations s' = obligations s - max 0 (sp_amount pos) + max 0 (sp_amount pos')"
    using msum_upd [OF fin, of "\<lambda>p. max 0 (sp_amount p)" u pos'] old s'(1,2) by (simp add: obligations_def)
  moreover have "registry_inv b s'"
    using inv s' n ok old msum_upd [OF fin, of sp_amount u pos'] by (auto simp: registry_inv_def)
  ultimately show ?thesis by simp
qed

lemma slash_registry:
  assumes inv: "registry_inv b s" and ex: "slash h a u x s = Inr (v, s')"
  shows "registry_inv b s' \<and> obligations s' \<le> obligations s"
proof -
  from slash_InrD [OF ex] obtain pos where old: "sk_stake s u = Some pos" and x: "0 < x"
    and v: "v = min x (sp_amount pos)"
    and upd: "if v = sp_amount pos
       then sk_stake s' = (sk_stake s)(u := None) \<and> get_all_stakers s' = vec_without u (get_all_stakers s)
       else in_i128 ((sp_amount pos - v) * int (multiplier (sp_period pos)))
         \<and> sk_stake s' = (sk_stake s)(u \<mapsto> pos\<lparr>sp_amount := sp_amount pos - v,
             sp_voting_power := (sp_amount pos - v) * int (multiplier (sp_period pos))\<rparr>)
         \<and> get_all_stakers s' = get_all_stakers s"
    and s': "sk_unbonding s' = sk_unbonding s" "get_total_staked s' = get_total_staked s - v"
      "staking_frame s s'" "cb_reent s' = cb_reent s"
    by auto
  from inv have fin: "finite (dom (sk_stake s))" and ns: "notices_ok (sk_notice s')"
    and re: "cb_reent s' \<noteq> Some True"
    using s'(3,4) by (simp_all add: registry_inv_def staking_frame_def)
  show ?thesis
  proof (cases "v = sp_amount pos")
    case True
    with upd have u: "sk_stake s' = (sk_stake s)(u := None)"
      "get_all_stakers s' = vec_without u (get_all_stakers s)" by simp_all
    have "obligations s' \<le> obligations s"
      using msum_del [OF fin, of "\<lambda>p. max 0 (sp_amount p)" u] old u(1) s'(1) by (simp add: obligations_def)
    moreover have "registry_inv b s'"
      using inv u s' ns re old True msum_del [OF fin, of sp_amount u]
        distinct_vec_without [of "get_all_stakers s" u]
      by (auto simp: registry_inv_def split: if_splits)
    ultimately show ?thesis by simp
  next
    case False
    let ?p = "pos\<lparr>sp_amount := sp_amount pos - v,
      sp_voting_power := (sp_amount pos - v) * int (multiplier (sp_period pos))\<rparr>"
    from False upd have u: "sk_stake s' = (sk_stake s)(u \<mapsto> ?p)"
      "get_all_stakers s' = get_all_stakers s" "position_ok ?p" by (simp_all add: position_ok_def)
    have "registry_inv b s' \<and> obligations s' = obligations s - max 0 (sp_amount pos) + max 0 (sp_amount ?p)"
      by (rule replace_position [OF inv old u(1) s'(1) _ u(2) re ns u(3)]) (use s'(2) in simp)
    moreover from False v x have "0 < v" by (simp add: min_def split: if_splits)
    ultimately show ?thesis by simp
  qed
qed

lemma top_up_registry:
  assumes inv: "registry_inv b s" and ex: "top_up T h u x s = Inr s'"
  shows "registry_inv b s' \<and> obligations s' \<le> obligations s + x"
proof -
  from top_up_InrD [OF ex] obtain pos st where old: "sk_stake s u = Some pos" and x: "0 < x"
    and rng: "in_i128 ((sp_amount pos + x) * int (multiplier (sp_period pos)))"
    and u: "sk_stake s' = (sk_stake s)(u \<mapsto> pos\<lparr>sp_amount := sp_amount pos + x, sp_start_time := st,
         sp_voting_power := (sp_amount pos + x) * int (multiplier (sp_period pos))\<rparr>)"
    and s': "sk_unbonding s' = sk_unbonding s" "get_total_staked s' = get_total_staked s + x"
      "get_all_stakers s' = get_all_stakers s" "staking_frame s s'" "cb_reent s' = Some False"
    by auto
  let ?p = "pos\<lparr>sp_amount := sp_amount pos + x, sp_start_time := st,
         sp_voting_power := (sp_amount pos + x) * int (multiplier (sp_period pos))\<rparr>"
  have ns: "notices_ok (sk_notice s')"
    using inv s'(4) by (simp add: registry_inv_def staking_frame_def)
  have "registry_inv b s' \<and> obligations s' = obligations s - max 0 (sp_amount pos) + max 0 (sp_amount ?p)"
    by (rule replace_position [OF inv old u s'(1) _ s'(3) _ ns])
      (use s'(2,5) rng in \<open>simp_all add: position_ok_def\<close>)
  with x show ?thesis by simp
qed

lemma execute_slash_registry:
  assumes inv: "registry_inv b s" and ex: "execute_slash h a u s = Inr s'"
  shows "registry_inv b s' \<and> obligations s' \<le> obligations s"
proof -
  from execute_slash_InrD [OF ex] obtain pos v n e where old: "sk_stake s u = Some pos"
    and nt: "sk_notice s u = Some (v, n, e)"
    and u: "sk_stake s' = (sk_stake s)(u \<mapsto> pos\<lparr>sp_amount := sp_amount pos - v,
        sp_voting_power := wrap_i128 ((sp_amount pos - v) * int (multiplier (sp_period pos)))\<rparr>)"
    and s': "sk_unbonding s' = sk_unbonding s" "get_total_staked s' = get_total_staked s - v"
      "get_all_stakers s' = get_all_stakers s" "sk_notice s' = (sk_notice s)(u := None)"
      "cb_reent s' = cb_reent s"
    by auto
  let ?p = "pos\<lparr>sp_amount := sp_amount pos - v,
    sp_voting_power := wrap_i128 ((sp_amount pos - v) * int (multiplier (sp_period pos)))\<rparr>"
  from inv nt have v: "0 < v" unfolding registry_inv_def by (blast dest: notices_okD)
  have ok: "position_ok ?p"
  proof (cases "0 \<le> sp_amount pos - v")
    case True
    with v inv old have "in_i128 (sp_amount pos * int (multiplier (sp_period pos)))"
      by (auto simp: registry_inv_def position_ok_def)
    moreover have "(sp_amount pos - v) * int (multiplier (sp_period pos))
        \<le> sp_amount pos * int (multiplier (sp_period pos))"
      by (rule mult_right_mono) (use v in simp_all)
    ultimately have "in_i128 ((sp_amount pos - v) * int (multiplier (sp_period pos)))"
      using True in_i128_mono by simp
    then show ?thesis by (simp add: position_ok_def)
  next
    case False
    then show ?thesis by (simp add: position_ok_def)
  qed
  have ns: "notices_ok (sk_notice s')"
    using inv s'(4) by (simp add: registry_inv_def notices_ok_del)
  have "registry_inv b s' \<and> obligations s' = obligations s - max 0 (sp_amount pos) + max 0 (sp_amount ?p)"
    by (rule replace_position [OF inv old u s'(1) _ s'(3) _ ns ok])
      (use s'(2,5) inv in \<open>simp_all add: registry_inv_def\<close>)
  with v show ?thesis by simp
qed

lemma staking_init_InrD:
  assumes "staking_init h a t s = Inr s'"
  shows "sk_token s' = Some t \<and> sk_stake s' = sk_stake s \<and> sk_unbonding s' = sk_unbonding s
    \<and> sk_notice s' = sk_notice s \<and> cb_reent s' = cb_reent s \<and> cb_ledger s' = cb_ledger s
    \<and> get_total_staked s' = 0 \<and> get_all_stakers s' = [] \<and> sk_admin s' = Some a \<and> authorized h a"
  using assms by (auto simp: staking_init_def res_simps staking_gets)

lemma registry_step:
  assumes inv: "registry_inv b s" and ex: "sk_exec T h op s = Inr s'"
    and re: "\<And>a t. op = SkInit a t \<Longrightarrow> \<not> b"
  shows "registry_inv b s'"
proof (cases op)
  case (SkInit a t)
  with ex have "staking_init h a t s = Inr s'" by simp
  from staking_init_InrD [OF this] inv re [OF SkInit] show ?thesis by (simp add: registry_inv_def)
next
  case (CreateNotice a u x)
  with ex have "create_slash_notice h a u x s = Inr s'" by simp
  from staking_admin_ops(5) [OF this] obtain t where same: "same_positions s s'"
    and n: "sk_notice s' = (sk_notice s)(u \<mapsto> (x, t, a))" and x: "0 < x" by blast
  have "notices_ok (sk_notice s')"
    unfolding n by (rule notices_ok_upd) (use inv x in \<open>simp_all add: registry_inv_def\<close>)
  with same inv show ?thesis by (blast intro: registry_inv_same)
next
  case (CancelNotice a u)
  with ex have "cancel_slash h a u s = Inr s'" by simp
  from staking_admin_ops(6) [OF this] have same: "same_positions s s'"
    and n: "sk_notice s' = (sk_notice s)(u := None)" by blast+
  have "notices_ok (sk_notice s')"
    unfolding n by (rule notices_ok_del) (use inv in \<open>simp add: registry_inv_def\<close>)
  with same inv show ?thesis by (blast intro: registry_inv_same)
next
  case (Stake u x p)
  with ex stake_registry [OF inv, of T h u x p s'] show ?thesis by simp
next
  case (Unstake u)
  with ex unstake_registry [OF inv, of h u s'] show ?thesis by simp
next
  case (Claim u)
  with ex claim_registry [OF inv, of T h u s'] show ?thesis by simp
next
  case (Slash a u x)
  with ex slash_registry [OF inv, of h a u x _ s'] show ?thesis by (auto simp: bind_res_Inr)
next
  case (TopUp u x)
  with ex top_up_registry [OF inv, of T h u x s'] show ?thesis by simp
next
  case (ExecuteSlash a u)
  with ex execute_slash_registry [OF inv, of h a u s'] show ?thesis by simp
next
  case (SkPause a)
  with ex have "staking_pause h a s = Inr s'" by simp
  from staking_admin_ops(1) [OF this] inv registry_inv_same [of s s' b] show ?thesis
    by (simp add: registry_inv_def)
next
  case (SkUnpause a)
  with ex have "staking_unpause h a s = Inr s'" by simp
  from staking_admin_ops(2) [OF this] inv registry_inv_same [of s s' b] show ?thesis
    by (simp add: registry_inv_def)
next
  case (UpdateAdmin a w)
  with ex have "update_admin h a w s = Inr s'" by simp
  from staking_admin_ops(3) [OF this] inv registry_inv_same [of s s' b] show ?thesis
    by (simp add: registry_inv_def)
next
  case (SetNoticePeriod a p)
  with ex have "set_slash_notice_period h a p s = Inr s'" by simp
  from staking_admin_ops(4) [OF this] inv registry_inv_same [of s s' b] show ?thesis
    by (simp add: registry_inv_def)
qed

lemma registry_run:
  "sk_run T P me s s' \<Longrightarrow> registry_inv b s \<Longrightarrow> (\<And>a t. P (SkInit a t) \<Longrightarrow> \<not> b) \<Longrightarrow> registry_inv b s'"
proof (induction rule: sk_run.induct)
  case (sk_call s s1 op h s2)
  then show ?case using registry_step [of b s1 T h op s2] by blast
next
  case (sk_env s s1 a t b' x l)
  then show ?case by (simp add: registry_inv_def staking_gets)
qed simp

lemma staking_init_registry:
  assumes "staking_init h a t (staking_empty l) = Inr s"
  shows "registry_inv b s \<and> obligations s = 0 \<and> sk_token s = Some t \<and> cb_ledger s = l"
  using assms
  by (auto simp: staking_init_def res_simps registry_inv_def obligations_def staking_empty_def staking_gets
      notices_ok_def)

definition staking_solvent :: "'l token_api \<Rightarrow> addr \<Rightarrow> 'l staking \<Rightarrow> bool" where
  "staking_solvent T me s \<longleftrightarrow>
     (\<forall>t. sk_token s = Some t \<longrightarrow> obligations s \<le> tk_balance T (cb_ledger s) t me)"

lemma solvent_mono:
  "staking_solvent T me s \<Longrightarrow> obligations s' \<le> obligations s \<Longrightarrow> sk_token s' = sk_token s \<Longrightarrow>
     cb_ledger s' = cb_ledger s \<Longrightarrow> staking_solvent T me s'"
  by (force simp: staking_solvent_def)

lemma solvent_same: "same_positions s s' \<Longrightarrow> staking_solvent T me s \<Longrightarrow> staking_solvent T me s'"
  by (simp add: staking_solvent_def same_positions_def obligations_def)

lemma sk_step_token:
  assumes ex: "sk_exec T h op s = Inr s'"
  shows "sk_token s' = (case op of SkInit a t \<Rightarrow> Some t | _ \<Rightarrow> sk_token s)"
proof (cases op)
  case (Slash a u x)
  with ex show ?thesis by (auto simp: bind_res_Inr staking_frame_def dest!: slash_InrD)
qed (use ex in \<open>auto simp: staking_frame_def same_positions_def dest!: staking_init_InrD stake_InrD
    unstake_InrD claim_InrD top_up_InrD execute_slash_InrD staking_admin_ops\<close>)

context sep41
begin

lemma staking_step_solvent:
  assumes ok: "ok (cb_ledger s)" and inv: "registry_inv b s" "staking_solvent T me s"
    and me: "self h = me" and au: "\<not> authorized h me" and ex: "sk_exec T h op s = Inr s'"
    and re: "\<And>a t. op = SkInit a t \<Longrightarrow> sk_token s = Some t"
  shows "ok (cb_ledger s') \<and> staking_solvent T me s'"
proof (cases op)
  case (SkInit a t)
  with ex have "staking_init h a t s = Inr s'" by simp
  note eff = staking_init_InrD [OF this]
  then have "obligations s' = obligations s" by (simp add: obligations_def)
  from solvent_mono [OF inv(2) eq_refl [OF this]] eff re [OF SkInit] have "staking_solvent T me s'" by metis
  with eff ok show ?thesis by metis
next
  case (Stake u x p)
  with ex have st: "stake T h u x p s = Inr s'" by simp
  obtain t where t: "sk_token s = Some t" "authorized h u"
    "tk_transfer T (cb_ledger s) t u me x = Some (cb_ledger s')" "sk_token s' = sk_token s"
    using stake_InrD [OF st] unfolding me staking_frame_def by blast
  with au have "u \<noteq> me" by auto
  from deposit_balance [OF ok t(3) this] transfer_ok [OF ok t(3)] stake_registry [OF inv(1) st] inv(2) t(1,4)
  show ?thesis by (simp add: staking_solvent_def)
next
  case (TopUp u x)
  with ex have st: "top_up T h u x s = Inr s'" by simp
  obtain t where t: "sk_token s = Some t" "authorized h u"
    "tk_transfer T (cb_ledger s) t u me x = Some (cb_ledger s')" "sk_token s' = sk_token s"
    using top_up_InrD [OF st] unfolding me staking_frame_def by blast
  with au have "u \<noteq> me" by auto
  from deposit_balance [OF ok t(3) this] transfer_ok [OF ok t(3)] top_up_registry [OF inv(1) st] inv(2) t(1,4)
  show ?thesis by (simp add: staking_solvent_def)
next
  case (Claim u)
  with ex have c: "claim T h u s = Inr s'" by simp
  obtain t ub where t: "sk_token s = Some t" "sk_unbonding s u = Some ub"
    "tk_transfer T (cb_ledger s) t me u (ub_amount ub) = Some (cb_ledger s')" "sk_token s' = sk_token s"
    using claim_InrD [OF c] unfolding me staking_frame_def by blast
  from payout_balance_ge [OF ok t(3)] transfer_ok [OF ok t(3)] transfer_amount [OF ok t(3)]
    claim_registry [OF inv(1) c] inv(2) t(1,2,4)
  show ?thesis by (auto simp: staking_solvent_def)
next
  case (Unstake u)
  with ex have c: "unstake h u s = Inr s'" by simp
  from unstake_InrD [OF c] have "sk_token s' = sk_token s" "cb_ledger s' = cb_ledger s"
    by (auto simp: staking_frame_def)
  with solvent_mono [OF inv(2)] unstake_registry [OF inv(1) c] ok show ?thesis by simp
next
  case (Slash a u x)
  with ex obtain v where c: "slash h a u x s = Inr (v, s')" by (auto simp: bind_res_Inr)
  from slash_InrD [OF c] have "sk_token s' = sk_token s" "cb_ledger s' = cb_ledger s"
    by (auto simp: staking_frame_def)
  with solvent_mono [OF inv(2)] slash_registry [OF inv(1) c] ok show ?thesis by simp
next
  case (ExecuteSlash a u)
  with ex have c: "execute_slash h a u s = Inr s'" by simp
  from execute_slash_InrD [OF c] have "sk_token s' = sk_token s" "cb_ledger s' = cb_ledger s" by auto
  with solvent_mono [OF inv(2)] execute_slash_registry [OF inv(1) c] ok show ?thesis by simp
qed (use ex ok solvent_same [OF _ inv(2)] staking_admin_ops in
    \<open>auto simp: same_positions_def dest!: staking_admin_ops\<close>)

lemma sk_run_solvent:
  "sk_run T P me s s' \<Longrightarrow> ok (cb_ledger s) \<Longrightarrow> registry_inv b s \<Longrightarrow> staking_solvent T me s \<Longrightarrow>
     sk_token s = Some t \<Longrightarrow> (\<And>a u. P (SkInit a u) \<Longrightarrow> u = t \<and> \<not> b) \<Longrightarrow>
     ok (cb_ledger s') \<and> registry_inv b s' \<and> staking_solvent T me s' \<and> sk_token s' = Some t"
proof (induction rule: sk_run.induct)
  case (sk_call s s1 op h s2)
  then have inv: "ok (cb_ledger s1)" "registry_inv b s1" "staking_solvent T me s1" "sk_token s1 = Some t"
    by blast+
  have re: "sk_token s1 = Some u \<and> u = t \<and> \<not> b" if "op = SkInit a u" for a u
    using that sk_call.prems(5) sk_call.hyps(2) inv(4) by blast
  have "ok (cb_ledger s2) \<and> staking_solvent T me s2"
    by (rule staking_step_solvent [OF inv(1-3) sk_call.hyps(3-5)]) (use re in blast)
  moreover have "registry_inv b s2" by (rule registry_step [OF inv(2) sk_call.hyps(5)]) (use re in blast)
  moreover have "sk_token s2 = Some t"
    using sk_step_token [OF sk_call.hyps(5)] re inv(4) by (simp split: sk_op.splits)
  ultimately show ?case by blast
next
  case (sk_env s s1 a u c x l)
  then have inv: "ok (cb_ledger s1)" "registry_inv b s1" "staking_solvent T me s1" "sk_token s1 = Some t"
    by blast+
  have "registry_inv b (s1\<lparr>cb_ledger := l\<rparr>)" using inv(2) by (simp add: registry_inv_def staking_gets)
  moreover have "staking_solvent T me (s1\<lparr>cb_ledger := l\<rparr>)"
    unfolding staking_solvent_def
  proof (intro allI impI)
    fix u assume u: "sk_token (s1\<lparr>cb_ledger := l\<rparr>) = Some u"
    with inv(3) have "obligations s1 \<le> tk_balance T (cb_ledger s1) u me" by (simp add: staking_solvent_def)
    also have "\<dots> \<le> tk_balance T l u me"
      using foreign_transfer_balance_ge [OF inv(1) sk_env.hyps(3,2)] .
    finally show "obligations (s1\<lparr>cb_ledger := l\<rparr>) \<le> tk_balance T (cb_ledger (s1\<lparr>cb_ledger := l\<rparr>)) u me"
      by (simp add: obligations_def)
  qed
  ultimately show ?case using transfer_ok [OF inv(1) sk_env.hyps(3)] inv(4) by simp
qed simp

end

section \<open>The queries\<close>

lemma stakers_page_loop_slice:
  "\<forall>i\<in>set is. i < length stakers \<Longrightarrow>
     stakers_page_loop s stakers is entries
       = Inr (entries @ map (\<lambda>i. (stakers ! i, get_stake_amount (stakers ! i) s)) is)"
  by (induction "is" arbitrary: entries) simp_all

lemma map_nth_slice: "n \<le> length xs \<Longrightarrow> map ((!) xs) [m..<n] = take (n - m) (drop m xs)"
  by (rule nth_equalityI) auto

lemma query_stakers_page_slice:
  assumes "length (get_all_stakers s) < 2 ^ 32"
  shows "query_stakers_page m c l s =
    (let total = length (get_all_stakers s); start = min c total;
         stop = min (start + min l m) total in
     Inr (map (\<lambda>a. (a, get_stake_amount a s)) (take (stop - start) (drop start (get_all_stakers s))),
          stop, total))"
proof -
  let ?xs = "get_all_stakers s" and ?st = "min c (length (get_all_stakers s))"
  let ?en = "min (?st + min l m) (length ?xs)"
  have "min (u_saturating_add 32 ?st (min l m)) (length ?xs) = ?en"
    using assms by (simp add: u_saturating_add_def min_def)
  moreover have "map (\<lambda>i. (?xs ! i, get_stake_amount (?xs ! i) s)) [?st..<?en]
      = map (\<lambda>a. (a, get_stake_amount a s)) (take (?en - ?st) (drop ?st ?xs))"
    unfolding map_nth_slice [of ?en ?xs ?st, OF min.cobounded2, symmetric] by simp
  ultimately show ?thesis
    using stakers_page_loop_slice [of "[?st..<?en]" ?xs s "[]"]
    by (simp add: query_stakers_page_def get_all_stakers_def Let_def)
qed

section \<open>The time weight of a topped-up position\<close>

lemma weighted_duration_exact:
  assumes "0 < a" "0 < x" "in_i128 (a + x)" "e < 2 ^ 64" "nat a * e < 2 ^ 128"
  shows "weighted_duration a e (a + x) = nat a * e div nat (a + x)"
proof -
  have w: "wrap_u 128 b = nat b" if "0 \<le> b" "b \<le> a + x" for b
    using that assms(1,3) by (simp add: wrap_u_def in_i128_def i128_max_def)
  have "nat a * e div nat (a + x) \<le> nat (a + x) * e div nat (a + x)"
    by (rule div_le_mono, rule mult_right_mono) (use assms(2) in simp_all)
  also have "\<dots> = e" using assms(1,2) by simp
  finally have "nat a * e div nat (a + x) \<le> e" .
  with assms(4) have "nat a * e div nat (a + x) < 2 ^ 64" by simp
  moreover have "u_saturating_mul 128 (nat a) e = nat a * e"
    using assms(5) by (simp add: u_saturating_mul_def min_def)
  ultimately show ?thesis using assms(1,2) w [of a] w [of "a + x"]
    by (simp add: weighted_duration_def)
qed

section \<open>Notices\<close>

lemma create_slash_notice_InrD:
  assumes "create_slash_notice h a u x s = Inr s'"
  shows "\<exists>pos. sk_stake s u = Some pos \<and> sk_admin s = Some a \<and> authorized h a \<and> 0 < x \<and> x \<le> sp_amount pos
    \<and> sk_notice s u = None
    \<and> sk_notice s' = (sk_notice s)(u \<mapsto> (x, now h + get_slash_notice_period s, a))"
  using assms
  by (cases "sk_notice s u") (clarsimp simp: create_slash_notice_def res_simps int_simps Let_def not_le not_less)+

lemma cancel_slash_InrD:
  assumes "cancel_slash h a u s = Inr s'"
  shows "\<exists>v n e. sk_notice s u = Some (v, n, e) \<and> now h < n \<and> sk_admin s = Some a \<and> authorized h a
    \<and> sk_notice s' = (sk_notice s)(u := None)"
  using assms by (clarsimp simp: cancel_slash_def res_simps not_le)

section \<open>Properties\<close>

text \<open>
  C16: In every run from initialization, over all operations in any order, with any token and any
  third-party transfers in between: the registry lists nobody twice and nobody without a position, and the
  voting power of a position that is not negative is its amount times the multiplier of its period. As
  long as \<open>init\<close> is not called again, which resets both, the stored total is the sum of all positions and
  the registry lists every staker.
\<close>

theorem staking_registry_exact:
  assumes init: "staking_init h0 a t (staking_empty l) = Inr s0" and run: "sk_run T P me s0 s"
  shows "distinct (get_all_stakers s) \<and> set (get_all_stakers s) \<subseteq> dom (sk_stake s)
    \<and> (\<forall>u p. get_stake u s = Some p \<longrightarrow> 0 \<le> sp_amount p \<longrightarrow>
         sp_voting_power p = sp_amount p * int (multiplier (sp_period p)))
    \<and> ((\<forall>a t. \<not> P (SkInit a t)) \<longrightarrow>
         get_total_staked s = (\<Sum>u\<in>dom (sk_stake s). sp_amount (the (sk_stake s u)))
         \<and> set (get_all_stakers s) = dom (sk_stake s))"
proof -
  let ?b = "\<forall>a t. \<not> P (SkInit a t)"
  have "registry_inv ?b s"
    by (rule registry_run [OF run conjunct1 [OF staking_init_registry [OF init]]]) blast
  then show ?thesis by (auto simp: registry_inv_def msum_def position_ok_def get_stake_def)
qed

text \<open>
  C15: Solvency. In every run from initialization in which a repeated \<open>init\<close>, if there is one, names the same
  token, the contract's balance of its token covers every position that is staked or unbonding, so an
  unbonding position that is due can be paid.
\<close>

theorem staking_covers_positions:
  assumes T: "sep41 T ok" and l: "ok l" and init: "staking_init h0 a t (staking_empty l) = Inr s0"
    and run: "sk_run T P me s0 s" and same: "\<And>b u. P (SkInit b u) \<Longrightarrow> u = t"
  shows "obligations s \<le> tk_balance T (cb_ledger s) t me"
proof -
  from staking_init_registry [OF init] have s0: "registry_inv False s0" "obligations s0 = 0"
    "sk_token s0 = Some t" "cb_ledger s0 = l" by simp_all
  from sep41.balance_range [OF T l] s0 have "staking_solvent T me s0" by (simp add: staking_solvent_def)
  from sep41.sk_run_solvent [OF T run _ s0(1) this s0(3)] s0(4) l same
  have "staking_solvent T me s" "sk_token s = Some t" by simp_all
  then show ?thesis by (simp add: staking_solvent_def)
qed

text \<open>The account whose stake a call can lower or raise once it is there.\<close>

fun stake_subject :: "sk_op \<Rightarrow> addr option" where
  "stake_subject (Unstake w) = Some w"
| "stake_subject (Slash a w x) = Some w"
| "stake_subject (TopUp w x) = Some w"
| "stake_subject (ExecuteSlash a w) = Some w"
| "stake_subject op = None"

lemma other_stake_kept:
  assumes ex: "sk_exec T h op s = Inr s'" and old: "get_stake u s = Some p" and sub: "stake_subject op \<noteq> Some u"
  shows "get_stake u s' = Some p"
proof (cases op)
  case (Stake w x m)
  with ex have "stake T h w x m s = Inr s'" by simp
  from stake_InrD [OF this] old show ?thesis by (auto simp: get_stake_def)
next
  case (Unstake w)
  with ex have "unstake h w s = Inr s'" by simp
  from unstake_InrD [OF this] old sub Unstake show ?thesis by (auto simp: get_stake_def)
next
  case (Slash a w x)
  with ex obtain v where "slash h a w x s = Inr (v, s')" by (auto simp: bind_res_Inr)
  from slash_InrD [OF this] old sub Slash show ?thesis by (auto simp: get_stake_def split: if_splits)
next
  case (TopUp w x)
  with ex have "top_up T h w x s = Inr s'" by simp
  from top_up_InrD [OF this] old sub TopUp show ?thesis by (auto simp: get_stake_def)
next
  case (ExecuteSlash a w)
  with ex have "execute_slash h a w s = Inr s'" by simp
  from execute_slash_InrD [OF this] old sub ExecuteSlash show ?thesis by (auto simp: get_stake_def)
next
  case (Claim w)
  with ex have "claim T h w s = Inr s'" by simp
  from claim_InrD [OF this] old show ?thesis by (auto simp: get_stake_def)
next
  case (SkInit a t)
  with ex have "staking_init h a t s = Inr s'" by simp
  from staking_init_InrD [OF this] old show ?thesis by (auto simp: get_stake_def)
qed (use ex old in \<open>auto simp: get_stake_def same_positions_def dest!: staking_admin_ops\<close>)

text \<open>
  C17: What one operation can do to an existing position: it leaves it or adds to it (keeping lock and
  period); the staker, not earlier than the unlock time, moves all of it to an unbonding position
  that is claimable 14 days later; or the admin slashes it, directly by at most the stake, or by a
  notice that is due, which leaves the unlock time and the period of what remains. Nothing else,
  another call of \<open>init\<close> included, lowers or removes a stake, and nothing changes its lock.
\<close>

theorem stake_leaves_by_unlock_or_slash:
  assumes ex: "sk_exec T h op s = Inr s'" and old: "get_stake u s = Some p"
  shows "(\<exists>p'. get_stake u s' = Some p' \<and> sp_amount p \<le> sp_amount p'
        \<and> sp_unlock_time p' = sp_unlock_time p \<and> sp_period p' = sp_period p)
    \<or> (op = Unstake u \<and> authorized h u \<and> sp_unlock_time p \<le> now h \<and> get_stake u s' = None
        \<and> get_unbonding u s' = Some \<lparr>ub_amount = sp_amount p, ub_start_time = now h,
             ub_claimable_time = now h + 1209600\<rparr>)
    \<or> (\<exists>a x. op = Slash a u x \<and> sk_admin s = Some a \<and> authorized h a \<and> 0 < x
        \<and> get_stake_amount u s' = sp_amount p - min x (sp_amount p)
        \<and> (\<forall>p'. get_stake u s' = Some p' \<longrightarrow> sp_unlock_time p' = sp_unlock_time p \<and> sp_period p' = sp_period p))
    \<or> (\<exists>a v n e. op = ExecuteSlash a u \<and> sk_admin s = Some a \<and> authorized h a
        \<and> get_slash_notice u s = Some (v, n, e) \<and> n \<le> now h
        \<and> (\<exists>p'. get_stake u s' = Some p' \<and> sp_amount p' = sp_amount p - v
             \<and> sp_unlock_time p' = sp_unlock_time p \<and> sp_period p' = sp_period p))"
proof (cases "stake_subject op = Some u")
  case False
  with other_stake_kept [OF ex old] show ?thesis by blast
next
  case True
  then consider "op = Unstake u" | a x where "op = Slash a u x" | x where "op = TopUp u x"
    | a where "op = ExecuteSlash a u" by (cases op) auto
  then show ?thesis
  proof cases
    case 1
    with ex have "unstake h u s = Inr s'" by simp
    from unstake_InrD [OF this] old 1 show ?thesis
      by (intro disjI2 disjI1) (auto simp: get_stake_def get_unbonding_def UNBONDING_PERIOD_SECONDS_def)
  next
    case (2 a x)
    with ex obtain v where "slash h a u x s = Inr (v, s')" by (auto simp: bind_res_Inr)
    from slash_InrD [OF this] old have "sk_admin s = Some a" "authorized h a" "0 < x"
      "get_stake_amount u s' = sp_amount p - min x (sp_amount p)"
      "\<forall>p'. get_stake u s' = Some p' \<longrightarrow> sp_unlock_time p' = sp_unlock_time p \<and> sp_period p' = sp_period p"
      by (auto simp: get_stake_def get_stake_amount_def split: if_splits)
    with 2 show ?thesis by blast
  next
    case (3 x)
    with ex have "top_up T h u x s = Inr s'" by simp
    from top_up_InrD [OF this] old have "\<exists>p'. get_stake u s' = Some p' \<and> sp_amount p \<le> sp_amount p'
        \<and> sp_unlock_time p' = sp_unlock_time p \<and> sp_period p' = sp_period p"
      by (auto simp: get_stake_def)
    then show ?thesis by blast
  next
    case (4 a)
    with ex have "execute_slash h a u s = Inr s'" by simp
    from execute_slash_InrD [OF this] old obtain v n e where "sk_admin s = Some a" "authorized h a"
      "get_slash_notice u s = Some (v, n, e)" "n \<le> now h"
      "\<exists>p'. get_stake u s' = Some p' \<and> sp_amount p' = sp_amount p - v
         \<and> sp_unlock_time p' = sp_unlock_time p \<and> sp_period p' = sp_period p"
      by (auto simp: get_stake_def get_slash_notice_def)
    with 4 show ?thesis by blast
  qed
qed

text \<open>
  C24: Topping up a position with a positive amount (executing a slash notice can leave a negative one)
  adds exactly the amount that was paid, keeps the period and the unlock time, and does not inflate
  the time weight, where the clock and the product of the old amount and the old duration are in the
  range of \<open>u64\<close> and \<open>u128\<close>: the new duration is the largest whole number of seconds whose product
  with the new amount does not exceed the product of the old amount and the old duration.
\<close>

theorem top_up_keeps_time_weight:
  assumes ex: "top_up T h u x s = Inr s'" and old: "get_stake u s = Some p" and pos: "0 < sp_amount p"
    and time: "sp_start_time p \<le> now h" "now h < 2 ^ 64"
    and fits: "nat (sp_amount p) * (now h - sp_start_time p) < 2 ^ 128"
  shows "\<exists>p'. get_stake u s' = Some p' \<and> sp_amount p' = sp_amount p + x \<and> 0 < x
    \<and> sp_unlock_time p' = sp_unlock_time p \<and> sp_period p' = sp_period p \<and> now h \<le> sp_unlock_time p
    \<and> now h - sp_start_time p' = nat (sp_amount p) * (now h - sp_start_time p) div nat (sp_amount p + x)
    \<and> nat (sp_amount p') * (now h - sp_start_time p') \<le> nat (sp_amount p) * (now h - sp_start_time p)"
proof -
  let ?e = "now h - sp_start_time p" and ?w = "weighted_duration (sp_amount p) (now h - sp_start_time p) (sp_amount p + x)"
  from top_up_InrD [OF ex] old have x: "0 < x" "in_i128 (sp_amount p + x)" "now h \<le> sp_unlock_time p"
    and s': "sk_stake s' u = Some (p\<lparr>sp_amount := sp_amount p + x, sp_start_time := now h - ?w,
         sp_voting_power := (sp_amount p + x) * int (multiplier (sp_period p))\<rparr>)"
    by (auto simp: get_stake_def)
  have w: "?w = nat (sp_amount p) * ?e div nat (sp_amount p + x)"
    by (rule weighted_duration_exact) (use pos x fits time in simp_all)
  have "nat (sp_amount p) * ?e div nat (sp_amount p + x) \<le> nat (sp_amount p + x) * ?e div nat (sp_amount p + x)"
    by (rule div_le_mono, rule mult_right_mono) (use x in simp_all)
  also have "\<dots> = ?e" using pos x by simp
  finally have "?w \<le> now h" by (simp add: w)
  moreover have "nat (sp_amount p + x) * ?w \<le> nat (sp_amount p) * ?e" unfolding w by simp
  ultimately show ?thesis using s' w x by (simp add: get_stake_def)
qed

text \<open>
  The life of a slash notice. Only the admin creates, cancels and executes one; it is created
  for an existing stake and at most its amount, when no notice is pending, and becomes due after
  the notice period in force at that time; it is cancelled only before and executed only from then
  on. No other operation touches it.
\<close>

theorem slash_notice_life_cycle:
  assumes ex: "sk_exec T h op s = Inr s'" and change: "get_slash_notice u s' \<noteq> get_slash_notice u s"
  shows "\<exists>a. sk_admin s = Some a \<and> authorized h a \<and>
    ((\<exists>x. op = CreateNotice a u x \<and> get_slash_notice u s = None \<and> 0 < x \<and> x \<le> get_stake_amount u s
        \<and> get_slash_notice u s' = Some (x, now h + get_slash_notice_period s, a))
     \<or> (\<exists>v n e. get_slash_notice u s = Some (v, n, e) \<and> get_slash_notice u s' = None
        \<and> (op = CancelNotice a u \<and> now h < n \<or> op = ExecuteSlash a u \<and> n \<le> now h)))"
proof (cases op)
  case (CreateNotice a w x)
  with ex have "create_slash_notice h a w x s = Inr s'" by simp
  from create_slash_notice_InrD [OF this] change CreateNotice show ?thesis
    by (auto simp: get_slash_notice_def get_stake_amount_def split: if_splits)
next
  case (CancelNotice a w)
  with ex have "cancel_slash h a w s = Inr s'" by simp
  from cancel_slash_InrD [OF this] change CancelNotice show ?thesis
    by (auto simp: get_slash_notice_def split: if_splits)
next
  case (ExecuteSlash a w)
  with ex have "execute_slash h a w s = Inr s'" by simp
  from execute_slash_InrD [OF this] change ExecuteSlash show ?thesis
    by (auto simp: get_slash_notice_def split: if_splits)
next
  case (Slash a w x)
  with ex obtain v where "slash h a w x s = Inr (v, s')" by (auto simp: bind_res_Inr)
  from slash_InrD [OF this] change show ?thesis by (auto simp: get_slash_notice_def staking_frame_def)
qed (use ex change in \<open>auto simp: get_slash_notice_def staking_frame_def
    dest!: staking_init_InrD stake_InrD unstake_InrD claim_InrD top_up_InrD staking_admin_ops\<close>)

section \<open>Concrete runs\<close>

definition sk_api :: "(addr \<Rightarrow> gov_token) token_api" where
  "sk_api = gt_api \<lparr>self = 100, now = 50, seq = 1, authorized = (\<lambda>_. True)\<rparr>"

definition sk_ledger :: "addr \<Rightarrow> gov_token" where
  "sk_ledger = gov_ledger [(7, 30000000)]"

definition sk_host :: "nat \<Rightarrow> host" where
  "sk_host t = \<lparr>self = 100, now = t, seq = 1, authorized = (\<lambda>a. a \<noteq> 100)\<rparr>"

definition sk_start :: "(addr \<Rightarrow> gov_token) staking" where
  "sk_start = (staking_empty sk_ledger)\<lparr>sk_admin := Some 1, sk_token := Some 200, cb_paused := Some False,
     sk_total := Some 0, sk_stakers := Some []\<rparr>"

definition sk_position :: stake_position where
  "sk_position = \<lparr>sp_amount = 20000000, sp_period = ThreeMonths, sp_start_time = 50,
     sp_unlock_time = 7776050, sp_voting_power = 40000000, sp_start_ledger = 1, sp_unlock_ledger = 1555201\<rparr>"

lemma sk_api_sep41: "sep41 sk_api gt_ok"
  unfolding sk_api_def by (rule gov.sep41_axioms)

lemma sk_ledger_ok: "gt_ok sk_ledger"
  unfolding sk_ledger_def by (rule gov_ledger_ok) (auto simp: i128_max_def)

lemma sk_ledger_balance [simp]: "tk_balance sk_api sk_ledger t a = (if a = 7 then 30000000 else 0)"
  by (simp add: sk_api_def gt_api_def sk_ledger_def gov_ledger_def balance_def)

lemma sk_pay:
  "gt_ok l \<Longrightarrow> gov_open l \<Longrightarrow> 0 < x \<Longrightarrow> x \<le> tk_balance sk_api l t a \<Longrightarrow>
     tk_balance sk_api l t b + x \<le> i128_max \<Longrightarrow> b \<noteq> t \<Longrightarrow>
     \<exists>l'. tk_transfer sk_api l t a b x = Some l' \<and> gt_ok l' \<and> gov_open l'"
  unfolding sk_api_def by (rule gov_pay) simp_all

lemma sk_start_init: "staking_init (sk_host 50) 1 200 (staking_empty sk_ledger) = Inr sk_start"
  by (simp add: staking_init_def sk_start_def require_auth_def sk_host_def)

text \<open>Account 7 stakes twenty tokens for three months.\<close>

lemma sk_sample_staked:
  assumes P: "P (Stake 7 20000000 3)"
  shows "\<exists>s. sk_run sk_api P 100 sk_start s \<and> sk_stake s = [7 \<mapsto> sk_position] \<and> sk_token s = Some 200
     \<and> sk_total s = Some 20000000 \<and> sk_stakers s = Some [7] \<and> sk_notice s = Map.empty
     \<and> sk_unbonding s = Map.empty
     \<and> cb_paused s = Some False \<and> cb_reent s = Some False \<and> sk_admin s = Some 1 \<and> sk_notice_period s = None
     \<and> gt_ok (cb_ledger s) \<and> gov_open (cb_ledger s) \<and> tk_balance sk_api (cb_ledger s) 200 7 = 10000000
     \<and> tk_balance sk_api (cb_ledger s) 200 100 = 20000000"
proof -
  have op: "gov_open sk_ledger" unfolding sk_ledger_def by (rule gov_ledger_open)
  from sk_pay [OF sk_ledger_ok op, of 20000000 200 7 100] obtain l where
    l: "tk_transfer sk_api sk_ledger 200 7 100 20000000 = Some l" "gt_ok l" "gov_open l"
    by (auto simp: i128_max_def)
  have "\<exists>s. stake sk_api (sk_host 50) 7 20000000 3 sk_start = Inr s
     \<and> sk_stake s = [7 \<mapsto> sk_position] \<and> sk_token s = Some 200
     \<and> sk_total s = Some 20000000 \<and> sk_stakers s = Some [7] \<and> sk_notice s = Map.empty
     \<and> sk_unbonding s = Map.empty \<and> cb_paused s = Some False \<and> cb_reent s = Some False
     \<and> sk_admin s = Some 1 \<and> sk_notice_period s = None \<and> cb_ledger s = l"
    using l(1) by (simp add: stake_def sk_start_def staking_empty_def when_not_paused_def is_paused_def
        guard_new_def require_auth_def sk_host_def MIN_STAKE_AMOUNT_def period_from_u32_def token_transfer_def
        i128_checked_mul_def i128_checked_add_def chk_i128_def in_i128_def i128_max_def i128_min_def
        u_checked_add_def wrap_u_def Let_def guard_leave_def sk_position_def publish_def)
  then obtain s where s: "stake sk_api (sk_host 50) 7 20000000 3 sk_start = Inr s"
    and rest: "sk_stake s = [7 \<mapsto> sk_position]" "sk_token s = Some 200"
     "sk_total s = Some 20000000" "sk_stakers s = Some [7]" "sk_notice s = Map.empty"
     "sk_unbonding s = Map.empty" "cb_paused s = Some False" "cb_reent s = Some False"
     "sk_admin s = Some 1" "sk_notice_period s = None" "cb_ledger s = l" by blast
  have "sk_run sk_api P 100 sk_start s"
    by (rule sk_call [OF sk_refl, where op = "Stake 7 20000000 3" and h = "sk_host 50"])
      (use s P in \<open>simp_all add: sk_host_def\<close>)
  moreover have "tk_balance sk_api l 200 7 = 10000000" "tk_balance sk_api l 200 100 = 20000000"
    using sep41.transfer_balance [OF sk_api_sep41 sk_ledger_ok l(1)] by simp_all
  ultimately show ?thesis using l rest by auto
qed

definition keeps_token :: "addr \<Rightarrow> sk_op \<Rightarrow> bool" where
  "keeps_token t op \<longleftrightarrow> (\<forall>a u. op = SkInit a u \<longrightarrow> u = t)"

theorem staking_registry_exact_witness:
  "\<exists>s. sk_run sk_api (\<lambda>op. \<forall>a t. op \<noteq> SkInit a t) 100 sk_start s \<and> get_total_staked s = 20000000
     \<and> set (get_all_stakers s) = {7} \<and> (\<Sum>u\<in>{7}. sp_amount (the (sk_stake s u))) = 20000000"
proof -
  obtain s where s: "sk_run sk_api (\<lambda>op. \<forall>a t. op \<noteq> SkInit a t) 100 sk_start s"
    "sk_stake s = [7 \<mapsto> sk_position]" "sk_total s = Some 20000000"
    using sk_sample_staked [of "\<lambda>op. \<forall>a t. op \<noteq> SkInit a t"] by auto
  from staking_registry_exact [OF sk_start_init s(1)] s show ?thesis by (auto simp: get_total_staked_def)
qed

theorem staking_covers_positions_witness:
  "\<exists>s. sk_run sk_api (keeps_token 200) 100 sk_start s \<and> 0 < obligations s
     \<and> obligations s \<le> tk_balance sk_api (cb_ledger s) 200 100"
proof -
  obtain s where s: "sk_run sk_api (keeps_token 200) 100 sk_start s" "sk_stake s = [7 \<mapsto> sk_position]"
    "sk_unbonding s = Map.empty" using sk_sample_staked [of "keeps_token 200"] by (auto simp: keeps_token_def)
  have "obligations s = 20000000" by (simp add: obligations_def s(2,3) msum_def sk_position_def)
  with staking_covers_positions [OF sk_api_sep41 sk_ledger_ok sk_start_init s(1)] s(1) show ?thesis
    by (auto simp: keeps_token_def)
qed

theorem stake_leaves_by_unlock_or_slash_witness:
  "\<exists>(s :: (addr \<Rightarrow> gov_token) staking) s'. sk_exec sk_api (sk_host 7776050) (Unstake 7) s = Inr s'
     \<and> get_stake 7 s = Some sk_position \<and> get_stake_amount 7 s' = 0 \<and> get_unbonding 7 s' \<noteq> None"
proof -
  obtain s :: "(addr \<Rightarrow> gov_token) staking" where s: "sk_stake s = [7 \<mapsto> sk_position]" "sk_total s = Some 20000000" "cb_paused s = Some False"
    using sk_sample_staked [of "\<lambda>_. True"] by blast
  have "\<exists>s'. sk_exec sk_api (sk_host 7776050) (Unstake 7) s = Inr s' \<and> get_stake 7 s' = None"
    using s by (simp add: unstake_def when_not_paused_def is_paused_def require_auth_def sk_host_def
        is_period_elapsed_def sk_position_def u_checked_add_def UNBONDING_PERIOD_SECONDS_def drop_staker_def
        i128_checked_sub_def chk_i128_def in_i128_def i128_max_def i128_min_def Let_def get_stake_def)
  then obtain s' where u: "sk_exec sk_api (sk_host 7776050) (Unstake 7) s = Inr s'" "get_stake 7 s' = None" by blast
  have g: "get_stake 7 s = Some sk_position" using s(1) by (simp add: get_stake_def)
  from stake_leaves_by_unlock_or_slash [OF u(1) g] u(2) have "get_unbonding 7 s' \<noteq> None" by simp
  with u g show ?thesis
    by (intro exI [of _ s] exI [of _ s']) (simp add: get_stake_def get_stake_amount_def)
qed

theorem top_up_keeps_time_weight_witness:
  "\<exists>s s' p'. top_up sk_api (sk_host 150) 7 5000000 s = Inr s' \<and> get_stake 7 s = Some sk_position
     \<and> get_stake 7 s' = Some p' \<and> sp_amount p' = 25000000 \<and> 150 - sp_start_time p' = 80"
proof -
  obtain s :: "(addr \<Rightarrow> gov_token) staking" where s: "sk_stake s = [7 \<mapsto> sk_position]" "sk_total s = Some 20000000" "cb_paused s = Some False"
    "cb_reent s = Some False" "sk_token s = Some 200" "gt_ok (cb_ledger s)" "gov_open (cb_ledger s)"
    "tk_balance sk_api (cb_ledger s) 200 7 = 10000000" "tk_balance sk_api (cb_ledger s) 200 100 = 20000000"
    using sk_sample_staked [of "\<lambda>_. True"] by blast
  from sk_pay [OF s(6,7), of 5000000 200 7 100] s(8,9) obtain l where
    l: "tk_transfer sk_api (cb_ledger s) 200 7 100 5000000 = Some l" by (auto simp: i128_max_def)
  have "\<exists>s'. top_up sk_api (sk_host 150) 7 5000000 s = Inr s'"
    using s(1-5) l by (simp add: top_up_def when_not_paused_def is_paused_def require_auth_def sk_host_def
        guard_new_def sk_position_def token_transfer_def i128_checked_add_def i128_checked_mul_def chk_i128_def
        in_i128_def i128_max_def i128_min_def Let_def)
  then obtain s' where t: "top_up sk_api (sk_host 150) 7 5000000 s = Inr s'" by blast
  have g: "get_stake 7 s = Some sk_position" using s(1) by (simp add: get_stake_def)
  from top_up_keeps_time_weight [OF t g] t g show ?thesis
    by (auto simp: sk_position_def sk_host_def)
qed

theorem slash_notice_life_cycle_witness:
  "\<exists>(s :: (addr \<Rightarrow> gov_token) staking) s'. sk_exec sk_api (sk_host 60) (CreateNotice 1 7 20000000) s = Inr s'
     \<and> get_slash_notice 7 s = None \<and> get_slash_notice 7 s' = Some (20000000, 86460, 1)"
proof -
  obtain s :: "(addr \<Rightarrow> gov_token) staking" where s: "sk_stake s = [7 \<mapsto> sk_position]" "sk_notice s = Map.empty" "cb_paused s = Some False"
    "sk_admin s = Some 1" "sk_notice_period s = None" using sk_sample_staked [of "\<lambda>_. True"] by blast
  have "\<exists>s'. sk_exec sk_api (sk_host 60) (CreateNotice 1 7 20000000) s = Inr s' \<and> get_slash_notice 7 s' \<noteq> None"
    using s by (simp add: create_slash_notice_def when_not_paused_def is_paused_def require_auth_def sk_host_def
        staking_check_admin_def sk_position_def get_slash_notice_period_def u_checked_add_def Let_def
        get_slash_notice_def)
  then obtain s' where c: "sk_exec sk_api (sk_host 60) (CreateNotice 1 7 20000000) s = Inr s'"
    "get_slash_notice 7 s' \<noteq> None" by blast
  have n: "get_slash_notice 7 s = None" using s(2) by (simp add: get_slash_notice_def)
  with slash_notice_life_cycle [OF c(1), of 7] c(2) s(5) show ?thesis
    using c(1) by (auto simp: sk_host_def get_slash_notice_period_def)
qed

text \<open>
  A notice is not adjusted when the stake shrinks before it is due: executing it then takes more than
  the stake and leaves a negative position.
\<close>

lemma execute_slash_overdraws:
  "\<exists>(s :: (addr \<Rightarrow> gov_token) staking) s1 s2 s3.
     sk_exec sk_api (sk_host 60) (CreateNotice 1 7 20000000) s = Inr s1
   \<and> sk_exec sk_api (sk_host 70) (Slash 1 7 15000000) s1 = Inr s2
   \<and> sk_exec sk_api (sk_host 86460) (ExecuteSlash 1 7) s2 = Inr s3
   \<and> get_stake_amount 7 s3 = - 15000000 \<and> get_total_staked s3 = - 15000000"
proof -
  have "\<exists>s1 s2 s3.
     sk_exec sk_api (sk_host 60) (CreateNotice 1 7 20000000)
       (sk_start\<lparr>sk_stake := [7 \<mapsto> sk_position], sk_total := Some 20000000, sk_stakers := Some [7]\<rparr>) = Inr s1
   \<and> sk_exec sk_api (sk_host 70) (Slash 1 7 15000000) s1 = Inr s2
   \<and> sk_exec sk_api (sk_host 86460) (ExecuteSlash 1 7) s2 = Inr s3
   \<and> get_stake_amount 7 s3 = - 15000000 \<and> get_total_staked s3 = - 15000000"
    by (simp add: create_slash_notice_def slash_def execute_slash_def when_not_paused_def is_paused_def
        require_auth_def sk_host_def staking_check_admin_def sk_position_def get_slash_notice_period_def
        u_checked_add_def Let_def sk_start_def staking_empty_def i128_checked_sub_def i128_checked_mul_def
        chk_i128_def in_i128_def i128_max_def i128_min_def safe_sub_def get_stake_amount_def
        get_total_staked_def publish_def)
  then show ?thesis by blast
qed

end
