(* ===== verification/Vrf.thy ===== *)
theory Vrf
  imports Common_Lib
begin

text \<open>
  The verifiable random function of the crate \<open>common\<close> (\<open>vrf.rs\<close>): key and salt storage, key rotation
  with an activation delay, evaluation with a strictly increasing nonce, verification, and the
  payout order drawn from it. SHA-256 and the Ed25519 check are host functions of the platform and
  are parameters: \<open>sha\<close> maps a byte string to its digest, \<open>ed key msg sig\<close> says that the signature is
  valid (the host call traps otherwise). The salt drawn from \<open>env.prng()\<close> is an argument.
\<close>

section \<open>State\<close>

record 'l vrf_base = "'l token_base" +
  vrf_admin :: "bytes option"
  vrf_salt :: "bytes option"
  vrf_counter :: "nat option"
  vrf_owner :: "addr option"
  vrf_pending :: "bytes option"
  vrf_pending_at :: "nat option"
  vrf_nonce :: "nat option"

datatype vrf_error =
    NotInitialized | InvalidProof | AlreadyInitialized | Overflow | Unauthorized
  | NoPendingRotation | ActivationNotReady | Replay

section \<open>Set-up and key rotation\<close>

definition init_vrf ::
    "bytes \<Rightarrow> bytes option \<Rightarrow> addr \<Rightarrow> ('l, 'a) vrf_base_scheme \<Rightarrow> (vrf_error, ('l, 'a) vrf_base_scheme) res" where
  "init_vrf salt admin_key owner s =
     (if vrf_admin s \<noteq> None \<or> vrf_owner s \<noteq> None then Inl (Err AlreadyInitialized)
      else
        let s = s\<lparr>vrf_salt := Some salt, vrf_counter := Some 0, vrf_owner := Some owner\<rparr>
        in Inr (case admin_key of Some key \<Rightarrow> s\<lparr>vrf_admin := Some key\<rparr> | None \<Rightarrow> s))"

definition propose_key_rotation ::
    "host \<Rightarrow> addr \<Rightarrow> bytes \<Rightarrow> nat \<Rightarrow> ('l, 'a) vrf_base_scheme \<Rightarrow> (vrf_error, ('l, 'a) vrf_base_scheme) res" where
  "propose_key_rotation h caller new_key activation_delay_secs s =
     bind_res (require_auth h caller) (\<lambda>_.
     bind_res (ok_or (vrf_owner s) Unauthorized) (\<lambda>owner.
     if caller \<noteq> owner then Inl (Err Unauthorized) else
     bind_res (ok_or (u_checked_add 64 (now h) activation_delay_secs) Overflow) (\<lambda>activation_time.
     Inr (publish (Event ''vrf_key_rotation_proposed'' [] [BytesV new_key, NatV activation_time])
       (s\<lparr>vrf_pending := Some new_key, vrf_pending_at := Some activation_time\<rparr>)))))"

definition activate_key_rotation ::
    "host \<Rightarrow> addr \<Rightarrow> ('l, 'a) vrf_base_scheme \<Rightarrow> (vrf_error, ('l, 'a) vrf_base_scheme) res" where
  "activate_key_rotation h caller s =
     bind_res (require_auth h caller) (\<lambda>_.
     bind_res (ok_or (vrf_owner s) Unauthorized) (\<lambda>owner.
     if caller \<noteq> owner then Inl (Err Unauthorized) else
     bind_res (ok_or (vrf_pending s) NoPendingRotation) (\<lambda>pending_key.
     bind_res (ok_or (vrf_pending_at s) NoPendingRotation) (\<lambda>activation_time.
     if now h < activation_time then Inl (Err ActivationNotReady) else
     Inr (publish (Event ''vrf_key_rotated'' [] [BytesV pending_key])
       (s\<lparr>vrf_admin := Some pending_key, vrf_pending := None, vrf_pending_at := None\<rparr>))))))"

section \<open>Evaluation and verification\<close>

text \<open>\<open>u32::to_le_bytes\<close> and \<open>u32::from_le_bytes\<close>.\<close>

definition u32_to_le_bytes :: "nat \<Rightarrow> bytes" where
  "u32_to_le_bytes n =
     [word_of_nat n, word_of_nat (n div 256), word_of_nat (n div 65536), word_of_nat (n div 16777216)]"

definition u32_from_le_bytes :: "bytes \<Rightarrow> 32 word" where
  "u32_from_le_bytes bs = foldr (\<lambda>b acc. ucast b + 256 * acc) bs 0"

definition hash_to_bytes :: "nat \<Rightarrow> bytes \<Rightarrow> nat \<Rightarrow> bytes" where
  "hash_to_bytes input_seed salt counter =
     u32_to_le_bytes input_seed @ salt @ u32_to_le_bytes counter"

definition compute_vrf_hash :: "(bytes \<Rightarrow> bytes) \<Rightarrow> nat \<Rightarrow> bytes \<Rightarrow> nat \<Rightarrow> nat" where
  "compute_vrf_hash sha input_seed salt counter =
     (let array = sha (hash_to_bytes input_seed salt counter)
      in unat (fold (\<lambda>i result. Bit_Operations.xor result (u32_from_le_bytes (take 4 (drop (i * 4) array))))
           [0..<8] 0))"

definition evaluate_vrf ::
    "(bytes \<Rightarrow> bytes) \<Rightarrow> nat \<Rightarrow> ('l, 'a) vrf_base_scheme
      \<Rightarrow> (vrf_error, nat \<times> ('l, 'a) vrf_base_scheme) res" where
  "evaluate_vrf sha input_seed s =
     (if (case vrf_nonce s of Some last_nonce \<Rightarrow> input_seed \<le> last_nonce | None \<Rightarrow> False)
      then Inl (Err Replay) else
      let s = s\<lparr>vrf_nonce := Some input_seed\<rparr> in
      bind_res (ok_or (vrf_counter s) NotInitialized) (\<lambda>counter.
      bind_res (ok_or (vrf_salt s) NotInitialized) (\<lambda>salt.
      let output = compute_vrf_hash sha input_seed salt counter in
      bind_res (ok_or (u_checked_add 32 counter 1) Overflow) (\<lambda>next_counter.
      Inr (output,
        publish (Event ''vrf_fulfilled'' [] [NatV counter, NatV input_seed])
        (publish (Event ''vrf_evaluated'' [] [NatV input_seed, NatV output, NatV counter])
          (s\<lparr>vrf_counter := Some next_counter\<rparr>)))))))"

definition verify_vrf ::
    "(bytes \<Rightarrow> bytes) \<Rightarrow> (bytes \<Rightarrow> bytes \<Rightarrow> bytes \<Rightarrow> bool) \<Rightarrow> nat \<Rightarrow> nat \<Rightarrow> nat \<Rightarrow> bytes
      \<Rightarrow> ('l, 'a) vrf_base_scheme \<Rightarrow> (vrf_error, bool) res" where
  "verify_vrf sha ed input_seed vrf_output counter signature s =
     (case vrf_admin s of None \<Rightarrow> Inr False | Some admin_key \<Rightarrow>
      case vrf_salt s of None \<Rightarrow> Inr False | Some salt \<Rightarrow>
      if compute_vrf_hash sha input_seed salt counter \<noteq> vrf_output then Inr False
      else if ed admin_key (hash_to_bytes input_seed salt counter) signature then Inr True
      else Inl Trap)"

section \<open>Drawing positions\<close>

fun shuffle_loop ::
    "(bytes \<Rightarrow> bytes) \<Rightarrow> nat \<Rightarrow> nat \<Rightarrow> nat list \<Rightarrow> nat list \<Rightarrow> ('l, 'a) vrf_base_scheme
      \<Rightarrow> (vrf_error, nat list \<times> ('l, 'a) vrf_base_scheme) res" where
  "shuffle_loop sha n base_nonce [] shuffled s = Inr (shuffled, s)"
| "shuffle_loop sha n base_nonce (i # is) shuffled s =
     bind_res (ok_or (u_checked_add 32 base_nonce i) Overflow) (\<lambda>seed.
     bind_res (evaluate_vrf sha seed s) (\<lambda>(vrf_val, s).
     shuffle_loop sha n base_nonce is (shuffled @ [vrf_val mod n]) s))"

definition shuffle_positions ::
    "(bytes \<Rightarrow> bytes) \<Rightarrow> nat \<Rightarrow> nat \<Rightarrow> ('l, 'a) vrf_base_scheme
      \<Rightarrow> (vrf_error, nat list \<times> ('l, 'a) vrf_base_scheme) res" where
  "shuffle_positions sha n base_nonce s = shuffle_loop sha n base_nonce [0..<n] [] s"

definition random_in_range ::
    "(bytes \<Rightarrow> bytes) \<Rightarrow> nat \<Rightarrow> nat \<Rightarrow> ('l, 'a) vrf_base_scheme
      \<Rightarrow> (vrf_error, nat \<times> ('l, 'a) vrf_base_scheme) res" where
  "random_in_range sha bound nonce s =
     (if bound = 0 then Inr (0, s)
      else bind_res (evaluate_vrf sha nonce s) (\<lambda>(vrf_val, s). Inr (vrf_val mod bound, s)))"

section \<open>Lemmas\<close>

lemma publish_vrf_base [simp]:
  "vrf_admin (publish ev s) = vrf_admin s" "vrf_salt (publish ev s) = vrf_salt s"
  "vrf_counter (publish ev s) = vrf_counter s" "vrf_owner (publish ev s) = vrf_owner s"
  "vrf_pending (publish ev s) = vrf_pending s" "vrf_pending_at (publish ev s) = vrf_pending_at s"
  "vrf_nonce (publish ev s) = vrf_nonce s"
  by (simp_all add: publish_def)

definition fresh_nonce :: "nat \<Rightarrow> ('l, 'a) vrf_base_scheme \<Rightarrow> bool" where
  "fresh_nonce n s \<longleftrightarrow> (\<forall>m. vrf_nonce s = Some m \<longrightarrow> m < n)"

text \<open>Evaluation succeeds exactly on a fresh nonce in an initialized VRF below the last counter.\<close>

lemma evaluate_vrf_Inr:
  "evaluate_vrf sha seed s = Inr (out, s') \<longleftrightarrow>
     fresh_nonce seed s \<and>
     (\<exists>c salt. vrf_counter s = Some c \<and> vrf_salt s = Some salt \<and> c + 1 < 2 ^ 32
        \<and> out = compute_vrf_hash sha seed salt c
        \<and> s' = publish (Event ''vrf_fulfilled'' [] [NatV c, NatV seed])
            (publish (Event ''vrf_evaluated'' [] [NatV seed, NatV out, NatV c])
              (s\<lparr>vrf_nonce := Some seed, vrf_counter := Some (c + 1)\<rparr>)))"
  by (auto simp: evaluate_vrf_def fresh_nonce_def res_simps int_simps Let_def not_le
      split: option.splits)

lemma evaluate_vrf_state:
  assumes "evaluate_vrf sha seed s = Inr (out, s')"
  shows "vrf_nonce s' = Some seed" "vrf_salt s' = vrf_salt s" "vrf_admin s' = vrf_admin s"
    and "cb_ledger s' = cb_ledger s" "cb_reent s' = cb_reent s" "cb_paused s' = cb_paused s"
  using assms by (auto simp: evaluate_vrf_Inr)

lemma u32_to_le_bytes_length [simp]: "length (u32_to_le_bytes n) = 4"
  by (simp add: u32_to_le_bytes_def)

lemma byte_unat: "unat (word_of_nat n :: 8 word) = n mod 256"
  by (simp add: unat_of_nat)

lemma base_256: "(n::nat) mod 256 + 256 * (n div 256) = n"
  by presburger

lemma u32_bytes_value:
  fixes n :: nat
  assumes "n < 2 ^ 32"
  shows "n mod 256 + 256 * (n div 256 mod 256 + 256 * (n div 65536 mod 256
           + 256 * (n div 16777216 mod 256))) = n"
proof -
  have d: "n div 65536 = n div 256 div 256" "n div 16777216 = n div 256 div 256 div 256"
    by (simp_all add: div_mult2_eq [symmetric])
  have "n div 16777216 < 256" using assms by (simp add: less_mult_imp_div_less)
  then have "n div 256 div 256 div 256 mod 256 = n div 256 div 256 div 256" by (simp add: d)
  then show ?thesis unfolding d using base_256 [of n] base_256 [of "n div 256"]
    base_256 [of "n div 256 div 256"] by simp
qed

lemma u32_to_le_bytes_inj:
  assumes "m < 2 ^ 32" "n < 2 ^ 32" "u32_to_le_bytes m = u32_to_le_bytes n"
  shows "m = n"
proof -
  have eq: "x mod 256 = y mod 256" if "(word_of_nat x :: 8 word) = word_of_nat y" for x y
    using that byte_unat [of x] byte_unat [of y] by simp
  from assms(3) have "m mod 256 = n mod 256" "m div 256 mod 256 = n div 256 mod 256"
    "m div 65536 mod 256 = n div 65536 mod 256"
    "m div 16777216 mod 256 = n div 16777216 mod 256"
    by (auto simp: u32_to_le_bytes_def intro: eq)
  then show ?thesis using u32_bytes_value [OF assms(1)] u32_bytes_value [OF assms(2)] by metis
qed

lemma hash_to_bytes_inj:
  assumes "hash_to_bytes a salt c = hash_to_bytes a' salt c'"
    and "a < 2 ^ 32" "a' < 2 ^ 32" "c < 2 ^ 32" "c' < 2 ^ 32"
  shows "a = a' \<and> c = c'"
  using assms u32_to_le_bytes_inj by (auto simp: hash_to_bytes_def)

lemma shuffle_loop_spec:
  assumes "map (\<lambda>i. base + i) is = [m..<m + length is]"
    and "m + length is \<le> 2 ^ 32" "fresh_nonce m s"
    and "vrf_counter s = Some c" "vrf_salt s = Some salt" "c + length is < 2 ^ 32"
  shows "\<exists>s'. shuffle_loop sha n base is acc s
      = Inr (acc @ map (\<lambda>j. compute_vrf_hash sha (m + j) salt (c + j) mod n) [0..<length is], s')
    \<and> vrf_counter s' = Some (c + length is) \<and> vrf_salt s' = Some salt
    \<and> vrf_nonce s' = (if is = [] then vrf_nonce s else Some (m + length is - 1))
    \<and> cb_ledger s' = cb_ledger s"
  using assms
proof (induction "is" arbitrary: m c s acc)
  case Nil
  then show ?case by simp
next
  case (Cons i "is")
  from Cons.prems(1) have i: "base + i = m" and tl: "map (\<lambda>i. base + i) is = [Suc m..<Suc m + length is]"
    by (simp_all add: upt_rec split: if_splits)
  let ?o = "compute_vrf_hash sha m salt c"
  obtain s1 where ev: "evaluate_vrf sha m s = Inr (?o, s1)"
    and s1: "vrf_nonce s1 = Some m" "vrf_counter s1 = Some (Suc c)" "vrf_salt s1 = Some salt"
      "cb_ledger s1 = cb_ledger s"
    using Cons.prems(3-6) by (simp add: evaluate_vrf_Inr)
  have "fresh_nonce (Suc m) s1" using s1 by (simp add: fresh_nonce_def)
  with Cons.IH [OF tl _ this s1(2,3), of "acc @ [?o mod n]"] Cons.prems
  obtain s' where s': "shuffle_loop sha n base is (acc @ [?o mod n]) s1
      = Inr ((acc @ [?o mod n]) @ map (\<lambda>j. compute_vrf_hash sha (Suc m + j) salt (Suc c + j) mod n)
          [0..<length is], s')"
    "vrf_counter s' = Some (Suc c + length is)" "vrf_salt s' = Some salt"
    "vrf_nonce s' = (if is = [] then vrf_nonce s1 else Some (Suc m + length is - 1))"
    "cb_ledger s' = cb_ledger s1"
    by auto
  have "map (\<lambda>j. compute_vrf_hash sha (m + j) salt (c + j) mod n) [0..<length (i # is)]
      = ?o mod n # map (\<lambda>j. compute_vrf_hash sha (Suc m + j) salt (Suc c + j) mod n) [0..<length is]"
    by (simp add: upt_conv_Cons map_Suc_upt [symmetric] del: upt_Suc)
  moreover have "u_checked_add 32 base i = Some m" using i Cons.prems(2) by (simp add: u_checked_add_def)
  ultimately show ?case using ev s' s1 by auto
qed

text \<open>A sequence of evaluations, its outputs collected.\<close>

fun vrf_run ::
    "(bytes \<Rightarrow> bytes) \<Rightarrow> nat list \<Rightarrow> ('l, 'a) vrf_base_scheme
      \<Rightarrow> (vrf_error, nat list \<times> ('l, 'a) vrf_base_scheme) res" where
  "vrf_run sha [] s = Inr ([], s)"
| "vrf_run sha (x # xs) s =
     bind_res (evaluate_vrf sha x s) (\<lambda>(out, s).
     bind_res (vrf_run sha xs s) (\<lambda>(outs, s). Inr (out # outs, s)))"

text \<open>The byte string the i-th evaluation of a run hashes.\<close>

definition run_preimage :: "bytes \<Rightarrow> nat \<Rightarrow> nat list \<Rightarrow> nat \<Rightarrow> bytes" where
  "run_preimage salt c seeds i = hash_to_bytes (seeds ! i) salt (c + i)"

lemma vrf_run_facts:
  assumes "vrf_run sha seeds s = Inr (outs, s')" "vrf_counter s = Some c" "vrf_salt s = Some salt"
  shows "sorted_wrt (<) seeds \<and> (\<forall>x\<in>set seeds. fresh_nonce x s)
    \<and> vrf_counter s' = Some (c + length seeds) \<and> vrf_salt s' = Some salt
    \<and> (seeds \<noteq> [] \<longrightarrow> c + length seeds < 2 ^ 32)
    \<and> outs = map (\<lambda>i. compute_vrf_hash sha (seeds ! i) salt (c + i)) [0..<length seeds]"
  using assms
proof (induction seeds arbitrary: s c outs)
  case Nil
  then show ?case by simp
next
  case (Cons x xs)
  then obtain out s1 outs1 where ev: "evaluate_vrf sha x s = Inr (out, s1)"
    and run: "vrf_run sha xs s1 = Inr (outs1, s')" and outs: "outs = out # outs1"
    by (auto simp: res_simps split: prod.splits)
  from ev Cons.prems have s1: "vrf_nonce s1 = Some x" "vrf_counter s1 = Some (Suc c)"
    "vrf_salt s1 = Some salt" "fresh_nonce x s" "Suc c < 2 ^ 32" "out = compute_vrf_hash sha x salt c"
    by (auto simp: evaluate_vrf_Inr)
  note IH = Cons.IH [OF run s1(2,3)]
  have "x < y \<and> fresh_nonce y s" if "y \<in> set xs" for y
    using IH that s1(1,4) by (force simp: fresh_nonce_def)
  moreover have "map (\<lambda>i. compute_vrf_hash sha ((x # xs) ! i) salt (c + i)) [0..<length (x # xs)]
      = out # map (\<lambda>i. compute_vrf_hash sha (xs ! i) salt (Suc c + i)) [0..<length xs]"
    using s1(6) by (simp add: upt_conv_Cons map_Suc_upt [symmetric] del: upt_Suc)
  ultimately show ?case using IH s1 outs by (cases xs) simp_all
qed

lemma vrf_run_last:
  "vrf_run sha seeds s = Inr (outs, s') \<Longrightarrow> x \<in> set seeds \<Longrightarrow>
    \<exists>m. vrf_nonce s' = Some m \<and> x \<le> m"
proof (induction seeds arbitrary: s outs x)
  case Nil
  then show ?case by simp
next
  case (Cons y ys)
  then obtain out s1 outs1 where ev: "evaluate_vrf sha y s = Inr (out, s1)"
    and run: "vrf_run sha ys s1 = Inr (outs1, s')"
    by (auto simp: res_simps split: prod.splits)
  show ?case
  proof (cases "ys = []")
    case True
    with run ev Cons.prems(2) show ?thesis by (auto simp: evaluate_vrf_state)
  next
    case False
    then obtain z where z: "z \<in> set ys" by (cases ys) auto
    from ev obtain c salt where "vrf_counter s1 = Some c" "vrf_salt s1 = Some salt"
      by (auto simp: evaluate_vrf_Inr)
    from vrf_run_facts [OF run this] z have "fresh_nonce z s1" by blast
    with ev have "y < z" by (simp add: fresh_nonce_def evaluate_vrf_state)
    with Cons.IH [OF run] z Cons.prems(2) show ?thesis by fastforce
  qed
qed

section \<open>Properties\<close>

text \<open>
  Drawing the payout order never fails on a fresh base nonce while the counters have room, and
  the drawn order is determined by the salt and the counter: position \<open>j\<close> is the hash of
  \<open>(base + j, salt, c + j)\<close> modulo \<open>n\<close>, so the result has \<open>n\<close> entries, all below \<open>n\<close>, and the
  nonce and the counter end exactly \<open>n\<close> evaluations later.
\<close>

theorem shuffle_positions_determined:
  assumes "fresh_nonce base s" "vrf_counter s = Some c" "vrf_salt s = Some salt"
    and "base + n \<le> 2 ^ 32" "c + n < 2 ^ 32" "0 < n"
  shows "\<exists>s' ps. shuffle_positions sha n base s = Inr (ps, s')
    \<and> ps = map (\<lambda>j. compute_vrf_hash sha (base + j) salt (c + j) mod n) [0..<n]
    \<and> length ps = n \<and> (\<forall>p\<in>set ps. p < n)
    \<and> vrf_counter s' = Some (c + n) \<and> vrf_nonce s' = Some (base + n - 1)"
proof -
  have "map (\<lambda>i. base + i) [0..<n] = [base..<base + length [0..<n]]"
    using map_add_upt [of base n] by (simp add: add.commute)
  from shuffle_loop_spec [OF this, of s c salt sha n "[]"] assms
  show ?thesis by (auto simp: shuffle_positions_def)
qed

text \<open>
  C37: no evaluation can be replayed. In any run of successful evaluations the nonces increase
  strictly, every output is the hash of its nonce, the salt and the running counter, no two
  evaluations hash the same byte string, and a nonce of the run is refused ever after.
\<close>

theorem vrf_no_replay:
  assumes "vrf_run sha seeds s = Inr (outs, s')" "vrf_counter s = Some c" "vrf_salt s = Some salt"
    and "\<forall>x\<in>set seeds. x < 2 ^ 32"
  shows "sorted_wrt (<) seeds
    \<and> outs = map (\<lambda>i. compute_vrf_hash sha (seeds ! i) salt (c + i)) [0..<length seeds]
    \<and> inj_on (run_preimage salt c seeds) {..<length seeds}
    \<and> (\<forall>x\<in>set seeds. evaluate_vrf sha x s' = Inl (Err Replay))"
proof -
  note facts = vrf_run_facts [OF assms(1-3)]
  have inj: "inj_on (run_preimage salt c seeds) {..<length seeds}"
  proof (rule inj_onI)
    fix i j assume ij: "i \<in> {..<length seeds}" "j \<in> {..<length seeds}"
      and eq: "run_preimage salt c seeds i = run_preimage salt c seeds j"
    then have "seeds \<noteq> []" by auto
    with facts have "c + length seeds < 2 ^ 32" by simp
    with hash_to_bytes_inj [OF eq [unfolded run_preimage_def]] assms(4) ij show "i = j" by simp
  qed
  have "evaluate_vrf sha x s' = Inl (Err Replay)" if "x \<in> set seeds" for x
    using vrf_run_last [OF assms(1) that] by (auto simp: evaluate_vrf_def)
  with facts inj show ?thesis by blast
qed

text \<open>
  Verification agrees with evaluation. Whatever happens to the VRF later, as long as the salt is
  the one of the evaluation, the output recorded with its nonce and counter is accepted exactly when
  the signature over the hashed byte string is valid under the active key, and a different output is
  answered with \<open>false\<close> without any signature check.
\<close>

theorem verify_evaluated:
  assumes "evaluate_vrf sha seed s = Inr (out, s')" "vrf_counter s = Some c"
    and "vrf_salt t = vrf_salt s" "vrf_admin t = Some key" "vrf_salt s = Some salt"
  shows "verify_vrf sha ed seed out c sig t
           = (if ed key (hash_to_bytes seed salt c) sig then Inr True else Inl Trap)
    \<and> (\<forall>out'. out' \<noteq> out \<longrightarrow> verify_vrf sha ed seed out' c sig t = Inr False)"
  using assms by (auto simp: evaluate_vrf_Inr verify_vrf_def)

text \<open>
  A key rotation cannot take effect early and does not disturb verification meanwhile. After a
  proposal at time \<open>now h\<close> with delay \<open>d\<close>, verification answers as before; activation is refused with
  \<open>ActivationNotReady\<close> before \<open>now h + d\<close>, and from then on installs the proposed key and consumes
  the proposal.
\<close>

theorem key_rotation_delayed:
  assumes "propose_key_rotation h owner key d s = Inr s'" "authorized h' owner"
  shows "verify_vrf sha ed seed out c sig s' = verify_vrf sha ed seed out c sig s
    \<and> (if now h' < now h + d
       then activate_key_rotation h' owner s' = Inl (Err ActivationNotReady)
       else (\<exists>s''. activate_key_rotation h' owner s' = Inr s'' \<and> vrf_admin s'' = Some key
              \<and> activate_key_rotation h' owner s'' = Inl (Err NoPendingRotation)))"
  using assms
  by (auto simp: propose_key_rotation_def activate_key_rotation_def verify_vrf_def require_auth_def
      res_simps int_simps split: option.splits)

section \<open>The properties on concrete inputs\<close>

definition vrf_sample :: "unit vrf_base" where
  "vrf_sample = \<lparr>cb_paused = None, cb_reent = None, cb_events = [], cb_ledger = (),
     vrf_admin = Some [1, 2], vrf_salt = Some [3, 4], vrf_counter = Some 5, vrf_owner = Some 7,
     vrf_pending = None, vrf_pending_at = None, vrf_nonce = Some 9\<rparr>"

definition sha_sample :: "bytes \<Rightarrow> bytes" where
  "sha_sample bs = concat (replicate 4 (rev bs))"

definition host_sample :: "nat \<Rightarrow> host" where
  "host_sample t = \<lparr>self = 100, now = t, seq = 1, authorized = (\<lambda>a. a \<noteq> 100)\<rparr>"

lemma vrf_sample_simps [simp]:
  "vrf_admin vrf_sample = Some [1, 2]" "vrf_salt vrf_sample = Some [3, 4]"
  "vrf_counter vrf_sample = Some 5" "vrf_owner vrf_sample = Some 7" "vrf_nonce vrf_sample = Some 9"
  by (simp_all add: vrf_sample_def)

theorem shuffle_positions_determined_witness:
  "\<exists>s' ps. shuffle_positions sha_sample 4 10 vrf_sample = Inr (ps, s')
    \<and> ps = map (\<lambda>j. compute_vrf_hash sha_sample (10 + j) [3, 4] (5 + j) mod 4) [0..<4]
    \<and> length ps = 4 \<and> (\<forall>p\<in>set ps. p < 4)
    \<and> vrf_counter s' = Some (5 + 4) \<and> vrf_nonce s' = Some (10 + 4 - 1)"
  by (rule shuffle_positions_determined) (simp_all add: fresh_nonce_def)

theorem vrf_no_replay_witness:
  "\<exists>outs s'. vrf_run sha_sample [10, 12] vrf_sample = Inr (outs, s')
    \<and> inj_on (run_preimage [3, 4] 5 [10, 12]) {..<length [10, 12::nat]}
    \<and> evaluate_vrf sha_sample 12 s' = Inl (Err Replay)"
proof -
  obtain outs s' where run: "vrf_run sha_sample [10, 12] vrf_sample = Inr (outs, s')"
    by (simp add: evaluate_vrf_def u_checked_add_def Let_def)
  from vrf_no_replay [OF run, of 5 "[3, 4]"] run show ?thesis by auto
qed

theorem verify_evaluated_witness:
  "\<exists>out s'. evaluate_vrf sha_sample 10 vrf_sample = Inr (out, s')
    \<and> verify_vrf sha_sample (\<lambda>k m sig. sig = m) 10 out 5 (hash_to_bytes 10 [3, 4] 5) vrf_sample = Inr True"
proof -
  obtain out s' where ev: "evaluate_vrf sha_sample 10 vrf_sample = Inr (out, s')"
    by (simp add: evaluate_vrf_def u_checked_add_def Let_def)
  from verify_evaluated [OF ev, of 5 vrf_sample "[1, 2]" "[3, 4]"] ev show ?thesis by auto
qed

theorem key_rotation_delayed_witness:
  "\<exists>s'. propose_key_rotation (host_sample 50) 7 [8] 10 vrf_sample = Inr s'
    \<and> activate_key_rotation (host_sample 59) 7 s' = Inl (Err ActivationNotReady)
    \<and> (\<exists>s''. activate_key_rotation (host_sample 60) 7 s' = Inr s'' \<and> vrf_admin s'' = Some [8])"
proof -
  obtain s' where p: "propose_key_rotation (host_sample 50) 7 [8] 10 vrf_sample = Inr s'"
    by (simp add: propose_key_rotation_def require_auth_def host_sample_def u_checked_add_def)
  from key_rotation_delayed [OF p, of "host_sample 59" sha_sample "\<lambda>_ _ _. True" 0 0 0 "[]"]
    key_rotation_delayed [OF p, of "host_sample 60" sha_sample "\<lambda>_ _ _. True" 0 0 0 "[]"] p
  show ?thesis by (auto simp: host_sample_def)
qed

end
