(* ===== verification/Reputation.thy ===== *)
theory Reputation
  imports Common_Lib
begin

text \<open>
  The reputation registry (\<open>packages/reputation-registry\<close>): the score record per user that
  \<open>record_activity\<close> keeps, with its paginated activity log (\<open>contract.rs\<close>), and the separate raw
  member score with streaks, completions and defaults (\<open>scoring.rs\<close>, \<open>storage.rs\<close>).
\<close>

section \<open>State\<close>

record moi_score =
  ms_user :: addr
  ms_score :: nat
  ms_tier :: nat
  ms_total_circles :: nat
  ms_completed_circles :: nat
  ms_defaulted_circles :: nat
  ms_streak_count :: nat
  ms_last_activity_at :: nat
  ms_updated_at :: nat

record activity =
  ac_user :: addr
  ac_activity_type :: nat
  ac_score_impact :: nat
  ac_timestamp :: nat

datatype reputation_error =
    NotInitialized | Unauthorized | ContractPaused | InvalidActivityType | ScoreNotFound
  | InvalidScoreImpact | Overflow

record reputation = contract_base +
  rp_admin :: "addr option"
  rp_score :: "addr \<rightharpoonup> moi_score"
  rp_page :: "addr \<times> nat \<rightharpoonup> activity list"
  rp_count :: "addr \<rightharpoonup> nat"
  rp_streak :: "addr \<times> addr \<rightharpoonup> nat"
  rp_completions :: "addr \<rightharpoonup> nat"
  rp_member_score :: "addr \<rightharpoonup> nat"
  rp_defaults :: "addr \<rightharpoonup> nat"
  rp_member_log :: "addr \<rightharpoonup> activity list"
  rp_last_round :: "addr \<times> addr \<rightharpoonup> nat"

definition rp_empty :: reputation where
  "rp_empty = \<lparr>cb_paused = None, cb_reent = None, cb_events = [], rp_admin = None,
     rp_score = Map.empty, rp_page = Map.empty, rp_count = Map.empty, rp_streak = Map.empty,
     rp_completions = Map.empty, rp_member_score = Map.empty, rp_defaults = Map.empty,
     rp_member_log = Map.empty, rp_last_round = Map.empty\<rparr>"

section \<open>The activity record and its log\<close>

definition ACTIVITY_PAGE_SIZE :: nat where "ACTIVITY_PAGE_SIZE = 50"

definition reputation_init :: "host \<Rightarrow> addr \<Rightarrow> reputation \<Rightarrow> (reputation_error, reputation) res" where
  "reputation_init h admin s =
     bind_res (require_auth h admin) (\<lambda>_. Inr (s\<lparr>rp_admin := Some admin\<rparr>))"

definition default_score :: "addr \<Rightarrow> nat \<Rightarrow> moi_score" where
  "default_score user t =
     \<lparr>ms_user = user, ms_score = 0, ms_tier = 0, ms_total_circles = 0, ms_completed_circles = 0,
      ms_defaulted_circles = 0, ms_streak_count = 0, ms_last_activity_at = t, ms_updated_at = t\<rparr>"

text \<open>The \<open>match\<close> of \<open>record\<close> on the activity type.\<close>

definition count_activity :: "nat \<Rightarrow> moi_score \<Rightarrow> (reputation_error, moi_score) res" where
  "count_activity t score =
     (if t = 0 then
        bind_res (ok_or (u_checked_add 32 (ms_total_circles score) 1) Overflow) (\<lambda>n.
        Inr (score\<lparr>ms_total_circles := n\<rparr>))
      else if t = 1 then
        bind_res (ok_or (u_checked_add 32 (ms_streak_count score) 1) Overflow) (\<lambda>n.
        Inr (score\<lparr>ms_streak_count := n\<rparr>))
      else if t = 2 then
        bind_res (ok_or (u_checked_add 32 (ms_completed_circles score) 1) Overflow) (\<lambda>n.
        Inr (score\<lparr>ms_completed_circles := n\<rparr>))
      else if t = 3 then
        bind_res (ok_or (u_checked_add 32 (ms_defaulted_circles score) 1) Overflow) (\<lambda>n.
        Inr (score\<lparr>ms_defaulted_circles := n, ms_streak_count := 0\<rparr>))
      else Inr score)"

definition record_tier :: "nat \<Rightarrow> nat" where
  "record_tier sc =
     (if sc \<ge> 800 then 4 else if sc \<ge> 600 then 3 else if sc \<ge> 400 then 2
      else if sc \<ge> 200 then 1 else 0)"

definition record_activity ::
    "host \<Rightarrow> addr \<Rightarrow> nat \<Rightarrow> nat \<Rightarrow> reputation \<Rightarrow> (reputation_error, reputation) res" where
  "record_activity h user t impact s =
     bind_res (not_paused_or ContractPaused s) (\<lambda>_.
     bind_res (require_auth h user) (\<lambda>_.
     if t > 4 then Inl (Err InvalidActivityType) else
     if impact > 1000 then Inl (Err InvalidScoreImpact) else
     let total_acts = unwrap_or (rp_count s user) 0 in
     bind_res (ok_or (u_checked_add 32 total_acts 1) Overflow) (\<lambda>next_total_acts.
     let score = unwrap_or (rp_score s user) (default_score user (now h));
         old = ms_score score;
         ns = u_saturating_add 32 (ms_score score) impact;
         score = score\<lparr>ms_score := if ns > 1000 then 1000 else ns\<rparr> in
     bind_res (count_activity t score) (\<lambda>score.
     let score = score\<lparr>ms_tier := record_tier (ms_score score),
                       ms_last_activity_at := now h, ms_updated_at := now h\<rparr>;
         s = s\<lparr>rp_score := (rp_score s)(user \<mapsto> score)\<rparr>;
         page_index = total_acts div ACTIVITY_PAGE_SIZE;
         acts = unwrap_or (rp_page s (user, page_index)) [];
         acts = acts @ [\<lparr>ac_user = user, ac_activity_type = t, ac_score_impact = impact,
                         ac_timestamp = now h\<rparr>];
         s = s\<lparr>rp_page := (rp_page s)((user, page_index) \<mapsto> acts),
               rp_count := (rp_count s)(user \<mapsto> next_total_acts)\<rparr>;
         s = publish (Event ''activity'' [AddrV (self h)]
               [AddrV user, NatV t, NatV impact, NatV (ms_score score)]) s
     in Inr (if old \<noteq> ms_score score
             then publish (Event ''score_up'' [AddrV (self h)]
                    [AddrV user, NatV old, NatV (ms_score score), NatV (ms_tier score)]) s
             else s)))))"

definition reputation_get_score ::
    "addr \<Rightarrow> reputation \<Rightarrow> (reputation_error, moi_score) res" where
  "reputation_get_score u s =
     bind_res (not_paused_or ContractPaused s) (\<lambda>_.
     Inr (unwrap_or (rp_score s u) (default_score u 0)))"

text \<open>
  The loop of \<open>get_history\<close>: it reads a storage page when the page of the index changes and keeps it
  for the indices that follow.
\<close>

fun history_loop ::
    "reputation \<Rightarrow> addr \<Rightarrow> nat list \<Rightarrow> nat \<Rightarrow> activity list option \<Rightarrow> activity list \<Rightarrow> activity list" where
  "history_loop s user [] cur_idx cur_vec out = out"
| "history_loop s user (idx # idxs) cur_idx cur_vec out =
     (let p_idx = idx div ACTIVITY_PAGE_SIZE;
          offset = idx mod ACTIVITY_PAGE_SIZE;
          (cur_idx, cur_vec) =
            (if p_idx \<noteq> cur_idx then (p_idx, rp_page s (user, p_idx)) else (cur_idx, cur_vec));
          out = (case cur_vec of None \<Rightarrow> out
                 | Some v \<Rightarrow> if offset < length v then out @ [v ! offset] else out)
      in history_loop s user idxs cur_idx cur_vec out)"

definition get_history :: "addr \<Rightarrow> nat \<Rightarrow> nat \<Rightarrow> reputation \<Rightarrow> activity list" where
  "get_history user page page_size s =
     (if page_size = 0 then [] else
      let total = unwrap_or (rp_count s user) 0;
          start = u_saturating_mul 32 page page_size in
      if start \<ge> total then [] else
      let end_idx = min (u_saturating_add 32 start page_size) total
      in history_loop s user [start..<end_idx] (2 ^ 32 - 1) None [])"

definition pause_registry :: "host \<Rightarrow> addr \<Rightarrow> reputation \<Rightarrow> (reputation_error, reputation) res" where
  "pause_registry h a s =
     bind_res (ok_or (rp_admin s) NotInitialized) (\<lambda>stored.
     if a \<noteq> stored then Inl (Err Unauthorized) else
     map_err (\<lambda>_. ContractPaused) (common_pause h a s))"

definition unpause_registry :: "host \<Rightarrow> addr \<Rightarrow> reputation \<Rightarrow> (reputation_error, reputation) res" where
  "unpause_registry h a s =
     bind_res (ok_or (rp_admin s) NotInitialized) (\<lambda>stored.
     if a \<noteq> stored then Inl (Err Unauthorized) else
     map_err (\<lambda>_. ContractPaused) (common_unpause h a s))"

section \<open>Member scores\<close>

text \<open>The accessors of \<open>storage.rs\<close>; the plain \<open>+ 1\<close> on \<open>u32\<close> wraps.\<close>

definition storage_get_score :: "reputation \<Rightarrow> addr \<Rightarrow> nat" where
  "storage_get_score s member = unwrap_or (rp_member_score s member) 0"

definition storage_set_score :: "addr \<Rightarrow> nat \<Rightarrow> reputation \<Rightarrow> reputation" where
  "storage_set_score member score s = s\<lparr>rp_member_score := (rp_member_score s)(member \<mapsto> score)\<rparr>"

definition get_streak :: "reputation \<Rightarrow> addr \<Rightarrow> addr \<Rightarrow> nat" where
  "get_streak s member circle_id = unwrap_or (rp_streak s (member, circle_id)) 0"

definition increment_streak :: "addr \<Rightarrow> addr \<Rightarrow> reputation \<Rightarrow> reputation" where
  "increment_streak member circle_id s =
     (let current = get_streak s member circle_id
      in s\<lparr>rp_streak := (rp_streak s)((member, circle_id) \<mapsto> wrap_u 32 (int current + 1))\<rparr>)"

definition get_completions :: "reputation \<Rightarrow> addr \<Rightarrow> nat" where
  "get_completions s member = unwrap_or (rp_completions s member) 0"

definition increment_completions :: "addr \<Rightarrow> reputation \<Rightarrow> reputation" where
  "increment_completions member s =
     (let current = get_completions s member
      in s\<lparr>rp_completions := (rp_completions s)(member \<mapsto> wrap_u 32 (int current + 1))\<rparr>)"

definition get_defaults :: "reputation \<Rightarrow> addr \<Rightarrow> nat" where
  "get_defaults s member = unwrap_or (rp_defaults s member) 0"

definition increment_defaults :: "addr \<Rightarrow> reputation \<Rightarrow> reputation" where
  "increment_defaults member s =
     (let current = get_defaults s member
      in s\<lparr>rp_defaults := (rp_defaults s)(member \<mapsto> wrap_u 32 (int current + 1))\<rparr>)"

definition add_activity :: "host \<Rightarrow> addr \<Rightarrow> nat \<Rightarrow> nat \<Rightarrow> reputation \<Rightarrow> reputation" where
  "add_activity h member activity_type impact s =
     (let activities = unwrap_or (rp_member_log s member) [];
          activities = activities @ [\<lparr>ac_user = member, ac_activity_type = activity_type,
                         ac_score_impact = impact, ac_timestamp = now h\<rparr>]
      in s\<lparr>rp_member_log := (rp_member_log s)(member \<mapsto> activities)\<rparr>)"

definition get_last_round :: "reputation \<Rightarrow> addr \<Rightarrow> addr \<Rightarrow> nat" where
  "get_last_round s member circle_id = unwrap_or (rp_last_round s (member, circle_id)) 0"

definition set_last_round :: "addr \<Rightarrow> addr \<Rightarrow> nat \<Rightarrow> reputation \<Rightarrow> reputation" where
  "set_last_round member circle_id round s =
     s\<lparr>rp_last_round := (rp_last_round s)((member, circle_id) \<mapsto> round)\<rparr>"

subsection \<open>Tiers and the limits they give\<close>

definition get_tier :: "nat \<Rightarrow> nat" where
  "get_tier score =
     (if score \<ge> 801 then 4 else if score \<ge> 601 then 3 else if score \<ge> 401 then 2
      else if score \<ge> 201 then 1 else 0)"

definition calculate_collateral :: "reputation \<Rightarrow> addr \<Rightarrow> nat" where
  "calculate_collateral s member =
     (let t = get_tier (storage_get_score s member)
      in if t = 4 then 0 else if t = 3 then 100 else if t = 2 then 300 else if t = 1 then 500
         else 1000)"

definition max_circle_size :: "reputation \<Rightarrow> addr \<Rightarrow> nat" where
  "max_circle_size s member =
     (let t = get_tier (storage_get_score s member)
      in if t = 4 then 100 else if t = 3 then 50 else if t = 2 then 20 else if t = 1 then 10 else 5)"

definition max_contribution :: "reputation \<Rightarrow> addr \<Rightarrow> int" where
  "max_contribution s member =
     (let t = get_tier (storage_get_score s member)
      in if t = 4 then 500000000000 else if t = 3 then 100000000000
         else if t = 2 then 20000000000 else if t = 1 then 5000000000 else 1000000000)"

definition qualifies_for_circle :: "reputation \<Rightarrow> addr \<Rightarrow> nat \<Rightarrow> bool \<Rightarrow> bool" where
  "qualifies_for_circle s member min_score require_completions =
     (let score = storage_get_score s member in
      if score < min_score then False
      else if require_completions \<and> get_completions s member = 0 then False
      else True)"

subsection \<open>Scoring\<close>

definition streak_bonus :: "nat \<Rightarrow> nat" where
  "streak_bonus streak = (if streak \<le> 10 then streak * 5 else 50)"

definition volume_bonus :: "int \<Rightarrow> nat" where
  "volume_bonus amount =
     (let volume_bonus_raw = wrap_u 32 (amount sdiv 1000000000)
      in if volume_bonus_raw > 20 then 20 else volume_bonus_raw)"

definition record_on_time_payment ::
    "host \<Rightarrow> addr \<Rightarrow> addr \<Rightarrow> int \<Rightarrow> nat \<Rightarrow> reputation \<Rightarrow> nat \<times> reputation" where
  "record_on_time_payment h member circle_id amount round s =
     (let current = storage_get_score s member;
          streak = get_streak s member circle_id;
          last_round = get_last_round s member circle_id;
          (streak, s) =
            (if last_round = 0 \<or> round = wrap_u 32 (int last_round + 1)
             then (wrap_u 32 (int streak + 1), increment_streak member circle_id s)
             else (1, s\<lparr>rp_streak := (rp_streak s)((member, circle_id) \<mapsto> 1)\<rparr>));
          s = set_last_round member circle_id round s;
          new_score = u_saturating_add 32 (u_saturating_add 32 (u_saturating_add 32 current 10)
            (streak_bonus streak)) (volume_bonus amount);
          capped = (if new_score > 1000 then 1000 else new_score);
          s = storage_set_score member capped s
      in (capped, add_activity h member 1 1 s))"

definition record_circle_completion :: "host \<Rightarrow> addr \<Rightarrow> reputation \<Rightarrow> nat \<times> reputation" where
  "record_circle_completion h member s =
     (let current = storage_get_score s member;
          new_score = u_saturating_add 32 current 100;
          capped = (if new_score > 1000 then 1000 else new_score);
          s = storage_set_score member capped (increment_completions member s)
      in (capped, add_activity h member 2 5 s))"

definition record_default :: "host \<Rightarrow> addr \<Rightarrow> reputation \<Rightarrow> nat \<times> reputation" where
  "record_default h member s =
     (let current = storage_get_score s member;
          new_score = (if current > 200 then current - 200 else 0);
          s = storage_set_score member new_score (increment_defaults member s)
      in (new_score, add_activity h member 3 0 s))"

definition apply_inactivity_decay :: "addr \<Rightarrow> nat \<Rightarrow> reputation \<Rightarrow> nat \<times> reputation" where
  "apply_inactivity_decay member days_inactive s =
     (let current = storage_get_score s member;
          months = days_inactive div 30;
          decay = wrap_u 32 (int (u_saturating_mul 64 months 5));
          new_score = (if current > decay then current - decay else 0)
      in (new_score, storage_set_score member new_score s))"

text \<open>The entry points of \<open>lib.rs\<close> around them: not paused, and authorized by the member.\<close>

definition scoring_call ::
    "host \<Rightarrow> addr \<Rightarrow> (reputation \<Rightarrow> nat \<times> reputation) \<Rightarrow> reputation
      \<Rightarrow> (reputation_error, nat \<times> reputation) res" where
  "scoring_call h member f s =
     bind_res (not_paused_or ContractPaused s) (\<lambda>_.
     bind_res (require_auth h member) (\<lambda>_. Inr (f s)))"

section \<open>The contract as a state machine\<close>

datatype rp_op =
    RpInit addr
  | Record addr nat nat
  | PauseRegistry addr
  | UnpauseRegistry addr
  | OnTimePayment addr addr int nat
  | CircleCompletion addr
  | MemberDefault addr
  | InactivityDecay addr nat

fun rp_exec :: "host \<Rightarrow> rp_op \<Rightarrow> reputation \<Rightarrow> (reputation_error, reputation) res" where
  "rp_exec h (RpInit a) s = reputation_init h a s"
| "rp_exec h (Record u t i) s = record_activity h u t i s"
| "rp_exec h (PauseRegistry a) s = pause_registry h a s"
| "rp_exec h (UnpauseRegistry a) s = unpause_registry h a s"
| "rp_exec h (OnTimePayment m c x r) s =
     bind_res (scoring_call h m (record_on_time_payment h m c x r) s) (\<lambda>(_, s). Inr s)"
| "rp_exec h (CircleCompletion m) s =
     bind_res (scoring_call h m (record_circle_completion h m) s) (\<lambda>(_, s). Inr s)"
| "rp_exec h (MemberDefault m) s =
     bind_res (scoring_call h m (record_default h m) s) (\<lambda>(_, s). Inr s)"
| "rp_exec h (InactivityDecay m d) s =
     bind_res (scoring_call h m (apply_inactivity_decay m d) s) (\<lambda>(_, s). Inr s)"

inductive rp_reachable :: "reputation \<Rightarrow> bool" where
  rp_start: "rp_reachable rp_empty"
| rp_call: "rp_reachable s \<Longrightarrow> rp_exec h op s = Inr s' \<Longrightarrow> rp_reachable s'"

section \<open>Lemmas\<close>

lemma publish_reputation [simp]:
  "rp_score (publish ev s) = rp_score s" "rp_page (publish ev s) = rp_page s"
  "rp_count (publish ev s) = rp_count s" "rp_member_score (publish ev s) = rp_member_score s"
  "rp_admin (publish ev s) = rp_admin s"
  by (simp_all add: publish_def)

text \<open>Scores are capped and every stored tier is the tier of the stored score.\<close>

definition score_inv :: "reputation \<Rightarrow> bool" where
  "score_inv s \<longleftrightarrow>
     (\<forall>u sc. rp_score s u = Some sc \<longrightarrow>
        ms_user sc = u \<and> ms_score sc \<le> 1000 \<and> ms_tier sc = record_tier (ms_score sc))
     \<and> (\<forall>u v. rp_member_score s u = Some v \<longrightarrow> v \<le> 1000)"

text \<open>The pages of a user partition the log: page \<open>k\<close> holds the entries from \<open>50 * k\<close> on, 50 at most.\<close>

definition log_inv :: "reputation \<Rightarrow> bool" where
  "log_inv s \<longleftrightarrow> (\<forall>u. unwrap_or (rp_count s u) 0 < 2 ^ 32
     \<and> (\<forall>k. rp_page s (u, k) = None \<longrightarrow> unwrap_or (rp_count s u) 0 \<le> 50 * k)
     \<and> (\<forall>k v. rp_page s (u, k) = Some v \<longrightarrow> 50 * k < unwrap_or (rp_count s u) 0
            \<and> length v = min 50 (unwrap_or (rp_count s u) 0 - 50 * k)))"

definition log_entry :: "reputation \<Rightarrow> addr \<Rightarrow> nat \<Rightarrow> activity" where
  "log_entry s u i = the (rp_page s (u, i div 50)) ! (i mod 50)"

definition user_log :: "reputation \<Rightarrow> addr \<Rightarrow> activity list" where
  "user_log s u = map (log_entry s u) [0..<unwrap_or (rp_count s u) 0]"

lemma log_inv_count: "log_inv s \<Longrightarrow> unwrap_or (rp_count s u) 0 < 2 ^ 32"
  by (simp add: log_inv_def)

lemma log_inv_None: "log_inv s \<Longrightarrow> rp_page s (u, k) = None \<Longrightarrow> unwrap_or (rp_count s u) 0 \<le> 50 * k"
  by (simp add: log_inv_def)

lemma log_inv_Some: "log_inv s \<Longrightarrow> rp_page s (u, k) = Some v \<Longrightarrow>
    50 * k < unwrap_or (rp_count s u) 0 \<and> length v = min 50 (unwrap_or (rp_count s u) 0 - 50 * k)"
  by (simp add: log_inv_def)

lemma log_inv_page:
  assumes "log_inv s" "i < unwrap_or (rp_count s u) 0"
  obtains v where "rp_page s (u, i div 50) = Some v" "i mod 50 < length v"
proof (cases "rp_page s (u, i div 50)")
  case None
  from log_inv_None [OF assms(1) this] assms(2) show ?thesis by presburger
next
  case (Some v)
  from log_inv_Some [OF assms(1) this] assms(2) have "i mod 50 < length v"
    by (auto simp: min_def) presburger
  with Some that show ?thesis by blast
qed

lemma history_loop_spec:
  assumes "log_inv s" "\<forall>i\<in>set idxs. i < unwrap_or (rp_count s u) 0"
    and "cur \<noteq> 2 ^ 32 - 1 \<longrightarrow> vec = rp_page s (u, cur)"
  shows "history_loop s u idxs cur vec out = out @ map (log_entry s u) idxs"
  using assms(2,3)
proof (induction idxs arbitrary: cur vec out)
  case Nil
  then show ?case by simp
next
  case (Cons i idxs)
  then have i: "i < unwrap_or (rp_count s u) 0" by simp
  from log_inv_page [OF assms(1) this] obtain v
    where v: "rp_page s (u, i div 50) = Some v" "i mod 50 < length v" .
  from i log_inv_count [OF assms(1), of u] have "i div 50 \<noteq> 2 ^ 32 - 1" by simp
  with Cons.prems(2) v have "(if i div 50 \<noteq> cur then (i div 50, rp_page s (u, i div 50))
      else (cur, vec)) = (i div 50, Some v)" by auto
  moreover have "history_loop s u idxs (i div 50) (Some v) (out @ [v ! (i mod 50)])
      = (out @ [v ! (i mod 50)]) @ map (log_entry s u) idxs"
    by (rule Cons.IH) (use Cons.prems v in auto)
  ultimately show ?case using v by (simp add: ACTIVITY_PAGE_SIZE_def Let_def log_entry_def)
qed

lemma user_log_length [simp]: "length (user_log s u) = unwrap_or (rp_count s u) 0"
  by (simp add: user_log_def)

lemma get_history_slice:
  assumes "log_inv s"
  shows "get_history u page sz s = take sz (drop (page * sz) (user_log s u))"
proof (cases "sz = 0 \<or> unwrap_or (rp_count s u) 0 \<le> u_saturating_mul 32 page sz")
  case True
  then show ?thesis using log_inv_count [OF assms, of u]
    by (auto simp: get_history_def u_saturating_mul_def)
next
  case False
  let ?n = "unwrap_or (rp_count s u) 0" and ?b = "page * sz"
  let ?e = "min (u_saturating_add 32 ?b sz) ?n"
  from False log_inv_count [OF assms, of u] have start: "u_saturating_mul 32 page sz = ?b" "?b < ?n"
    by (auto simp: u_saturating_mul_def min_def split: if_splits)
  with log_inv_count [OF assms, of u] have e: "?e = min (?b + sz) ?n"
    by (simp add: u_saturating_add_def min_def)
  have "get_history u page sz s = history_loop s u [?b..<?e] (2 ^ 32 - 1) None []"
    using False start by (simp add: get_history_def Let_def)
  also have "\<dots> = map (log_entry s u) [?b..<?e]"
    by (subst history_loop_spec [OF assms]) (use e in auto)
  also have "\<dots> = take sz (drop ?b (user_log s u))"
    unfolding e user_log_def by (simp add: take_map drop_map take_upt min_def)
  finally show ?thesis .
qed

lemma count_activity_score:
  "count_activity t sc = Inr sc' \<Longrightarrow> ms_score sc' = ms_score sc \<and> ms_user sc' = ms_user sc"
  by (auto simp: count_activity_def res_simps split: if_splits)

lemma record_activity_effect:
  assumes "record_activity h u t i s = Inr s'"
  shows "\<not> is_paused s" "authorized h u" "t \<le> 4" "i \<le> 1000"
    and "unwrap_or (rp_count s u) 0 + 1 < 2 ^ 32"
    and "rp_count s' = (rp_count s)(u \<mapsto> unwrap_or (rp_count s u) 0 + 1)"
    and "rp_page s' = (rp_page s)((u, unwrap_or (rp_count s u) 0 div 50) \<mapsto>
           unwrap_or (rp_page s (u, unwrap_or (rp_count s u) 0 div 50)) []
             @ [\<lparr>ac_user = u, ac_activity_type = t, ac_score_impact = i, ac_timestamp = now h\<rparr>])"
    and "rp_member_score s' = rp_member_score s"
    and "\<exists>sc. rp_score s' = (rp_score s)(u \<mapsto> sc)
       \<and> ms_user sc = ms_user (unwrap_or (rp_score s u) (default_score u (now h)))
       \<and> ms_score sc = min 1000 (u_saturating_add 32
            (ms_score (unwrap_or (rp_score s u) (default_score u (now h)))) i)
       \<and> ms_tier sc = record_tier (ms_score sc)"
  using assms
  by (auto simp: record_activity_def res_simps int_simps Let_def ACTIVITY_PAGE_SIZE_def min_def
      dest!: count_activity_score split: if_splits)

lemma log_inv_append:
  assumes inv: "log_inv s" and n: "n = unwrap_or (rp_count s u) 0" "n + 1 < 2 ^ 32"
    and c: "rp_count s' = (rp_count s)(u \<mapsto> n + 1)"
    and p: "rp_page s' = (rp_page s)((u, n div 50) \<mapsto> unwrap_or (rp_page s (u, n div 50)) [] @ [a])"
  shows "log_inv s'" and "user_log s' u = user_log s u @ [a]"
    and "w \<noteq> u \<Longrightarrow> user_log s' w = user_log s w"
proof -
  let ?old = "unwrap_or (rp_page s (u, n div 50)) []"
  have len: "length ?old = n mod 50"
  proof (cases "rp_page s (u, n div 50)")
    case None
    from log_inv_None [OF inv this] n(1) have "n mod 50 = 0" by simp presburger
    with None show ?thesis by simp
  next
    case (Some v)
    from log_inv_Some [OF inv this] n(1) have "50 * (n div 50) < n" "length v = min 50 (n - 50 * (n div 50))"
      by simp_all
    with Some show ?thesis by (simp add: minus_mult_div_eq_mod min_def)
  qed
  have own: "50 * k < n + 1 \<and> length v = min 50 (n + 1 - 50 * k)"
    if "rp_page s' (u, k) = Some v" for k v
  proof (cases "k = n div 50")
    case True
    with that p have "v = ?old @ [a]" by simp
    with len True show ?thesis by simp presburger
  next
    case False
    with that p have "rp_page s (u, k) = Some v" by simp
    from log_inv_Some [OF inv this] n(1) False show ?thesis by simp
  qed
  have absent: "n + 1 \<le> 50 * k" if "rp_page s' (u, k) = None" for k
  proof -
    from that p have "k \<noteq> n div 50" "rp_page s (u, k) = None" by (auto split: if_splits)
    with log_inv_None [OF inv this(2)] n(1) show ?thesis by simp
  qed
  show inv': "log_inv s'"
    unfolding log_inv_def
  proof (intro allI conjI impI)
    fix w k v
    show "unwrap_or (rp_count s' w) 0 < 2 ^ 32"
      using c n log_inv_count [OF inv, of w] by simp
    show "unwrap_or (rp_count s' w) 0 \<le> 50 * k" if "rp_page s' (w, k) = None"
      using absent that c p log_inv_None [OF inv, of w k] by (cases "w = u") auto
    show "50 * k < unwrap_or (rp_count s' w) 0" if "rp_page s' (w, k) = Some v"
      using own that c p log_inv_Some [OF inv, of w k v] by (cases "w = u") auto
    show "length v = min 50 (unwrap_or (rp_count s' w) 0 - 50 * k)" if "rp_page s' (w, k) = Some v"
      using own that c p log_inv_Some [OF inv, of w k v] by (cases "w = u") auto
  qed
  have keep: "log_entry s' u i = log_entry s u i" if "i < n" for i
  proof (cases "i div 50 = n div 50")
    case True
    with that n(1) log_inv_page [OF inv, of i u] obtain v where v: "rp_page s (u, n div 50) = Some v"
      and l: "i mod 50 < length v" by auto
    with p True show ?thesis by (simp add: log_entry_def nth_append)
  next
    case False
    with p show ?thesis by (simp add: log_entry_def)
  qed
  have "log_entry s' u n = a" using p len by (simp add: log_entry_def nth_append)
  with keep show "user_log s' u = user_log s u @ [a]"
    by (simp add: user_log_def c n(1) [symmetric])
  show "user_log s' w = user_log s w" if "w \<noteq> u"
    using that p c by (simp add: user_log_def log_entry_def)
qed

lemma score_inv_record:
  assumes inv: "score_inv s" and r: "record_activity h u t i s = Inr s'"
  shows "score_inv s'"
proof -
  from record_activity_effect(8,9) [OF r] obtain sc where sc: "rp_score s' = (rp_score s)(u \<mapsto> sc)"
    "ms_user sc = ms_user (unwrap_or (rp_score s u) (default_score u (now h)))"
    "ms_score sc = min 1000 (u_saturating_add 32
            (ms_score (unwrap_or (rp_score s u) (default_score u (now h)))) i)"
    "ms_tier sc = record_tier (ms_score sc)" and m: "rp_member_score s' = rp_member_score s"
    by blast
  from inv have "ms_user (unwrap_or (rp_score s u) (default_score u (now h))) = u"
    by (cases "rp_score s u") (auto simp: score_inv_def default_score_def)
  with inv sc m show ?thesis by (simp add: score_inv_def)
qed

text \<open>The scoring calls touch neither the log nor the score record.\<close>

lemmas scoring_defs = record_on_time_payment_def record_circle_completion_def record_default_def
  apply_inactivity_decay_def storage_set_score_def add_activity_def increment_streak_def
  increment_completions_def increment_defaults_def set_last_round_def

lemma scoring_frame:
  assumes "f \<in> {record_on_time_payment h m c x r, record_circle_completion h m, record_default h m,
               apply_inactivity_decay m d}"
  shows "rp_score (snd (f s)) = rp_score s" "rp_page (snd (f s)) = rp_page s"
    "rp_count (snd (f s)) = rp_count s"
    "rp_member_score (snd (f s)) = (rp_member_score s)(m \<mapsto> fst (f s))"
  using assms by (auto simp: scoring_defs Let_def split: prod.splits if_splits)

lemma score_bounds:
  assumes "score_inv s"
  shows "fst (record_on_time_payment h m c x r s) \<le> 1000"
    "fst (record_circle_completion h m s) \<le> 1000"
    "fst (record_default h m s) \<le> 1000"
    "fst (apply_inactivity_decay m d s) \<le> 1000"
proof -
  from assms have "storage_get_score s m \<le> 1000"
    by (cases "rp_member_score s m") (auto simp: score_inv_def storage_get_score_def)
  then show "fst (record_on_time_payment h m c x r s) \<le> 1000"
    "fst (record_circle_completion h m s) \<le> 1000"
    "fst (record_default h m s) \<le> 1000" "fst (apply_inactivity_decay m d s) \<le> 1000"
    by (auto simp: record_on_time_payment_def record_circle_completion_def record_default_def
        apply_inactivity_decay_def Let_def split: prod.splits)
qed

lemma rp_inv_cong:
  "rp_score s' = rp_score s \<Longrightarrow> rp_member_score s' = rp_member_score s \<Longrightarrow> score_inv s' = score_inv s"
  "rp_page s' = rp_page s \<Longrightarrow> rp_count s' = rp_count s \<Longrightarrow> log_inv s' = log_inv s"
  by (simp_all add: score_inv_def log_inv_def)

lemma scoring_call_inv:
  assumes "score_inv s" "log_inv s" "scoring_call h m f s = Inr (v, s')"
    and "f \<in> {record_on_time_payment h m c x r, record_circle_completion h m, record_default h m,
               apply_inactivity_decay m d}"
  shows "score_inv s' \<and> log_inv s'"
proof -
  from assms(3) have f: "snd (f s) = s'" "fst (f s) = v" by (auto simp: scoring_call_def res_simps)
  from scoring_frame [OF assms(4), of s] f have fr: "rp_score s' = rp_score s"
    "rp_page s' = rp_page s" "rp_count s' = rp_count s" "rp_member_score s' = (rp_member_score s)(m \<mapsto> v)"
    by simp_all
  moreover have "v \<le> 1000" using score_bounds [OF assms(1)] assms(4) f by auto
  ultimately show ?thesis using assms(1,2) rp_inv_cong(2) [of s' s] by (simp add: score_inv_def)
qed

lemma record_activity_inv:
  assumes "score_inv s" "log_inv s" "record_activity h u t i s = Inr s'"
  shows "score_inv s' \<and> log_inv s'"
  using score_inv_record [OF assms(1,3)]
    log_inv_append(1) [OF assms(2) refl record_activity_effect(5-7) [OF assms(3)]] by blast

lemma rp_admin_frame:
  "reputation_init h a s = Inr s' \<Longrightarrow> score_inv s' = score_inv s \<and> log_inv s' = log_inv s"
  "pause_registry h a s = Inr s' \<Longrightarrow> score_inv s' = score_inv s \<and> log_inv s' = log_inv s"
  "unpause_registry h a s = Inr s' \<Longrightarrow> score_inv s' = score_inv s \<and> log_inv s' = log_inv s"
  by (auto simp: reputation_init_def pause_registry_def unpause_registry_def common_pause_def
      common_unpause_def res_simps score_inv_def log_inv_def split: if_splits)

lemma rp_exec_inv:
  assumes inv: "score_inv s \<and> log_inv s" and ex: "rp_exec h op s = Inr s'"
  shows "score_inv s' \<and> log_inv s'"
proof (cases op)
  case (Record u t i)
  with ex inv show ?thesis by (auto dest: record_activity_inv)
next
  case (OnTimePayment m c x r)
  with ex inv show ?thesis by (auto simp: bind_res_Inr dest: scoring_call_inv)
next
  case (CircleCompletion m)
  with ex inv show ?thesis by (auto simp: bind_res_Inr dest: scoring_call_inv)
next
  case (MemberDefault m)
  with ex inv show ?thesis by (auto simp: bind_res_Inr dest: scoring_call_inv)
next
  case (InactivityDecay m d)
  with ex inv show ?thesis by (auto simp: bind_res_Inr dest: scoring_call_inv)
qed (use inv ex in \<open>auto simp: rp_admin_frame\<close>)

lemma rp_reachable_inv: "rp_reachable s \<Longrightarrow> score_inv s \<and> log_inv s"
proof (induction rule: rp_reachable.induct)
  case rp_start
  show ?case by (simp add: score_inv_def log_inv_def rp_empty_def)
next
  case (rp_call s h op s')
  from rp_exec_inv [OF rp_call(3,2)] show ?case .
qed

lemma unwrap_score_user:
  "score_inv s \<Longrightarrow> ms_score (unwrap_or (rp_score s u) (default_score u t)) \<le> 1000"
  by (cases "rp_score s u") (auto simp: score_inv_def default_score_def)

lemma payment_accessors:
  "get_streak (add_activity h m a b (storage_set_score m v (set_last_round m c r t))) m c = get_streak t m c"
  "get_last_round (add_activity h m a b (storage_set_score m v (set_last_round m c r t))) m c = r"
  "storage_get_score (add_activity h m a b (storage_set_score m v (set_last_round m c r t))) m = v"
  by (simp_all add: get_streak_def get_last_round_def storage_get_score_def set_last_round_def
      storage_set_score_def add_activity_def Let_def)

lemma payment_bounds:
  "(n::nat) \<le> 1000 \<Longrightarrow> n \<le> min 1000 (n + 10 + min 50 (5 * k) + min 20 l)
     \<and> min 1000 (n + 10 + min 50 (5 * k) + min 20 l) \<le> n + 80"
  by (simp add: min_def)

section \<open>Properties\<close>

text \<open>
  In every state the registry can reach, whatever calls were made, each user's stored score is at
  most 1000 and carries the tier of that score, and each raw member score is at most 1000.
\<close>

theorem reputation_scores_bounded:
  assumes "rp_reachable s"
  shows "(case rp_score s u of None \<Rightarrow> True | Some sc \<Rightarrow>
            ms_user sc = u \<and> ms_score sc \<le> 1000 \<and> ms_tier sc = record_tier (ms_score sc))
    \<and> storage_get_score s u \<le> 1000"
  using rp_reachable_inv [OF assms]
  by (cases "rp_member_score s u") (auto simp: score_inv_def storage_get_score_def split: option.splits)

text \<open>
  C35: the paginated storage is a faithful log. In every reachable state \<open>get_history\<close> returns the
  requested slice of the user's log, whatever the storage page size is; and a successful
  \<open>record_activity\<close> appends exactly one entry to that log, leaves every other user's log alone, and
  sets the score to the old score plus the impact, capped at 1000.
\<close>

theorem history_is_log_slice:
  assumes "rp_reachable s" "record_activity h u t i s = Inr s'"
  shows "get_history w page sz s = take sz (drop (page * sz) (user_log s w))
    \<and> user_log s' u = user_log s u
         @ [\<lparr>ac_user = u, ac_activity_type = t, ac_score_impact = i, ac_timestamp = now h\<rparr>]
    \<and> (w \<noteq> u \<longrightarrow> user_log s' w = user_log s w)
    \<and> (\<exists>sc. rp_score s' u = Some sc \<and> ms_score sc
           = min 1000 (ms_score (unwrap_or (rp_score s u) (default_score u (now h))) + i))"
proof -
  from rp_reachable_inv [OF assms(1)] have inv: "score_inv s" "log_inv s" by simp_all
  note eff = record_activity_effect [OF assms(2)]
  note app = log_inv_append [OF inv(2) refl eff(5-7)]
  from eff(9) obtain sc where "rp_score s' u = Some sc" "ms_score sc = min 1000 (u_saturating_add 32
      (ms_score (unwrap_or (rp_score s u) (default_score u (now h)))) i)" by auto
  with unwrap_score_user [OF inv(1), of u "now h"] eff(4)
  have "\<exists>sc. rp_score s' u = Some sc \<and> ms_score sc
      = min 1000 (ms_score (unwrap_or (rp_score s u) (default_score u (now h))) + i)"
    by (simp add: u_saturating_add_def)
  with app(2,3) get_history_slice [OF inv(2)] show ?thesis by blast
qed

text \<open>
  An on-time payment continues the streak exactly when it is the first one in the circle or the
  round follows the last one, and restarts it at 1 otherwise; the new score is the old one plus 10,
  plus five per payment in the streak (50 at most), plus one per 100 USDC (20 at most), capped at
  1000. So a payment never lowers the score and raises it by at most 80.
\<close>

theorem on_time_payment_score:
  assumes "rp_reachable s" "record_on_time_payment h m c x r s = (score, s')"
    and "0 \<le> x" "x < 2 ^ 32 * 1000000000" "get_streak s m c < 2 ^ 32 - 1"
    and "get_last_round s m c < 2 ^ 32 - 1"
  shows "(let streak = (if get_last_round s m c = 0 \<or> r = get_last_round s m c + 1
                       then get_streak s m c + 1 else 1);
              old = storage_get_score s m in
     get_streak s' m c = streak \<and> get_last_round s' m c = r \<and> storage_get_score s' m = score
     \<and> score = min 1000 (old + 10 + min 50 (5 * streak) + min 20 (nat (x div 1000000000)))
     \<and> old \<le> score \<and> score \<le> old + 80)"
proof -
  from rp_reachable_inv [OF assms(1)] have cur: "storage_get_score s m \<le> 1000"
    by (cases "rp_member_score s m") (auto simp: score_inv_def storage_get_score_def)
  have w: "wrap_u 32 (int (get_streak s m c) + 1) = get_streak s m c + 1"
    "wrap_u 32 (int (get_last_round s m c) + 1) = get_last_round s m c + 1"
    using assms(5,6) wrap_u_id [of "get_streak s m c + 1" 32]
      wrap_u_id [of "get_last_round s m c + 1" 32] by (simp_all add: add.commute)
  have "x div 1000000000 < 2 ^ 32" using assms(3,4) by linarith
  then have vol: "volume_bonus x = min 20 (nat (x div 1000000000))"
    using assms(3) by (simp add: volume_bonus_def sdiv_nonneg wrap_u_def pos_imp_zdiv_nonneg_iff Let_def)
  have bon: "streak_bonus k = min 50 (5 * k)" for k by (simp add: streak_bonus_def)
  have sat: "u_saturating_add 32 (u_saturating_add 32 (u_saturating_add 32 o1 10) (min 50 k)) (min 20 l)
      = o1 + 10 + min 50 k + min 20 l" if "o1 \<le> 1000" for o1 k l
    using that by (simp add: u_saturating_add_def)
  have capped: "(if n > 1000 then 1000 else n) = min 1000 n" for n :: nat by simp
  obtain old where old: "old = storage_get_score s m" by blast
  obtain l where l: "l = nat (x div 1000000000)" by blast
  obtain k where k: "k = (if get_last_round s m c = 0 \<or> r = get_last_round s m c + 1
    then get_streak s m c + 1 else 1)" by blast
  obtain v where v: "v = min 1000 (old + 10 + min 50 (5 * k) + min 20 l)" by blast
  let ?t = "if get_last_round s m c = 0 \<or> r = get_last_round s m c + 1
    then increment_streak m c s else s\<lparr>rp_streak := (rp_streak s)((m, c) \<mapsto> 1)\<rparr>"
  have "(score, s') = (v, add_activity h m 1 1 (storage_set_score m v (set_last_round m c r ?t)))"
    unfolding assms(2) [symmetric] record_on_time_payment_def Let_def w vol bon
    by (cases "get_last_round s m c = 0 \<or> r = get_last_round s m c + 1")
      (simp_all only: if_True if_False prod.case sat [OF cur [folded old]] capped old [symmetric] l [symmetric] k v)
  then have sc: "score = v" and acc: "get_streak s' m c = get_streak ?t m c"
    "get_last_round s' m c = r" "storage_get_score s' m = v"
    by (simp_all only: prod.inject payment_accessors)
  moreover have "get_streak ?t m c = k"
    using w(1) by (simp add: k get_streak_def increment_streak_def Let_def)
  moreover have "old \<le> v \<and> v \<le> old + 80" using payment_bounds cur unfolding v old by blast
  ultimately show ?thesis
    unfolding Let_def k [symmetric] old [symmetric] l [symmetric] v [symmetric] by simp
qed

text \<open>
  The two tier tables of the contract disagree at the four boundaries: a record with score 200,
  400, 600 or 800 is stored with the higher tier, which the collateral and limit functions do not
  grant; everywhere else the tables agree.
\<close>

theorem tier_tables_differ_at_boundaries:
  "record_tier sc = get_tier sc \<longleftrightarrow> sc \<noteq> 200 \<and> sc \<noteq> 400 \<and> sc \<noteq> 600 \<and> sc \<noteq> 800"
  by (simp add: record_tier_def get_tier_def)

section \<open>The properties on concrete inputs\<close>

definition rp_host :: host where
  "rp_host = \<lparr>self = 100, now = 50, seq = 1, authorized = (\<lambda>a. a \<noteq> 100)\<rparr>"

definition rp_sample :: reputation where
  "rp_sample = (case record_activity rp_host 7 1 200 rp_empty of Inl e \<Rightarrow> rp_empty | Inr s \<Rightarrow> s)"

lemma rp_sample_exec: "record_activity rp_host 7 1 200 rp_empty = Inr rp_sample"
  by (simp add: rp_sample_def record_activity_def rp_host_def rp_empty_def when_not_paused_def
      is_paused_def require_auth_def u_checked_add_def u_saturating_add_def count_activity_def
      default_score_def Let_def ACTIVITY_PAGE_SIZE_def)

lemma rp_sample_reachable: "rp_reachable rp_sample"
  by (rule rp_call [OF rp_start, where op = "Record 7 1 200" and h = rp_host])
    (use rp_sample_exec in simp)

theorem reputation_scores_bounded_witness:
  "(case rp_score rp_sample 7 of None \<Rightarrow> True | Some sc \<Rightarrow>
      ms_user sc = 7 \<and> ms_score sc \<le> 1000 \<and> ms_tier sc = record_tier (ms_score sc))
    \<and> storage_get_score rp_sample 7 \<le> 1000"
  by (rule reputation_scores_bounded [OF rp_sample_reachable])

theorem history_is_log_slice_witness:
  "get_history 7 0 10 rp_empty = []
    \<and> user_log rp_sample 7 = [\<lparr>ac_user = 7, ac_activity_type = 1, ac_score_impact = 200, ac_timestamp = 50\<rparr>]"
  using history_is_log_slice [OF rp_start rp_sample_exec, of 7 0 10]
  by (simp add: user_log_def rp_empty_def rp_host_def)

theorem on_time_payment_score_witness:
  "\<exists>s'. record_on_time_payment rp_host 7 8 5000000000 1 rp_empty = (20, s') \<and> get_streak s' 7 8 = 1"
proof -
  obtain v s' where r: "record_on_time_payment rp_host 7 8 5000000000 1 rp_empty = (v, s')"
    by (cases "record_on_time_payment rp_host 7 8 5000000000 1 rp_empty")
  from on_time_payment_score [OF rp_start r] r show ?thesis
    by (auto simp: Let_def get_streak_def get_last_round_def storage_get_score_def rp_empty_def)
qed

end
