(* ===== verification/Registry_Lifetime.thy ===== *)
theory Registry_Lifetime
  imports Reputation
begin

text \<open>
  How long the storage of the reputation registry lives (\<open>packages/common/src/ttl.rs\<close> and its calls in
  \<open>packages/reputation-registry\<close>, the one contract that extends the lifetime of its entries). An entry
  has a last ledger; a call that needs an entry after it is refused. The data of the registry is the
  state of \<open>Reputation\<close>; this theory adds the lifetimes and, for every entry point, the accesses to
  persistent storage it makes, in their order. The host's rule for extensions is a parameter.
\<close>

section \<open>The helpers of \<open>ttl.rs\<close>\<close>

definition LEDGERS_PER_DAY :: nat where "LEDGERS_PER_DAY = 17280"

definition PERSISTENT_TTL_THRESHOLD :: nat where "PERSISTENT_TTL_THRESHOLD = 30 * LEDGERS_PER_DAY"

definition PERSISTENT_TTL_EXTEND_TO :: nat where "PERSISTENT_TTL_EXTEND_TO = 90 * LEDGERS_PER_DAY"

definition INSTANCE_TTL_THRESHOLD :: nat where "INSTANCE_TTL_THRESHOLD = 7 * LEDGERS_PER_DAY"

definition INSTANCE_TTL_EXTEND_TO :: nat where "INSTANCE_TTL_EXTEND_TO = 30 * LEDGERS_PER_DAY"

lemmas ttl_constants = LEDGERS_PER_DAY_def PERSISTENT_TTL_THRESHOLD_def PERSISTENT_TTL_EXTEND_TO_def
  INSTANCE_TTL_THRESHOLD_def INSTANCE_TTL_EXTEND_TO_def

text \<open>The keys of the registry, as \<open>DataKey\<close> of \<open>types.rs\<close> has them.\<close>

datatype data_key =
    Admin
  | Score addr
  | UserActivityPage addr nat
  | UserActivityCount addr
  | Streak addr addr
  | Completions addr
  | MemberScore addr
  | Defaults addr
  | MemberLog addr
  | LastRound addr addr

text \<open>The last ledger of the instance and of every persistent entry that is present.\<close>

record lifetimes =
  lt_instance :: nat
  lt_entries :: "data_key \<rightharpoonup> nat"

text \<open>
  The host: \<open>th_extend n l threshold to\<close> is the last ledger \<open>extend_ttl\<close> gives at ledger \<open>n\<close> to an entry
  that lasted to \<open>l\<close>, \<open>th_create n\<close> the last ledger of an entry that is created at \<open>n\<close>.
\<close>

record ttl_host =
  th_extend :: "nat \<Rightarrow> nat \<Rightarrow> nat \<Rightarrow> nat \<Rightarrow> nat"
  th_create :: "nat \<Rightarrow> nat"

definition extend_persistent :: "ttl_host \<Rightarrow> nat \<Rightarrow> data_key \<Rightarrow> lifetimes \<Rightarrow> lifetimes" where
  "extend_persistent H n k t =
     (case lt_entries t k of
        None \<Rightarrow> t
      | Some l \<Rightarrow> t\<lparr>lt_entries := (lt_entries t)(k \<mapsto>
          th_extend H n l PERSISTENT_TTL_THRESHOLD PERSISTENT_TTL_EXTEND_TO)\<rparr>)"

definition extend_instance :: "ttl_host \<Rightarrow> nat \<Rightarrow> lifetimes \<Rightarrow> lifetimes" where
  "extend_instance H n t =
     t\<lparr>lt_instance := th_extend H n (lt_instance t) INSTANCE_TTL_THRESHOLD INSTANCE_TTL_EXTEND_TO\<rparr>"

section \<open>The accesses of every entry point\<close>

text \<open>
  The calls of the storage interface, one by one: \<open>get\<close> and \<open>set\<close> of a persistent entry, and the helpers
  \<open>extend_persistent\<close> and \<open>extend_instance\<close>. Reading or writing an entry extends nothing by itself.
\<close>

datatype access = Get data_key | Put data_key | Extend data_key | ExtendInstance

text \<open>An archived entry cannot be read, written or extended.\<close>

definition alive :: "nat \<Rightarrow> data_key \<Rightarrow> lifetimes \<Rightarrow> bool" where
  "alive n k t \<longleftrightarrow> (case lt_entries t k of None \<Rightarrow> True | Some l \<Rightarrow> n \<le> l)"

fun accessible :: "nat \<Rightarrow> access \<Rightarrow> lifetimes \<Rightarrow> bool" where
  "accessible n (Get k) t = alive n k t"
| "accessible n (Put k) t = alive n k t"
| "accessible n (Extend k) t = alive n k t"
| "accessible n ExtendInstance t = True"

definition put_entry :: "ttl_host \<Rightarrow> nat \<Rightarrow> data_key \<Rightarrow> lifetimes \<Rightarrow> lifetimes" where
  "put_entry H n k t = (case lt_entries t k of
     None \<Rightarrow> t\<lparr>lt_entries := (lt_entries t)(k \<mapsto> th_create H n)\<rparr> | Some _ \<Rightarrow> t)"

fun do_access :: "ttl_host \<Rightarrow> nat \<Rightarrow> access \<Rightarrow> lifetimes \<Rightarrow> lifetimes" where
  "do_access H n (Get k) t = t"
| "do_access H n (Put k) t = put_entry H n k t"
| "do_access H n (Extend k) t = extend_persistent H n k t"
| "do_access H n ExtendInstance t = extend_instance H n t"

fun do_accesses :: "ttl_host \<Rightarrow> nat \<Rightarrow> access list \<Rightarrow> lifetimes \<Rightarrow> (reputation_error, lifetimes) res" where
  "do_accesses H n [] t = Inr t"
| "do_accesses H n (a # as) t =
     (if accessible n a t then do_accesses H n as (do_access H n a t) else Inl Trap)"

text \<open>The accessors of \<open>storage.rs\<close>.\<close>

definition get_score_accesses :: "addr \<Rightarrow> access list" where
  "get_score_accesses m = [Get (MemberScore m), Extend (MemberScore m)]"

definition set_score_accesses :: "addr \<Rightarrow> access list" where
  "set_score_accesses m = [Put (MemberScore m), Extend (MemberScore m)]"

definition get_streak_accesses :: "addr \<Rightarrow> addr \<Rightarrow> access list" where
  "get_streak_accesses m c = [Get (Streak m c), Extend (Streak m c)]"

definition increment_streak_accesses :: "addr \<Rightarrow> addr \<Rightarrow> access list" where
  "increment_streak_accesses m c = get_streak_accesses m c @ [Put (Streak m c), Extend (Streak m c)]"

definition get_completions_accesses :: "addr \<Rightarrow> access list" where
  "get_completions_accesses m = [Get (Completions m), Extend (Completions m)]"

definition increment_completions_accesses :: "addr \<Rightarrow> access list" where
  "increment_completions_accesses m =
     get_completions_accesses m @ [Put (Completions m), Extend (Completions m)]"

definition get_defaults_accesses :: "addr \<Rightarrow> access list" where
  "get_defaults_accesses m = [Get (Defaults m), Extend (Defaults m)]"

definition increment_defaults_accesses :: "addr \<Rightarrow> access list" where
  "increment_defaults_accesses m = get_defaults_accesses m @ [Put (Defaults m), Extend (Defaults m)]"

definition add_activity_accesses :: "addr \<Rightarrow> access list" where
  "add_activity_accesses m = [Get (MemberLog m), Put (MemberLog m), Extend (MemberLog m)]"

definition get_last_round_accesses :: "addr \<Rightarrow> addr \<Rightarrow> access list" where
  "get_last_round_accesses m c = [Get (LastRound m c), Extend (LastRound m c)]"

definition set_last_round_accesses :: "addr \<Rightarrow> addr \<Rightarrow> access list" where
  "set_last_round_accesses m c = [Put (LastRound m c), Extend (LastRound m c)]"

lemmas accessor_defs = get_score_accesses_def set_score_accesses_def get_streak_accesses_def
  increment_streak_accesses_def get_completions_accesses_def increment_completions_accesses_def
  get_defaults_accesses_def increment_defaults_accesses_def add_activity_accesses_def
  get_last_round_accesses_def set_last_round_accesses_def

text \<open>The scoring functions of \<open>scoring.rs\<close>.\<close>

definition payment_accesses :: "addr \<Rightarrow> addr \<Rightarrow> nat \<Rightarrow> reputation \<Rightarrow> access list" where
  "payment_accesses m c r s =
     get_score_accesses m @ get_streak_accesses m c @ get_last_round_accesses m c
     @ (if get_last_round s m c = 0 \<or> r = wrap_u 32 (int (get_last_round s m c) + 1)
        then increment_streak_accesses m c else [Put (Streak m c), Extend (Streak m c)])
     @ set_last_round_accesses m c @ set_score_accesses m @ add_activity_accesses m"

definition completion_accesses :: "addr \<Rightarrow> access list" where
  "completion_accesses m = get_score_accesses m @ increment_completions_accesses m
     @ set_score_accesses m @ add_activity_accesses m"

definition default_accesses :: "addr \<Rightarrow> access list" where
  "default_accesses m = get_score_accesses m @ increment_defaults_accesses m
     @ set_score_accesses m @ add_activity_accesses m"

definition decay_accesses :: "addr \<Rightarrow> access list" where
  "decay_accesses m = get_score_accesses m @ set_score_accesses m"

text \<open>The handlers of \<open>contract.rs\<close>.\<close>

definition record_accesses :: "addr \<Rightarrow> reputation \<Rightarrow> access list" where
  "record_accesses u s =
     (let page_index = unwrap_or (rp_count s u) 0 div ACTIVITY_PAGE_SIZE;
          score_key = Score u; page_key = UserActivityPage u page_index; count_key = UserActivityCount u in
      [ExtendInstance, Get count_key, Get score_key, Put score_key, Extend score_key,
       Get page_key, Put page_key, Extend page_key, Put count_key, Extend count_key])"

definition registry_score_accesses :: "addr \<Rightarrow> access list" where
  "registry_score_accesses u = [ExtendInstance, Get (Score u), Extend (Score u)]"

fun page_reads :: "addr \<Rightarrow> nat list \<Rightarrow> nat \<Rightarrow> access list" where
  "page_reads u [] cur = []"
| "page_reads u (idx # idxs) cur =
     (let p_idx = idx div ACTIVITY_PAGE_SIZE; page_key = UserActivityPage u p_idx in
      if p_idx \<noteq> cur then Get page_key # Extend page_key # page_reads u idxs p_idx
      else page_reads u idxs cur)"

definition history_accesses :: "addr \<Rightarrow> nat \<Rightarrow> nat \<Rightarrow> reputation \<Rightarrow> access list" where
  "history_accesses u page page_size s =
     (if page_size = 0 then [] else
      let total = unwrap_or (rp_count s u) 0;
          start = u_saturating_mul 32 page page_size in
      [ExtendInstance, Get (UserActivityCount u), Extend (UserActivityCount u)]
      @ (if start \<ge> total then [] else
         page_reads u [start..<min (u_saturating_add 32 start page_size) total] (2 ^ 32 - 1)))"

text \<open>The entry points: those that change the data, and the queries, which extend lifetimes as well.\<close>

datatype rl_call =
    Op rp_op
  | GetScore addr
  | GetHistory addr nat nat
  | CalcCollateral addr
  | CalcMaxSize addr
  | CalcMaxContrib addr
  | GetMoiScore addr
  | GetMoiTier addr

fun call_accesses :: "rl_call \<Rightarrow> reputation \<Rightarrow> access list" where
  "call_accesses (Op (RpInit a)) s = [ExtendInstance]"
| "call_accesses (Op (Record u t i)) s = record_accesses u s"
| "call_accesses (Op (PauseRegistry a)) s = [ExtendInstance]"
| "call_accesses (Op (UnpauseRegistry a)) s = [ExtendInstance]"
| "call_accesses (Op (OnTimePayment m c x r)) s = payment_accesses m c r s"
| "call_accesses (Op (CircleCompletion m)) s = completion_accesses m"
| "call_accesses (Op (MemberDefault m)) s = default_accesses m"
| "call_accesses (Op (InactivityDecay m d)) s = decay_accesses m"
| "call_accesses (GetScore u) s = registry_score_accesses u"
| "call_accesses (GetHistory u p z) s = history_accesses u p z s"
| "call_accesses (CalcCollateral m) s = get_score_accesses m"
| "call_accesses (CalcMaxSize m) s = get_score_accesses m"
| "call_accesses (CalcMaxContrib m) s = get_score_accesses m"
| "call_accesses (GetMoiScore m) s = get_score_accesses m"
| "call_accesses (GetMoiTier m) s = get_score_accesses m"

fun call_data :: "host \<Rightarrow> rl_call \<Rightarrow> reputation \<Rightarrow> (reputation_error, reputation) res" where
  "call_data h (Op op) s = rp_exec h op s"
| "call_data h (GetScore u) s = bind_res (reputation_get_score u s) (\<lambda>_. Inr s)"
| "call_data h (GetHistory u p z) s = Inr s"
| "call_data h (CalcCollateral m) s = Inr s"
| "call_data h (CalcMaxSize m) s = Inr s"
| "call_data h (CalcMaxContrib m) s = Inr s"
| "call_data h (GetMoiScore m) s = Inr s"
| "call_data h (GetMoiTier m) s = Inr s"

record lasting =
  rl_data :: reputation
  rl_life :: lifetimes

text \<open>A call needs the instance of the contract and every entry it accesses.\<close>

definition rl_exec :: "ttl_host \<Rightarrow> host \<Rightarrow> rl_call \<Rightarrow> lasting \<Rightarrow> (reputation_error, lasting) res" where
  "rl_exec H h c st =
     (if lt_instance (rl_life st) < seq h then Inl Trap else
      bind_res (call_data h c (rl_data st)) (\<lambda>s.
      bind_res (do_accesses H (seq h) (call_accesses c (rl_data st)) (rl_life st)) (\<lambda>t.
      Inr \<lparr>rl_data = s, rl_life = t\<rparr>)))"

definition rl_start :: "nat \<Rightarrow> lasting" where
  "rl_start l = \<lparr>rl_data = rp_empty, rl_life = \<lparr>lt_instance = l, lt_entries = Map.empty\<rparr>\<rparr>"

inductive rl_run :: "ttl_host \<Rightarrow> lasting \<Rightarrow> lasting \<Rightarrow> bool" for H where
  rl_refl: "rl_run H st st"
| rl_step: "rl_run H st st1 \<Longrightarrow> rl_exec H h c st1 = Inr st2 \<Longrightarrow> rl_run H st st2"

section \<open>No access is left without its extension\<close>

fun followed :: "access list \<Rightarrow> bool" where
  "followed [] \<longleftrightarrow> True"
| "followed (a # as) \<longleftrightarrow> followed as \<and> (\<forall>k. a = Get k \<or> a = Put k \<longrightarrow> Extend k \<in> set as)"

lemma followed_extends: "followed as \<Longrightarrow> Get k \<in> set as \<or> Put k \<in> set as \<Longrightarrow> Extend k \<in> set as"
  by (induction "as") auto

lemma followed_append: "followed as \<Longrightarrow> followed bs \<Longrightarrow> followed (as @ bs)"
  by (induction "as") auto

lemma followed_page_reads: "followed (page_reads u idxs cur)"
  by (induction u idxs cur rule: page_reads.induct) (simp_all add: Let_def)

lemma followed_scoring:
  "followed (payment_accesses m c r s)" "followed (completion_accesses m)" "followed (default_accesses m)"
  "followed (decay_accesses m)"
  by (simp_all add: payment_accesses_def completion_accesses_def default_accesses_def decay_accesses_def accessor_defs)

lemma followed_call: "followed (call_accesses c s)"
proof (cases c)
  case (Op op)
  then show ?thesis by (cases op) (simp_all add: followed_scoring record_accesses_def Let_def)
next
  case (GetHistory u p z)
  then show ?thesis
    by (simp add: history_accesses_def Let_def followed_page_reads)
qed (simp_all add: registry_score_accesses_def get_score_accesses_def)

text \<open>The entry points that extend the instance.\<close>

fun extends_instance :: "rl_call \<Rightarrow> bool" where
  "extends_instance (Op (RpInit a)) = True"
| "extends_instance (Op (Record u t i)) = True"
| "extends_instance (Op (PauseRegistry a)) = True"
| "extends_instance (Op (UnpauseRegistry a)) = True"
| "extends_instance (GetScore u) = True"
| "extends_instance (GetHistory u p z) = (z \<noteq> 0)"
| "extends_instance _ = False"

lemma extends_instance_call: "extends_instance c \<Longrightarrow> ExtendInstance \<in> set (call_accesses c s)"
proof (cases c)
  case (Op op)
  assume "extends_instance c"
  with Op show ?thesis by (cases op) (simp_all add: record_accesses_def Let_def)
qed (simp_all add: history_accesses_def registry_score_accesses_def Let_def)

section \<open>The rule of the host\<close>

text \<open>
  What is documented of the host: an extension never shortens a lifetime; an entry with fewer than the
  threshold of ledgers left gets the stated number of ledgers (which stays below the limit of the
  network, as \<open>docs/TTL.md\<close> says of the two numbers used here); one with more than the threshold left
  keeps its lifetime; and an entry is alive in the ledger that creates it.
\<close>

locale ttl_laws =
  fixes H :: ttl_host
  assumes never_shorter: "l \<le> th_extend H n l threshold to"
    and extended: "n \<le> l \<Longrightarrow> l < n + threshold \<Longrightarrow> threshold \<le> to \<Longrightarrow> to \<le> PERSISTENT_TTL_EXTEND_TO \<Longrightarrow>
      th_extend H n l threshold to = n + to"
    and left_alone: "n + threshold < l \<Longrightarrow> th_extend H n l threshold to = l"
    and created: "n \<le> th_create H n"
begin

lemma extended_long: "n \<le> l \<Longrightarrow> threshold \<le> to \<Longrightarrow> to \<le> PERSISTENT_TTL_EXTEND_TO \<Longrightarrow>
    n + threshold \<le> th_extend H n l threshold to"
  using extended [of n l threshold to] never_shorter [of l n threshold to] by (cases "l < n + threshold") auto

text \<open>A lifetime never shrinks.\<close>

lemma do_access_longer: "lt_entries t k = Some l \<Longrightarrow> \<exists>l'. lt_entries (do_access H n a t) k = Some l' \<and> l \<le> l'"
  by (cases a) (auto simp: extend_persistent_def extend_instance_def put_entry_def never_shorter split: option.splits)

lemma do_accesses_longer:
  "do_accesses H n as t = Inr t' \<Longrightarrow> lt_entries t k = Some l \<Longrightarrow> \<exists>l'. lt_entries t' k = Some l' \<and> l \<le> l'"
proof (induction "as" arbitrary: t l)
  case (Cons a "as")
  from do_access_longer [OF Cons.prems(2), of n a] obtain l1
    where l1: "lt_entries (do_access H n a t) k = Some l1" "l \<le> l1" by blast
  from Cons.prems(1) have "do_accesses H n as (do_access H n a t) = Inr t'" by (simp split: if_splits)
  from Cons.IH [OF this l1(1)] l1(2) show ?case by (auto intro: le_trans)
qed simp

lemma do_access_instance: "lt_instance t \<le> lt_instance (do_access H n a t)"
  by (cases a) (auto simp: extend_persistent_def extend_instance_def put_entry_def never_shorter split: option.splits)

lemma do_accesses_instance: "do_accesses H n as t = Inr t' \<Longrightarrow> lt_instance t \<le> lt_instance t'"
proof (induction "as" arbitrary: t)
  case (Cons a "as")
  then have "lt_instance (do_access H n a t) \<le> lt_instance t'" by (simp split: if_splits)
  with do_access_instance [of t n a] show ?case by (rule le_trans)
qed simp

lemma do_accesses_dom:
  "do_accesses H n as t = Inr t' \<Longrightarrow> lt_entries t' k \<noteq> None \<longleftrightarrow> lt_entries t k \<noteq> None \<or> Put k \<in> set as"
proof (induction "as" arbitrary: t)
  case (Cons a "as")
  have "lt_entries (do_access H n a t) k \<noteq> None \<longleftrightarrow> lt_entries t k \<noteq> None \<or> a = Put k"
    by (cases a) (auto simp: extend_persistent_def extend_instance_def put_entry_def split: option.splits)
  with Cons.IH [of "do_access H n a t"] Cons.prems show ?case by (auto split: if_splits)
qed simp

text \<open>Extending an entry that is there leaves it thirty days, extending the instance seven.\<close>

lemma extend_lasts:
  assumes "alive n k t" "lt_entries t k \<noteq> None"
  shows "\<exists>l. lt_entries (do_access H n (Extend k) t) k = Some l \<and> n + PERSISTENT_TTL_THRESHOLD \<le> l"
  using assms extended_long [of n _ PERSISTENT_TTL_THRESHOLD PERSISTENT_TTL_EXTEND_TO]
  by (auto simp: extend_persistent_def alive_def ttl_constants)

lemma do_accesses_extended:
  assumes "do_accesses H n as t = Inr t'" "Extend k \<in> set as" "lt_entries t k \<noteq> None"
  shows "\<exists>l. lt_entries t' k = Some l \<and> n + PERSISTENT_TTL_THRESHOLD \<le> l"
  using assms
proof (induction "as" arbitrary: t)
  case (Cons a "as")
  let ?t = "do_access H n a t"
  from Cons.prems(1) have acc: "accessible n a t" and rest: "do_accesses H n as ?t = Inr t'"
    by (simp_all split: if_splits)
  from Cons.prems(3) obtain l0 where "lt_entries t k = Some l0" by blast
  from do_access_longer [OF this, of n a] have there: "lt_entries ?t k \<noteq> None" by auto
  show ?case
  proof (cases "a = Extend k")
    case True
    with extend_lasts [of n k t] acc Cons.prems(3) obtain l where
      l: "lt_entries ?t k = Some l" "n + PERSISTENT_TTL_THRESHOLD \<le> l" by auto
    from do_accesses_longer [OF rest l(1)] l(2) show ?thesis by (auto intro: le_trans)
  next
    case False
    with Cons.prems(2) Cons.IH [OF rest _ there] show ?thesis by auto
  qed
qed simp

lemma do_accesses_written:
  assumes "do_accesses H n as t = Inr t'" "followed as" "Put k \<in> set as"
  shows "\<exists>l. lt_entries t' k = Some l \<and> n + PERSISTENT_TTL_THRESHOLD \<le> l"
  using assms
proof (induction "as" arbitrary: t)
  case (Cons a "as")
  let ?t = "do_access H n a t"
  from Cons.prems(1) have rest: "do_accesses H n as ?t = Inr t'" by (simp split: if_splits)
  show ?case
  proof (cases "a = Put k")
    case True
    with Cons.prems(2) have "Extend k \<in> set as" by simp
    moreover from True have "lt_entries ?t k \<noteq> None" by (auto simp: put_entry_def split: option.splits)
    ultimately show ?thesis using do_accesses_extended [OF rest] by blast
  next
    case False
    with Cons show ?thesis using rest by auto
  qed
qed simp

lemma do_accesses_refresh:
  assumes run: "do_accesses H n as t = Inr t'" and fol: "followed as" and use: "Get k \<in> set as \<or> Put k \<in> set as"
    and there: "lt_entries t k \<noteq> None \<or> Put k \<in> set as"
  shows "\<exists>l. lt_entries t' k = Some l \<and> n + PERSISTENT_TTL_THRESHOLD \<le> l"
proof (cases "Put k \<in> set as")
  case True
  with do_accesses_written [OF run fol] show ?thesis .
next
  case False
  with use there followed_extends [OF fol, of k] do_accesses_extended [OF run] show ?thesis by blast
qed

lemma do_accesses_instance_extended:
  assumes "do_accesses H n as t = Inr t'" "ExtendInstance \<in> set as" "n \<le> lt_instance t"
  shows "n + INSTANCE_TTL_THRESHOLD \<le> lt_instance t'"
  using assms
proof (induction "as" arbitrary: t)
  case (Cons a "as")
  let ?t = "do_access H n a t"
  from Cons.prems(1) have rest: "do_accesses H n as ?t = Inr t'" by (simp split: if_splits)
  show ?case
  proof (cases "a = ExtendInstance")
    case True
    with Cons.prems(3) extended_long [of n "lt_instance t" INSTANCE_TTL_THRESHOLD INSTANCE_TTL_EXTEND_TO]
    have "n + INSTANCE_TTL_THRESHOLD \<le> lt_instance ?t" by (simp add: extend_instance_def ttl_constants)
    with do_accesses_instance [OF rest] show ?thesis by simp
  next
    case False
    with Cons.prems(2,3) Cons.IH [OF rest] do_access_instance [of t n a] show ?thesis by simp
  qed
qed simp

end

text \<open>The rule of the network: the smallest lifetime of a new entry is a setting of it.\<close>

definition network_ttl :: "nat \<Rightarrow> ttl_host" where
  "network_ttl m = \<lparr>th_extend = (\<lambda>n l threshold to. if l < n + threshold then max l (n + to) else l),
     th_create = (\<lambda>n. n + m)\<rparr>"

interpretation network: ttl_laws "network_ttl m" for m
  by unfold_locales (auto simp: network_ttl_def)

section \<open>Lifetimes and data agree\<close>

fun stored :: "reputation \<Rightarrow> data_key \<Rightarrow> bool" where
  "stored s Admin = False"
| "stored s (Score u) = (rp_score s u \<noteq> None)"
| "stored s (UserActivityPage u p) = (rp_page s (u, p) \<noteq> None)"
| "stored s (UserActivityCount u) = (rp_count s u \<noteq> None)"
| "stored s (Streak m c) = (rp_streak s (m, c) \<noteq> None)"
| "stored s (Completions m) = (rp_completions s m \<noteq> None)"
| "stored s (MemberScore m) = (rp_member_score s m \<noteq> None)"
| "stored s (Defaults m) = (rp_defaults s m \<noteq> None)"
| "stored s (MemberLog m) = (rp_member_log s m \<noteq> None)"
| "stored s (LastRound m c) = (rp_last_round s (m, c) \<noteq> None)"

definition in_step :: "lasting \<Rightarrow> bool" where
  "in_step st \<longleftrightarrow> (\<forall>k. lt_entries (rl_life st) k \<noteq> None \<longleftrightarrow> stored (rl_data st) k)"

lemma stored_publish [simp]: "stored (publish ev s) k = stored s k"
  by (cases k) (simp_all add: publish_def)

lemma stored_record:
  assumes "record_activity h u t i s = Inr s'"
  shows "stored s' k \<longleftrightarrow> stored s k \<or> Put k \<in> set (record_accesses u s)"
proof -
  from assms have "rp_streak s' = rp_streak s" "rp_completions s' = rp_completions s" "rp_defaults s' = rp_defaults s"
    "rp_member_log s' = rp_member_log s" "rp_last_round s' = rp_last_round s"
    by (auto simp: record_activity_def res_simps Let_def publish_def split: if_splits)
  with record_activity_effect(6-9) [OF assms] show ?thesis
    by (cases k) (auto simp: record_accesses_def ACTIVITY_PAGE_SIZE_def Let_def)
qed

lemma stored_pausing:
  "reputation_init h a s = Inr s' \<Longrightarrow> stored s' k = stored s k"
  "pause_registry h a s = Inr s' \<Longrightarrow> stored s' k = stored s k"
  "unpause_registry h a s = Inr s' \<Longrightarrow> stored s' k = stored s k"
  by (cases k; auto simp: reputation_init_def pause_registry_def unpause_registry_def common_pause_def
      common_unpause_def res_simps publish_def map_err_Inr split: if_splits)+

lemma stored_scoring:
  "stored (snd (record_on_time_payment h m c x r s)) k \<longleftrightarrow> stored s k \<or> Put k \<in> set (payment_accesses m c r s)"
  "stored (snd (record_circle_completion h m s)) k \<longleftrightarrow> stored s k \<or> Put k \<in> set (completion_accesses m)"
  "stored (snd (record_default h m s)) k \<longleftrightarrow> stored s k \<or> Put k \<in> set (default_accesses m)"
  "stored (snd (apply_inactivity_decay m d s)) k \<longleftrightarrow> stored s k \<or> Put k \<in> set (decay_accesses m)"
  by (cases k; auto simp: scoring_defs payment_accesses_def completion_accesses_def default_accesses_def
      decay_accesses_def accessor_defs Let_def split: prod.splits)+

lemma scoring_call_stored: "scoring_call h m f s = Inr (v, s') \<Longrightarrow> stored s' k = stored (snd (f s)) k"
  by (auto simp: scoring_call_def res_simps dest: arg_cong [of _ _ snd])

lemma page_reads_only: "Put k \<notin> set (page_reads u idxs cur)"
  by (induction u idxs cur rule: page_reads.induct) (simp_all add: Let_def)

lemma stored_call:
  assumes "call_data h c s = Inr s'"
  shows "stored s' k \<longleftrightarrow> stored s k \<or> Put k \<in> set (call_accesses c s)"
proof (cases c)
  case (Op op)
  with assms have "rp_exec h op s = Inr s'" by simp
  with Op show ?thesis
    by (cases op) (auto simp: bind_res_Inr stored_record stored_pausing stored_scoring
        dest!: scoring_call_stored [of _ _ _ _ _ _ k] split: prod.splits)
qed (use assms page_reads_only in \<open>auto simp: bind_res_Inr history_accesses_def registry_score_accesses_def
    get_score_accesses_def Let_def\<close>)

lemma rl_exec_Inr:
  assumes "rl_exec H h c st = Inr st'"
  obtains "seq h \<le> lt_instance (rl_life st)" "call_data h c (rl_data st) = Inr (rl_data st')"
    "do_accesses H (seq h) (call_accesses c (rl_data st)) (rl_life st) = Inr (rl_life st')"
  using assms by (auto simp: rl_exec_def res_simps bind_res_Inr not_less split: if_splits)

context ttl_laws
begin

lemma in_step_exec:
  assumes "rl_exec H h c st = Inr st'" "in_step st"
  shows "in_step st'"
proof -
  from assms(1) obtain data: "call_data h c (rl_data st) = Inr (rl_data st')"
    and life: "do_accesses H (seq h) (call_accesses c (rl_data st)) (rl_life st) = Inr (rl_life st')"
    by (rule rl_exec_Inr)
  show ?thesis
    using stored_call [OF data] do_accesses_dom [OF life] assms(2) unfolding in_step_def by blast
qed

lemma in_step_run: "rl_run H st st' \<Longrightarrow> in_step st \<Longrightarrow> in_step st'"
  by (induction rule: rl_run.induct) (auto intro: in_step_exec)

lemma run_instance: "rl_run H st st' \<Longrightarrow> lt_instance (rl_life st) \<le> lt_instance (rl_life st')"
proof (induction rule: rl_run.induct)
  case (rl_step st st1 h c st2)
  from rl_step.hyps(2) obtain
    "do_accesses H (seq h) (call_accesses c (rl_data st1)) (rl_life st1) = Inr (rl_life st2)"
    by (rule rl_exec_Inr)
  from do_accesses_instance [OF this] rl_step.IH show ?case by simp
qed simp

lemma run_longer:
  "rl_run H st st' \<Longrightarrow> lt_entries (rl_life st) k = Some l \<Longrightarrow> \<exists>l'. lt_entries (rl_life st') k = Some l' \<and> l \<le> l'"
proof (induction rule: rl_run.induct)
  case (rl_step st st1 h c st2)
  then obtain l1 where l1: "lt_entries (rl_life st1) k = Some l1" "l \<le> l1" by blast
  from rl_step.hyps(2) obtain
    "do_accesses H (seq h) (call_accesses c (rl_data st1)) (rl_life st1) = Inr (rl_life st2)"
    by (rule rl_exec_Inr)
  from do_accesses_longer [OF this l1(1)] l1(2) show ?case by (auto intro: le_trans)
qed simp

end

lemma in_step_start: "in_step (rl_start l)"
  unfolding in_step_def
proof
  fix k
  show "lt_entries (rl_life (rl_start l)) k \<noteq> None \<longleftrightarrow> stored (rl_data (rl_start l)) k"
    by (cases k) (simp_all add: rl_start_def rp_empty_def)
qed

section \<open>Properties\<close>

text \<open>
  C36: A use keeps an entry for thirty days. When a call at ledger \<open>n\<close> succeeds and it reads or writes an
  entry of the registry that is stored afterwards, then whatever is called later, the entry is stored and
  its lifetime reaches at least ledger \<open>n\<close> plus thirty days of 17280 ledgers: until then no access is
  refused because of this entry. No read or write of any entry point lacks the extension this needs, and
  entries and lifetimes never get out of step. A call also needs the instance of the contract, which lives
  by its own, shorter rule: the entry points that extend it (all of \<open>contract.rs\<close>, but a query for an empty
  page) keep it for seven days after the call, and the scoring entry points do not extend it.
\<close>

theorem use_keeps_entry_thirty_days:
  assumes H: "ttl_laws H" and reach: "rl_run H (rl_start l0) st" and call: "rl_exec H h c st = Inr st1"
    and used: "Get k \<in> set (call_accesses c (rl_data st)) \<or> Put k \<in> set (call_accesses c (rl_data st))"
    and there: "stored (rl_data st1) k" and later: "rl_run H st1 st2"
  shows "stored (rl_data st2) k
    \<and> (\<exists>l. lt_entries (rl_life st2) k = Some l \<and> seq h + 30 * 17280 \<le> l)
    \<and> (\<forall>m. m \<le> seq h + 30 * 17280 \<longrightarrow> accessible m (Get k) (rl_life st2)
        \<and> accessible m (Put k) (rl_life st2) \<and> accessible m (Extend k) (rl_life st2))
    \<and> (extends_instance c \<longrightarrow> seq h + 7 * 17280 \<le> lt_instance (rl_life st2))"
proof -
  have st: "in_step st" using ttl_laws.in_step_run [OF H reach in_step_start] .
  from call obtain data: "call_data h c (rl_data st) = Inr (rl_data st1)"
    and life: "do_accesses H (seq h) (call_accesses c (rl_data st)) (rl_life st) = Inr (rl_life st1)"
    and inst: "seq h \<le> lt_instance (rl_life st)" by (rule rl_exec_Inr)
  have "lt_entries (rl_life st) k \<noteq> None \<or> Put k \<in> set (call_accesses c (rl_data st))"
    using stored_call [OF data, of k] there st unfolding in_step_def by blast
  from ttl_laws.do_accesses_refresh [OF H life followed_call used this] obtain l
    where l: "lt_entries (rl_life st1) k = Some l" "seq h + 30 * 17280 \<le> l" by (auto simp: ttl_constants)
  from ttl_laws.run_longer [OF H later l(1)] l(2) obtain l'
    where l': "lt_entries (rl_life st2) k = Some l'" "seq h + 30 * 17280 \<le> l'" by (auto intro: le_trans)
  have "in_step st2"
    using ttl_laws.in_step_run [OF H later ttl_laws.in_step_exec [OF H call st]] .
  moreover have "seq h + 7 * 17280 \<le> lt_instance (rl_life st2)" if "extends_instance c"
    using ttl_laws.do_accesses_instance_extended [OF H life extends_instance_call [OF that] inst]
      ttl_laws.run_instance [OF H later] by (simp add: ttl_constants)
  ultimately show ?thesis using l' unfolding in_step_def by (auto simp: alive_def)
qed

text \<open>
  Accesses less than ninety days apart are not enough, whatever \<open>docs/TTL.md\<close> advises: an entry that was
  extended at ledger \<open>n\<close> and read 59 days later is not extended then, because 31 days are left; 89 days
  after that read it is gone, if nothing else used it.
\<close>

theorem ninety_days_are_not_enough:
  assumes H: "ttl_laws H" and fresh: "lt_entries (rl_life st) (Score u) = Some (n + 90 * 17280)"
    and first: "rl_exec H h1 (GetScore u) st = Inr st1" "seq h1 = n + 59 * 17280"
    and unused: "lt_entries (rl_life st2) (Score u) = lt_entries (rl_life st1) (Score u)"
    and second: "seq h2 = seq h1 + 89 * 17280"
  shows "rl_exec H h2 (GetScore u) st2 \<noteq> Inr st3"
proof
  assume "rl_exec H h2 (GetScore u) st2 = Inr st3"
  then obtain later: "do_accesses H (seq h2) (call_accesses (GetScore u) (rl_data st2)) (rl_life st2) = Inr (rl_life st3)"
    by (rule rl_exec_Inr)
  from first(1) obtain
    "do_accesses H (seq h1) (call_accesses (GetScore u) (rl_data st)) (rl_life st) = Inr (rl_life st1)"
    by (rule rl_exec_Inr)
  then have "rl_life st1 = extend_persistent H (seq h1) (Score u) (extend_instance H (seq h1) (rl_life st))"
    by (simp add: registry_score_accesses_def split: if_splits)
  then have "lt_entries (rl_life st1) (Score u) = Some (n + 90 * 17280)"
    using fresh first(2) ttl_laws.left_alone [OF H, of "n + 59 * 17280" "30 * 17280" "n + 90 * 17280" "90 * 17280"]
    by (simp add: extend_instance_def extend_persistent_def ttl_constants)
  with unused later second first(2) show False
    by (auto simp: registry_score_accesses_def alive_def extend_instance_def split: if_splits)
qed

section \<open>The properties on concrete inputs\<close>

lemma rp_sample_call: "call_data rp_host (Op (Record 7 1 200)) rp_empty = Inr rp_sample"
  using rp_sample_exec by simp

definition rl_sample :: lasting where
  "rl_sample = \<lparr>rl_data = rp_sample, rl_life = \<lparr>lt_instance = 1 + 518400, lt_entries =
     [Score 7 \<mapsto> 1 + 1555200, UserActivityPage 7 0 \<mapsto> 1 + 1555200, UserActivityCount 7 \<mapsto> 1 + 1555200]\<rparr>\<rparr>"

lemma rl_sample_exec: "rl_exec (network_ttl 4096) rp_host (Op (Record 7 1 200)) (rl_start 100) = Inr rl_sample"
  using rp_sample_call
  by (simp add: rl_exec_def rl_start_def rl_sample_def record_accesses_def rp_host_def rp_empty_def
      ACTIVITY_PAGE_SIZE_def extend_instance_def extend_persistent_def put_entry_def network_ttl_def ttl_constants alive_def Let_def)

theorem use_keeps_entry_thirty_days_witness:
  "stored (rl_data rl_sample) (Score 7) \<and> (\<exists>l. lt_entries (rl_life rl_sample) (Score 7) = Some l \<and> 518401 \<le> l)"
proof -
  have "stored (rl_data rl_sample) (Score 7)"
    using stored_call [OF rp_sample_call, of "Score 7"]
    by (simp add: rl_sample_def record_accesses_def Let_def)
  with use_keeps_entry_thirty_days [OF network.ttl_laws_axioms rl_refl rl_sample_exec, of "Score 7", OF _ _ rl_refl]
  show ?thesis by (simp add: record_accesses_def Let_def rp_host_def)
qed

end
