(* ===== verification/Treasury.thy ===== *)
theory Treasury
  imports Gov_Token
begin

text \<open>
  The treasury (\<open>packages/treasury/src/contract.rs\<close>): it receives the circles' fees, keeps the book
  balance and the lists of deposits and withdrawals, and pays out to the administrator's order.
\<close>

section \<open>State\<close>

record deposit_record =
  dp_from :: addr
  dp_amount :: int
  dp_circle_id :: addr
  dp_timestamp :: nat

record withdrawal_record =
  wd_admin :: addr
  wd_to :: addr
  wd_amount :: int
  wd_timestamp :: nat

datatype treasury_error =
    NotInitialized | Unauthorized | ContractPaused | InsufficientBalance | InvalidAmount
  | AlreadyInitialized | ContractNotPaused

record 'l treasury = "'l token_base" +
  tr_admin :: "addr option"
  tr_balance :: "int option"
  tr_deposits :: "deposit_record list option"
  tr_withdrawals :: "withdrawal_record list option"
  tr_token :: "addr option"

definition treasury_empty :: "'l \<Rightarrow> 'l treasury" where
  "treasury_empty l = \<lparr>cb_paused = None, cb_reent = None, cb_events = [], cb_ledger = l,
     tr_admin = None, tr_balance = None, tr_deposits = None, tr_withdrawals = None, tr_token = None\<rparr>"

section \<open>Operations\<close>

definition treasury_require_admin :: "host \<Rightarrow> addr \<Rightarrow> 'l treasury \<Rightarrow> (treasury_error, unit) res" where
  "treasury_require_admin h admin s =
     bind_res (ok_or (tr_admin s) NotInitialized) (\<lambda>stored.
     if admin \<noteq> stored then Inl (Err Unauthorized) else
     require_auth h admin)"

definition treasury_token_client :: "'l treasury \<Rightarrow> (treasury_error, addr) res" where
  "treasury_token_client s = ok_or (tr_token s) NotInitialized"

definition treasury_init ::
    "host \<Rightarrow> addr \<Rightarrow> addr \<Rightarrow> 'l treasury \<Rightarrow> (treasury_error, 'l treasury) res" where
  "treasury_init h admin token s =
     bind_res (require_auth h admin) (\<lambda>_.
     Inr (s\<lparr>tr_admin := Some admin, tr_token := Some token, tr_balance := Some 0,
            tr_deposits := Some [], tr_withdrawals := Some []\<rparr>))"

definition treasury_deposit ::
    "'l token_api \<Rightarrow> host \<Rightarrow> addr \<Rightarrow> int \<Rightarrow> addr \<Rightarrow> 'l treasury
      \<Rightarrow> (treasury_error, 'l treasury) res" where
  "treasury_deposit T h sender amount circle_id s =
     bind_res (not_paused_or ContractPaused s) (\<lambda>_.
     if sender \<noteq> circle_id then Inl (Err Unauthorized) else
     if amount \<le> 0 then Inl (Err InvalidAmount) else
     bind_res (treasury_token_client s) (\<lambda>token.
     bind_res (token_transfer T token sender (self h) amount s) (\<lambda>s.
     let bal = unwrap_or (tr_balance s) 0 in
     bind_res (ok_or (i128_checked_add bal amount) InvalidAmount) (\<lambda>nb.
     let s = s\<lparr>tr_balance := Some nb\<rparr>;
         deps = unwrap_or (tr_deposits s) [] @
           [\<lparr>dp_from = sender, dp_amount = amount, dp_circle_id = circle_id, dp_timestamp = now h\<rparr>];
         s = s\<lparr>tr_deposits := Some deps\<rparr>
     in Inr (publish (Event ''deposit'' [AddrV (self h)]
              [AddrV sender, IntV amount, AddrV circle_id]) s)))))"

definition treasury_withdraw ::
    "'l token_api \<Rightarrow> host \<Rightarrow> addr \<Rightarrow> addr \<Rightarrow> int \<Rightarrow> 'l treasury
      \<Rightarrow> (treasury_error, 'l treasury) res" where
  "treasury_withdraw T h admin recipient amount s =
     bind_res (not_paused_or ContractPaused s) (\<lambda>_.
     bind_res (guard_or Unauthorized s) (\<lambda>s.
     bind_res (treasury_require_admin h admin s) (\<lambda>_.
     if amount \<le> 0 then Inl (Err InvalidAmount) else
     let bal = unwrap_or (tr_balance s) 0 in
     if bal < amount then Inl (Err InsufficientBalance) else
     bind_res (treasury_token_client s) (\<lambda>token.
     bind_res (token_transfer T token (self h) recipient amount s) (\<lambda>s.
     bind_res (ok_or (i128_checked_sub bal amount) InsufficientBalance) (\<lambda>nb.
     let s = s\<lparr>tr_balance := Some nb\<rparr>;
         wds = unwrap_or (tr_withdrawals s) [] @
           [\<lparr>wd_admin = admin, wd_to = recipient, wd_amount = amount, wd_timestamp = now h\<rparr>];
         s = s\<lparr>tr_withdrawals := Some wds\<rparr>
     in Inr (guard_leave (publish (Event ''withdraw'' [AddrV (self h)]
              [AddrV recipient, IntV amount]) s))))))))"

definition treasury_get_balance :: "'l treasury \<Rightarrow> int" where
  "treasury_get_balance s = unwrap_or (tr_balance s) 0"

definition treasury_get_deposits :: "'l treasury \<Rightarrow> deposit_record list" where
  "treasury_get_deposits s = unwrap_or (tr_deposits s) []"

definition treasury_rescue_tokens ::
    "'l token_api \<Rightarrow> host \<Rightarrow> addr \<Rightarrow> addr \<Rightarrow> addr \<Rightarrow> int \<Rightarrow> 'l treasury
      \<Rightarrow> (treasury_error, 'l treasury) res" where
  "treasury_rescue_tokens T h admin recipient token amount s =
     bind_res (treasury_require_admin h admin s) (\<lambda>_.
     bind_res (guard_or Unauthorized s) (\<lambda>s.
     if \<not> is_paused s then Inl (Err ContractNotPaused) else
     if amount \<le> 0 then Inl (Err InvalidAmount) else
     bind_res (ok_or (tr_token s) NotInitialized) (\<lambda>treasury_token.
     bind_res
       (if treasury_token = token then
          let bal = unwrap_or (tr_balance s) 0 in
          if bal < amount then Inl (Err InsufficientBalance) else
          bind_res (ok_or (i128_checked_sub bal amount) InsufficientBalance) (\<lambda>nb.
          Inr (s\<lparr>tr_balance := Some nb\<rparr>))
        else Inr s) (\<lambda>s.
     bind_res (token_transfer T token (self h) recipient amount s) (\<lambda>s.
     Inr (guard_leave (publish (Event ''rescue'' [AddrV (self h)]
            [AddrV recipient, AddrV token, IntV amount]) s)))))))"

definition treasury_pause :: "host \<Rightarrow> addr \<Rightarrow> 'l treasury \<Rightarrow> (treasury_error, 'l treasury) res" where
  "treasury_pause h a s =
     bind_res (ok_or (tr_admin s) NotInitialized) (\<lambda>stored.
     bind_res (map_err (\<lambda>_. Unauthorized) (require_self_or_admin h a stored)) (\<lambda>_.
     map_err (\<lambda>_. ContractPaused) (common_pause h a s)))"

definition treasury_unpause :: "host \<Rightarrow> addr \<Rightarrow> 'l treasury \<Rightarrow> (treasury_error, 'l treasury) res" where
  "treasury_unpause h a s =
     bind_res (ok_or (tr_admin s) NotInitialized) (\<lambda>stored.
     bind_res (map_err (\<lambda>_. Unauthorized) (require_self_or_admin h a stored)) (\<lambda>_.
     map_err (\<lambda>_. ContractPaused) (common_unpause h a s)))"

section \<open>The contract as a state machine\<close>

datatype tr_op =
    TrInit addr addr
  | TrDeposit addr int addr
  | TrWithdraw addr addr int
  | TrRescue addr addr addr int
  | TrPause addr
  | TrUnpause addr

fun tr_exec :: "'l token_api \<Rightarrow> host \<Rightarrow> tr_op \<Rightarrow> 'l treasury \<Rightarrow> (treasury_error, 'l treasury) res" where
  "tr_exec T h (TrInit a t) s = treasury_init h a t s"
| "tr_exec T h (TrDeposit a x c) s = treasury_deposit T h a x c s"
| "tr_exec T h (TrWithdraw d a x) s = treasury_withdraw T h d a x s"
| "tr_exec T h (TrRescue d a t x) s = treasury_rescue_tokens T h d a t x s"
| "tr_exec T h (TrPause a) s = treasury_pause h a s"
| "tr_exec T h (TrUnpause a) s = treasury_unpause h a s"

text \<open>
  The runs of a treasury at the address \<open>me\<close>: all its entry points, called by anybody, interleaved with
  arbitrary token transfers by other accounts. The number \<open>x\<close> adds up the deposits that name the treasury
  itself as the depositor, which the code accepts; an initialization sets the book balance, and it, to 0.
\<close>

fun self_credit :: "addr \<Rightarrow> tr_op \<Rightarrow> int \<Rightarrow> int" where
  "self_credit me (TrInit a t) x = 0"
| "self_credit me (TrDeposit a y c) x = (if a = me then x + y else x)"
| "self_credit me op x = x"

inductive tr_run :: "'l token_api \<Rightarrow> addr \<Rightarrow> 'l treasury \<Rightarrow> int \<Rightarrow> 'l treasury \<Rightarrow> bool"
  for T :: "'l token_api" and me :: addr and s :: "'l treasury" where
  tr_refl: "tr_run T me s 0 s"
| tr_call: "tr_run T me s x s1 \<Longrightarrow> self h = me \<Longrightarrow> tr_exec T h op s1 = Inr s2 \<Longrightarrow>
    tr_run T me s (self_credit me op x) s2"
| tr_env: "tr_run T me s x s1 \<Longrightarrow> a \<noteq> me \<Longrightarrow> tk_transfer T (cb_ledger s1) t a b y = Some l \<Longrightarrow>
    tr_run T me s x (s1\<lparr>cb_ledger := l\<rparr>)"

section \<open>Lemmas\<close>

lemma publish_treasury [simp]:
  "tr_admin (publish ev s) = tr_admin s" "tr_balance (publish ev s) = tr_balance s"
  "tr_deposits (publish ev s) = tr_deposits s" "tr_withdrawals (publish ev s) = tr_withdrawals s"
  "tr_token (publish ev s) = tr_token s"
  by (simp_all add: publish_def)

lemma guard_leave_treasury [simp]:
  "tr_admin (guard_leave s) = tr_admin s" "tr_balance (guard_leave s) = tr_balance s"
  "tr_deposits (guard_leave s) = tr_deposits s" "tr_withdrawals (guard_leave s) = tr_withdrawals s"
  "tr_token (guard_leave s) = tr_token s" "cb_ledger (guard_leave s) = cb_ledger s"
  by (simp_all add: guard_leave_def)

lemmas treasury_guards = treasury_require_admin_def treasury_token_client_def

lemma treasury_deposit_effect:
  assumes "treasury_deposit T h a x c s = Inr s'"
  shows "0 < x" "a = c" "\<not> is_paused s" "tr_token s' = tr_token s"
    and "\<exists>t. tr_token s = Some t \<and> tk_transfer T (cb_ledger s) t a (self h) x = Some (cb_ledger s')"
    and "treasury_get_balance s' = treasury_get_balance s + x"
    and "tr_withdrawals s' = tr_withdrawals s"
    and "treasury_get_deposits s' = treasury_get_deposits s
      @ [\<lparr>dp_from = a, dp_amount = x, dp_circle_id = c, dp_timestamp = now h\<rparr>]"
  using assms
  by (auto simp: treasury_deposit_def res_simps int_simps Let_def treasury_guards
      treasury_get_balance_def treasury_get_deposits_def)

lemma treasury_withdraw_effect:
  assumes "treasury_withdraw T h d a x s = Inr s'"
  shows "0 < x" "x \<le> treasury_get_balance s" "tr_token s' = tr_token s"
    and "tr_admin s = Some d" "authorized h d" "\<not> is_paused s"
    and "\<exists>t. tr_token s = Some t \<and> tk_transfer T (cb_ledger s) t (self h) a x = Some (cb_ledger s')"
    and "treasury_get_balance s' = treasury_get_balance s - x"
    and "tr_deposits s' = tr_deposits s"
    and "unwrap_or (tr_withdrawals s') [] = unwrap_or (tr_withdrawals s) []
      @ [\<lparr>wd_admin = d, wd_to = a, wd_amount = x, wd_timestamp = now h\<rparr>]"
  using assms
  by (auto simp: treasury_withdraw_def res_simps int_simps Let_def treasury_guards
      treasury_get_balance_def)

lemma treasury_rescue_effect:
  assumes "treasury_rescue_tokens T h d a t x s = Inr s'"
  shows "0 < x" "tr_token s' = tr_token s" "tr_admin s = Some d" "authorized h d" "is_paused s"
    and "tk_transfer T (cb_ledger s) t (self h) a x = Some (cb_ledger s')"
    and "treasury_get_balance s' = treasury_get_balance s - (if tr_token s = Some t then x else 0)"
    and "tr_token s = Some t \<longrightarrow> x \<le> treasury_get_balance s"
    and "tr_deposits s' = tr_deposits s" "tr_withdrawals s' = tr_withdrawals s"
  using assms
  by (cases "tr_token s = Some t";
      auto simp: treasury_rescue_tokens_def res_simps int_simps Let_def treasury_guards
        treasury_get_balance_def is_paused_def not_less)+

lemma treasury_pause_frame:
  "treasury_pause h a s = Inr s' \<Longrightarrow> tr_token s' = tr_token s \<and> tr_balance s' = tr_balance s
     \<and> tr_deposits s' = tr_deposits s \<and> tr_withdrawals s' = tr_withdrawals s
     \<and> cb_ledger s' = cb_ledger s"
  "treasury_unpause h a s = Inr s' \<Longrightarrow> tr_token s' = tr_token s \<and> tr_balance s' = tr_balance s
     \<and> tr_deposits s' = tr_deposits s \<and> tr_withdrawals s' = tr_withdrawals s
     \<and> cb_ledger s' = cb_ledger s"
  by (auto simp: treasury_pause_def treasury_unpause_def common_pause_def common_unpause_def
      res_simps split: if_splits)

text \<open>The book balance, but for the amount \<open>x\<close>, is covered by tokens the treasury really holds.\<close>

definition treasury_solvent :: "'l token_api \<Rightarrow> addr \<Rightarrow> int \<Rightarrow> 'l treasury \<Rightarrow> bool" where
  "treasury_solvent T me x s \<longleftrightarrow> 0 \<le> x \<and> 0 \<le> treasury_get_balance s
     \<and> (\<forall>t. tr_token s = Some t \<longrightarrow> treasury_get_balance s \<le> tk_balance T (cb_ledger s) t me + x)"

definition deposits_total :: "'l treasury \<Rightarrow> int" where
  "deposits_total s = sum_list (map dp_amount (treasury_get_deposits s))"

definition withdrawals_total :: "'l treasury \<Rightarrow> int" where
  "withdrawals_total s = sum_list (map wd_amount (unwrap_or (tr_withdrawals s) []))"

context sep41
begin

lemma treasury_step_solvent:
  assumes ok: "ok (cb_ledger s)" and inv: "treasury_solvent T me x s" and me: "self h = me"
    and ex: "tr_exec T h op s = Inr s'"
  shows "ok (cb_ledger s') \<and> treasury_solvent T me (self_credit me op x) s'"
proof (cases op)
  case (TrInit a t)
  with ex have "s' = s\<lparr>tr_admin := Some a, tr_token := Some t, tr_balance := Some 0,
      tr_deposits := Some [], tr_withdrawals := Some []\<rparr>"
    by (auto simp: treasury_init_def res_simps)
  with TrInit ok balance_range show ?thesis by (simp add: treasury_solvent_def treasury_get_balance_def)
next
  case (TrDeposit a y c)
  with ex have "treasury_deposit T h a y c s = Inr s'" by simp
  note eff = treasury_deposit_effect [OF this]
  then obtain t where t: "tr_token s = Some t"
    "tk_transfer T (cb_ledger s) t a me y = Some (cb_ledger s')" using me by auto
  have "tk_balance T (cb_ledger s) t me + (if a = me then 0 else y) = tk_balance T (cb_ledger s') t me"
    using transfer_balance [OF ok t(2), of me] by simp
  with TrDeposit inv eff t transfer_ok [OF ok t(2)] show ?thesis
    by (auto simp: treasury_solvent_def)
next
  case (TrWithdraw d a y)
  with ex have "treasury_withdraw T h d a y s = Inr s'" by simp
  note eff = treasury_withdraw_effect [OF this]
  then obtain t where t: "tr_token s = Some t"
    "tk_transfer T (cb_ledger s) t me a y = Some (cb_ledger s')" using me by auto
  from TrWithdraw inv eff t payout_balance_ge [OF ok t(2)] transfer_ok [OF ok t(2)] show ?thesis
    by (auto simp: treasury_solvent_def)
next
  case (TrRescue d a t y)
  with ex have "treasury_rescue_tokens T h d a t y s = Inr s'" by simp
  note eff = treasury_rescue_effect [OF this]
  with me have t: "tk_transfer T (cb_ledger s) t me a y = Some (cb_ledger s')" by simp
  from TrRescue inv eff payout_balance_ge [OF ok t] transfer_other_token [OF ok t] transfer_ok [OF ok t]
  show ?thesis by (cases "tr_token s = Some t") (auto simp: treasury_solvent_def)
next
  case (TrPause a)
  with ex inv ok show ?thesis
    by (auto dest!: treasury_pause_frame simp: treasury_solvent_def treasury_get_balance_def)
next
  case (TrUnpause a)
  with ex inv ok show ?thesis
    by (auto dest!: treasury_pause_frame simp: treasury_solvent_def treasury_get_balance_def)
qed

lemma treasury_run_solvent:
  "tr_run T me s x s' \<Longrightarrow> ok (cb_ledger s) \<Longrightarrow> treasury_solvent T me 0 s \<Longrightarrow>
    ok (cb_ledger s') \<and> treasury_solvent T me x s'"
proof (induction rule: tr_run.induct)
  case tr_refl
  then show ?case by simp
next
  case (tr_call x s1 h op s2)
  then show ?case using treasury_step_solvent [of s1 me x h op s2] by simp
next
  case (tr_env x s1 a t b y l)
  then have ok1: "ok (cb_ledger s1)" and inv: "treasury_solvent T me x s1" by simp_all
  from foreign_transfer_balance_ge [OF ok1 tr_env(3,2)] transfer_ok [OF ok1 tr_env(3)] inv
  show ?case by (fastforce simp: treasury_solvent_def treasury_get_balance_def intro: order_trans)
qed

end

text \<open>What the deposits and withdrawals on record say the balance should be, less the balance.\<close>

definition books_gap :: "'l treasury \<Rightarrow> int" where
  "books_gap s = deposits_total s - withdrawals_total s - treasury_get_balance s"

section \<open>Properties\<close>

text \<open>
  C34: the treasury is solvent but for deposits from itself. In every run of all its entry points,
  called by anybody, with any token that keeps the SEP-41 standard and any transfers by other accounts in
  between, the book balance is non-negative and exceeds the tokens the treasury holds by at most what has
  been deposited since the last initialization in calls that name the treasury itself as the depositor;
  without such a call it never exceeds them.
\<close>

theorem treasury_stays_solvent:
  assumes "sep41 T ok" "ok l" "tr_run T me (treasury_empty l) x s"
  shows "0 \<le> treasury_get_balance s
    \<and> (\<forall>t. tr_token s = Some t \<longrightarrow> treasury_get_balance s \<le> tk_balance T (cb_ledger s) t me + x)"
proof -
  have "treasury_solvent T me 0 (treasury_empty l)"
    by (simp add: treasury_solvent_def treasury_get_balance_def treasury_empty_def)
  from sep41.treasury_run_solvent [OF assms(1,3) _ this] assms(2) show ?thesis
    by (simp add: treasury_solvent_def treasury_empty_def)
qed

text \<open>
  The books explain the balance. Deposits and withdrawals keep the recorded deposits less the
  recorded withdrawals less the balance unchanged, a rescue of the treasury's own token, which is not
  recorded, raises the difference by the rescued amount, and only a (re-)initialization resets it.
\<close>

theorem treasury_books:
  assumes "tr_exec T h op s = Inr s'"
  shows "books_gap s' = (case op of
      TrInit a t \<Rightarrow> 0
    | TrRescue d a t x \<Rightarrow> books_gap s + (if tr_token s = Some t then x else 0)
    | _ \<Rightarrow> books_gap s)"
proof (cases op)
  case (TrDeposit a x c)
  with assms have "treasury_deposit T h a x c s = Inr s'" by simp
  from treasury_deposit_effect [OF this] TrDeposit show ?thesis
    by (simp add: books_gap_def deposits_total_def withdrawals_total_def)
next
  case (TrWithdraw d a x)
  with assms have "treasury_withdraw T h d a x s = Inr s'" by simp
  from treasury_withdraw_effect [OF this] TrWithdraw show ?thesis
    by (simp add: books_gap_def deposits_total_def withdrawals_total_def treasury_get_deposits_def)
next
  case (TrRescue d a t x)
  with assms have "treasury_rescue_tokens T h d a t x s = Inr s'" by simp
  from treasury_rescue_effect [OF this] TrRescue show ?thesis
    by (simp add: books_gap_def deposits_total_def withdrawals_total_def treasury_get_deposits_def)
qed (use assms in \<open>auto dest!: treasury_pause_frame simp: treasury_init_def res_simps books_gap_def
    deposits_total_def withdrawals_total_def treasury_get_deposits_def treasury_get_balance_def\<close>)

text \<open>
  The handler \<open>deposit\<close> does not authenticate its depositor itself and accepts the treasury as depositor and
  circle. Such a call moves the treasury's tokens to itself, so it raises the book balance and
  leaves the tokens held where they were.
\<close>

theorem self_deposit_inflates_balance:
  assumes "sep41 T ok" "ok (cb_ledger s)"
    and "treasury_deposit T h (self h) x (self h) s = Inr s'" "tr_token s = Some t"
  shows "treasury_get_balance s' = treasury_get_balance s + x
    \<and> tk_balance T (cb_ledger s') t (self h) = tk_balance T (cb_ledger s) t (self h) \<and> 0 < x"
  using treasury_deposit_effect [OF assms(3)] sep41.transfer_balance [OF assms(1,2)] assms(4)
  by auto

section \<open>The properties on concrete inputs\<close>

definition tr_host :: host where
  "tr_host = \<lparr>self = 100, now = 50, seq = 1, authorized = (\<lambda>_. True)\<rparr>"

definition tr_sample :: "(addr \<Rightarrow> gov_token) treasury" where
  "tr_sample = (treasury_empty (gov_ledger [(7, 40), (100, 5)]))
     \<lparr>tr_admin := Some 1, tr_token := Some 200, tr_balance := Some 0, tr_deposits := Some [],
      tr_withdrawals := Some []\<rparr>"

lemma tr_sample_init:
  "treasury_init tr_host 1 200 (treasury_empty (gov_ledger [(7, 40), (100, 5)])) = Inr tr_sample"
  by (simp add: treasury_init_def require_auth_def tr_host_def tr_sample_def)

lemma tr_sample_ok: "gt_ok (gov_ledger [(7, 40), (100, 5)])"
  by (rule gov_ledger_ok) (auto simp: i128_max_def)

lemma tr_sample_deposit: "\<exists>s'. treasury_deposit (gt_api tr_host) tr_host 7 30 7 tr_sample = Inr s'"
proof -
  have "\<exists>l. tk_transfer (gt_api tr_host) (gov_ledger [(7, 40), (100, 5)]) 200 7 100 30 = Some l"
    by (rule gov_ledger_transfer) (auto simp: i128_max_def i128_min_def in_i128_def tr_host_def)
  then show ?thesis
    by (auto simp: treasury_deposit_def tr_sample_def treasury_empty_def when_not_paused_def
        is_paused_def treasury_token_client_def token_transfer_def i128_checked_add_def chk_i128_def
        in_i128_def i128_min_def i128_max_def Let_def tr_host_def)
qed

theorem treasury_stays_solvent_witness:
  "\<exists>s. tr_run (gt_api tr_host) 100 (treasury_empty (gov_ledger [(7, 40), (100, 5)])) 0 s
     \<and> treasury_get_balance s = 30 \<and> 30 \<le> tk_balance (gt_api tr_host) (cb_ledger s) 200 100"
proof -
  obtain s where dep: "treasury_deposit (gt_api tr_host) tr_host 7 30 7 tr_sample = Inr s"
    using tr_sample_deposit by blast
  have me: "self tr_host = 100" by (simp add: tr_host_def)
  from tr_call [OF tr_refl me, where op = "TrInit 1 200" and T = "gt_api tr_host"] tr_sample_init
  have init: "tr_run (gt_api tr_host) 100 (treasury_empty (gov_ledger [(7, 40), (100, 5)])) 0 tr_sample"
    by simp
  from tr_call [OF init me, where op = "TrDeposit 7 30 7" and ?s2.0 = s] dep me
  have run: "tr_run (gt_api tr_host) 100 (treasury_empty (gov_ledger [(7, 40), (100, 5)])) 0 s" by simp
  from treasury_stays_solvent [OF gov.sep41_axioms tr_sample_ok run] run
    treasury_deposit_effect [OF dep] show ?thesis
    by (auto simp: tr_sample_def treasury_get_balance_def)
qed

theorem treasury_books_witness:
  "\<exists>s. treasury_deposit (gt_api tr_host) tr_host 7 30 7 tr_sample = Inr s \<and> books_gap s = 0"
proof -
  obtain s where dep: "treasury_deposit (gt_api tr_host) tr_host 7 30 7 tr_sample = Inr s"
    using tr_sample_deposit by blast
  from treasury_books [of "gt_api tr_host" tr_host "TrDeposit 7 30 7" tr_sample s] dep show ?thesis
    by (simp add: books_gap_def deposits_total_def withdrawals_total_def tr_sample_def
        treasury_get_deposits_def treasury_get_balance_def)
qed

theorem self_deposit_inflates_balance_witness:
  "\<exists>s. treasury_deposit (gt_api tr_host) tr_host 100 5 100 tr_sample = Inr s
     \<and> treasury_get_balance s = 5 \<and> tk_balance (gt_api tr_host) (cb_ledger s) 200 100 = 5"
proof -
  have "\<exists>l. tk_transfer (gt_api tr_host) (gov_ledger [(7, 40), (100, 5)]) 200 100 100 5 = Some l"
    by (rule gov_ledger_transfer) (auto simp: i128_max_def tr_host_def)
  then obtain s where dep: "treasury_deposit (gt_api tr_host) tr_host (self tr_host) 5 (self tr_host)
      tr_sample = Inr s"
    by (auto simp: treasury_deposit_def tr_sample_def treasury_empty_def when_not_paused_def
        is_paused_def treasury_token_client_def token_transfer_def i128_checked_add_def chk_i128_def
        in_i128_def i128_min_def i128_max_def Let_def tr_host_def)
  have "gt_ok (cb_ledger tr_sample)" "tr_token tr_sample = Some 200"
    using tr_sample_ok by (simp_all add: tr_sample_def treasury_empty_def)
  from self_deposit_inflates_balance [OF gov.sep41_axioms this(1) dep this(2)] dep show ?thesis
    by (auto simp: tr_host_def tr_sample_def treasury_empty_def treasury_get_balance_def gt_api_def
        gov_ledger_def balance_def)
qed

end
