(* ===== verification/Escrow.thy ===== *)
theory Escrow
  imports Gov_Token
begin

text \<open>
  The escrow (\<open>packages/escrow-swap\<close>): two-party token swaps. The initiator deposits one leg when
  the swap is created, the responder deposits the other by revealing the secret of the hash lock
  before the time lock; then either party completes or cancels it. SHA-256 is a parameter.
\<close>

section \<open>State\<close>

record swap_request =
  sw_id :: nat
  sw_initiator :: addr
  sw_responder :: addr
  sw_token_a :: addr
  sw_token_b :: addr
  sw_initiator_amount :: int
  sw_responder_amount :: int
  sw_hash_lock :: bytes
  sw_time_lock :: nat
  sw_status :: nat
  sw_created_at :: nat

definition STATUS_PENDING :: nat where "STATUS_PENDING = 0"
definition STATUS_ACTIVE :: nat where "STATUS_ACTIVE = 1"
definition STATUS_COMPLETED :: nat where "STATUS_COMPLETED = 2"
definition STATUS_CANCELLED :: nat where "STATUS_CANCELLED = 3"

lemmas swap_status_defs = STATUS_PENDING_def STATUS_ACTIVE_def STATUS_COMPLETED_def STATUS_CANCELLED_def

datatype escrow_error =
    NotInitialized | Unauthorized | ContractPaused | InvalidAmount | SwapNotFound | SwapNotActive
  | AlreadyAccepted | HashLockMismatch | TimeLockExpired | InsufficientBalance | InvalidSwap
  | VecAccessError | AlreadyInitialized | InvalidAdmin

record 'l escrow = "'l token_base" +
  es_admin :: "addr option"
  es_swaps :: "swap_request list option"
  es_next :: "nat option"

definition escrow_empty :: "'l \<Rightarrow> 'l escrow" where
  "escrow_empty l = \<lparr>cb_paused = None, cb_reent = None, cb_events = [], cb_ledger = l,
     es_admin = None, es_swaps = None, es_next = None\<rparr>"

section \<open>Operations\<close>

fun map_transfer_error :: "token_transfer_error \<Rightarrow> escrow_error" where
  "map_transfer_error token_transfer_error.InsufficientBalance = InsufficientBalance"
| "map_transfer_error token_transfer_error.Unauthorized = Unauthorized"
| "map_transfer_error TransferFailed = InvalidAmount"

definition escrow_init :: "host \<Rightarrow> addr \<Rightarrow> 'l escrow \<Rightarrow> (escrow_error, 'l escrow) res" where
  "escrow_init h admin s =
     bind_res (require_auth h admin) (\<lambda>_.
     if es_admin s \<noteq> None then Inl (Err AlreadyInitialized) else
     if admin = self h then Inl (Err InvalidAdmin) else
     Inr (s\<lparr>es_admin := Some admin, es_next := Some 0, es_swaps := Some []\<rparr>))"

definition create_swap ::
    "'l token_api \<Rightarrow> host \<Rightarrow> addr \<Rightarrow> addr \<Rightarrow> addr \<Rightarrow> addr \<Rightarrow> int \<Rightarrow> int \<Rightarrow> bytes \<Rightarrow> nat \<Rightarrow> 'l escrow
      \<Rightarrow> (escrow_error, nat \<times> 'l escrow) res" where
  "create_swap T h initiator responder token_a token_b initiator_amount responder_amount hash_lock
     time_lock s =
     bind_res (not_paused_or ContractPaused s) (\<lambda>_.
     bind_res (guard_or NotInitialized s) (\<lambda>s.
     bind_res (require_auth h initiator) (\<lambda>_.
     if initiator = responder then Inl (Err InvalidSwap) else
     if initiator_amount \<le> 0 \<or> responder_amount \<le> 0 then Inl (Err InvalidAmount) else
     if time_lock \<le> now h then Inl (Err TimeLockExpired) else
     let next_id = unwrap_or (es_next s) 0;
         swap = \<lparr>sw_id = next_id, sw_initiator = initiator, sw_responder = responder,
                 sw_token_a = token_a, sw_token_b = token_b,
                 sw_initiator_amount = initiator_amount, sw_responder_amount = responder_amount,
                 sw_hash_lock = hash_lock, sw_time_lock = time_lock, sw_status = STATUS_PENDING,
                 sw_created_at = now h\<rparr>;
         swaps = unwrap_or (es_swaps s) [] @ [swap];
         s = s\<lparr>es_swaps := Some swaps\<rparr> in
     bind_res (ok_or (u_checked_add 64 next_id 1) InvalidAmount) (\<lambda>nid.
     let s = s\<lparr>es_next := Some nid\<rparr> in
     bind_res (safe_transfer_or map_transfer_error T token_a initiator (self h) initiator_amount s) (\<lambda>s.
     Inr (next_id, guard_leave (publish (Event ''swap_new'' [NatV next_id, AddrV initiator]
       [AddrV responder, AddrV token_a, AddrV token_b, IntV initiator_amount,
        IntV responder_amount]) s)))))))"

text \<open>The search loop of the handlers: the first entry with the id, and its index.\<close>

fun find_swap :: "nat \<Rightarrow> nat \<Rightarrow> swap_request list \<Rightarrow> (nat \<times> swap_request) option" where
  "find_swap swap_id i [] = None"
| "find_swap swap_id i (s # ss) = (if sw_id s = swap_id then Some (i, s) else find_swap swap_id (Suc i) ss)"

definition accept_swap ::
    "(bytes \<Rightarrow> bytes) \<Rightarrow> 'l token_api \<Rightarrow> host \<Rightarrow> nat \<Rightarrow> addr \<Rightarrow> bytes \<Rightarrow> 'l escrow
      \<Rightarrow> (escrow_error, 'l escrow) res" where
  "accept_swap sha T h swap_id responder secret s =
     bind_res (not_paused_or ContractPaused s) (\<lambda>_.
     bind_res (guard_or NotInitialized s) (\<lambda>s.
     bind_res (require_auth h responder) (\<lambda>_.
     bind_res (ok_or (es_swaps s) NotInitialized) (\<lambda>swaps.
     case find_swap swap_id 0 swaps of
       None \<Rightarrow> Inl (Err SwapNotFound)
     | Some (i, sw) \<Rightarrow>
         if sw_status sw = STATUS_ACTIVE then Inl (Err AlreadyAccepted) else
         if sw_status sw \<noteq> STATUS_PENDING then Inl (Err SwapNotActive) else
         if sw_responder sw \<noteq> responder then Inl (Err Unauthorized) else
         if sha secret \<noteq> sw_hash_lock sw then Inl (Err HashLockMismatch) else
         if now h \<ge> sw_time_lock sw then Inl (Err TimeLockExpired) else
         let sw = sw\<lparr>sw_status := STATUS_ACTIVE\<rparr>;
             swaps = swaps[i := sw] in
         bind_res (safe_transfer_or map_transfer_error T (sw_token_b sw) responder (self h)
           (sw_responder_amount sw) s) (\<lambda>s.
         let s = publish (Event ''accepted'' [NatV swap_id, AddrV responder] []) s in
         Inr (guard_leave (s\<lparr>es_swaps := Some swaps\<rparr>)))))))"

definition complete_swap ::
    "'l token_api \<Rightarrow> host \<Rightarrow> nat \<Rightarrow> addr \<Rightarrow> 'l escrow \<Rightarrow> (escrow_error, 'l escrow) res" where
  "complete_swap T h swap_id caller s =
     bind_res (not_paused_or ContractPaused s) (\<lambda>_.
     bind_res (guard_or NotInitialized s) (\<lambda>s.
     bind_res (require_auth h caller) (\<lambda>_.
     bind_res (ok_or (es_swaps s) NotInitialized) (\<lambda>swaps.
     case find_swap swap_id 0 swaps of
       None \<Rightarrow> Inl (Err SwapNotFound)
     | Some (i, sw) \<Rightarrow>
         if sw_status sw \<noteq> STATUS_ACTIVE then Inl (Err SwapNotActive) else
         if caller \<noteq> sw_initiator sw \<and> caller \<noteq> sw_responder sw then Inl (Err Unauthorized) else
         let sw = sw\<lparr>sw_status := STATUS_COMPLETED\<rparr>;
             swaps = swaps[i := sw] in
         bind_res (safe_transfer_or map_transfer_error T (sw_token_a sw) (self h) (sw_responder sw)
           (sw_initiator_amount sw) s) (\<lambda>s.
         bind_res (safe_transfer_or map_transfer_error T (sw_token_b sw) (self h) (sw_initiator sw)
           (sw_responder_amount sw) s) (\<lambda>s.
         let s = publish (Event ''completed'' [NatV swap_id] [AddrV (sw_initiator sw), AddrV (sw_responder sw)]) s in
         Inr (guard_leave (s\<lparr>es_swaps := Some swaps\<rparr>))))))))"

definition cancel_swap ::
    "'l token_api \<Rightarrow> host \<Rightarrow> nat \<Rightarrow> addr \<Rightarrow> 'l escrow \<Rightarrow> (escrow_error, 'l escrow) res" where
  "cancel_swap T h swap_id caller s =
     bind_res (not_paused_or ContractPaused s) (\<lambda>_.
     bind_res (guard_or NotInitialized s) (\<lambda>s.
     bind_res (require_auth h caller) (\<lambda>_.
     bind_res (ok_or (es_swaps s) NotInitialized) (\<lambda>swaps.
     case find_swap swap_id 0 swaps of
       None \<Rightarrow> Inl (Err SwapNotFound)
     | Some (i, sw) \<Rightarrow>
         if sw_status sw = STATUS_COMPLETED \<or> sw_status sw = STATUS_CANCELLED
         then Inl (Err SwapNotActive) else
         if caller \<noteq> sw_initiator sw \<and> caller \<noteq> sw_responder sw then Inl (Err Unauthorized) else
         let previous_status = sw_status sw;
             sw = sw\<lparr>sw_status := STATUS_CANCELLED\<rparr>;
             swaps = swaps[i := sw] in
         bind_res (safe_transfer_or map_transfer_error T (sw_token_a sw) (self h) (sw_initiator sw)
           (sw_initiator_amount sw) s) (\<lambda>s.
         bind_res
           (if previous_status = STATUS_ACTIVE
            then safe_transfer_or map_transfer_error T (sw_token_b sw) (self h) (sw_responder sw)
              (sw_responder_amount sw) s
            else Inr s) (\<lambda>s.
         let s = publish (Event ''cancelled'' [NatV swap_id] []) s in
         Inr (guard_leave (s\<lparr>es_swaps := Some swaps\<rparr>))))))))"

definition get_swap :: "nat \<Rightarrow> 'l escrow \<Rightarrow> (escrow_error, swap_request) res" where
  "get_swap swap_id s =
     bind_res (ok_or (es_swaps s) NotInitialized) (\<lambda>swaps.
     case find_swap swap_id 0 swaps of None \<Rightarrow> Inl (Err SwapNotFound) | Some (i, sw) \<Rightarrow> Inr sw)"

definition get_swaps :: "'l escrow \<Rightarrow> swap_request list" where
  "get_swaps s = unwrap_or (es_swaps s) []"

definition escrow_pause :: "host \<Rightarrow> addr \<Rightarrow> 'l escrow \<Rightarrow> (escrow_error, 'l escrow) res" where
  "escrow_pause h admin s =
     bind_res (ok_or (es_admin s) NotInitialized) (\<lambda>stored.
     if admin \<noteq> stored then Inl (Err Unauthorized) else
     map_err (\<lambda>_. ContractPaused) (common_pause h admin s))"

definition escrow_unpause :: "host \<Rightarrow> addr \<Rightarrow> 'l escrow \<Rightarrow> (escrow_error, 'l escrow) res" where
  "escrow_unpause h admin s =
     bind_res (ok_or (es_admin s) NotInitialized) (\<lambda>stored.
     if admin \<noteq> stored then Inl (Err Unauthorized) else
     map_err (\<lambda>_. ContractPaused) (common_unpause h admin s))"

section \<open>The contract as a state machine\<close>

datatype es_op =
    EsInit addr
  | CreateSwap addr addr addr addr int int bytes nat
  | AcceptSwap nat addr bytes
  | CompleteSwap nat addr
  | CancelSwap nat addr
  | EsPause addr
  | EsUnpause addr

fun es_exec ::
    "(bytes \<Rightarrow> bytes) \<Rightarrow> 'l token_api \<Rightarrow> host \<Rightarrow> es_op \<Rightarrow> 'l escrow \<Rightarrow> (escrow_error, 'l escrow) res" where
  "es_exec sha T h (EsInit a) s = escrow_init h a s"
| "es_exec sha T h (CreateSwap i r ta tb x y hl d) s =
     bind_res (create_swap T h i r ta tb x y hl d s) (\<lambda>(_, s). Inr s)"
| "es_exec sha T h (AcceptSwap n r sec) s = accept_swap sha T h n r sec s"
| "es_exec sha T h (CompleteSwap n c) s = complete_swap T h n c s"
| "es_exec sha T h (CancelSwap n c) s = cancel_swap T h n c s"
| "es_exec sha T h (EsPause a) s = escrow_pause h a s"
| "es_exec sha T h (EsUnpause a) s = escrow_unpause h a s"

text \<open>
  Runs of an escrow at the address \<open>me\<close>, with transfers by other accounts in between. The contract
  makes no call to itself, so it never authorizes one of its own entry points as a user.
\<close>

inductive es_run :: "(bytes \<Rightarrow> bytes) \<Rightarrow> 'l token_api \<Rightarrow> addr \<Rightarrow> 'l escrow \<Rightarrow> 'l escrow \<Rightarrow> bool"
  for sha :: "bytes \<Rightarrow> bytes" and T :: "'l token_api" and me :: addr where
  es_refl: "es_run sha T me s s"
| es_call: "es_run sha T me s s1 \<Longrightarrow> self h = me \<Longrightarrow> \<not> authorized h me \<Longrightarrow>
    es_exec sha T h op s1 = Inr s2 \<Longrightarrow> es_run sha T me s s2"
| es_env: "es_run sha T me s s1 \<Longrightarrow> a \<noteq> me \<Longrightarrow> tk_transfer T (cb_ledger s1) t a b x = Some l \<Longrightarrow>
    es_run sha T me s (s1\<lparr>cb_ledger := l\<rparr>)"

section \<open>Lemmas\<close>

lemma publish_escrow [simp]:
  "es_admin (publish ev s) = es_admin s" "es_swaps (publish ev s) = es_swaps s"
  "es_next (publish ev s) = es_next s"
  by (simp_all add: publish_def)

lemma guard_leave_escrow [simp]:
  "es_admin (guard_leave s) = es_admin s" "es_swaps (guard_leave s) = es_swaps s"
  "es_next (guard_leave s) = es_next s" "cb_ledger (guard_leave s) = cb_ledger s"
  "cb_reent (guard_leave s) = Some False" "cb_paused (guard_leave s) = cb_paused s"
  by (simp_all add: guard_leave_def)

text \<open>Identifiers are the positions in the vector, so the search finds position \<open>n\<close>.\<close>

definition ids_ok :: "swap_request list \<Rightarrow> bool" where
  "ids_ok ss \<longleftrightarrow> (\<forall>i<length ss. sw_id (ss ! i) = i)"

lemma find_swap_ids:
  "(\<forall>i<length ss. sw_id (ss ! i) = k + i) \<Longrightarrow>
     find_swap n k ss = (if k \<le> n \<and> n < k + length ss then Some (n, ss ! (n - k)) else None)"
proof (induction ss arbitrary: k)
  case Nil
  then show ?case by simp
next
  case (Cons x ss)
  have "\<forall>i<length ss. sw_id (ss ! i) = Suc k + i" using Cons.prems by (metis Suc_less_eq add_Suc_shift length_Cons nth_Cons_Suc)
  note IH = Cons.IH [OF this]
  from Cons.prems have "sw_id x = k" by (metis add.right_neutral length_greater_0_conv list.distinct(1) nth_Cons_0)
  with IH show ?case by (auto simp: nth_Cons' Suc_le_eq)
qed

lemma find_swap_pos:
  "ids_ok ss \<Longrightarrow> find_swap n 0 ss = (if n < length ss then Some (n, ss ! n) else None)"
  using find_swap_ids [of ss 0 n] by (simp add: ids_ok_def)

text \<open>What the escrow owes on a swap in a token: the legs deposited and not yet paid out.\<close>

definition owed :: "addr \<Rightarrow> swap_request \<Rightarrow> int" where
  "owed t sw =
     (if sw_status sw = STATUS_PENDING \<or> sw_status sw = STATUS_ACTIVE
      then (if sw_token_a sw = t then sw_initiator_amount sw else 0) else 0)
     + (if sw_status sw = STATUS_ACTIVE \<and> sw_token_b sw = t then sw_responder_amount sw else 0)"

definition total_owed :: "'l escrow \<Rightarrow> addr \<Rightarrow> int" where
  "total_owed s t = sum_list (map (owed t) (get_swaps s))"

definition swap_ok :: "swap_request \<Rightarrow> bool" where
  "swap_ok sw \<longleftrightarrow> 0 < sw_initiator_amount sw \<and> 0 < sw_responder_amount sw
     \<and> sw_initiator sw \<noteq> sw_responder sw \<and> sw_status sw \<le> 3"

lemma total_owed_update:
  assumes "es_swaps s = Some ss" "i < length ss"
  shows "sum_list (map (owed t) (ss[i := sw])) = total_owed s t - owed t (ss ! i) + owed t sw"
  using assms sum_list_int_update [of i "map (owed t) ss" "owed t sw"]
  by (simp add: total_owed_def get_swaps_def map_update)

lemma owed_nonneg: "swap_ok sw \<Longrightarrow> 0 \<le> owed t sw"
  by (simp add: owed_def swap_ok_def)

text \<open>What each operation does on success.\<close>

lemma create_swap_InrD:
  "create_swap T h i r ta tb x y hl d s = Inr (n, s') \<Longrightarrow>
     \<not> is_paused s \<and> cb_reent s \<noteq> Some True \<and> authorized h i \<and> i \<noteq> r \<and> 0 < x \<and> 0 < y \<and> now h < d
     \<and> n = unwrap_or (es_next s) 0 \<and> n + 1 < 2 ^ 64 \<and> x \<le> tk_balance T (cb_ledger s) ta i
     \<and> (\<exists>l. tk_transfer T (cb_ledger s) ta i (self h) x = Some l
        \<and> s' = guard_leave (publish (Event ''swap_new'' [NatV n, AddrV i]
             [AddrV r, AddrV ta, AddrV tb, IntV x, IntV y])
             (s\<lparr>cb_reent := Some True, es_swaps := Some (get_swaps s @
               [\<lparr>sw_id = n, sw_initiator = i, sw_responder = r, sw_token_a = ta, sw_token_b = tb,
                 sw_initiator_amount = x, sw_responder_amount = y, sw_hash_lock = hl,
                 sw_time_lock = d, sw_status = STATUS_PENDING, sw_created_at = now h\<rparr>]),
               es_next := Some (n + 1), cb_ledger := l\<rparr>)))"
  by (auto simp: create_swap_def res_simps int_simps Let_def not_le swap_status_defs get_swaps_def split: if_splits)

lemma accept_swap_InrD:
  "accept_swap sha T h n r sec s = Inr s' \<Longrightarrow>
     \<not> is_paused s \<and> cb_reent s \<noteq> Some True \<and> authorized h r
     \<and> (\<exists>ss i sw l. es_swaps s = Some ss \<and> find_swap n 0 ss = Some (i, sw)
        \<and> sw_status sw = STATUS_PENDING \<and> sw_responder sw = r \<and> sha sec = sw_hash_lock sw
        \<and> now h < sw_time_lock sw \<and> 0 < sw_responder_amount sw
        \<and> sw_responder_amount sw \<le> tk_balance T (cb_ledger s) (sw_token_b sw) r
        \<and> tk_transfer T (cb_ledger s) (sw_token_b sw) r (self h) (sw_responder_amount sw) = Some l
        \<and> s' = guard_leave ((publish (Event ''accepted'' [NatV n, AddrV r] [])
             (s\<lparr>cb_reent := Some True, cb_ledger := l\<rparr>))
             \<lparr>es_swaps := Some (ss[i := sw\<lparr>sw_status := STATUS_ACTIVE\<rparr>])\<rparr>))"
  by (auto simp: accept_swap_def res_simps int_simps Let_def not_le swap_status_defs get_swaps_def split: if_splits)

lemma complete_swap_InrD:
  "complete_swap T h n c s = Inr s' \<Longrightarrow>
     \<not> is_paused s \<and> cb_reent s \<noteq> Some True \<and> authorized h c
     \<and> (\<exists>ss i sw l l'. es_swaps s = Some ss \<and> find_swap n 0 ss = Some (i, sw)
        \<and> sw_status sw = STATUS_ACTIVE \<and> (c = sw_initiator sw \<or> c = sw_responder sw)
        \<and> 0 < sw_initiator_amount sw \<and> 0 < sw_responder_amount sw
        \<and> sw_initiator_amount sw \<le> tk_balance T (cb_ledger s) (sw_token_a sw) (self h)
        \<and> tk_transfer T (cb_ledger s) (sw_token_a sw) (self h) (sw_responder sw) (sw_initiator_amount sw) = Some l
        \<and> sw_responder_amount sw \<le> tk_balance T l (sw_token_b sw) (self h)
        \<and> tk_transfer T l (sw_token_b sw) (self h) (sw_initiator sw) (sw_responder_amount sw) = Some l'
        \<and> s' = guard_leave ((publish (Event ''completed'' [NatV n]
                 [AddrV (sw_initiator sw), AddrV (sw_responder sw)])
             (s\<lparr>cb_reent := Some True, cb_ledger := l'\<rparr>))
             \<lparr>es_swaps := Some (ss[i := sw\<lparr>sw_status := STATUS_COMPLETED\<rparr>])\<rparr>))"
  by (auto simp: complete_swap_def res_simps int_simps Let_def not_le swap_status_defs get_swaps_def split: if_splits)

lemma cancel_swap_InrD:
  assumes "cancel_swap T h n c s = Inr s'"
  shows "\<not> is_paused s \<and> cb_reent s \<noteq> Some True \<and> authorized h c
     \<and> (\<exists>ss i sw l l'. es_swaps s = Some ss \<and> find_swap n 0 ss = Some (i, sw)
        \<and> sw_status sw \<noteq> STATUS_COMPLETED \<and> sw_status sw \<noteq> STATUS_CANCELLED
        \<and> (c = sw_initiator sw \<or> c = sw_responder sw)
        \<and> tk_transfer T (cb_ledger s) (sw_token_a sw) (self h) (sw_initiator sw) (sw_initiator_amount sw) = Some l
        \<and> (sw_status sw = STATUS_ACTIVE \<longrightarrow>
             tk_transfer T l (sw_token_b sw) (self h) (sw_responder sw) (sw_responder_amount sw) = Some l')
        \<and> (sw_status sw \<noteq> STATUS_ACTIVE \<longrightarrow> l' = l)
        \<and> es_swaps s' = Some (ss[i := sw\<lparr>sw_status := STATUS_CANCELLED\<rparr>])
        \<and> es_next s' = es_next s \<and> cb_reent s' = Some False \<and> cb_ledger s' = l'
        \<and> es_admin s' = es_admin s)"
proof -
  from assms obtain ss i sw where f: "es_swaps s = Some ss" "find_swap n 0 ss = Some (i, sw)"
    by (auto simp: cancel_swap_def res_simps)
  show ?thesis
  proof (cases "sw_status sw = STATUS_ACTIVE")
    case True
    with assms f show ?thesis
      by (simp add: cancel_swap_def res_simps Let_def swap_status_defs) (elim exE conjE, force)
  next
    case False
    with assms f show ?thesis
      by (simp add: cancel_swap_def res_simps Let_def) (elim exE conjE, force)
  qed
qed

section \<open>The invariant\<close>

definition book_inv :: "'l escrow \<Rightarrow> bool" where
  "book_inv s \<longleftrightarrow> ids_ok (get_swaps s) \<and> unwrap_or (es_next s) 0 = length (get_swaps s)
     \<and> (\<forall>sw\<in>set (get_swaps s). swap_ok sw) \<and> cb_reent s \<noteq> Some True"

definition escrow_solvent :: "'l token_api \<Rightarrow> addr \<Rightarrow> 'l escrow \<Rightarrow> bool" where
  "escrow_solvent T me s \<longleftrightarrow> (\<forall>t. total_owed s t \<le> tk_balance T (cb_ledger s) t me)"

lemma ids_ok_append: "ids_ok ss \<Longrightarrow> sw_id sw = length ss \<Longrightarrow> ids_ok (ss @ [sw])"
  by (auto simp: ids_ok_def nth_append less_Suc_eq)

lemma ids_ok_update: "ids_ok ss \<Longrightarrow> sw_id sw = sw_id (ss ! i) \<Longrightarrow> i < length ss \<Longrightarrow> ids_ok (ss[i := sw])"
  by (auto simp: ids_ok_def nth_list_update)

text \<open>The view of a settled step: entry \<open>n\<close> of the vector changes its status, nothing else does.\<close>

lemma book_inv_status:
  assumes "book_inv s" "es_swaps s = Some ss" "find_swap n 0 ss = Some (i, sw)"
    and "es_swaps s' = Some (ss[i := sw\<lparr>sw_status := st\<rparr>])" "es_next s' = es_next s"
    and "cb_reent s' = Some False" "st \<le> 3"
  shows "book_inv s' \<and> i = n \<and> n < length ss \<and> ss ! n = sw \<and> swap_ok sw
    \<and> total_owed s' t = total_owed s t - owed t sw + owed t (sw\<lparr>sw_status := st\<rparr>)"
proof -
  from assms(1,2) have ids: "ids_ok ss" by (simp add: book_inv_def get_swaps_def)
  with assms(3) have n: "i = n" "n < length ss" "sw = ss ! n" by (auto simp: find_swap_pos split: if_splits)
  with assms(1,2) have ok: "swap_ok sw" by (simp add: book_inv_def get_swaps_def)
  then have "swap_ok (sw\<lparr>sw_status := st\<rparr>)" using assms(7) by (simp add: swap_ok_def)
  moreover have "set (ss[n := sw\<lparr>sw_status := st\<rparr>]) \<subseteq> insert (sw\<lparr>sw_status := st\<rparr>) (set ss)"
    by (rule set_update_subset_insert)
  ultimately have "book_inv s'"
    using assms n ids_ok_update [OF ids, of "sw\<lparr>sw_status := st\<rparr>" n]
    by (auto simp: book_inv_def get_swaps_def)
  moreover have "total_owed s' t = total_owed s t - owed t sw + owed t (sw\<lparr>sw_status := st\<rparr>)"
    using total_owed_update [OF assms(2) n(2), of t "sw\<lparr>sw_status := st\<rparr>"] assms(4) n
    by (simp add: total_owed_def get_swaps_def)
  ultimately show ?thesis using n ok by simp
qed

lemma escrow_admin_frame:
  "escrow_pause h a s = Inr s' \<Longrightarrow> es_admin s' = es_admin s \<and> es_swaps s' = es_swaps s \<and> es_next s' = es_next s
     \<and> cb_reent s' = cb_reent s \<and> cb_ledger s' = cb_ledger s"
  "escrow_unpause h a s = Inr s' \<Longrightarrow> es_admin s' = es_admin s \<and> es_swaps s' = es_swaps s \<and> es_next s' = es_next s
     \<and> cb_reent s' = cb_reent s \<and> cb_ledger s' = cb_ledger s"
  by (auto simp: escrow_pause_def escrow_unpause_def common_pause_def common_unpause_def res_simps
      split: if_splits)

lemma escrow_inv_cong:
  "es_swaps s' = es_swaps s \<Longrightarrow> es_next s' = es_next s \<Longrightarrow> cb_reent s' = cb_reent s \<Longrightarrow>
     cb_ledger s' = cb_ledger s \<Longrightarrow>
     book_inv s' = book_inv s \<and> escrow_solvent T me s' = escrow_solvent T me s"
  by (simp add: book_inv_def escrow_solvent_def total_owed_def get_swaps_def)

lemma owed_status [simp]:
  "owed t (sw\<lparr>sw_status := STATUS_COMPLETED\<rparr>) = 0" "owed t (sw\<lparr>sw_status := STATUS_CANCELLED\<rparr>) = 0"
  by (simp_all add: owed_def swap_status_defs)

context sep41
begin

lemma create_step:
  assumes ok: "ok (cb_ledger s)" and inv: "book_inv s" "escrow_solvent T me s" and me: "self h = me"
    and au: "\<not> authorized h me" and ex: "create_swap T h i r ta tb x y hl d s = Inr (n, s')"
  shows "ok (cb_ledger s') \<and> book_inv s' \<and> escrow_solvent T me s'"
proof -
  let ?sw = "\<lparr>sw_id = n, sw_initiator = i, sw_responder = r, sw_token_a = ta, sw_token_b = tb,
    sw_initiator_amount = x, sw_responder_amount = y, sw_hash_lock = hl,
    sw_time_lock = d, sw_status = STATUS_PENDING, sw_created_at = now h\<rparr>"
  from create_swap_InrD [OF ex] me obtain l where a: "authorized h i" "i \<noteq> r" "0 < x" "0 < y"
    "n = unwrap_or (es_next s) 0" and l: "tk_transfer T (cb_ledger s) ta i me x = Some l"
    and s': "es_swaps s' = Some (get_swaps s @ [?sw])" "es_next s' = Some (n + 1)"
      "cb_reent s' = Some False" "cb_ledger s' = l"
    by auto
  from a(1) au have i: "i \<noteq> me" by auto
  have gs: "get_swaps s' = get_swaps s @ [?sw]" using s'(1) by (simp add: get_swaps_def)
  have "book_inv s'"
    using inv(1) a s' ids_ok_append [of "get_swaps s" ?sw]
    by (simp add: book_inv_def gs swap_ok_def swap_status_defs)
  moreover have "total_owed s' t \<le> tk_balance T l t me" for t
  proof (cases "t = ta")
    case True
    then have "total_owed s' t = total_owed s t + x"
      by (simp add: total_owed_def gs owed_def swap_status_defs)
    with True inv(2) deposit_balance [OF ok l i] show ?thesis by (simp add: escrow_solvent_def)
  next
    case False
    then have "total_owed s' t = total_owed s t"
      by (simp add: total_owed_def gs owed_def swap_status_defs)
    with False inv(2) transfer_other_token [OF ok l False] show ?thesis by (simp add: escrow_solvent_def)
  qed
  ultimately show ?thesis using transfer_ok [OF ok l] s'(4) by (simp add: escrow_solvent_def)
qed

lemma accept_step:
  assumes ok: "ok (cb_ledger s)" and inv: "book_inv s" "escrow_solvent T me s" and me: "self h = me"
    and au: "\<not> authorized h me" and ex: "accept_swap sha T h n r sec s = Inr s'"
  shows "ok (cb_ledger s') \<and> book_inv s' \<and> escrow_solvent T me s'"
proof -
  from accept_swap_InrD [OF ex] me obtain ss i sw l where a: "authorized h r"
    "es_swaps s = Some ss" "find_swap n 0 ss = Some (i, sw)" "sw_status sw = STATUS_PENDING"
    and l: "tk_transfer T (cb_ledger s) (sw_token_b sw) r me (sw_responder_amount sw) = Some l"
    and s': "es_swaps s' = Some (ss[i := sw\<lparr>sw_status := STATUS_ACTIVE\<rparr>])" "es_next s' = es_next s"
      "cb_reent s' = Some False" "cb_ledger s' = l"
    by auto
  note upd = book_inv_status [OF inv(1) a(2,3) s'(1-3)]
  from a(1) au have r: "r \<noteq> me" by auto
  have "total_owed s' t \<le> tk_balance T l t me" for t
  proof (cases "t = sw_token_b sw")
    case True
    have "total_owed s' t = total_owed s t + sw_responder_amount sw"
      using upd [of t] True a(4) by (simp add: owed_def swap_status_defs)
    with True inv(2) deposit_balance [OF ok l r] show ?thesis by (simp add: escrow_solvent_def)
  next
    case False
    have "total_owed s' t = total_owed s t"
      using upd [of t] False a(4) by (simp add: owed_def swap_status_defs)
    with False inv(2) transfer_other_token [OF ok l False] show ?thesis by (simp add: escrow_solvent_def)
  qed
  then show ?thesis using transfer_ok [OF ok l] s'(4) upd
    by (simp add: escrow_solvent_def swap_status_defs)
qed

text \<open>Paying one leg out lowers the balance of its token by at most the amount.\<close>

lemma payout_leg:
  "ok l \<Longrightarrow> tk_transfer T l u me b x = Some l' \<Longrightarrow>
     tk_balance T l t me - (if u = t then x else 0) \<le> tk_balance T l' t me"
  using payout_balance_ge [of l u me b x l'] transfer_other_token [of l u me b x l' t me]
  by (cases "u = t") auto

lemma complete_step:
  assumes ok: "ok (cb_ledger s)" and inv: "book_inv s" "escrow_solvent T me s" and me: "self h = me"
    and ex: "complete_swap T h n c s = Inr s'"
  shows "ok (cb_ledger s') \<and> book_inv s' \<and> escrow_solvent T me s'"
proof -
  from complete_swap_InrD [OF ex] me obtain ss i sw l l' where a:
    "es_swaps s = Some ss" "find_swap n 0 ss = Some (i, sw)" "sw_status sw = STATUS_ACTIVE"
    and l: "tk_transfer T (cb_ledger s) (sw_token_a sw) me (sw_responder sw) (sw_initiator_amount sw) = Some l"
    and l': "tk_transfer T l (sw_token_b sw) me (sw_initiator sw) (sw_responder_amount sw) = Some l'"
    and s': "es_swaps s' = Some (ss[i := sw\<lparr>sw_status := STATUS_COMPLETED\<rparr>])" "es_next s' = es_next s"
      "cb_reent s' = Some False" "cb_ledger s' = l'"
    by auto
  note upd = book_inv_status [OF inv(1) a(1,2) s'(1-3)]
  have okl: "ok l" by (rule transfer_ok [OF ok l])
  have "total_owed s' t \<le> tk_balance T l' t me" for t
    using payout_leg [OF ok l, of t] payout_leg [OF okl l', of t] inv(2) [unfolded escrow_solvent_def, rule_format, of t]
      upd [of t] a(3) by (simp add: owed_def swap_status_defs split: if_splits)
  then show ?thesis using transfer_ok [OF okl l'] s'(4) upd by (simp add: escrow_solvent_def swap_status_defs)
qed

lemma cancel_step:
  assumes ok: "ok (cb_ledger s)" and inv: "book_inv s" "escrow_solvent T me s" and me: "self h = me"
    and ex: "cancel_swap T h n c s = Inr s'"
  shows "ok (cb_ledger s') \<and> book_inv s' \<and> escrow_solvent T me s'"
proof -
  obtain ss i sw l l' where a:
    "es_swaps s = Some ss" "find_swap n 0 ss = Some (i, sw)" "sw_status sw \<noteq> STATUS_COMPLETED"
    "sw_status sw \<noteq> STATUS_CANCELLED"
    and l: "tk_transfer T (cb_ledger s) (sw_token_a sw) me (sw_initiator sw) (sw_initiator_amount sw) = Some l"
    and l': "sw_status sw = STATUS_ACTIVE \<longrightarrow>
      tk_transfer T l (sw_token_b sw) me (sw_responder sw) (sw_responder_amount sw) = Some l'"
      "sw_status sw \<noteq> STATUS_ACTIVE \<longrightarrow> l' = l"
    and s': "es_swaps s' = Some (ss[i := sw\<lparr>sw_status := STATUS_CANCELLED\<rparr>])" "es_next s' = es_next s"
      "cb_reent s' = Some False" "cb_ledger s' = l'"
    using cancel_swap_InrD [OF ex] unfolding me by blast
  note upd = book_inv_status [OF inv(1) a(1,2) s'(1-3)]
  have okl: "ok l" by (rule transfer_ok [OF ok l])
  have st: "sw_status sw = STATUS_PENDING \<or> sw_status sw = STATUS_ACTIVE"
  proof -
    have "sw_status sw \<le> 3" using upd by (simp add: swap_ok_def swap_status_defs)
    with a(3,4) show ?thesis unfolding swap_status_defs by presburger
  qed
  have "total_owed s' t \<le> tk_balance T l' t me \<and> ok l'" for t
  proof (cases "sw_status sw = STATUS_ACTIVE")
    case True
    with l' have "tk_transfer T l (sw_token_b sw) me (sw_responder sw) (sw_responder_amount sw) = Some l'" by simp
    with payout_leg [OF ok l, of t] payout_leg [OF okl this, of t] transfer_ok [OF okl this]
      inv(2) [unfolded escrow_solvent_def, rule_format, of t] upd [of t] True
    show ?thesis by (simp add: owed_def swap_status_defs split: if_splits)
  next
    case False
    with payout_leg [OF ok l, of t] inv(2) [unfolded escrow_solvent_def, rule_format, of t] upd [of t] st l' okl
    show ?thesis by (simp add: owed_def swap_status_defs split: if_splits)
  qed
  then show ?thesis using s'(4) upd by (simp add: escrow_solvent_def swap_status_defs)
qed

lemma es_step_inv:
  assumes ok: "ok (cb_ledger s)" and inv: "book_inv s" "escrow_solvent T me s" and me: "self h = me"
    and au: "\<not> authorized h me" and ex: "es_exec sha T h op s = Inr s'"
  shows "ok (cb_ledger s') \<and> book_inv s' \<and> escrow_solvent T me s'"
proof (cases op)
  case (EsInit a)
  with ex have "s' = s\<lparr>es_admin := Some a, es_next := Some 0, es_swaps := Some []\<rparr>"
    by (auto simp: escrow_init_def res_simps)
  with ok inv balance_range show ?thesis
    by (simp add: book_inv_def escrow_solvent_def total_owed_def get_swaps_def ids_ok_def)
next
  case (CreateSwap i r ta tb x y hl d)
  with ex create_step [OF ok inv me au] show ?thesis by (auto simp: bind_res_Inr)
next
  case (EsPause a)
  with ex have "escrow_pause h a s = Inr s'" by simp
  from escrow_admin_frame(1) [OF this] escrow_inv_cong [of s' s T me] ok inv show ?thesis by simp
next
  case (EsUnpause a)
  with ex have "escrow_unpause h a s = Inr s'" by simp
  from escrow_admin_frame(2) [OF this] escrow_inv_cong [of s' s T me] ok inv show ?thesis by simp
next
  case (AcceptSwap n r sec)
  with ex have "accept_swap sha T h n r sec s = Inr s'" by simp
  then show ?thesis by (rule accept_step [OF ok inv me au])
next
  case (CompleteSwap n c)
  with ex have "complete_swap T h n c s = Inr s'" by simp
  then show ?thesis by (rule complete_step [OF ok inv me])
next
  case (CancelSwap n c)
  with ex have "cancel_swap T h n c s = Inr s'" by simp
  then show ?thesis by (rule cancel_step [OF ok inv me])
qed

lemma es_run_inv:
  "es_run sha T me s s' \<Longrightarrow> ok (cb_ledger s) \<Longrightarrow> book_inv s \<Longrightarrow> escrow_solvent T me s \<Longrightarrow>
    ok (cb_ledger s') \<and> book_inv s' \<and> escrow_solvent T me s'"
proof (induction rule: es_run.induct)
  case (es_refl s)
  then show ?case by simp
next
  case (es_call s s1 h op s2)
  then show ?case using es_step_inv [of s1 me h sha op s2] by simp
next
  case (es_env s s1 a t b x l)
  then have ok1: "ok (cb_ledger s1)" and inv: "escrow_solvent T me s1" and b: "book_inv s1" by simp_all
  from foreign_transfer_balance_ge [OF ok1 es_env(3,2)] transfer_ok [OF ok1 es_env(3)] inv b
  show ?case
    by (fastforce simp: escrow_solvent_def book_inv_def total_owed_def get_swaps_def intro: order_trans)
qed

end

lemma escrow_empty_inv:
  "(\<And>t c. 0 \<le> tk_balance T l t c) \<Longrightarrow> book_inv (escrow_empty l) \<and> escrow_solvent T me (escrow_empty l)"
  by (simp add: book_inv_def escrow_solvent_def total_owed_def get_swaps_def ids_ok_def escrow_empty_def)

section \<open>The life of a swap\<close>

inductive swap_step :: "nat \<Rightarrow> nat \<Rightarrow> bool" where
  accepted: "swap_step STATUS_PENDING STATUS_ACTIVE"
| completed: "swap_step STATUS_ACTIVE STATUS_COMPLETED"
| cancelled_pending: "swap_step STATUS_PENDING STATUS_CANCELLED"
| cancelled_active: "swap_step STATUS_ACTIVE STATUS_CANCELLED"

lemma swap_step_terminal: "st = STATUS_COMPLETED \<or> st = STATUS_CANCELLED \<Longrightarrow> \<not> swap_step st st'"
  by (auto simp: swap_step.simps swap_status_defs)

lemma swap_steps_terminal:
  "swap_step\<^sup>*\<^sup>* st st' \<Longrightarrow> st = STATUS_COMPLETED \<or> st = STATUS_CANCELLED \<Longrightarrow> st' = st"
proof (induction rule: converse_rtranclp_induct)
  case (step y z)
  with swap_step_terminal [of y z] show ?case by blast
qed simp

lemma get_swap_nth:
  assumes "book_inv s"
  shows "get_swap n s = Inr sw \<longleftrightarrow> (\<exists>ss. es_swaps s = Some ss \<and> n < length ss \<and> ss ! n = sw)"
  using assms by (auto simp: get_swap_def res_simps book_inv_def get_swaps_def find_swap_pos split: if_splits)

text \<open>Every step keeps each swap's terms and moves its status along \<open>swap_step\<close> at most once.\<close>

lemma swap_update_step:
  assumes inv: "book_inv s" and ss: "es_swaps s = Some ss" "n < length ss"
    and m: "find_swap m 0 ss = Some (i, sw)" "swap_step (sw_status sw) st"
  shows "\<exists>st'. (ss[i := sw\<lparr>sw_status := st\<rparr>]) ! n = (ss ! n)\<lparr>sw_status := st'\<rparr>
      \<and> (st' = sw_status (ss ! n) \<or> swap_step (sw_status (ss ! n)) st')"
proof -
  from inv ss(1) have ids: "ids_ok ss" by (simp add: book_inv_def get_swaps_def)
  with m(1) have i: "i < length ss" "sw = ss ! i" by (auto simp: find_swap_pos split: if_splits)
  show ?thesis
  proof (cases "i = n")
    case True
    with i m(2) ss(2) show ?thesis by auto
  next
    case False
    then have "(ss[i := sw\<lparr>sw_status := st\<rparr>]) ! n = (ss ! n)\<lparr>sw_status := sw_status (ss ! n)\<rparr>" by simp
    then show ?thesis by blast
  qed
qed

lemma es_exec_swap:
  assumes inv: "book_inv s" and ini: "es_admin s \<noteq> None" and ex: "es_exec sha T h op s = Inr s'"
    and n: "es_swaps s = Some ss" "n < length ss"
  shows "es_admin s' \<noteq> None \<and> (\<exists>ss' st. es_swaps s' = Some ss' \<and> n < length ss'
    \<and> ss' ! n = (ss ! n)\<lparr>sw_status := st\<rparr> \<and> (st = sw_status (ss ! n) \<or> swap_step (sw_status (ss ! n)) st))"
proof -
  note upd = swap_update_step [OF inv n]
  show ?thesis
  proof (cases op)
    case (EsInit a)
    with ex ini show ?thesis by (auto simp: escrow_init_def res_simps)
  next
    case (CreateSwap i r ta tb x y hl d)
    with ex obtain k where "create_swap T h i r ta tb x y hl d s = Inr (k, s')"
      by (auto simp: bind_res_Inr)
    from create_swap_InrD [OF this] obtain sw where "es_swaps s' = Some (ss @ [sw])" "es_admin s' = es_admin s"
      by (auto simp: get_swaps_def n(1))
    moreover have "(ss @ [sw]) ! n = (ss ! n)\<lparr>sw_status := sw_status (ss ! n)\<rparr>" using n(2) by (simp add: nth_append)
    ultimately show ?thesis using ini n(2) by (intro conjI exI [of _ "ss @ [sw]"] exI [of _ "sw_status (ss ! n)"]) simp_all
  next
    case (AcceptSwap m r sec)
    with ex have "accept_swap sha T h m r sec s = Inr s'" by simp
    from accept_swap_InrD [OF this] obtain i sw where f: "find_swap m 0 ss = Some (i, sw)"
      "sw_status sw = STATUS_PENDING" "es_swaps s' = Some (ss[i := sw\<lparr>sw_status := STATUS_ACTIVE\<rparr>])"
      "es_admin s' = es_admin s"
      by (auto simp: n(1))
    from upd [OF f(1), of STATUS_ACTIVE] f ini n(2) show ?thesis by (auto simp: swap_step.simps)
  next
    case (CompleteSwap m c)
    with ex have "complete_swap T h m c s = Inr s'" by simp
    from complete_swap_InrD [OF this] obtain i sw where f: "find_swap m 0 ss = Some (i, sw)"
      "sw_status sw = STATUS_ACTIVE" "es_swaps s' = Some (ss[i := sw\<lparr>sw_status := STATUS_COMPLETED\<rparr>])"
      "es_admin s' = es_admin s"
      by (auto simp: n(1))
    from upd [OF f(1), of STATUS_COMPLETED] f ini n(2) show ?thesis by (auto simp: swap_step.simps)
  next
    case (CancelSwap m c)
    with ex have "cancel_swap T h m c s = Inr s'" by simp
    from cancel_swap_InrD [OF this] n(1) obtain i sw where f: "find_swap m 0 ss = Some (i, sw)"
      "sw_status sw \<noteq> STATUS_COMPLETED" "sw_status sw \<noteq> STATUS_CANCELLED"
      "es_swaps s' = Some (ss[i := sw\<lparr>sw_status := STATUS_CANCELLED\<rparr>])" "es_admin s' = es_admin s"
      by fastforce
    have "sw \<in> set ss" using inv n(1) f(1) by (auto simp: book_inv_def get_swaps_def find_swap_pos split: if_splits)
    with inv n(1) have "sw_status sw \<le> 3" by (simp add: book_inv_def get_swaps_def swap_ok_def)
    with f(2,3) have "swap_step (sw_status sw) STATUS_CANCELLED"
      unfolding swap_step.simps swap_status_defs by presburger
    with upd [OF f(1), of STATUS_CANCELLED] f(4,5) n(2) ini show ?thesis by auto
  next
    case (EsPause a)
    with ex have "escrow_pause h a s = Inr s'" by simp
    from escrow_admin_frame(1) [OF this] ini n show ?thesis
      by (intro conjI exI [of _ ss] exI [of _ "sw_status (ss ! n)"]) simp_all
  next
    case (EsUnpause a)
    with ex have "escrow_unpause h a s = Inr s'" by simp
    from escrow_admin_frame(2) [OF this] ini n show ?thesis
      by (intro conjI exI [of _ ss] exI [of _ "sw_status (ss ! n)"]) simp_all
  qed
qed

lemma es_exec_keeps_init:
  assumes "es_admin s \<noteq> None \<and> es_swaps s \<noteq> None" "es_exec sha T h op s = Inr s'"
  shows "es_admin s' \<noteq> None \<and> es_swaps s' \<noteq> None"
proof (cases op)
  case (EsInit a)
  with assms show ?thesis by (auto simp: escrow_init_def res_simps)
next
  case (CreateSwap i r ta tb x y hl d)
  with assms obtain k where "create_swap T h i r ta tb x y hl d s = Inr (k, s')" by (auto simp: bind_res_Inr)
  from create_swap_InrD [OF this] assms(1) show ?thesis by auto
next
  case (AcceptSwap n r sec)
  with assms have "accept_swap sha T h n r sec s = Inr s'" by simp
  from accept_swap_InrD [OF this] assms(1) show ?thesis by auto
next
  case (CompleteSwap n c)
  with assms have "complete_swap T h n c s = Inr s'" by simp
  from complete_swap_InrD [OF this] assms(1) show ?thesis by auto
next
  case (CancelSwap n c)
  with assms have "cancel_swap T h n c s = Inr s'" by simp
  from cancel_swap_InrD [OF this] assms(1) show ?thesis by auto
next
  case (EsPause a)
  with assms have "escrow_pause h a s = Inr s'" by simp
  from escrow_admin_frame(1) [OF this] assms(1) show ?thesis by simp
next
  case (EsUnpause a)
  with assms have "escrow_unpause h a s = Inr s'" by simp
  from escrow_admin_frame(2) [OF this] assms(1) show ?thesis by simp
qed

lemma es_run_keeps_init:
  "es_run sha T me s s' \<Longrightarrow> es_admin s \<noteq> None \<and> es_swaps s \<noteq> None \<Longrightarrow>
     es_admin s' \<noteq> None \<and> es_swaps s' \<noteq> None"
proof (induction rule: es_run.induct)
  case (es_call s s1 h op s2)
  then show ?case using es_exec_keeps_init [of s1 sha T h op s2] by blast
qed simp_all

lemma es_run_swap:
  assumes "es_run sha T me s s'" "sep41 T ok" "ok (cb_ledger s)" "book_inv s" "escrow_solvent T me s"
    and "es_admin s \<noteq> None" "es_swaps s = Some ss" "n < length ss"
  shows "es_admin s' \<noteq> None \<and> (\<exists>ss' st. es_swaps s' = Some ss' \<and> n < length ss'
    \<and> ss' ! n = (ss ! n)\<lparr>sw_status := st\<rparr> \<and> swap_step\<^sup>*\<^sup>* (sw_status (ss ! n)) st)"
  using assms
proof (induction rule: es_run.induct)
  case (es_refl s)
  have "ss ! n = (ss ! n)\<lparr>sw_status := sw_status (ss ! n)\<rparr>" by simp
  with es_refl show ?case by blast
next
  case (es_call s s1 h op s2)
  then obtain ss1 st where 1: "es_admin s1 \<noteq> None" "es_swaps s1 = Some ss1" "n < length ss1"
    "ss1 ! n = (ss ! n)\<lparr>sw_status := st\<rparr>" "swap_step\<^sup>*\<^sup>* (sw_status (ss ! n)) st" by blast
  from sep41.es_run_inv [OF es_call.prems(1) es_call.hyps(1) es_call.prems(2-4)]
  have "book_inv s1" by simp
  from es_exec_swap [OF this 1(1) es_call.hyps(4) 1(2,3)] obtain ss2 st2 where
    2: "es_admin s2 \<noteq> None" "es_swaps s2 = Some ss2" "n < length ss2"
      "ss2 ! n = (ss1 ! n)\<lparr>sw_status := st2\<rparr>" "st2 = st \<or> swap_step st st2"
    using 1(4) by auto
  have "swap_step\<^sup>*\<^sup>* (sw_status (ss ! n)) st2" using 1(5) 2(5) by (auto intro: rtranclp.rtrancl_into_rtrancl)
  with 2 1(4) show ?case by auto
next
  case (es_env s s1 a t b x l)
  then show ?case by simp
qed

section \<open>Properties\<close>

text \<open>
  C30: the escrow can always pay what it owes. In every run from deployment on, with any token that
  keeps the SEP-41 standard and any transfers by other accounts in between, the escrow holds of each
  token at least the sum of the deposited and not yet paid out legs of all swaps (the initiator's leg
  of pending and active swaps, the responder's leg of active ones).
\<close>

theorem escrow_covers_open_swaps:
  assumes "sep41 T ok" "ok l" "es_run sha T me (escrow_empty l) s"
  shows "(\<Sum>sw\<leftarrow>get_swaps s. owed t sw) \<le> tk_balance T (cb_ledger s) t me
    \<and> (\<forall>sw\<in>set (get_swaps s). 0 \<le> owed t sw)"
proof -
  have "book_inv (escrow_empty l) \<and> escrow_solvent T me (escrow_empty l)"
    by (rule escrow_empty_inv) (use sep41.balance_range [OF assms(1,2)] in simp)
  with sep41.es_run_inv [OF assms(1,3)] assms(2) have "book_inv s" "escrow_solvent T me s"
    by (simp_all add: escrow_empty_def)
  then show ?thesis by (auto simp: escrow_solvent_def total_owed_def book_inv_def owed_nonneg)
qed

text \<open>
  C31: completing a swap delivers both legs, once. After a successful \<open>complete_swap\<close> of an active swap
  between two other accounts, the responder has received exactly the initiator's leg and the initiator
  exactly the responder's, no other account's balance has changed besides the escrow's, the swap is
  recorded as completed, and it can neither be completed nor cancelled again.
\<close>

theorem complete_swap_delivers:
  assumes "sep41 T ok" "ok (cb_ledger s)" "book_inv s" "get_swap n s = Inr sw"
    and "complete_swap T h n c s = Inr s'" "sw_initiator sw \<noteq> self h" "sw_responder sw \<noteq> self h"
  shows "sw_status sw = STATUS_ACTIVE \<and> get_swap n s' = Inr (sw\<lparr>sw_status := STATUS_COMPLETED\<rparr>)
    \<and> (\<forall>t a. a \<noteq> self h \<longrightarrow> tk_balance T (cb_ledger s') t a = tk_balance T (cb_ledger s) t a
         + (if t = sw_token_a sw \<and> a = sw_responder sw then sw_initiator_amount sw else 0)
         + (if t = sw_token_b sw \<and> a = sw_initiator sw then sw_responder_amount sw else 0))
    \<and> (\<forall>T' h' c'. complete_swap T' h' n c' s' \<noteq> Inr x \<and> cancel_swap T' h' n c' s' \<noteq> Inr x)"
proof -
  from complete_swap_InrD [OF assms(5)] obtain ss i w l l' where a:
    "es_swaps s = Some ss" "find_swap n 0 ss = Some (i, w)" "sw_status w = STATUS_ACTIVE"
    and l: "tk_transfer T (cb_ledger s) (sw_token_a w) (self h) (sw_responder w) (sw_initiator_amount w) = Some l"
    and l': "tk_transfer T l (sw_token_b w) (self h) (sw_initiator w) (sw_responder_amount w) = Some l'"
    and s': "es_swaps s' = Some (ss[i := w\<lparr>sw_status := STATUS_COMPLETED\<rparr>])" "es_next s' = es_next s"
      "cb_reent s' = Some False" "cb_ledger s' = l'"
    by auto
  have "STATUS_COMPLETED \<le> 3" by (simp add: swap_status_defs)
  note upd = book_inv_status [OF assms(3) a(1,2) s'(1-3) this]
  have w: "w = sw" using assms(3,4) a(1) upd by (auto simp: get_swap_nth)
  have okl: "ok l" by (rule sep41.transfer_ok [OF assms(1,2) l])
  have bal: "tk_balance T l' t a = tk_balance T (cb_ledger s) t a
      + (if t = sw_token_a sw \<and> a = sw_responder sw then sw_initiator_amount sw else 0)
      + (if t = sw_token_b sw \<and> a = sw_initiator sw then sw_responder_amount sw else 0)"
    if "a \<noteq> self h" for t a
    using that w sep41.transfer_balance [OF assms(1,2) l, of a] sep41.transfer_balance [OF assms(1) okl l', of a]
      sep41.transfer_other_token [OF assms(1,2) l, of t a]
      sep41.transfer_other_token [OF assms(1) okl l', of t a]
    by (cases "t = sw_token_a sw"; cases "t = sw_token_b sw") auto
  have n: "es_swaps s' = Some (ss[n := sw\<lparr>sw_status := STATUS_COMPLETED\<rparr>])" "n < length ss"
    using s'(1) upd w by simp_all
  with upd have g: "get_swap n s' = Inr (sw\<lparr>sw_status := STATUS_COMPLETED\<rparr>)" by (simp add: get_swap_nth)
  have f: "find_swap n 0 (ss[n := sw\<lparr>sw_status := STATUS_COMPLETED\<rparr>]) = Some (n, sw\<lparr>sw_status := STATUS_COMPLETED\<rparr>)"
    using upd n by (auto simp: find_swap_pos book_inv_def get_swaps_def)
  have "complete_swap T' h' n c' s' \<noteq> Inr x \<and> cancel_swap T' h' n c' s' \<noteq> Inr x" for T' h' c'
    using complete_swap_InrD [of T' h' n c' s' x] cancel_swap_InrD [of T' h' n c' s' x] n f
    by (auto simp: swap_status_defs)
  with a(3) w g bal s'(4) show ?thesis by auto
qed

text \<open>
  Cancelling a swap refunds exactly what was deposited, once. After a successful \<open>cancel_swap\<close> of
  a swap between two other accounts, the initiator has the initiator's leg back, the responder the
  responder's leg if the swap had been accepted and nothing otherwise, no other account's balance has
  changed besides the escrow's, and the swap can neither be completed nor cancelled again.
\<close>

theorem cancel_swap_refunds:
  assumes "sep41 T ok" "ok (cb_ledger s)" "book_inv s" "get_swap n s = Inr sw"
    and "cancel_swap T h n c s = Inr s'" "sw_initiator sw \<noteq> self h" "sw_responder sw \<noteq> self h"
  shows "(c = sw_initiator sw \<or> c = sw_responder sw) \<and> authorized h c
    \<and> get_swap n s' = Inr (sw\<lparr>sw_status := STATUS_CANCELLED\<rparr>)
    \<and> (\<forall>t a. a \<noteq> self h \<longrightarrow> tk_balance T (cb_ledger s') t a = tk_balance T (cb_ledger s) t a
         + (if t = sw_token_a sw \<and> a = sw_initiator sw then sw_initiator_amount sw else 0)
         + (if sw_status sw = STATUS_ACTIVE \<and> t = sw_token_b sw \<and> a = sw_responder sw
            then sw_responder_amount sw else 0))
    \<and> (\<forall>T' h' c'. complete_swap T' h' n c' s' \<noteq> Inr x \<and> cancel_swap T' h' n c' s' \<noteq> Inr x)"
proof -
  obtain ss i w l l' where a:
    "es_swaps s = Some ss" "find_swap n 0 ss = Some (i, w)" "c = sw_initiator w \<or> c = sw_responder w"
    and au: "authorized h c"
    and l: "tk_transfer T (cb_ledger s) (sw_token_a w) (self h) (sw_initiator w) (sw_initiator_amount w) = Some l"
    and l': "sw_status w = STATUS_ACTIVE \<longrightarrow>
      tk_transfer T l (sw_token_b w) (self h) (sw_responder w) (sw_responder_amount w) = Some l'"
      "sw_status w \<noteq> STATUS_ACTIVE \<longrightarrow> l' = l"
    and s': "es_swaps s' = Some (ss[i := w\<lparr>sw_status := STATUS_CANCELLED\<rparr>])" "es_next s' = es_next s"
      "cb_reent s' = Some False" "cb_ledger s' = l'"
    using cancel_swap_InrD [OF assms(5)] by blast
  have "STATUS_CANCELLED \<le> 3" by (simp add: swap_status_defs)
  note upd = book_inv_status [OF assms(3) a(1,2) s'(1-3) this]
  have w: "w = sw" using assms(3,4) a(1) upd by (auto simp: get_swap_nth)
  have okl: "ok l" by (rule sep41.transfer_ok [OF assms(1,2) l])
  have bal1: "tk_balance T l t a = tk_balance T (cb_ledger s) t a
      + (if t = sw_token_a sw \<and> a = sw_initiator sw then sw_initiator_amount sw else 0)"
    if "a \<noteq> self h" for t a
    using that w sep41.transfer_balance [OF assms(1,2) l, of a]
      sep41.transfer_other_token [OF assms(1,2) l, of t a] by (cases "t = sw_token_a sw") auto
  have bal2: "tk_balance T l' t a = tk_balance T l t a
      + (if sw_status sw = STATUS_ACTIVE \<and> t = sw_token_b sw \<and> a = sw_responder sw
         then sw_responder_amount sw else 0)" if na: "a \<noteq> self h" for t a
  proof (cases "sw_status sw = STATUS_ACTIVE")
    case True
    with l' w have "tk_transfer T l (sw_token_b sw) (self h) (sw_responder sw) (sw_responder_amount sw) = Some l'"
      by simp
    from sep41.transfer_balance [OF assms(1) okl this, of a]
      sep41.transfer_other_token [OF assms(1) okl this, of t a] na True
    show ?thesis by (cases "t = sw_token_b sw") auto
  next
    case False
    with l' w show ?thesis by simp
  qed
  have n: "es_swaps s' = Some (ss[n := sw\<lparr>sw_status := STATUS_CANCELLED\<rparr>])" "n < length ss"
    using s'(1) upd w by simp_all
  with upd have g: "get_swap n s' = Inr (sw\<lparr>sw_status := STATUS_CANCELLED\<rparr>)" by (simp add: get_swap_nth)
  have f: "find_swap n 0 (ss[n := sw\<lparr>sw_status := STATUS_CANCELLED\<rparr>]) = Some (n, sw\<lparr>sw_status := STATUS_CANCELLED\<rparr>)"
    using upd n by (auto simp: find_swap_pos book_inv_def get_swaps_def)
  have no: "complete_swap T' h' n c' s' \<noteq> Inr x \<and> cancel_swap T' h' n c' s' \<noteq> Inr x" for T' h' c'
    using complete_swap_InrD [of T' h' n c' s' x] cancel_swap_InrD [of T' h' n c' s' x] n f
    by (auto simp: swap_status_defs)
  show ?thesis using a(3) au w g no s'(4) by (simp add: bal1 bal2)
qed

text \<open>
  C32: the life cycle of a swap. In any run from an initialized escrow, a swap keeps its parties,
  tokens, amounts, locks and creation time for ever; its status only moves from pending to active or
  cancelled and from active to completed or cancelled, and a completed or cancelled swap never changes.
\<close>

theorem swap_life_cycle:
  assumes "sep41 T ok" "ok l" "escrow_init h0 a (escrow_empty l) = Inr s0"
    and "es_run sha T me s0 s" "es_run sha T me s s'" "get_swap n s = Inr sw"
  shows "\<exists>st. get_swap n s' = Inr (sw\<lparr>sw_status := st\<rparr>) \<and> swap_step\<^sup>*\<^sup>* (sw_status sw) st
    \<and> (sw_status sw \<in> {STATUS_COMPLETED, STATUS_CANCELLED} \<longrightarrow> get_swap n s' = Inr sw)"
proof -
  have s0: "s0 = (escrow_empty l)\<lparr>es_admin := Some a, es_next := Some 0, es_swaps := Some []\<rparr>"
    using assms(3) by (auto simp: escrow_init_def res_simps)
  have i0: "ok (cb_ledger s0)" "book_inv s0" "escrow_solvent T me s0"
    using assms(2) sep41.balance_range [OF assms(1,2)] unfolding s0
    by (simp_all add: escrow_empty_def book_inv_def escrow_solvent_def total_owed_def get_swaps_def ids_ok_def)
  have adm: "es_admin s \<noteq> None" "es_swaps s \<noteq> None"
    using es_run_keeps_init [OF assms(4)] by (simp_all add: s0)
  from sep41.es_run_inv [OF assms(1,4) i0] have i1: "ok (cb_ledger s)" "book_inv s" "escrow_solvent T me s"
    by simp_all
  from assms(6) i1(2) obtain ss where ss: "es_swaps s = Some ss" "n < length ss" "ss ! n = sw"
    by (auto simp: get_swap_nth)
  from es_run_swap [OF assms(5,1) i1 adm(1) ss(1,2)] obtain ss' st where st:
    "es_swaps s' = Some ss'" "n < length ss'" "ss' ! n = sw\<lparr>sw_status := st\<rparr>"
    "swap_step\<^sup>*\<^sup>* (sw_status sw) st" using ss(3) by blast
  from sep41.es_run_inv [OF assms(1,5) i1] have "book_inv s'" by simp
  with st have g: "get_swap n s' = Inr (sw\<lparr>sw_status := st\<rparr>)" by (simp add: get_swap_nth)
  moreover have "get_swap n s' = Inr sw" if "sw_status sw \<in> {STATUS_COMPLETED, STATUS_CANCELLED}"
  proof -
    from swap_steps_terminal [OF st(4)] that have "st = sw_status sw" by auto
    with g show ?thesis by simp
  qed
  ultimately show ?thesis using st(4) by blast
qed

text \<open>
  C33: a refund is available at any time, before and after the time lock of the swap. In any run from
  deployment, each party of a swap that is still pending or active can cancel it whenever the contract is
  not paused and the token contracts accept the refund transfers themselves: no other party and no missing
  balance can prevent it. The code does not look at the time lock here; the document that lists as an
  invariant that cancelling after it fails with \<open>TimeLockExpired\<close> does not describe it.
\<close>

theorem refund_available:
  assumes "sep41 T ok" "ok l0" "es_run sha T (self h) (escrow_empty l0) s" "get_swap n s = Inr sw"
    and "sw_status sw = STATUS_PENDING \<or> sw_status sw = STATUS_ACTIVE" "\<not> is_paused s"
    and "authorized h c" "c = sw_initiator sw \<or> c = sw_responder sw"
    and "tk_transfer T (cb_ledger s) (sw_token_a sw) (self h) (sw_initiator sw) (sw_initiator_amount sw) = Some l"
    and "sw_status sw = STATUS_ACTIVE \<Longrightarrow>
      tk_transfer T l (sw_token_b sw) (self h) (sw_responder sw) (sw_responder_amount sw) \<noteq> None"
  shows "\<exists>s'. cancel_swap T h n c s = Inr s'"
proof -
  have "book_inv (escrow_empty l0) \<and> escrow_solvent T (self h) (escrow_empty l0)"
    by (rule escrow_empty_inv) (use sep41.balance_range [OF assms(1,2)] in simp)
  with sep41.es_run_inv [OF assms(1,3)] assms(2) have inv: "ok (cb_ledger s)" "book_inv s"
    by (simp_all add: escrow_empty_def)
  with assms(4) obtain ss where ss: "es_swaps s = Some ss" "n < length ss" "ss ! n = sw"
    by (auto simp: get_swap_nth)
  with inv(2) have f: "find_swap n 0 ss = Some (n, sw)" and pos: "0 < sw_initiator_amount sw"
    "0 < sw_responder_amount sw" and g: "cb_reent s \<noteq> Some True"
    by (auto simp: book_inv_def get_swaps_def find_swap_pos swap_ok_def)
  have am: "sw_initiator_amount sw \<le> tk_balance T (cb_ledger s) (sw_token_a sw) (self h)"
    using sep41.transfer_amount [OF assms(1) inv(1) assms(9)] by simp
  from g have gn: "guard_new s = Inr (s\<lparr>cb_reent := Some True\<rparr>)" by (simp add: guard_new_Inr)
  show ?thesis
  proof (cases "sw_status sw = STATUS_ACTIVE")
    case False
    with assms(5) have "sw_status sw = STATUS_PENDING" by simp
    with assms(6-9) ss f pos am gn show ?thesis
      by (simp add: cancel_swap_def when_not_paused_def require_auth_def swap_status_defs Let_def
          safe_transfer_or_def safe_transfer_def)
  next
    case True
    with assms(10) obtain l' where l': "tk_transfer T l (sw_token_b sw) (self h) (sw_responder sw)
        (sw_responder_amount sw) = Some l'" by auto
    have "sw_responder_amount sw \<le> tk_balance T l (sw_token_b sw) (self h)"
      using sep41.transfer_amount [OF assms(1) sep41.transfer_ok [OF assms(1) inv(1) assms(9)] l'] by simp
    with True assms(6-9) ss f pos am gn l' show ?thesis
      by (simp add: cancel_swap_def when_not_paused_def require_auth_def swap_status_defs Let_def
          safe_transfer_or_def safe_transfer_def)
  qed
qed

text \<open>
  A swap is accepted only by revealing the secret in time. A successful \<open>accept_swap\<close> was authorized
  by the swap's responder, for a pending swap, with a preimage of its hash lock, strictly before its
  time lock, and it activates the swap and moves exactly the responder's leg into the escrow.
\<close>

theorem accept_requires_secret:
  assumes "sep41 T ok" "ok (cb_ledger s)" "book_inv s" "accept_swap sha T h n r secret s = Inr s'"
    and "r \<noteq> self h"
  shows "\<exists>sw. get_swap n s = Inr sw \<and> sw_status sw = STATUS_PENDING \<and> sha secret = sw_hash_lock sw
    \<and> now h < sw_time_lock sw \<and> r = sw_responder sw \<and> authorized h r \<and> \<not> is_paused s
    \<and> get_swap n s' = Inr (sw\<lparr>sw_status := STATUS_ACTIVE\<rparr>)
    \<and> tk_balance T (cb_ledger s') (sw_token_b sw) (self h)
        = tk_balance T (cb_ledger s) (sw_token_b sw) (self h) + sw_responder_amount sw"
proof -
  from accept_swap_InrD [OF assms(4)] obtain ss i sw l where a: "authorized h r" "\<not> is_paused s"
    "es_swaps s = Some ss" "find_swap n 0 ss = Some (i, sw)" "sw_status sw = STATUS_PENDING"
    "sw_responder sw = r" "sha secret = sw_hash_lock sw" "now h < sw_time_lock sw"
    and l: "tk_transfer T (cb_ledger s) (sw_token_b sw) r (self h) (sw_responder_amount sw) = Some l"
    and s': "es_swaps s' = Some (ss[i := sw\<lparr>sw_status := STATUS_ACTIVE\<rparr>])" "es_next s' = es_next s"
      "cb_reent s' = Some False" "cb_ledger s' = l"
    by auto
  have "STATUS_ACTIVE \<le> 3" by (simp add: swap_status_defs)
  note upd = book_inv_status [OF assms(3) a(3,4) s'(1-3) this]
  then have "get_swap n s = Inr sw" "get_swap n s' = Inr (sw\<lparr>sw_status := STATUS_ACTIVE\<rparr>)"
    using a(3) s'(1) assms(3) by (auto simp: get_swap_nth)
  with a s'(4) sep41.deposit_balance [OF assms(1,2) l] assms(5) show ?thesis by auto
qed

section \<open>The properties on concrete inputs\<close>

definition es_host :: "nat \<Rightarrow> host" where
  "es_host t = \<lparr>self = 100, now = t, seq = 1, authorized = (\<lambda>a. a \<noteq> 100)\<rparr>"

definition es_api :: "(addr \<Rightarrow> gov_token) token_api" where
  "es_api = gt_api \<lparr>self = 100, now = 50, seq = 1, authorized = (\<lambda>_. True)\<rparr>"

definition es_ledger :: "addr \<Rightarrow> gov_token" where
  "es_ledger = gov_ledger [(7, 40), (8, 50)]"

definition es_sha :: "bytes \<Rightarrow> bytes" where "es_sha b = b @ [1]"

definition es_swap :: "nat \<Rightarrow> swap_request" where
  "es_swap st = \<lparr>sw_id = 0, sw_initiator = 7, sw_responder = 8, sw_token_a = 200, sw_token_b = 201,
     sw_initiator_amount = 30, sw_responder_amount = 20, sw_hash_lock = [5, 1], sw_time_lock = 60,
     sw_status = st, sw_created_at = 50\<rparr>"

definition es_start :: "(addr \<Rightarrow> gov_token) escrow" where
  "es_start = (escrow_empty es_ledger)\<lparr>es_admin := Some 1, es_next := Some 0, es_swaps := Some []\<rparr>"

lemma es_api_sep41: "sep41 es_api gt_ok"
  unfolding es_api_def by (rule gov.sep41_axioms)

lemma es_ledger_ok: "gt_ok es_ledger"
  unfolding es_ledger_def by (rule gov_ledger_ok) (auto simp: i128_max_def)

lemma es_pay:
  "gt_ok l \<Longrightarrow> gov_open l \<Longrightarrow> 0 < x \<Longrightarrow> x \<le> tk_balance es_api l t a \<Longrightarrow>
     tk_balance es_api l t b + x \<le> i128_max \<Longrightarrow> b \<noteq> t \<Longrightarrow>
     \<exists>l'. tk_transfer es_api l t a b x = Some l' \<and> gt_ok l' \<and> gov_open l'"
  unfolding es_api_def by (rule gov_pay) simp_all

lemma es_ledger_balance [simp]:
  "tk_balance es_api es_ledger t a = (if a = 7 then 40 else if a = 8 then 50 else 0)"
  by (simp add: es_api_def gt_api_def es_ledger_def gov_ledger_def balance_def)

lemma es_start_init: "escrow_init (es_host 50) 1 (escrow_empty es_ledger) = Inr es_start"
  by (simp add: escrow_init_def es_host_def require_auth_def es_start_def escrow_empty_def)

lemma es_sample_pending:
  "\<exists>s. es_run es_sha es_api 100 es_start s \<and> es_swaps s = Some [es_swap STATUS_PENDING]
     \<and> cb_paused s = None \<and> cb_reent s = Some False \<and> gt_ok (cb_ledger s) \<and> gov_open (cb_ledger s)
     \<and> (\<forall>t a. tk_balance es_api (cb_ledger s) t a = tk_balance es_api es_ledger t a
          + (if t = 200 then (if a = 100 then 30 else if a = 7 then -30 else 0) else 0))"
proof -
  have op: "gov_open es_ledger" unfolding es_ledger_def by (rule gov_ledger_open)
  from es_pay [OF es_ledger_ok op, of 30 200 7 100] obtain l where
    l: "tk_transfer es_api es_ledger 200 7 100 30 = Some l" "gt_ok l" "gov_open l"
    by (auto simp: i128_max_def)
  have "\<exists>s. create_swap es_api (es_host 50) 7 8 200 201 30 20 [5, 1] 60 es_start = Inr (0, s)
    \<and> es_swaps s = Some [es_swap STATUS_PENDING] \<and> cb_paused s = None \<and> cb_reent s = Some False
    \<and> cb_ledger s = l"
    using l(1) by (simp add: create_swap_def es_start_def escrow_empty_def when_not_paused_def
        is_paused_def guard_new_def require_auth_def es_host_def u_checked_add_def
        safe_transfer_or_def safe_transfer_def Let_def es_swap_def guard_leave_def)
  then obtain s where s: "create_swap es_api (es_host 50) 7 8 200 201 30 20 [5, 1] 60 es_start = Inr (0, s)"
    "es_swaps s = Some [es_swap STATUS_PENDING]" "cb_paused s = None" "cb_reent s = Some False"
    "cb_ledger s = l" by blast
  have "es_run es_sha es_api 100 es_start s"
    by (rule es_call [OF es_refl, where op = "CreateSwap 7 8 200 201 30 20 [5, 1] 60" and h = "es_host 50"])
      (use s(1) in \<open>simp_all add: es_host_def\<close>)
  moreover have "tk_balance es_api l t a = tk_balance es_api es_ledger t a
      + (if t = 200 then (if a = 100 then 30 else if a = 7 then -30 else 0) else 0)" for t a
    using sep41.transfer_balance [OF es_api_sep41 es_ledger_ok l(1), of a]
      sep41.transfer_other_token [OF es_api_sep41 es_ledger_ok l(1), of t a] by auto
  ultimately show ?thesis using s l by auto
qed

lemma es_sample_active:
  "\<exists>s0 s. es_run es_sha es_api 100 es_start s0 \<and> accept_swap es_sha es_api (es_host 55) 0 8 [5] s0 = Inr s
     \<and> es_run es_sha es_api 100 es_start s \<and> es_swaps s = Some [es_swap STATUS_ACTIVE]
     \<and> cb_paused s = None \<and> cb_reent s = Some False \<and> gt_ok (cb_ledger s) \<and> gov_open (cb_ledger s)
     \<and> gt_ok (cb_ledger s0)
     \<and> (\<forall>t a. tk_balance es_api (cb_ledger s) t a = tk_balance es_api es_ledger t a
          + (if t = 200 then (if a = 100 then 30 else if a = 7 then -30 else 0) else 0)
          + (if t = 201 then (if a = 100 then 20 else if a = 8 then -20 else 0) else 0))"
proof -
  from es_sample_pending obtain s0 where s0: "es_run es_sha es_api 100 es_start s0"
    "es_swaps s0 = Some [es_swap STATUS_PENDING]" "cb_paused s0 = None" "cb_reent s0 = Some False"
    "gt_ok (cb_ledger s0)" "gov_open (cb_ledger s0)"
    and bal: "\<And>t a. tk_balance es_api (cb_ledger s0) t a = tk_balance es_api es_ledger t a
          + (if t = 200 then (if a = 100 then 30 else if a = 7 then -30 else 0) else 0)" by blast
  from es_pay [OF s0(5,6), of 20 201 8 100] obtain l where
    l: "tk_transfer es_api (cb_ledger s0) 201 8 100 20 = Some l" "gt_ok l" "gov_open l"
    by (auto simp: i128_max_def bal)
  have "\<exists>s. accept_swap es_sha es_api (es_host 55) 0 8 [5] s0 = Inr s
    \<and> es_swaps s = Some [es_swap STATUS_ACTIVE] \<and> cb_paused s = None \<and> cb_reent s = Some False
    \<and> cb_ledger s = l"
    using l(1) s0(2-4) bal by (simp add: accept_swap_def when_not_paused_def
        is_paused_def guard_new_def require_auth_def es_host_def es_sha_def
        safe_transfer_or_def safe_transfer_def Let_def es_swap_def guard_leave_def swap_status_defs)
  then obtain s where s: "accept_swap es_sha es_api (es_host 55) 0 8 [5] s0 = Inr s"
    "es_swaps s = Some [es_swap STATUS_ACTIVE]" "cb_paused s = None" "cb_reent s = Some False"
    "cb_ledger s = l" by blast
  have "es_run es_sha es_api 100 es_start s"
    by (rule es_call [OF s0(1), where op = "AcceptSwap 0 8 [5]" and h = "es_host 55"])
      (use s(1) in \<open>simp_all add: es_host_def\<close>)
  moreover have "tk_balance es_api l t a = tk_balance es_api (cb_ledger s0) t a
      + (if t = 201 then (if a = 100 then 20 else if a = 8 then -20 else 0) else 0)" for t a
    using sep41.transfer_balance [OF es_api_sep41 s0(5) l(1), of a]
      sep41.transfer_other_token [OF es_api_sep41 s0(5) l(1), of t a] by auto
  ultimately show ?thesis using s s0 l bal by auto
qed

lemma es_run_from_empty: "es_run es_sha es_api 100 (escrow_empty es_ledger) es_start"
  by (rule es_call [OF es_refl, where op = "EsInit 1" and h = "es_host 50"])
    (use es_start_init in \<open>simp_all add: es_host_def\<close>)

lemma es_run_trans: "es_run sha T me s1 s2 \<Longrightarrow> es_run sha T me s0 s1 \<Longrightarrow> es_run sha T me s0 s2"
proof (induction rule: es_run.induct)
  case (es_call s s1 h op s2)
  then show ?case using es_run.es_call [of sha T me s0 s1 h op s2] by blast
next
  case (es_env s s1 a t b x l)
  then show ?case using es_run.es_env [of sha T me s0 s1 a t b x l] by blast
qed

lemma es_sample_book: "es_run es_sha es_api 100 es_start s \<Longrightarrow> book_inv s"
proof -
  assume "es_run es_sha es_api 100 es_start s"
  from es_run_trans [OF this es_run_from_empty]
  have run: "es_run es_sha es_api 100 (escrow_empty es_ledger) s" .
  have "book_inv (escrow_empty es_ledger) \<and> escrow_solvent es_api 100 (escrow_empty es_ledger)"
    by (rule escrow_empty_inv) simp
  with sep41.es_run_inv [OF es_api_sep41 run] es_ledger_ok show ?thesis by (simp add: escrow_empty_def)
qed

lemma es_swap_simps [simp]:
  "sw_initiator (es_swap st) = 7" "sw_responder (es_swap st) = 8" "sw_token_a (es_swap st) = 200"
  "sw_token_b (es_swap st) = 201" "sw_initiator_amount (es_swap st) = 30"
  "sw_responder_amount (es_swap st) = 20" "sw_status (es_swap st) = st" "sw_id (es_swap st) = 0"
  "(es_swap st)\<lparr>sw_status := st'\<rparr> = es_swap st'"
  by (simp_all add: es_swap_def)

lemma es_sample_paid:
  assumes "gt_ok (cb_ledger s)" "gov_open (cb_ledger s)"
    and "\<And>t a. tk_balance es_api (cb_ledger s) t a = tk_balance es_api es_ledger t a
          + (if t = 200 then (if a = 100 then 30 else if a = 7 then -30 else 0) else 0)
          + (if t = 201 then (if a = 100 then 20 else if a = 8 then -20 else 0) else 0)"
    and ab: "a = 7 \<and> b = 8 \<or> a = 8 \<and> b = 7"
  shows "\<exists>l l'. tk_transfer es_api (cb_ledger s) 200 100 a 30 = Some l
    \<and> tk_transfer es_api l 201 100 b 20 = Some l' \<and> 20 \<le> tk_balance es_api l 201 100"
proof -
  have "tk_balance es_api (cb_ledger s) 200 100 = 30" "tk_balance es_api (cb_ledger s) 201 100 = 20"
    unfolding assms(3) by simp_all
  moreover have "tk_balance es_api (cb_ledger s) 200 a \<le> 100" "tk_balance es_api (cb_ledger s) 201 b \<le> 100"
    "a \<noteq> 200" "b \<noteq> 201" using ab unfolding assms(3) by auto
  ultimately have bal: "tk_balance es_api (cb_ledger s) 200 100 = 30"
    "tk_balance es_api (cb_ledger s) 201 100 = 20" "tk_balance es_api (cb_ledger s) 200 a \<le> 100"
    "tk_balance es_api (cb_ledger s) 201 b \<le> 100" "a \<noteq> 200" "b \<noteq> 201" by simp_all
  from es_pay [OF assms(1,2), of 30 200 100 a] bal obtain l where
    l: "tk_transfer es_api (cb_ledger s) 200 100 a 30 = Some l" "gt_ok l" "gov_open l"
    by (auto simp: i128_max_def)
  have b: "tk_balance es_api l 201 c = tk_balance es_api (cb_ledger s) 201 c" for c
    using sep41.transfer_other_token [OF es_api_sep41 assms(1) l(1), of 201 c] by simp
  from es_pay [OF l(2,3), of 20 201 100 b] bal obtain l' where
    "tk_transfer es_api l 201 100 b 20 = Some l'" by (auto simp: i128_max_def b)
  with l(1) bal b show ?thesis by auto
qed

theorem escrow_covers_open_swaps_witness:
  "\<exists>s. es_run es_sha es_api 100 (escrow_empty es_ledger) s
     \<and> (\<Sum>sw\<leftarrow>get_swaps s. owed 200 sw) = 30 \<and> 30 \<le> tk_balance es_api (cb_ledger s) 200 100"
proof -
  obtain s where s: "es_run es_sha es_api 100 es_start s" "es_swaps s = Some [es_swap STATUS_ACTIVE]"
    using es_sample_active by blast
  from es_run_trans [OF s(1) es_run_from_empty]
  have run: "es_run es_sha es_api 100 (escrow_empty es_ledger) s" .
  from escrow_covers_open_swaps [OF es_api_sep41 es_ledger_ok run, of 200] run s(2) show ?thesis
    by (auto simp: get_swaps_def owed_def swap_status_defs)
qed

theorem complete_swap_delivers_witness:
  "\<exists>s s'. complete_swap es_api (es_host 70) 0 7 s = Inr s'
     \<and> tk_balance es_api (cb_ledger s') 200 8 = tk_balance es_api (cb_ledger s) 200 8 + 30"
proof -
  obtain s where s: "es_run es_sha es_api 100 es_start s" "es_swaps s = Some [es_swap STATUS_ACTIVE]"
    "cb_paused s = None" "cb_reent s = Some False" "gt_ok (cb_ledger s)" "gov_open (cb_ledger s)"
    and bal: "\<And>t a. tk_balance es_api (cb_ledger s) t a = tk_balance es_api es_ledger t a
          + (if t = 200 then (if a = 100 then 30 else if a = 7 then -30 else 0) else 0)
          + (if t = 201 then (if a = 100 then 20 else if a = 8 then -20 else 0) else 0)"
    using es_sample_active by blast
  from es_sample_paid [OF s(5,6) bal, of 8 7] obtain l l' where
    l: "tk_transfer es_api (cb_ledger s) 200 100 8 30 = Some l"
    "tk_transfer es_api l 201 100 7 20 = Some l'" "20 \<le> tk_balance es_api l 201 100" by auto
  have "\<exists>s'. complete_swap es_api (es_host 70) 0 7 s = Inr s'"
    using s(2-4) bal l by (simp add: complete_swap_def when_not_paused_def is_paused_def guard_new_def
        require_auth_def es_host_def safe_transfer_or_def safe_transfer_def Let_def swap_status_defs)
  then obtain s' where c: "complete_swap es_api (es_host 70) 0 7 s = Inr s'" by blast
  have g: "get_swap 0 s = Inr (es_swap STATUS_ACTIVE)" using s(2) by (simp add: get_swap_def)
  from complete_swap_delivers [OF es_api_sep41 s(5) es_sample_book [OF s(1)] g c, of s']
  have "tk_balance es_api (cb_ledger s') 200 8 = tk_balance es_api (cb_ledger s) 200 8 + 30"
    by (simp add: es_host_def cong: if_cong)
  with c show ?thesis by blast
qed

theorem cancel_swap_refunds_witness:
  "\<exists>s s'. cancel_swap es_api (es_host 70) 0 8 s = Inr s'
     \<and> tk_balance es_api (cb_ledger s') 200 7 = tk_balance es_api (cb_ledger s) 200 7 + 30
     \<and> tk_balance es_api (cb_ledger s') 201 8 = tk_balance es_api (cb_ledger s) 201 8 + 20"
proof -
  obtain s where s: "es_run es_sha es_api 100 es_start s" "es_swaps s = Some [es_swap STATUS_ACTIVE]"
    "cb_paused s = None" "cb_reent s = Some False" "gt_ok (cb_ledger s)" "gov_open (cb_ledger s)"
    and bal: "\<And>t a. tk_balance es_api (cb_ledger s) t a = tk_balance es_api es_ledger t a
          + (if t = 200 then (if a = 100 then 30 else if a = 7 then -30 else 0) else 0)
          + (if t = 201 then (if a = 100 then 20 else if a = 8 then -20 else 0) else 0)"
    using es_sample_active by blast
  from es_sample_paid [OF s(5,6) bal, of 7 8] obtain l l' where
    l: "tk_transfer es_api (cb_ledger s) 200 100 7 30 = Some l"
    "tk_transfer es_api l 201 100 8 20 = Some l'" "20 \<le> tk_balance es_api l 201 100" by auto
  have "\<exists>s'. cancel_swap es_api (es_host 70) 0 8 s = Inr s'"
    using s(2-4) bal l by (simp add: cancel_swap_def when_not_paused_def is_paused_def guard_new_def
        require_auth_def es_host_def safe_transfer_or_def safe_transfer_def Let_def swap_status_defs)
  then obtain s' where c: "cancel_swap es_api (es_host 70) 0 8 s = Inr s'" by blast
  have g: "get_swap 0 s = Inr (es_swap STATUS_ACTIVE)" using s(2) by (simp add: get_swap_def)
  from cancel_swap_refunds [OF es_api_sep41 s(5) es_sample_book [OF s(1)] g c, of s']
  have "tk_balance es_api (cb_ledger s') 200 7 = tk_balance es_api (cb_ledger s) 200 7 + 30"
    "tk_balance es_api (cb_ledger s') 201 8 = tk_balance es_api (cb_ledger s) 201 8 + 20"
    by (simp_all add: es_host_def cong: if_cong)
  with c show ?thesis by blast
qed

theorem swap_life_cycle_witness:
  "\<exists>(s :: (addr \<Rightarrow> gov_token) escrow) (s' :: (addr \<Rightarrow> gov_token) escrow) st.
     get_swap 0 s = Inr (es_swap STATUS_PENDING) \<and> get_swap 0 s' = Inr (es_swap st)
     \<and> swap_step\<^sup>*\<^sup>* STATUS_PENDING st"
proof -
  obtain s where s: "es_run es_sha es_api 100 es_start s" "es_swaps s = Some [es_swap STATUS_PENDING]"
    using es_sample_pending by blast
  have g: "get_swap 0 s = Inr (es_swap STATUS_PENDING)" using s(2) by (simp add: get_swap_def)
  from swap_life_cycle [OF es_api_sep41 es_ledger_ok es_start_init s(1) es_refl g] g show ?thesis by auto
qed

theorem refund_available_witness:
  "\<exists>s s'. get_swap 0 s = Inr (es_swap STATUS_ACTIVE) \<and> cancel_swap es_api (es_host 99) 0 7 s = Inr s'"
proof -
  obtain s where s: "es_run es_sha es_api 100 es_start s" "es_swaps s = Some [es_swap STATUS_ACTIVE]"
    "cb_paused s = None" "cb_reent s = Some False" "gt_ok (cb_ledger s)" "gov_open (cb_ledger s)"
    and bal: "\<And>t a. tk_balance es_api (cb_ledger s) t a = tk_balance es_api es_ledger t a
          + (if t = 200 then (if a = 100 then 30 else if a = 7 then -30 else 0) else 0)
          + (if t = 201 then (if a = 100 then 20 else if a = 8 then -20 else 0) else 0)"
    using es_sample_active by blast
  from es_sample_paid [OF s(5,6) bal, of 7 8] obtain l l' where
    l: "tk_transfer es_api (cb_ledger s) 200 100 7 30 = Some l"
    "tk_transfer es_api l 201 100 8 20 = Some l'" by auto
  from es_run_trans [OF s(1) es_run_from_empty]
  have run: "es_run es_sha es_api (self (es_host 99)) (escrow_empty es_ledger) s" by (simp add: es_host_def)
  have g: "get_swap 0 s = Inr (es_swap STATUS_ACTIVE)" using s(2) by (simp add: get_swap_def)
  have "\<exists>s'. cancel_swap es_api (es_host 99) 0 7 s = Inr s'"
    by (rule refund_available [OF es_api_sep41 es_ledger_ok run g, where l = l])
      (use s(3) l in \<open>simp_all add: is_paused_def es_host_def\<close>)
  with g show ?thesis by blast
qed

theorem accept_requires_secret_witness:
  "\<exists>s s'. accept_swap es_sha es_api (es_host 55) 0 8 [5] s = Inr s'
     \<and> get_swap 0 s = Inr (es_swap STATUS_PENDING) \<and> get_swap 0 s' = Inr (es_swap STATUS_ACTIVE)"
proof -
  obtain s s' where s: "es_run es_sha es_api 100 es_start s"
    "accept_swap es_sha es_api (es_host 55) 0 8 [5] s = Inr s'"
    "es_swaps s' = Some [es_swap STATUS_ACTIVE]" "gt_ok (cb_ledger s)"
    using es_sample_active by blast
  from accept_requires_secret [OF es_api_sep41 s(4) es_sample_book [OF s(1)] s(2)] obtain sw where
    sw: "get_swap 0 s = Inr sw" "sw_status sw = STATUS_PENDING"
    "get_swap 0 s' = Inr (sw\<lparr>sw_status := STATUS_ACTIVE\<rparr>)" by (auto simp: es_host_def)
  have "get_swap 0 s' = Inr (es_swap STATUS_ACTIVE)" using s(3) by (simp add: get_swap_def)
  with sw have "sw\<lparr>sw_status := STATUS_ACTIVE\<rparr> = es_swap STATUS_ACTIVE" by simp
  then have "(sw\<lparr>sw_status := STATUS_ACTIVE\<rparr>)\<lparr>sw_status := STATUS_PENDING\<rparr> = es_swap STATUS_PENDING" by simp
  moreover have "(sw\<lparr>sw_status := STATUS_ACTIVE\<rparr>)\<lparr>sw_status := STATUS_PENDING\<rparr> = sw" using sw(2) by simp
  ultimately have "sw = es_swap STATUS_PENDING" by simp
  with s(2) sw show ?thesis by auto
qed

end
