(* ===== verification/Governance.thy ===== *)
theory Governance
  imports Common_Lib Staking
begin

text \<open>
  Governance (\<open>packages/governance\<close>): proposals with a deposit, a voting period, a quorum and a pass
  threshold; votes weighted by the staking contract (one vote per address without one), delegation,
  a timelock before execution, expiry, and configuration changes behind a fixed 48-hour delay.
  \<open>'w\<close> is the state of all other contracts: \<open>ge_power\<close> is the call \<open>get_voting_power\<close> on the
  staking contract at an address, \<open>ge_invoke\<close> the call a proposal carries. Both are parameters, since
  the admin and the proposers choose the contracts; \<open>None\<close> is a trap. The Soroban host does not let a
  contract be re-entered, so these calls do not change the state of governance itself.
\<close>

section \<open>State\<close>

datatype proposal_status = Draft | Active | Succeeded | Queued | Executed | Defeated | Cancelled | Expired

datatype vote_type = For | Against | Abstain

record proposal_action =
  pa_target :: addr
  pa_method :: string
  pa_args :: "val list"

record proposal =
  pr_id :: nat
  pr_proposer :: addr
  pr_deposit :: int
  pr_action :: proposal_action
  pr_description :: bytes
  pr_status :: proposal_status
  pr_created_at :: nat
  pr_voting_ends_at :: nat
  pr_timelock_ends_at :: nat
  pr_votes_for :: int
  pr_votes_against :: int
  pr_votes_abstain :: int

record metadata_entry =
  pm_id :: nat
  pm_proposer :: addr
  pm_description :: bytes
  pm_status :: proposal_status
  pm_created_at :: nat
  pm_voting_ends_at :: nat
  pm_timelock_ends_at :: nat
  pm_votes_for :: int
  pm_votes_against :: int
  pm_votes_abstain :: int

record vote_record =
  vr_voter :: addr
  vr_vote :: vote_type
  vr_power :: int
  vr_timestamp :: nat

record governance_config =
  gc_proposal_deposit :: int
  gc_voting_period_seconds :: nat
  gc_timelock_seconds :: nat
  gc_quorum_votes :: nat
  gc_pass_threshold_bps :: nat
  gc_min_proposal_deposit :: int

record pending_config_update =
  pc_new_config :: governance_config
  pc_queued_at :: nat
  pc_executable_at :: nat

datatype governance_error =
    NotInitialized | AlreadyInitialized | Unauthorized | ContractPaused | InvalidConfig
  | InsufficientDeposit | ProposalNotFound | VotingNotActive | VotingEnded | AlreadyVoted
  | TimelockNotElapsed | ProposalNotSucceeded | QuorumNotMet | ProposalNotDraftOrActive | NotProposer
  | VotingAlreadyStarted | ConfigUpdateAlreadyQueued | NoPendingConfigUpdate | CircularDelegation
  | ProposalNotExpired

record 'w governance = contract_base +
  gv_world :: 'w
  gv_admin :: "addr option"
  gv_config :: "governance_config option"
  gv_count :: "nat option"
  gv_proposals :: "nat \<rightharpoonup> proposal"
  gv_votes :: "nat \<times> addr \<rightharpoonup> vote_record"
  gv_deposits :: "nat \<rightharpoonup> int"
  gv_pending :: "pending_config_update option"
  gv_by_status :: "proposal_status \<rightharpoonup> nat list"
  gv_staking :: "addr option"
  gv_delegation :: "addr \<rightharpoonup> addr"
  gv_delegators :: "addr \<rightharpoonup> addr list"

record 'w gov_env =
  ge_power :: "'w \<Rightarrow> addr \<Rightarrow> addr \<Rightarrow> (int \<times> 'w) option"
  ge_invoke :: "'w \<Rightarrow> addr \<Rightarrow> string \<Rightarrow> val list \<Rightarrow> 'w option"

definition governance_empty :: "'w \<Rightarrow> 'w governance" where
  "governance_empty w = \<lparr>cb_paused = None, cb_reent = None, cb_events = [], gv_world = w,
     gv_admin = None, gv_config = None, gv_count = None, gv_proposals = Map.empty,
     gv_votes = Map.empty, gv_deposits = Map.empty, gv_pending = None, gv_by_status = Map.empty,
     gv_staking = None, gv_delegation = Map.empty, gv_delegators = Map.empty\<rparr>"

definition BPS_DENOM :: int where "BPS_DENOM = 10000"

definition CONFIG_TIMELOCK_SECONDS :: nat where "CONFIG_TIMELOCK_SECONDS = 172800"

definition PROPOSAL_EXECUTION_WINDOW :: nat where "PROPOSAL_EXECUTION_WINDOW = 604800"

section \<open>Initialization and the status index\<close>

definition validate_config :: "governance_config \<Rightarrow> (governance_error, unit) res" where
  "validate_config config =
     (if gc_min_proposal_deposit config < 0 \<or> gc_proposal_deposit config < gc_min_proposal_deposit config
      then Inl (Err InvalidConfig)
      else if gc_pass_threshold_bps config = 0 \<or> gc_pass_threshold_bps config > wrap_u 32 BPS_DENOM
      then Inl (Err InvalidConfig)
      else Inr ())"

definition add_proposal_to_status_index :: "proposal_status \<Rightarrow> nat \<Rightarrow> 'w governance \<Rightarrow> 'w governance" where
  "add_proposal_to_status_index status proposal_id s =
     s\<lparr>gv_by_status := (gv_by_status s)(status \<mapsto> unwrap_or (gv_by_status s status) [] @ [proposal_id])\<rparr>"

definition remove_proposal_from_status_index :: "proposal_status \<Rightarrow> nat \<Rightarrow> 'w governance \<Rightarrow> 'w governance" where
  "remove_proposal_from_status_index status proposal_id s =
     s\<lparr>gv_by_status := (gv_by_status s)
         (status \<mapsto> vec_without proposal_id (unwrap_or (gv_by_status s status) []))\<rparr>"

definition governance_init ::
    "host \<Rightarrow> addr \<Rightarrow> governance_config \<Rightarrow> 'w governance \<Rightarrow> (governance_error, 'w governance) res" where
  "governance_init h admin config s =
     bind_res (require_auth h admin) (\<lambda>_.
     if gv_admin s \<noteq> None then Inl (Err AlreadyInitialized) else
     bind_res (validate_config config) (\<lambda>_.
     Inr (s\<lparr>gv_admin := Some admin, gv_config := Some config, gv_count := Some 0\<rparr>)))"

section \<open>Proposals\<close>

definition create_proposal ::
    "host \<Rightarrow> addr \<Rightarrow> int \<Rightarrow> proposal_action \<Rightarrow> bytes \<Rightarrow> 'w governance
      \<Rightarrow> (governance_error, nat \<times> 'w governance) res" where
  "create_proposal h proposer deposit_amount action description s =
     bind_res (not_paused_or ContractPaused s) (\<lambda>_.
     bind_res (require_auth h proposer) (\<lambda>_.
     bind_res (ok_or (gv_config s) NotInitialized) (\<lambda>config.
     if deposit_amount < gc_min_proposal_deposit config \<or> deposit_amount \<le> 0
     then Inl (Err InsufficientDeposit) else
     let pid = unwrap_or (gv_count s) 0 in
     bind_res (ok_or (u_checked_add 64 (now h) (gc_voting_period_seconds config)) InvalidConfig)
       (\<lambda>voting_ends_at.
     let proposal = \<lparr>pr_id = pid, pr_proposer = proposer, pr_deposit = deposit_amount,
           pr_action = action, pr_description = description, pr_status = Active,
           pr_created_at = now h, pr_voting_ends_at = voting_ends_at, pr_timelock_ends_at = 0,
           pr_votes_for = 0, pr_votes_against = 0, pr_votes_abstain = 0\<rparr>;
         s = s\<lparr>gv_proposals := (gv_proposals s)(pid \<mapsto> proposal)\<rparr>;
         s = s\<lparr>gv_deposits := (gv_deposits s)(pid \<mapsto> deposit_amount)\<rparr> in
     bind_res (ok_or (u_checked_add 64 pid 1) InvalidConfig) (\<lambda>next_id.
     let s = s\<lparr>gv_count := Some next_id\<rparr>;
         s = add_proposal_to_status_index Active pid s in
     Inr (pid, publish (Event ''proposal'' [NatV pid, AddrV proposer]
       [IntV deposit_amount, NatV voting_ends_at]) s))))))"

definition get_vote_power ::
    "'w gov_env \<Rightarrow> addr \<Rightarrow> 'w governance \<Rightarrow> (governance_error, int \<times> 'w governance) res" where
  "get_vote_power W voter s =
     (case gv_staking s of
        Some staking_addr \<Rightarrow>
          bind_res (or_trap (ge_power W (gv_world s) staking_addr voter)) (\<lambda>(p, w).
          Inr (p, s\<lparr>gv_world := w\<rparr>))
      | None \<Rightarrow> Inr (1, s))"

definition vote_val :: "vote_type \<Rightarrow> val" where
  "vote_val v = SymV (case v of For \<Rightarrow> ''For'' | Against \<Rightarrow> ''Against'' | Abstain \<Rightarrow> ''Abstain'')"

text \<open>Stores one vote record and publishes its event.\<close>

definition record_vote ::
    "host \<Rightarrow> nat \<Rightarrow> vote_type \<Rightarrow> addr \<Rightarrow> int \<Rightarrow> 'w governance \<Rightarrow> 'w governance" where
  "record_vote h proposal_id vote voter p s =
     publish (Event ''vote'' [NatV proposal_id, AddrV voter] [vote_val vote, IntV p])
       (s\<lparr>gv_votes := (gv_votes s)((proposal_id, voter) \<mapsto>
          \<lparr>vr_voter = voter, vr_vote = vote, vr_power = p, vr_timestamp = now h\<rparr>)\<rparr>)"

text \<open>The loop over the voter's delegators: each that has not voted votes with its own power.\<close>

fun delegators_loop ::
    "'w gov_env \<Rightarrow> host \<Rightarrow> nat \<Rightarrow> vote_type \<Rightarrow> addr list \<Rightarrow> int \<Rightarrow> 'w governance
      \<Rightarrow> (governance_error, int \<times> 'w governance) res" where
  "delegators_loop W h proposal_id vote [] total_vote_power s = Inr (total_vote_power, s)"
| "delegators_loop W h proposal_id vote (d # ds) total_vote_power s =
     (if gv_votes s (proposal_id, d) \<noteq> None
      then delegators_loop W h proposal_id vote ds total_vote_power s
      else
        bind_res (get_vote_power W d s) (\<lambda>(dp, s).
        bind_res (map_err (\<lambda>_. InvalidConfig) (safe_add total_vote_power dp)) (\<lambda>total_vote_power.
        delegators_loop W h proposal_id vote ds total_vote_power (record_vote h proposal_id vote d dp s))))"

definition cast_vote ::
    "'w gov_env \<Rightarrow> host \<Rightarrow> addr \<Rightarrow> nat \<Rightarrow> vote_type \<Rightarrow> 'w governance
      \<Rightarrow> (governance_error, 'w governance) res" where
  "cast_vote W h voter proposal_id vote s =
     bind_res (not_paused_or ContractPaused s) (\<lambda>_.
     bind_res (require_auth h voter) (\<lambda>_.
     bind_res (ok_or (gv_proposals s proposal_id) ProposalNotFound) (\<lambda>proposal.
     if pr_status proposal \<noteq> Active then Inl (Err VotingNotActive) else
     if now h > pr_voting_ends_at proposal then Inl (Err VotingEnded) else
     if gv_votes s (proposal_id, voter) \<noteq> None then Inl (Err AlreadyVoted) else
     if gv_delegation s voter \<noteq> None then Inl (Err Unauthorized) else
     bind_res (get_vote_power W voter s) (\<lambda>(p, s).
     bind_res (map_err (\<lambda>_. InvalidConfig) (safe_add 0 p)) (\<lambda>total_vote_power.
     let s = record_vote h proposal_id vote voter p s;
         delegators = unwrap_or (gv_delegators s voter) [] in
     bind_res (delegators_loop W h proposal_id vote delegators total_vote_power s)
       (\<lambda>(total_vote_power, s).
     bind_res
       (case vote of
          For \<Rightarrow> bind_res (map_err (\<lambda>_. InvalidConfig) (safe_add (pr_votes_for proposal) total_vote_power))
            (\<lambda>v. Inr (proposal\<lparr>pr_votes_for := v\<rparr>))
        | Against \<Rightarrow> bind_res (map_err (\<lambda>_. InvalidConfig) (safe_add (pr_votes_against proposal) total_vote_power))
            (\<lambda>v. Inr (proposal\<lparr>pr_votes_against := v\<rparr>))
        | Abstain \<Rightarrow> bind_res (map_err (\<lambda>_. InvalidConfig) (safe_add (pr_votes_abstain proposal) total_vote_power))
            (\<lambda>v. Inr (proposal\<lparr>pr_votes_abstain := v\<rparr>))) (\<lambda>proposal.
     Inr (s\<lparr>gv_proposals := (gv_proposals s)(proposal_id \<mapsto> proposal)\<rparr>))))))))"

section \<open>Delegation\<close>

definition add_delegator :: "addr \<Rightarrow> addr \<Rightarrow> 'w governance \<Rightarrow> 'w governance" where
  "add_delegator delegatee delegator s =
     s\<lparr>gv_delegators := (gv_delegators s)
         (delegatee \<mapsto> unwrap_or (gv_delegators s delegatee) [] @ [delegator])\<rparr>"

definition remove_delegator :: "addr \<Rightarrow> addr \<Rightarrow> 'w governance \<Rightarrow> 'w governance" where
  "remove_delegator delegatee delegator s =
     s\<lparr>gv_delegators := (gv_delegators s)
         (delegatee \<mapsto> vec_without delegator (unwrap_or (gv_delegators s delegatee) []))\<rparr>"

definition delegate :: "host \<Rightarrow> addr \<Rightarrow> addr \<Rightarrow> 'w governance \<Rightarrow> (governance_error, 'w governance) res" where
  "delegate h delegator delegatee s =
     bind_res (not_paused_or ContractPaused s) (\<lambda>_.
     bind_res (require_auth h delegator) (\<lambda>_.
     if delegator = delegatee then Inl (Err CircularDelegation) else
     if gv_delegation s delegatee \<noteq> None then Inl (Err CircularDelegation) else
     if length (unwrap_or (gv_delegators s delegator) []) > 0 then Inl (Err CircularDelegation) else
     let s = (case gv_delegation s delegator of
           Some old_delegatee \<Rightarrow> remove_delegator old_delegatee delegator s | None \<Rightarrow> s);
         s = s\<lparr>gv_delegation := (gv_delegation s)(delegator \<mapsto> delegatee)\<rparr>;
         s = add_delegator delegatee delegator s in
     Inr (publish (Event ''delegate'' [AddrV delegator, AddrV delegatee] []) s)))"

definition revoke_delegation :: "host \<Rightarrow> addr \<Rightarrow> 'w governance \<Rightarrow> (governance_error, 'w governance) res" where
  "revoke_delegation h delegator s =
     bind_res (not_paused_or ContractPaused s) (\<lambda>_.
     bind_res (require_auth h delegator) (\<lambda>_.
     case gv_delegation s delegator of
       Some old_delegatee \<Rightarrow>
         let s = remove_delegator old_delegatee delegator s;
             s = s\<lparr>gv_delegation := (gv_delegation s)(delegator := None)\<rparr> in
         Inr (publish (Event ''revoke'' [AddrV delegator] []) s)
     | None \<Rightarrow> Inr s))"

section \<open>Finalization, execution, cancellation, expiry\<close>

definition status_val :: "proposal_status \<Rightarrow> val" where
  "status_val st = SymV (case st of Draft \<Rightarrow> ''Draft'' | Active \<Rightarrow> ''Active'' | Succeeded \<Rightarrow> ''Succeeded''
     | Queued \<Rightarrow> ''Queued'' | Executed \<Rightarrow> ''Executed'' | Defeated \<Rightarrow> ''Defeated''
     | Cancelled \<Rightarrow> ''Cancelled'' | Expired \<Rightarrow> ''Expired'')"

definition proposal_passes :: "proposal \<Rightarrow> governance_config \<Rightarrow> (governance_error, bool) res" where
  "proposal_passes proposal config =
     bind_res (map_err (\<lambda>_. InvalidConfig) (safe_add (pr_votes_for proposal) (pr_votes_against proposal)))
       (\<lambda>directional_votes.
     bind_res (map_err (\<lambda>_. InvalidConfig) (safe_add directional_votes (pr_votes_abstain proposal)))
       (\<lambda>total_participation.
     if total_participation < int (gc_quorum_votes config) \<or> directional_votes \<le> 0 then Inr False else
     bind_res (map_err (\<lambda>_. InvalidConfig) (safe_mul (pr_votes_for proposal) BPS_DENOM)) (\<lambda>votes_for_scaled.
     bind_res (map_err (\<lambda>_. InvalidConfig) (safe_div votes_for_scaled directional_votes)) (\<lambda>support_bps.
     Inr (support_bps \<ge> int (gc_pass_threshold_bps config))))))"

definition finalize_proposal :: "host \<Rightarrow> nat \<Rightarrow> 'w governance \<Rightarrow> (governance_error, 'w governance) res" where
  "finalize_proposal h proposal_id s =
     bind_res (not_paused_or ContractPaused s) (\<lambda>_.
     bind_res (ok_or (gv_config s) NotInitialized) (\<lambda>config.
     bind_res (ok_or (gv_proposals s proposal_id) ProposalNotFound) (\<lambda>proposal.
     if pr_status proposal \<noteq> Active then Inl (Err VotingNotActive) else
     if now h \<le> pr_voting_ends_at proposal then Inl (Err VotingNotActive) else
     bind_res (proposal_passes proposal config) (\<lambda>passed.
     let s = remove_proposal_from_status_index Active proposal_id s;
         deposit = unwrap_or (gv_deposits s proposal_id) (pr_deposit proposal);
         s = s\<lparr>gv_deposits := (gv_deposits s)(proposal_id := None)\<rparr> in
     bind_res
       (if passed then
          bind_res (ok_or (u_checked_add 64 (now h) (gc_timelock_seconds config)) InvalidConfig)
            (\<lambda>timelock_ends_at.
          let s = add_proposal_to_status_index Queued proposal_id s;
              s = publish (Event ''status'' [NatV proposal_id] [status_val Queued]) s;
              s = publish (Event ''deposit_refund'' [NatV proposal_id, AddrV (pr_proposer proposal)] [IntV deposit]) s
          in Inr (proposal\<lparr>pr_timelock_ends_at := timelock_ends_at, pr_status := Queued\<rparr>, s))
        else
          let s = add_proposal_to_status_index Defeated proposal_id s;
              s = publish (Event ''status'' [NatV proposal_id] [status_val Defeated]) s;
              s = publish (Event ''deposit_forfeit'' [NatV proposal_id, AddrV (pr_proposer proposal)] [IntV deposit]) s
          in Inr (proposal\<lparr>pr_status := Defeated\<rparr>, s)) (\<lambda>(proposal, s).
     Inr (s\<lparr>gv_proposals := (gv_proposals s)(proposal_id \<mapsto> proposal)\<rparr>))))))"

definition execute_proposal ::
    "'w gov_env \<Rightarrow> host \<Rightarrow> nat \<Rightarrow> 'w governance \<Rightarrow> (governance_error, 'w governance) res" where
  "execute_proposal W h proposal_id s =
     bind_res (not_paused_or ContractPaused s) (\<lambda>_.
     bind_res (ok_or (gv_proposals s proposal_id) ProposalNotFound) (\<lambda>proposal.
     if pr_status proposal \<noteq> Queued then Inl (Err ProposalNotSucceeded) else
     if now h < pr_timelock_ends_at proposal then Inl (Err TimelockNotElapsed) else
     let action = pr_action proposal in
     bind_res (or_trap (ge_invoke W (gv_world s) (pa_target action) (pa_method action) (pa_args action))) (\<lambda>w.
     let s = s\<lparr>gv_world := w\<rparr>;
         proposal = proposal\<lparr>pr_status := Executed\<rparr>;
         s = remove_proposal_from_status_index Queued proposal_id s;
         s = add_proposal_to_status_index Executed proposal_id s;
         s = s\<lparr>gv_proposals := (gv_proposals s)(proposal_id \<mapsto> proposal)\<rparr> in
     Inr (publish (Event ''executed'' [NatV proposal_id, AddrV (self h)] []) s))))"

definition cancel_proposal :: "host \<Rightarrow> addr \<Rightarrow> nat \<Rightarrow> 'w governance \<Rightarrow> (governance_error, 'w governance) res" where
  "cancel_proposal h caller proposal_id s =
     bind_res (not_paused_or ContractPaused s) (\<lambda>_.
     bind_res (require_auth h caller) (\<lambda>_.
     bind_res (ok_or (gv_proposals s proposal_id) ProposalNotFound) (\<lambda>proposal.
     if pr_proposer proposal \<noteq> caller then Inl (Err NotProposer) else
     if pr_status proposal \<noteq> Active then Inl (Err ProposalNotDraftOrActive) else
     if wrap_i128 (wrap_i128 (pr_votes_for proposal + pr_votes_against proposal) + pr_votes_abstain proposal) > 0
     then Inl (Err VotingAlreadyStarted) else
     let proposal = proposal\<lparr>pr_status := Cancelled\<rparr>;
         s = remove_proposal_from_status_index Active proposal_id s;
         s = add_proposal_to_status_index Cancelled proposal_id s;
         s = s\<lparr>gv_proposals := (gv_proposals s)(proposal_id \<mapsto> proposal)\<rparr>;
         deposit = unwrap_or (gv_deposits s proposal_id) (pr_deposit proposal);
         s = s\<lparr>gv_deposits := (gv_deposits s)(proposal_id := None)\<rparr>;
         s = publish (Event ''cancelled'' [NatV proposal_id, AddrV caller] []) s in
     Inr (publish (Event ''deposit_refund'' [NatV proposal_id, AddrV caller] [IntV deposit]) s))))"

definition expire_proposal :: "host \<Rightarrow> nat \<Rightarrow> 'w governance \<Rightarrow> (governance_error, 'w governance) res" where
  "expire_proposal h proposal_id s =
     bind_res (not_paused_or ContractPaused s) (\<lambda>_.
     bind_res (ok_or (gv_proposals s proposal_id) ProposalNotFound) (\<lambda>proposal.
     bind_res
       (case pr_status proposal of
          Active \<Rightarrow>
            bind_res (ok_or (u_checked_add 64 (pr_voting_ends_at proposal) PROPOSAL_EXECUTION_WINDOW) InvalidConfig)
              (\<lambda>deadline. Inr (now h > deadline))
        | Queued \<Rightarrow>
            bind_res (ok_or (u_checked_add 64 (pr_timelock_ends_at proposal) PROPOSAL_EXECUTION_WINDOW) InvalidConfig)
              (\<lambda>deadline. Inr (now h > deadline))
        | _ \<Rightarrow> Inr False) (\<lambda>is_expired.
     if \<not> is_expired then Inl (Err ProposalNotExpired) else
     let old_status = pr_status proposal;
         proposal = proposal\<lparr>pr_status := Expired\<rparr>;
         s = remove_proposal_from_status_index old_status proposal_id s;
         s = add_proposal_to_status_index Expired proposal_id s;
         s = s\<lparr>gv_proposals := (gv_proposals s)(proposal_id \<mapsto> proposal)\<rparr>;
         deposit_amount = pr_deposit proposal;
         s = s\<lparr>gv_deposits := (gv_deposits s)(proposal_id := None)\<rparr>;
         s = publish (Event ''expired'' [NatV proposal_id, AddrV (pr_proposer proposal)] [IntV deposit_amount]) s in
     Inr (publish (Event ''status'' [NatV proposal_id] [status_val Expired]) s))))"

section \<open>Configuration\<close>

definition governance_check_admin :: "addr \<Rightarrow> 'w governance \<Rightarrow> (governance_error, unit) res" where
  "governance_check_admin admin s =
     bind_res (ok_or (gv_admin s) NotInitialized) (\<lambda>stored.
     if admin \<noteq> stored then Inl (Err Unauthorized) else Inr ())"

definition queue_config_update ::
    "host \<Rightarrow> addr \<Rightarrow> governance_config \<Rightarrow> 'w governance \<Rightarrow> (governance_error, 'w governance) res" where
  "queue_config_update h admin new_config s =
     bind_res (not_paused_or ContractPaused s) (\<lambda>_.
     bind_res (require_auth h admin) (\<lambda>_.
     bind_res (governance_check_admin admin s) (\<lambda>_.
     if gv_pending s \<noteq> None then Inl (Err ConfigUpdateAlreadyQueued) else
     bind_res (validate_config new_config) (\<lambda>_.
     bind_res (ok_or (u_checked_add 64 (now h) CONFIG_TIMELOCK_SECONDS) InvalidConfig) (\<lambda>executable_at.
     Inr (publish (Event ''cfg_queue'' [AddrV admin] [NatV executable_at])
       (s\<lparr>gv_pending := Some \<lparr>pc_new_config = new_config, pc_queued_at = now h,
            pc_executable_at = executable_at\<rparr>\<rparr>)))))))"

definition execute_config_update :: "host \<Rightarrow> 'w governance \<Rightarrow> (governance_error, 'w governance) res" where
  "execute_config_update h s =
     bind_res (not_paused_or ContractPaused s) (\<lambda>_.
     bind_res (ok_or (gv_pending s) NoPendingConfigUpdate) (\<lambda>pending.
     if now h < pc_executable_at pending then Inl (Err TimelockNotElapsed) else
     Inr (publish (Event ''cfg_upd'' [AddrV (self h)] [])
       (s\<lparr>gv_config := Some (pc_new_config pending), gv_pending := None\<rparr>))))"

definition cancel_config_update :: "host \<Rightarrow> addr \<Rightarrow> 'w governance \<Rightarrow> (governance_error, 'w governance) res" where
  "cancel_config_update h admin s =
     bind_res (not_paused_or ContractPaused s) (\<lambda>_.
     bind_res (require_auth h admin) (\<lambda>_.
     bind_res (governance_check_admin admin s) (\<lambda>_.
     if gv_pending s = None then Inl (Err NoPendingConfigUpdate) else
     Inr (publish (Event ''cfg_cncl'' [AddrV admin] []) (s\<lparr>gv_pending := None\<rparr>)))))"

definition set_staking_contract ::
    "host \<Rightarrow> addr \<Rightarrow> addr \<Rightarrow> 'w governance \<Rightarrow> (governance_error, 'w governance) res" where
  "set_staking_contract h admin staking s =
     bind_res (not_paused_or ContractPaused s) (\<lambda>_.
     bind_res (governance_check_admin admin s) (\<lambda>_.
     bind_res (require_auth h admin) (\<lambda>_.
     Inr (s\<lparr>gv_staking := Some staking\<rparr>))))"

definition governance_pause :: "host \<Rightarrow> addr \<Rightarrow> 'w governance \<Rightarrow> (governance_error, 'w governance) res" where
  "governance_pause h admin s =
     bind_res (governance_check_admin admin s) (\<lambda>_.
     map_err (\<lambda>_. ContractPaused) (common_pause h admin s))"

definition governance_unpause :: "host \<Rightarrow> addr \<Rightarrow> 'w governance \<Rightarrow> (governance_error, 'w governance) res" where
  "governance_unpause h admin s =
     bind_res (governance_check_admin admin s) (\<lambda>_.
     map_err (\<lambda>_. ContractPaused) (common_unpause h admin s))"

section \<open>Queries\<close>

definition get_pending_config_update :: "'w governance \<Rightarrow> pending_config_update option" where
  "get_pending_config_update s = gv_pending s"

definition get_proposal :: "nat \<Rightarrow> 'w governance \<Rightarrow> (governance_error, proposal) res" where
  "get_proposal i s = ok_or (gv_proposals s i) ProposalNotFound"

fun get_proposals_loop :: "'w governance \<Rightarrow> nat list \<Rightarrow> nat \<Rightarrow> proposal list \<Rightarrow> proposal list" where
  "get_proposals_loop s [] limit out = out"
| "get_proposals_loop s (i # ids) limit out =
     (if length out < limit
      then get_proposals_loop s ids limit (case gv_proposals s i of Some p \<Rightarrow> out @ [p] | None \<Rightarrow> out)
      else out)"

definition get_proposals :: "proposal_status \<Rightarrow> nat \<Rightarrow> 'w governance \<Rightarrow> proposal list" where
  "get_proposals status limit s = get_proposals_loop s (unwrap_or (gv_by_status s status) []) limit []"

definition proposal_metadata :: "proposal \<Rightarrow> metadata_entry" where
  "proposal_metadata p = \<lparr>pm_id = pr_id p, pm_proposer = pr_proposer p,
     pm_description = pr_description p, pm_status = pr_status p, pm_created_at = pr_created_at p,
     pm_voting_ends_at = pr_voting_ends_at p, pm_timelock_ends_at = pr_timelock_ends_at p,
     pm_votes_for = pr_votes_for p, pm_votes_against = pr_votes_against p,
     pm_votes_abstain = pr_votes_abstain p\<rparr>"

text \<open>The loop from the cursor on: the entries so far and the cursor it stops at.\<close>

fun metadata_page_loop ::
    "'w governance \<Rightarrow> nat list \<Rightarrow> nat \<Rightarrow> nat \<Rightarrow> metadata_entry list \<Rightarrow> metadata_entry list \<times> nat" where
  "metadata_page_loop s [] limit stop entries = (entries, stop)"
| "metadata_page_loop s (i # ids) limit stop entries =
     (if length entries < limit
      then metadata_page_loop s ids limit (i + 1)
        (case gv_proposals s i of Some p \<Rightarrow> entries @ [proposal_metadata p] | None \<Rightarrow> entries)
      else (entries, i))"

definition get_proposal_metadata_page ::
    "nat \<Rightarrow> nat \<Rightarrow> 'w governance \<Rightarrow> metadata_entry list \<times> nat \<times> nat" where
  "get_proposal_metadata_page cursor limit s =
     (let total = unwrap_or (gv_count s) 0;
          capped_limit = (if limit > 50 then 50 else limit);
          (entries, next_cursor) = metadata_page_loop s [cursor..<total] capped_limit cursor []
      in (entries, next_cursor, total))"

definition get_vote :: "nat \<Rightarrow> addr \<Rightarrow> 'w governance \<Rightarrow> vote_record option" where
  "get_vote proposal_id voter s = gv_votes s (proposal_id, voter)"

definition get_config :: "'w governance \<Rightarrow> (governance_error, governance_config) res" where
  "get_config s = ok_or (gv_config s) NotInitialized"

definition get_deposit :: "nat \<Rightarrow> 'w governance \<Rightarrow> int option" where
  "get_deposit i s = gv_deposits s i"

section \<open>The contract as a state machine\<close>

datatype gv_op =
    GvInit addr governance_config
  | CreateProposal addr int proposal_action bytes
  | CastVote addr nat vote_type
  | Delegate addr addr
  | Revoke addr
  | Finalize nat
  | Execute nat
  | CancelProposal addr nat
  | Expire nat
  | QueueConfig addr governance_config
  | ExecuteConfig
  | CancelConfig addr
  | SetStaking addr addr
  | GvPause addr
  | GvUnpause addr

fun gv_exec :: "'w gov_env \<Rightarrow> host \<Rightarrow> gv_op \<Rightarrow> 'w governance \<Rightarrow> (governance_error, 'w governance) res" where
  "gv_exec W h (GvInit a c) s = governance_init h a c s"
| "gv_exec W h (CreateProposal a d act desc) s = bind_res (create_proposal h a d act desc s) (\<lambda>(_, s). Inr s)"
| "gv_exec W h (CastVote a i v) s = cast_vote W h a i v s"
| "gv_exec W h (Delegate a b) s = delegate h a b s"
| "gv_exec W h (Revoke a) s = revoke_delegation h a s"
| "gv_exec W h (Finalize i) s = finalize_proposal h i s"
| "gv_exec W h (Execute i) s = execute_proposal W h i s"
| "gv_exec W h (CancelProposal a i) s = cancel_proposal h a i s"
| "gv_exec W h (Expire i) s = expire_proposal h i s"
| "gv_exec W h (QueueConfig a c) s = queue_config_update h a c s"
| "gv_exec W h ExecuteConfig s = execute_config_update h s"
| "gv_exec W h (CancelConfig a) s = cancel_config_update h a s"
| "gv_exec W h (SetStaking a b) s = set_staking_contract h a b s"
| "gv_exec W h (GvPause a) s = governance_pause h a s"
| "gv_exec W h (GvUnpause a) s = governance_unpause h a s"

text \<open>Runs: calls at any time by anybody, the other contracts changing in between.\<close>

inductive gv_run :: "'w gov_env \<Rightarrow> 'w governance \<Rightarrow> 'w governance \<Rightarrow> bool" for W :: "'w gov_env" where
  gv_refl: "gv_run W s s"
| gv_call: "gv_run W s s1 \<Longrightarrow> gv_exec W h op s1 = Inr s2 \<Longrightarrow> gv_run W s s2"
| gv_env: "gv_run W s s1 \<Longrightarrow> gv_run W s (s1\<lparr>gv_world := w\<rparr>)"

text \<open>The life cycle of a proposal.\<close>

inductive proposal_step :: "proposal_status \<Rightarrow> proposal_status \<Rightarrow> bool" where
  "proposal_step Active Queued"
| "proposal_step Active Defeated"
| "proposal_step Active Cancelled"
| "proposal_step Active Expired"
| "proposal_step Queued Executed"
| "proposal_step Queued Expired"

inductive_simps proposal_step_simps [simp]:
  "proposal_step Active st" "proposal_step Queued st" "proposal_step Draft st" "proposal_step Succeeded st"
  "proposal_step Executed st" "proposal_step Defeated st" "proposal_step Cancelled st" "proposal_step Expired st"

text \<open>The statuses are ordered by it: \<open>a \<le> b\<close> when a proposal can come from \<open>a\<close> to \<open>b\<close>.\<close>

instantiation proposal_status :: order
begin

definition less_eq_proposal_status where
  "a \<le> b \<longleftrightarrow> a = b \<or> a = Active \<and> b \<in> {Queued, Executed, Defeated, Cancelled, Expired}
     \<or> a = Queued \<and> b \<in> {Executed, Expired}"

definition less_proposal_status where
  "a < b \<longleftrightarrow> a \<le> b \<and> \<not> b \<le> (a :: proposal_status)"

instance
  by standard (auto simp: less_eq_proposal_status_def less_proposal_status_def)

end

lemma proposal_steps_le: "proposal_step\<^sup>*\<^sup>* a b \<longleftrightarrow> a \<le> b"
proof
  show "proposal_step\<^sup>*\<^sup>* a b \<Longrightarrow> a \<le> b"
    by (induction rule: rtranclp.induct)
      (auto elim!: proposal_step.cases simp: less_eq_proposal_status_def)
  have "proposal_step\<^sup>*\<^sup>* Active Queued" "proposal_step\<^sup>*\<^sup>* Queued Executed" by (rule r_into_rtranclp; simp)+
  then have "proposal_step\<^sup>*\<^sup>* Active Executed" by (rule rtranclp_trans)
  then show "a \<le> b \<Longrightarrow> proposal_step\<^sup>*\<^sup>* a b"
    by (auto simp: less_eq_proposal_status_def intro: r_into_rtranclp)
qed

section \<open>What the operations do on success\<close>

lemma publish_gov [simp]:
  "gv_world (publish ev s) = gv_world s" "gv_admin (publish ev s) = gv_admin s"
  "gv_config (publish ev s) = gv_config s" "gv_count (publish ev s) = gv_count s"
  "gv_proposals (publish ev s) = gv_proposals s" "gv_votes (publish ev s) = gv_votes s"
  "gv_deposits (publish ev s) = gv_deposits s" "gv_pending (publish ev s) = gv_pending s"
  "gv_by_status (publish ev s) = gv_by_status s" "gv_staking (publish ev s) = gv_staking s"
  "gv_delegation (publish ev s) = gv_delegation s" "gv_delegators (publish ev s) = gv_delegators s"
  by (simp_all add: publish_def)

lemma governance_check_admin_Inr [res_simps]:
  "governance_check_admin a s = Inr u \<longleftrightarrow> gv_admin s = Some a"
  by (auto simp: governance_check_admin_def res_simps)

lemma safe_add_or_Inr [res_simps]:
  "map_err f (safe_add a b) = Inr c \<longleftrightarrow> c = a + b \<and> in_i128 (a + b)"
  by (simp add: map_err_Inr safe_add_def res_simps int_simps)

text \<open>What an operation leaves alone: the tables of delegations and the configuration.\<close>

definition same_tables :: "'w governance \<Rightarrow> 'w governance \<Rightarrow> bool" where
  "same_tables s s' \<longleftrightarrow> gv_admin s' = gv_admin s \<and> gv_config s' = gv_config s \<and> gv_pending s' = gv_pending s
     \<and> gv_staking s' = gv_staking s \<and> gv_delegation s' = gv_delegation s \<and> gv_delegators s' = gv_delegators s"

definition same_proposals :: "'w governance \<Rightarrow> 'w governance \<Rightarrow> bool" where
  "same_proposals s s' \<longleftrightarrow> gv_count s' = gv_count s \<and> gv_proposals s' = gv_proposals s
     \<and> gv_by_status s' = gv_by_status s \<and> gv_deposits s' = gv_deposits s"

definition status_index :: "proposal_status \<Rightarrow> 'w governance \<Rightarrow> nat list" where
  "status_index st s = unwrap_or (gv_by_status s st) []"

lemma create_proposal_InrD:
  assumes "create_proposal h a d act desc s = Inr (i, s')"
  shows "\<exists>c. gv_config s = Some c \<and> authorized h a \<and> gc_min_proposal_deposit c \<le> d \<and> 0 < d
    \<and> i = unwrap_or (gv_count s) 0 \<and> gv_count s' = Some (i + 1)
    \<and> gv_proposals s' = (gv_proposals s)(i \<mapsto>
        \<lparr>pr_id = i, pr_proposer = a, pr_deposit = d, pr_action = act, pr_description = desc,
         pr_status = Active, pr_created_at = now h,
         pr_voting_ends_at = now h + gc_voting_period_seconds c, pr_timelock_ends_at = 0,
         pr_votes_for = 0, pr_votes_against = 0, pr_votes_abstain = 0\<rparr>)
    \<and> gv_by_status s' = (gv_by_status s)(Active \<mapsto> status_index Active s @ [i])
    \<and> gv_deposits s' = (gv_deposits s)(i \<mapsto> d)
    \<and> gv_votes s' = gv_votes s \<and> same_tables s s'"
  using assms
  by (clarsimp simp: create_proposal_def res_simps int_simps Let_def not_less not_le same_tables_def
      add_proposal_to_status_index_def status_index_def)

text \<open>A change of status, with the index moved along.\<close>

definition transition ::
    "nat \<Rightarrow> proposal \<Rightarrow> proposal_status \<Rightarrow> nat \<Rightarrow> 'w governance \<Rightarrow> 'w governance \<Rightarrow> bool" where
  "transition i p st t s s' \<longleftrightarrow> gv_proposals s i = Some p
     \<and> gv_proposals s' = (gv_proposals s)(i \<mapsto> p\<lparr>pr_status := st, pr_timelock_ends_at := t\<rparr>)
     \<and> gv_by_status s' = gv_by_status (add_proposal_to_status_index st i
          (remove_proposal_from_status_index (pr_status p) i s))
     \<and> gv_count s' = gv_count s \<and> gv_votes s' = gv_votes s \<and> same_tables s s'"

lemmas index_defs = add_proposal_to_status_index_def remove_proposal_from_status_index_def

lemma finalize_proposal_InrD:
  assumes "finalize_proposal h i s = Inr s'"
  shows "\<exists>p c passed. pr_status p = Active \<and> gv_config s = Some c \<and> pr_voting_ends_at p < now h
    \<and> proposal_passes p c = Inr passed \<and> gv_deposits s' i = None
    \<and> (if passed then transition i p Queued (now h + gc_timelock_seconds c) s s'
       else transition i p Defeated (pr_timelock_ends_at p) s s')"
proof -
  from assms obtain p c passed where p: "gv_proposals s i = Some p" "gv_config s = Some c"
    "proposal_passes p c = Inr passed" by (auto simp: finalize_proposal_def res_simps)
  have swap: "p\<lparr>pr_timelock_ends_at := t, pr_status := st\<rparr> = p\<lparr>pr_status := st, pr_timelock_ends_at := t\<rparr>" for st t
    by (cases p) simp
  show ?thesis
  proof (cases passed)
    case True
    with assms p show ?thesis
      by (intro exI [of _ p] exI [of _ c] exI [of _ passed])
        (clarsimp simp: finalize_proposal_def res_simps int_simps Let_def not_le transition_def
          swap index_defs same_tables_def)
  next
    case False
    with assms p show ?thesis
      by (intro exI [of _ p] exI [of _ c] exI [of _ passed])
        (clarsimp simp: finalize_proposal_def res_simps Let_def not_le transition_def
          index_defs same_tables_def)
  qed
qed

lemma execute_proposal_InrD:
  assumes "execute_proposal W h i s = Inr s'"
  shows "\<exists>p. pr_status p = Queued \<and> pr_timelock_ends_at p \<le> now h
    \<and> ge_invoke W (gv_world s) (pa_target (pr_action p)) (pa_method (pr_action p)) (pa_args (pr_action p))
        = Some (gv_world s')
    \<and> transition i p Executed (pr_timelock_ends_at p) s s' \<and> gv_deposits s' = gv_deposits s"
proof -
  from assms obtain p where p: "gv_proposals s i = Some p" by (auto simp: execute_proposal_def res_simps)
  from assms p show ?thesis
    by (intro exI [of _ p])
      (clarsimp simp: execute_proposal_def res_simps Let_def not_less transition_def index_defs same_tables_def)
qed

lemma cancel_proposal_InrD:
  assumes "cancel_proposal h a i s = Inr s'"
  shows "\<exists>p. pr_status p = Active \<and> pr_proposer p = a \<and> authorized h a \<and> gv_deposits s' i = None
    \<and> wrap_i128 (wrap_i128 (pr_votes_for p + pr_votes_against p) + pr_votes_abstain p) \<le> 0
    \<and> transition i p Cancelled (pr_timelock_ends_at p) s s'"
proof -
  from assms obtain p where p: "gv_proposals s i = Some p" by (auto simp: cancel_proposal_def res_simps)
  from assms p show ?thesis
    by (intro exI [of _ p])
      (clarsimp simp: cancel_proposal_def res_simps Let_def not_less transition_def index_defs same_tables_def)
qed

lemma expire_proposal_InrD:
  assumes "expire_proposal h i s = Inr s'"
  shows "\<exists>p. (pr_status p = Active \<and> pr_voting_ends_at p + PROPOSAL_EXECUTION_WINDOW < now h
       \<or> pr_status p = Queued \<and> pr_timelock_ends_at p + PROPOSAL_EXECUTION_WINDOW < now h)
    \<and> gv_deposits s' i = None \<and> transition i p Expired (pr_timelock_ends_at p) s s'"
proof -
  from assms obtain p where p: "gv_proposals s i = Some p" by (auto simp: expire_proposal_def res_simps)
  from assms p show ?thesis
    by (intro exI [of _ p]) (cases "pr_status p"; clarsimp simp: expire_proposal_def res_simps int_simps Let_def
      transition_def index_defs same_tables_def)
qed

subsection \<open>Votes\<close>

definition votes_on :: "nat \<Rightarrow> 'w governance \<Rightarrow> addr \<rightharpoonup> vote_record" where
  "votes_on i s = (\<lambda>a. gv_votes s (i, a))"

text \<open>The weight of a vote record towards one of the three options, and the sum over a proposal.\<close>

definition weight :: "vote_type \<Rightarrow> vote_record \<Rightarrow> int" where
  "weight v r = (if vr_vote r = v then vr_power r else 0)"

definition tally :: "vote_type \<Rightarrow> nat \<Rightarrow> 'w governance \<Rightarrow> int" where
  "tally v i s = msum (weight v) (votes_on i s)"

lemma votes_on_frame: "gv_votes s' = gv_votes s \<Longrightarrow> votes_on i s' = votes_on i s"
  by (simp add: votes_on_def)

lemma tally_frame: "gv_votes s' = gv_votes s \<Longrightarrow> tally v i s' = tally v i s"
  by (simp add: tally_def votes_on_def)

lemma get_vote_power_InrD:
  "get_vote_power W a s = Inr (p, s') \<Longrightarrow>
     gv_votes s' = gv_votes s \<and> same_tables s s' \<and> same_proposals s s' \<and> (gv_staking s = None \<longrightarrow> p = 1)"
  by (auto simp: get_vote_power_def res_simps same_tables_def same_proposals_def split: option.splits)

lemma record_vote_sel [simp]:
  "same_tables s (record_vote h i v a p s)" "same_proposals s (record_vote h i v a p s)"
  "gv_votes (record_vote h i v a p s) =
     (gv_votes s)((i, a) \<mapsto> \<lparr>vr_voter = a, vr_vote = v, vr_power = p, vr_timestamp = now h\<rparr>)"
  by (simp_all add: record_vote_def same_tables_def same_proposals_def)

lemma same_tables_trans: "same_tables s t \<Longrightarrow> same_tables t u \<Longrightarrow> same_tables s u"
  by (simp add: same_tables_def)

lemma same_proposals_trans: "same_proposals s t \<Longrightarrow> same_proposals t u \<Longrightarrow> same_proposals s u"
  by (simp add: same_proposals_def)

lemma votes_on_record:
  "votes_on j (record_vote h i v a p s) = (if j = i
     then (votes_on i s)(a \<mapsto> \<lparr>vr_voter = a, vr_vote = v, vr_power = p, vr_timestamp = now h\<rparr>)
     else votes_on j s)"
  by (auto simp: votes_on_def fun_eq_iff)

text \<open>What casting votes adds to the votes of proposal \<open>i\<close>: the new votes, all for \<open>v\<close>, of the
  accounts in \<open>A\<close> that had not voted, with the total power \<open>x\<close>.\<close>

definition votes_added ::
    "host \<Rightarrow> nat \<Rightarrow> vote_type \<Rightarrow> addr set \<Rightarrow> int \<Rightarrow> 'w governance \<Rightarrow> 'w governance \<Rightarrow> bool" where
  "votes_added h i v A x s s' \<longleftrightarrow> same_tables s s' \<and> same_proposals s s'
     \<and> (\<forall>j. j \<noteq> i \<longrightarrow> votes_on j s' = votes_on j s)
     \<and> (\<forall>a. if a \<in> A \<and> votes_on i s a = None
         then \<exists>p. votes_on i s' a = Some \<lparr>vr_voter = a, vr_vote = v, vr_power = p, vr_timestamp = now h\<rparr>
         else votes_on i s' a = votes_on i s a)
     \<and> (finite (dom (votes_on i s)) \<longrightarrow> finite (dom (votes_on i s'))
         \<and> (\<forall>o'. tally o' i s' = tally o' i s + (if o' = v then x else 0)))"

lemma votes_added_empty: "votes_added h i v {} 0 s s"
  by (simp add: votes_added_def same_tables_def same_proposals_def)

lemma votes_added_one:
  assumes "get_vote_power W a s = Inr (p, s1)" "gv_votes s (i, a) = None"
  shows "votes_added h i v {a} p s (record_vote h i v a p s1)"
proof -
  from get_vote_power_InrD [OF assms(1)] have s1: "gv_votes s1 = gv_votes s" "same_tables s s1"
    "same_proposals s s1" by blast+
  then have v: "votes_on j s1 = votes_on j s" for j by (simp add: votes_on_def)
  have n: "votes_on i s a = None" using assms(2) by (simp add: votes_on_def)
  have "tally o' i (record_vote h i v a p s1) = tally o' i s + (if o' = v then p else 0)"
    if "finite (dom (votes_on i s))" for o'
    using msum_upd [OF that, of "weight o'" a] n by (auto simp: tally_def votes_on_record v weight_def)
  with same_tables_trans [OF s1(2)] same_proposals_trans [OF s1(3)] n show ?thesis
    by (simp add: votes_added_def votes_on_record v)
qed

lemma votes_added_trans:
  assumes a: "votes_added h i v A x s s1" and b: "votes_added h i v B y s1 s2"
  shows "votes_added h i v (A \<union> B) (x + y) s s2"
proof -
  have "if c \<in> A \<union> B \<and> votes_on i s c = None
         then \<exists>p. votes_on i s2 c = Some \<lparr>vr_voter = c, vr_vote = v, vr_power = p, vr_timestamp = now h\<rparr>
         else votes_on i s2 c = votes_on i s c" for c
  proof -
    from a have 1: "if c \<in> A \<and> votes_on i s c = None
         then \<exists>p. votes_on i s1 c = Some \<lparr>vr_voter = c, vr_vote = v, vr_power = p, vr_timestamp = now h\<rparr>
         else votes_on i s1 c = votes_on i s c" unfolding votes_added_def by blast
    from b have 2: "if c \<in> B \<and> votes_on i s1 c = None
         then \<exists>p. votes_on i s2 c = Some \<lparr>vr_voter = c, vr_vote = v, vr_power = p, vr_timestamp = now h\<rparr>
         else votes_on i s2 c = votes_on i s1 c" unfolding votes_added_def by blast
    from 1 2 show ?thesis by (cases "c \<in> A"; cases "c \<in> B"; cases "votes_on i s c") auto
  qed
  with a b show ?thesis
    by (auto simp: votes_added_def intro: same_tables_trans same_proposals_trans)
qed

lemma votes_added_voted:
  assumes "votes_on i s d \<noteq> None" "votes_added h i v A x s s'"
  shows "votes_added h i v (insert d A) x s s'"
proof -
  have "c \<in> insert d A \<and> votes_on i s c = None \<longleftrightarrow> c \<in> A \<and> votes_on i s c = None" for c
    using assms(1) by auto
  with assms(2) show ?thesis unfolding votes_added_def by presburger
qed

lemma delegators_loop_InrD:
  "delegators_loop W h i v ds x s = Inr (y, s') \<Longrightarrow> votes_added h i v (set ds) (y - x) s s'"
proof (induction ds arbitrary: x s)
  case Nil
  then show ?case using votes_added_empty [of h i v s] by simp
next
  case (Cons d ds)
  show ?case
  proof (cases "gv_votes s (i, d)")
    case (Some r)
    with Cons.prems have "delegators_loop W h i v ds x s = Inr (y, s')" by simp
    from votes_added_voted [OF _ Cons.IH [OF this], of d] Some show ?thesis by (simp add: votes_on_def)
  next
    case None
    with Cons.prems obtain p s1 where p: "get_vote_power W d s = Inr (p, s1)"
      and rest: "delegators_loop W h i v ds (x + p) (record_vote h i v d p s1) = Inr (y, s')"
      by (auto simp: res_simps)
    from votes_added_trans [OF votes_added_one [OF p None] Cons.IH [OF rest]] show ?thesis by simp
  qed
qed

definition add_votes :: "vote_type \<Rightarrow> int \<Rightarrow> proposal \<Rightarrow> proposal" where
  "add_votes v x p = p\<lparr>pr_votes_for := pr_votes_for p + (if v = For then x else 0),
     pr_votes_against := pr_votes_against p + (if v = Against then x else 0),
     pr_votes_abstain := pr_votes_abstain p + (if v = Abstain then x else 0)\<rparr>"

lemma add_votes_sel [simp]:
  "pr_id (add_votes v x p) = pr_id p" "pr_proposer (add_votes v x p) = pr_proposer p"
  "pr_deposit (add_votes v x p) = pr_deposit p" "pr_action (add_votes v x p) = pr_action p"
  "pr_description (add_votes v x p) = pr_description p" "pr_status (add_votes v x p) = pr_status p"
  "pr_created_at (add_votes v x p) = pr_created_at p"
  "pr_voting_ends_at (add_votes v x p) = pr_voting_ends_at p"
  "pr_timelock_ends_at (add_votes v x p) = pr_timelock_ends_at p"
  "pr_votes_for (add_votes v x p) = pr_votes_for p + (if v = For then x else 0)"
  "pr_votes_against (add_votes v x p) = pr_votes_against p + (if v = Against then x else 0)"
  "pr_votes_abstain (add_votes v x p) = pr_votes_abstain p + (if v = Abstain then x else 0)"
  by (simp_all add: add_votes_def)

text \<open>The two parts of casting a vote: the own vote, and the loop over the delegators.\<close>

lemma cast_vote_parts:
  assumes "cast_vote W h a i v s = Inr s'"
  shows "\<exists>p q s0 x s1. gv_proposals s i = Some p \<and> pr_status p = Active \<and> authorized h a
    \<and> now h \<le> pr_voting_ends_at p \<and> gv_votes s (i, a) = None \<and> gv_delegation s a = None
    \<and> get_vote_power W a s = Inr (q, s0)
    \<and> delegators_loop W h i v (unwrap_or (gv_delegators (record_vote h i v a q s0) a) []) q
        (record_vote h i v a q s0) = Inr (x, s1)
    \<and> s' = s1\<lparr>gv_proposals := (gv_proposals s1)(i \<mapsto> add_votes v x p)\<rparr>"
proof (cases v)
  case For
  with assms show ?thesis by (clarsimp simp: cast_vote_def res_simps Let_def not_less add_votes_def)
next
  case Against
  with assms show ?thesis by (clarsimp simp: cast_vote_def res_simps Let_def not_less add_votes_def)
next
  case Abstain
  with assms show ?thesis by (clarsimp simp: cast_vote_def res_simps Let_def not_less add_votes_def)
qed

lemma cast_vote_InrD:
  assumes "cast_vote W h a i v s = Inr s'"
  shows "\<exists>p x s1. gv_proposals s i = Some p \<and> pr_status p = Active \<and> authorized h a
    \<and> now h \<le> pr_voting_ends_at p \<and> votes_on i s a = None \<and> gv_delegation s a = None
    \<and> votes_added h i v (insert a (set (unwrap_or (gv_delegators s a) []))) x s s1
    \<and> s' = s1\<lparr>gv_proposals := (gv_proposals s)(i \<mapsto> add_votes v x p)\<rparr>"
proof -
  from cast_vote_parts [OF assms] obtain p q s0 x s1 where
      p: "gv_proposals s i = Some p" "pr_status p = Active" "authorized h a"
      "now h \<le> pr_voting_ends_at p" "gv_votes s (i, a) = None" "gv_delegation s a = None"
    and q: "get_vote_power W a s = Inr (q, s0)"
    and x: "delegators_loop W h i v (unwrap_or (gv_delegators (record_vote h i v a q s0) a) []) q
        (record_vote h i v a q s0) = Inr (x, s1)"
    and s': "s' = s1\<lparr>gv_proposals := (gv_proposals s1)(i \<mapsto> add_votes v x p)\<rparr>"
    by blast
  have one: "votes_added h i v {a} q s (record_vote h i v a q s0)" by (rule votes_added_one [OF q p(5)])
  then have d: "gv_delegators (record_vote h i v a q s0) = gv_delegators s"
    by (simp add: votes_added_def same_tables_def)
  from votes_added_trans [OF one delegators_loop_InrD [OF x]]
  have add: "votes_added h i v (insert a (set (unwrap_or (gv_delegators s a) []))) x s s1" by (simp add: d)
  then have "gv_proposals s1 = gv_proposals s" by (simp add: votes_added_def same_proposals_def)
  with p s' add show ?thesis by (auto simp: votes_on_def)
qed

subsection \<open>Delegation and administration\<close>

lemma delegate_InrD:
  assumes "delegate h a b s = Inr s'"
  shows "authorized h a \<and> a \<noteq> b \<and> gv_delegation s b = None \<and> unwrap_or (gv_delegators s a) [] = []
    \<and> gv_delegation s' = (gv_delegation s)(a \<mapsto> b)
    \<and> (let m = (case gv_delegation s a of Some c \<Rightarrow>
           (gv_delegators s)(c \<mapsto> vec_without a (unwrap_or (gv_delegators s c) [])) | None \<Rightarrow> gv_delegators s)
       in gv_delegators s' = m(b \<mapsto> unwrap_or (m b) [] @ [a]))
    \<and> same_proposals s s' \<and> gv_votes s' = gv_votes s \<and> gv_config s' = gv_config s \<and> gv_pending s' = gv_pending s
    \<and> gv_admin s' = gv_admin s"
  using assms
  by (cases "gv_delegation s a")
    (auto simp: delegate_def res_simps Let_def add_delegator_def remove_delegator_def same_proposals_def)

lemma revoke_delegation_InrD:
  assumes "revoke_delegation h a s = Inr s'"
  shows "authorized h a \<and> same_proposals s s' \<and> gv_votes s' = gv_votes s
    \<and> gv_config s' = gv_config s \<and> gv_pending s' = gv_pending s \<and> gv_admin s' = gv_admin s
    \<and> gv_delegation s' = (gv_delegation s)(a := None)
    \<and> gv_delegators s' = (case gv_delegation s a of
          Some c \<Rightarrow> (gv_delegators s)(c \<mapsto> vec_without a (unwrap_or (gv_delegators s c) []))
        | None \<Rightarrow> gv_delegators s)"
  using assms
  by (cases "gv_delegation s a")
    (auto simp: revoke_delegation_def res_simps Let_def remove_delegator_def same_proposals_def fun_eq_iff)

text \<open>The rest of the administration touches proposals, votes and delegations not at all.\<close>

definition same_votes :: "'w governance \<Rightarrow> 'w governance \<Rightarrow> bool" where
  "same_votes s s' \<longleftrightarrow> same_proposals s s' \<and> gv_votes s' = gv_votes s
     \<and> gv_delegation s' = gv_delegation s \<and> gv_delegators s' = gv_delegators s"

definition same_config :: "'w governance \<Rightarrow> 'w governance \<Rightarrow> bool" where
  "same_config s s' \<longleftrightarrow> gv_admin s' = gv_admin s \<and> gv_config s' = gv_config s \<and> gv_pending s' = gv_pending s"

lemma config_ops_InrD:
  "queue_config_update h a c s = Inr s' \<Longrightarrow> same_votes s s' \<and> gv_admin s = Some a \<and> authorized h a
     \<and> gv_pending s = None \<and> validate_config c = Inr () \<and> gv_config s' = gv_config s \<and> gv_admin s' = gv_admin s
     \<and> gv_pending s' = Some \<lparr>pc_new_config = c, pc_queued_at = now h, pc_executable_at = now h + 172800\<rparr>"
  "execute_config_update h s = Inr s' \<Longrightarrow> same_votes s s' \<and> gv_admin s' = gv_admin s
     \<and> (\<exists>pc. gv_pending s = Some pc \<and> pc_executable_at pc \<le> now h \<and> gv_config s' = Some (pc_new_config pc)
        \<and> gv_pending s' = None)"
  "cancel_config_update h a s = Inr s' \<Longrightarrow> same_votes s s' \<and> gv_admin s = Some a \<and> authorized h a
     \<and> gv_config s' = gv_config s \<and> gv_admin s' = gv_admin s \<and> gv_pending s' = None"
  by (auto simp: queue_config_update_def execute_config_update_def cancel_config_update_def res_simps int_simps
      Let_def not_less same_votes_def same_proposals_def CONFIG_TIMELOCK_SECONDS_def)

lemma init_InrD:
  "governance_init h a c s = Inr s' \<Longrightarrow> authorized h a \<and> gv_admin s = None \<and> validate_config c = Inr ()
     \<and> s' = s\<lparr>gv_admin := Some a, gv_config := Some c, gv_count := Some 0\<rparr>"
  by (auto simp: governance_init_def res_simps)

lemma other_ops_InrD:
  "set_staking_contract h a b s = Inr s' \<Longrightarrow> same_votes s s' \<and> same_config s s'"
  "governance_pause h a s = Inr s' \<Longrightarrow> same_votes s s' \<and> same_config s s'"
  "governance_unpause h a s = Inr s' \<Longrightarrow> same_votes s s' \<and> same_config s s'"
  by (auto simp: set_staking_contract_def governance_pause_def governance_unpause_def common_pause_def
      common_unpause_def res_simps same_votes_def same_proposals_def same_config_def split: if_splits)

section \<open>Invariants\<close>

definition delegators_of :: "addr \<Rightarrow> 'w governance \<Rightarrow> addr list" where
  "delegators_of a s = unwrap_or (gv_delegators s a) []"

definition numbering_inv :: "'w governance \<Rightarrow> bool" where
  "numbering_inv s \<longleftrightarrow> (\<forall>i. gv_proposals s i \<noteq> None \<longleftrightarrow> i < unwrap_or (gv_count s) 0)
     \<and> (\<forall>i p. gv_proposals s i = Some p \<longrightarrow> pr_id p = i)
     \<and> (gv_admin s = None \<longrightarrow> gv_count s = None \<and> gv_config s = None \<and> gv_pending s = None)"

definition index_inv :: "'w governance \<Rightarrow> bool" where
  "index_inv s \<longleftrightarrow> (\<forall>st. distinct (status_index st s)
     \<and> (\<forall>i. i \<in> set (status_index st s) \<longleftrightarrow> (\<exists>p. gv_proposals s i = Some p \<and> pr_status p = st)))"

definition tally_ok :: "nat \<Rightarrow> proposal \<Rightarrow> 'w governance \<Rightarrow> bool" where
  "tally_ok i p s \<longleftrightarrow> finite (dom (votes_on i s)) \<and> pr_votes_for p = tally For i s
     \<and> pr_votes_against p = tally Against i s \<and> pr_votes_abstain p = tally Abstain i s
     \<and> (\<forall>a r. votes_on i s a = Some r \<longrightarrow> vr_voter r = a \<and> vr_timestamp r \<le> pr_voting_ends_at p)"

definition tally_inv :: "'w governance \<Rightarrow> bool" where
  "tally_inv s \<longleftrightarrow> (\<forall>i. case gv_proposals s i of None \<Rightarrow> votes_on i s = Map.empty | Some p \<Rightarrow> tally_ok i p s)"

definition delegation_inv :: "'w governance \<Rightarrow> bool" where
  "delegation_inv s \<longleftrightarrow> (\<forall>a. distinct (delegators_of a s)
       \<and> (\<forall>d. d \<in> set (delegators_of a s) \<longleftrightarrow> gv_delegation s d = Some a))
     \<and> (\<forall>a b. gv_delegation s a = Some b \<longrightarrow> gv_delegation s b = None)"

definition config_inv :: "'w governance \<Rightarrow> bool" where
  "config_inv s \<longleftrightarrow> (\<forall>c. gv_config s = Some c \<longrightarrow> validate_config c = Inr ())
     \<and> (\<forall>pc. gv_pending s = Some pc \<longrightarrow> validate_config (pc_new_config pc) = Inr ()
          \<and> pc_executable_at pc = pc_queued_at pc + 172800)"

definition gov_inv :: "'w governance \<Rightarrow> bool" where
  "gov_inv s \<longleftrightarrow> numbering_inv s \<and> index_inv s \<and> tally_inv s \<and> delegation_inv s \<and> config_inv s"

lemma gov_inv_empty: "gov_inv (governance_empty w)"
  by (simp add: gov_inv_def numbering_inv_def index_inv_def tally_inv_def delegation_inv_def config_inv_def
      governance_empty_def status_index_def delegators_of_def votes_on_def)

lemma tally_ok_frame: "gv_votes s' = gv_votes s \<Longrightarrow> tally_ok i p s' = tally_ok i p s"
  by (simp add: tally_ok_def tally_def votes_on_def)

lemma tally_inv_frame:
  assumes "gv_votes s' = gv_votes s" "gv_proposals s' = gv_proposals s"
  shows "tally_inv s' = tally_inv s"
  unfolding tally_inv_def assms(2) tally_ok_frame [OF assms(1)] votes_on_frame [OF assms(1)] ..

lemma same_votes_inv: "same_votes s s' \<Longrightarrow> gv_admin s' = gv_admin s \<Longrightarrow>
    (gv_admin s = None \<longrightarrow> gv_config s' = None \<and> gv_pending s' = None) \<Longrightarrow>
    gov_inv s \<Longrightarrow> config_inv s' \<Longrightarrow> gov_inv s'"
  using tally_inv_frame [of s' s]
  by (simp add: gov_inv_def same_votes_def same_proposals_def numbering_inv_def index_inv_def
      delegation_inv_def status_index_def delegators_of_def)

lemma transition_inv:
  assumes t: "transition i p st t s s'" and ne: "st \<noteq> pr_status p" and inv: "gov_inv s"
  shows "gov_inv s'"
proof -
  let ?p = "p\<lparr>pr_status := st, pr_timelock_ends_at := t\<rparr>"
  from t have p: "gv_proposals s i = Some p" and ps: "gv_proposals s' = (gv_proposals s)(i \<mapsto> ?p)"
    and idx: "status_index q s' = (if q = st then status_index st s @ [i]
        else if q = pr_status p then vec_without i (status_index q s) else status_index q s)"
    and fr: "gv_count s' = gv_count s" "gv_votes s' = gv_votes s" "same_tables s s'" for q
    using ne by (simp_all add: transition_def status_index_def index_defs)
  from inv p have "i \<notin> set (status_index st s)" using ne by (auto simp: gov_inv_def index_inv_def)
  moreover have "numbering_inv s'"
    using inv p fr unfolding gov_inv_def numbering_inv_def ps same_tables_def by auto
  moreover have "tally_inv s'"
    unfolding tally_inv_def
  proof
    fix j
    from inv have "case gv_proposals s j of None \<Rightarrow> votes_on j s = Map.empty | Some p \<Rightarrow> tally_ok j p s"
      by (simp add: gov_inv_def tally_inv_def)
    then show "case gv_proposals s' j of None \<Rightarrow> votes_on j s' = Map.empty | Some p \<Rightarrow> tally_ok j p s'"
      using p unfolding ps tally_ok_frame [OF fr(2)] votes_on_frame [OF fr(2)]
      by (auto simp: tally_ok_def)
  qed
  moreover have "delegation_inv s'" "config_inv s'"
    using inv fr(3) by (simp_all add: gov_inv_def delegation_inv_def config_inv_def same_tables_def delegators_of_def)
  moreover have "index_inv s'"
    unfolding index_inv_def idx ps
    using inv p calculation(1) ne
    by (auto simp: gov_inv_def index_inv_def distinct_vec_without)
  ultimately show ?thesis by (simp add: gov_inv_def)
qed

lemma create_proposal_inv:
  assumes ex: "create_proposal h a d act desc s = Inr (i, s')" and inv: "gov_inv s"
  shows "gov_inv s'"
proof -
  from create_proposal_InrD [OF ex] obtain p where
    i: "i = unwrap_or (gv_count s) 0" and ps: "gv_proposals s' = (gv_proposals s)(i \<mapsto> p)"
    and p: "pr_id p = i" "pr_status p = Active" "pr_votes_for p = 0" "pr_votes_against p = 0" "pr_votes_abstain p = 0"
    and idx: "gv_by_status s' = (gv_by_status s)(Active \<mapsto> status_index Active s @ [i])"
    and fr: "gv_count s' = Some (i + 1)" "gv_votes s' = gv_votes s" "same_tables s s'" "gv_config s \<noteq> None"
    by auto
  have new: "gv_proposals s i = None" using inv i unfolding gov_inv_def numbering_inv_def by blast
  have "numbering_inv s'"
    using inv p i fr unfolding gov_inv_def numbering_inv_def ps same_tables_def by auto
  moreover have "tally_inv s'"
    unfolding tally_inv_def
  proof
    fix j
    from inv have "case gv_proposals s j of None \<Rightarrow> votes_on j s = Map.empty | Some p \<Rightarrow> tally_ok j p s"
      by (simp add: gov_inv_def tally_inv_def)
    then show "case gv_proposals s' j of None \<Rightarrow> votes_on j s' = Map.empty | Some p \<Rightarrow> tally_ok j p s'"
      using p new unfolding ps tally_ok_frame [OF fr(2)] votes_on_frame [OF fr(2)]
      by (auto simp: tally_ok_def tally_def)
  qed
  moreover have "delegation_inv s'" "config_inv s'"
    using inv fr(3) by (simp_all add: gov_inv_def delegation_inv_def config_inv_def same_tables_def delegators_of_def)
  moreover have "index_inv s'"
  proof -
    have i2: "status_index q s' = (if q = Active then status_index Active s @ [i] else status_index q s)" for q
      by (simp add: status_index_def idx)
    show ?thesis using inv p new unfolding gov_inv_def index_inv_def i2 ps by auto
  qed
  ultimately show ?thesis by (simp add: gov_inv_def)
qed

lemma votes_added_tally:
  assumes "votes_added h i v A x s s1" "tally_ok i p s" "now h \<le> pr_voting_ends_at p"
  shows "tally_ok i (add_votes v x p) s1"
proof -
  have "vr_voter r = a \<and> vr_timestamp r \<le> pr_voting_ends_at p" if r: "votes_on i s1 a = Some r" for a r
  proof -
    from assms(1) have "if a \<in> A \<and> votes_on i s a = None
         then \<exists>p. votes_on i s1 a = Some \<lparr>vr_voter = a, vr_vote = v, vr_power = p, vr_timestamp = now h\<rparr>
         else votes_on i s1 a = votes_on i s a" unfolding votes_added_def by blast
    with r assms(2,3) show ?thesis by (auto simp: tally_ok_def split: if_splits)
  qed
  moreover from assms(1,2) have "finite (dom (votes_on i s1))"
    "tally w i s1 = tally w i s + (if w = v then x else 0)" for w
    by (auto simp: votes_added_def tally_ok_def)
  ultimately show ?thesis using assms(2) by (auto simp: tally_ok_def)
qed

lemma cast_vote_inv:
  assumes ex: "cast_vote W h a i v s = Inr s'" and inv: "gov_inv s"
  shows "gov_inv s'"
proof -
  from cast_vote_InrD [OF ex] obtain p A x s1 where p: "gv_proposals s i = Some p" "now h \<le> pr_voting_ends_at p"
    and add: "votes_added h i v A x s s1" and s': "s' = s1\<lparr>gv_proposals := (gv_proposals s)(i \<mapsto> add_votes v x p)\<rparr>"
    by blast
  from add have fr: "same_tables s s1" "same_proposals s s1" by (simp_all add: votes_added_def)
  have v: "votes_on j s' = votes_on j s1" "tally_ok j q s' = tally_ok j q s1" for j q
    by (simp_all add: s' votes_on_def tally_ok_def tally_def)
  have "numbering_inv s'" "index_inv s'" "delegation_inv s'" "config_inv s'"
    using inv p fr
    by (auto simp: gov_inv_def numbering_inv_def index_inv_def delegation_inv_def config_inv_def s'
        same_tables_def same_proposals_def status_index_def delegators_of_def)
  moreover have "tally_inv s'"
    unfolding tally_inv_def v
  proof
    fix j
    from inv have old: "case gv_proposals s j of None \<Rightarrow> votes_on j s = Map.empty | Some p \<Rightarrow> tally_ok j p s" for j
      by (simp add: gov_inv_def tally_inv_def)
    show "case gv_proposals s' j of None \<Rightarrow> votes_on j s1 = Map.empty | Some p \<Rightarrow> tally_ok j p s1"
    proof (cases "j = i")
      case True
      with votes_added_tally [OF add _ p(2)] old [of i] p(1) show ?thesis by (simp add: s')
    next
      case False
      with add have "votes_on j s1 = votes_on j s" by (simp add: votes_added_def)
      with old [of j] False show ?thesis
        by (cases "gv_proposals s j") (simp_all add: s' tally_ok_def tally_def)
    qed
  qed
  ultimately show ?thesis by (simp add: gov_inv_def)
qed

lemma delegation_inv_drop:
  assumes inv: "delegation_inv s" and d: "gv_delegation s' = (gv_delegation s)(a := None)"
    and l: "gv_delegators s' = (case gv_delegation s a of
          Some c \<Rightarrow> (gv_delegators s)(c \<mapsto> vec_without a (unwrap_or (gv_delegators s c) []))
        | None \<Rightarrow> gv_delegators s)"
  shows "delegation_inv s'"
proof -
  have "delegators_of b s' = (if gv_delegation s a = Some b then vec_without a (delegators_of b s) else delegators_of b s)" for b
    by (simp add: delegators_of_def l split: option.split)
  with inv d show ?thesis by (auto simp: delegation_inv_def distinct_vec_without)
qed

lemma delegation_inv_add:
  assumes inv: "delegation_inv s" and new: "gv_delegation s a = None" "gv_delegation s b = None" "a \<noteq> b"
      "delegators_of a s = []"
    and s': "gv_delegation s' = (gv_delegation s)(a \<mapsto> b)"
      "gv_delegators s' = (gv_delegators s)(b \<mapsto> delegators_of b s @ [a])"
  shows "delegation_inv s'"
proof -
  have d: "delegators_of c s' = (if c = b then delegators_of b s @ [a] else delegators_of c s)" for c
    by (simp add: delegators_of_def s'(2))
  have n: "gv_delegation s d \<noteq> Some a" for d
  proof -
    have "d \<notin> set (delegators_of a s)" by (simp add: new(4))
    with inv show ?thesis by (simp add: delegation_inv_def)
  qed
  have "a \<notin> set (delegators_of b s)" using inv new(1) by (auto simp: delegation_inv_def)
  with inv new n show ?thesis unfolding delegation_inv_def d s'(1) by auto
qed

lemma delegate_inv:
  assumes ex: "delegate h a b s = Inr s'" and inv: "delegation_inv s"
  shows "delegation_inv s'"
proof -
  let ?m = "case gv_delegation s a of Some c \<Rightarrow>
           (gv_delegators s)(c \<mapsto> vec_without a (unwrap_or (gv_delegators s c) [])) | None \<Rightarrow> gv_delegators s"
  let ?s = "s\<lparr>gv_delegation := (gv_delegation s)(a := None), gv_delegators := ?m\<rparr>"
  from delegate_InrD [OF ex] have a: "a \<noteq> b" "gv_delegation s b = None" "delegators_of a s = []"
    "gv_delegation s' = (gv_delegation s)(a \<mapsto> b)" "gv_delegators s' = ?m(b \<mapsto> unwrap_or (?m b) [] @ [a])"
    by (simp_all add: delegators_of_def Let_def)
  have "delegation_inv ?s" by (rule delegation_inv_drop [OF inv]) simp_all
  moreover have "delegators_of a ?s = []"
    using a(3) by (auto simp: delegators_of_def split: option.split)
  ultimately show ?thesis using delegation_inv_add [of ?s a b s'] a by (simp add: delegators_of_def)
qed

lemma gov_inv_delegation:
  assumes "same_proposals s s'" "gv_votes s' = gv_votes s" "gv_config s' = gv_config s"
    "gv_pending s' = gv_pending s" "gv_admin s' = gv_admin s" "delegation_inv s'" "gov_inv s"
  shows "gov_inv s'"
  using assms tally_inv_frame [of s' s]
  by (simp add: gov_inv_def same_proposals_def numbering_inv_def index_inv_def status_index_def config_inv_def)

lemma transition_steps:
  "finalize_proposal h i s = Inr s' \<Longrightarrow> \<exists>p st t. transition i p st t s s' \<and> proposal_step (pr_status p) st"
  "execute_proposal W h i s = Inr s' \<Longrightarrow> \<exists>p st t. transition i p st t s s' \<and> proposal_step (pr_status p) st"
  "cancel_proposal h a i s = Inr s' \<Longrightarrow> \<exists>p st t. transition i p st t s s' \<and> proposal_step (pr_status p) st"
  "expire_proposal h i s = Inr s' \<Longrightarrow> \<exists>p st t. transition i p st t s s' \<and> proposal_step (pr_status p) st"
  using finalize_proposal_InrD [of h i s s'] execute_proposal_InrD [of W h i s s']
    cancel_proposal_InrD [of h a i s s'] expire_proposal_InrD [of h i s s']
  by (fastforce split: if_splits)+

lemma transition_step_inv: "transition i p st t s s' \<Longrightarrow> proposal_step (pr_status p) st \<Longrightarrow> gov_inv s \<Longrightarrow> gov_inv s'"
  by (rule transition_inv) (auto elim: proposal_step.cases)

lemma gov_inv_init:
  assumes "governance_init h a c s = Inr s'" "gov_inv s"
  shows "gov_inv s'"
proof -
  from init_InrD [OF assms(1)] have s': "s' = s\<lparr>gv_admin := Some a, gv_config := Some c, gv_count := Some 0\<rparr>"
    and a: "gv_admin s = None" "validate_config c = Inr ()" by simp_all
  have "tally_inv s' = tally_inv s" by (rule tally_inv_frame) (simp_all add: s')
  with assms(2) a show ?thesis
    by (simp add: gov_inv_def numbering_inv_def index_inv_def delegation_inv_def config_inv_def s'
        status_index_def delegators_of_def)
qed

lemma gov_step_inv:
  assumes ex: "gv_exec W h op s = Inr s'" and inv: "gov_inv s"
  shows "gov_inv s'"
proof (cases op)
  case (GvInit a c)
  with ex gov_inv_init [OF _ inv] show ?thesis by simp
next
  case (CreateProposal a d act desc)
  with ex create_proposal_inv [OF _ inv] show ?thesis by (auto simp: bind_res_Inr)
next
  case (CastVote a i v)
  with ex cast_vote_inv [OF _ inv] show ?thesis by simp
next
  case (Delegate a b)
  with ex have *: "delegate h a b s = Inr s'" by simp
  have "delegation_inv s'" by (rule delegate_inv [OF *]) (use inv in \<open>simp add: gov_inv_def\<close>)
  with delegate_InrD [OF *] inv gov_inv_delegation show ?thesis by blast
next
  case (Revoke a)
  with ex have *: "revoke_delegation h a s = Inr s'" by simp
  from revoke_delegation_InrD [OF *] have "delegation_inv s'"
    by (intro delegation_inv_drop [of s s' a]) (use inv in \<open>simp_all add: gov_inv_def\<close>)
  with revoke_delegation_InrD [OF *] inv gov_inv_delegation show ?thesis by blast
next
  case (Finalize i)
  with ex transition_steps(1) [of h i s s'] transition_step_inv [OF _ _ inv] show ?thesis by auto
next
  case (Execute i)
  with ex transition_steps(2) [of W h i s s'] transition_step_inv [OF _ _ inv] show ?thesis by auto
next
  case (CancelProposal a i)
  with ex transition_steps(3) [of h a i s s'] transition_step_inv [OF _ _ inv] show ?thesis by auto
next
  case (Expire i)
  with ex transition_steps(4) [of h i s s'] transition_step_inv [OF _ _ inv] show ?thesis by auto
next
  case (QueueConfig a c)
  with ex config_ops_InrD(1) [of h a c s s'] inv same_votes_inv [OF _ _ _ inv, of s'] show ?thesis
    by (auto simp: gov_inv_def numbering_inv_def config_inv_def)
next
  case ExecuteConfig
  with ex have *: "execute_config_update h s = Inr s'" by simp
  from config_ops_InrD(2) [OF *] obtain pc where pc: "same_votes s s'" "gv_admin s' = gv_admin s"
    "gv_pending s = Some pc" "gv_config s' = Some (pc_new_config pc)" "gv_pending s' = None" by blast
  have "config_inv s'" using inv pc by (auto simp: gov_inv_def config_inv_def)
  moreover have "gv_admin s \<noteq> None" using inv pc(3) by (auto simp: gov_inv_def numbering_inv_def)
  ultimately show ?thesis by (intro same_votes_inv [OF pc(1,2) _ inv]) auto
next
  case (CancelConfig a)
  with ex config_ops_InrD(3) [of h a s s'] inv same_votes_inv [OF _ _ _ inv, of s'] show ?thesis
    by (auto simp: gov_inv_def numbering_inv_def config_inv_def)
next
  case (SetStaking a b)
  with ex other_ops_InrD(1) [of h a b s s'] inv same_votes_inv [OF _ _ _ inv, of s'] show ?thesis
    by (auto simp: gov_inv_def numbering_inv_def config_inv_def same_config_def)
next
  case (GvPause a)
  with ex other_ops_InrD(2) [of h a s s'] inv same_votes_inv [OF _ _ _ inv, of s'] show ?thesis
    by (auto simp: gov_inv_def numbering_inv_def config_inv_def same_config_def)
next
  case (GvUnpause a)
  with ex other_ops_InrD(3) [of h a s s'] inv same_votes_inv [OF _ _ _ inv, of s'] show ?thesis
    by (auto simp: gov_inv_def numbering_inv_def config_inv_def same_config_def)
qed

lemma gov_inv_world: "gov_inv s \<Longrightarrow> gov_inv (s\<lparr>gv_world := w\<rparr>)"
  using same_votes_inv [of s "s\<lparr>gv_world := w\<rparr>"]
  by (simp add: gov_inv_def numbering_inv_def config_inv_def same_votes_def same_proposals_def)

lemma gov_run_inv: "gv_run W s s' \<Longrightarrow> gov_inv s \<Longrightarrow> gov_inv s'"
proof (induction rule: gv_run.induct)
  case (gv_call s s1 h op s2)
  from gov_step_inv [OF gv_call.hyps(2)] gv_call.IH gv_call.prems show ?case by simp
next
  case (gv_env s s1 w)
  from gov_inv_world gv_env.IH gv_env.prems show ?case by simp
qed simp

lemma gov_reach_inv: "gv_run W (governance_empty w) s \<Longrightarrow> gov_inv s"
  by (rule gov_run_inv [OF _ gov_inv_empty])

lemma gv_run_trans: "gv_run W s1 s2 \<Longrightarrow> gv_run W s0 s1 \<Longrightarrow> gv_run W s0 s2"
proof (induction rule: gv_run.induct)
  case (gv_call s s1 h op s2)
  then show ?case using gv_run.gv_call [of W s0 s1 h op s2] by blast
next
  case (gv_env s s1 w)
  then show ?case using gv_run.gv_env [of W s0 s1 w] by blast
qed

section \<open>How one call changes a proposal\<close>

definition same_terms :: "proposal \<Rightarrow> proposal \<Rightarrow> bool" where
  "same_terms p q \<longleftrightarrow> pr_id q = pr_id p \<and> pr_proposer q = pr_proposer p \<and> pr_deposit q = pr_deposit p
     \<and> pr_action q = pr_action p \<and> pr_description q = pr_description p \<and> pr_created_at q = pr_created_at p
     \<and> pr_voting_ends_at q = pr_voting_ends_at p"

definition same_tally :: "proposal \<Rightarrow> proposal \<Rightarrow> bool" where
  "same_tally p q \<longleftrightarrow> pr_votes_for q = pr_votes_for p \<and> pr_votes_against q = pr_votes_against p
     \<and> pr_votes_abstain q = pr_votes_abstain p"

text \<open>The operations that change the entry of a proposal that exists.\<close>

definition proposal_change :: "'w gov_env \<Rightarrow> host \<Rightarrow> gv_op \<Rightarrow> nat \<Rightarrow> proposal \<Rightarrow> proposal \<Rightarrow> 'w governance \<Rightarrow> 'w governance \<Rightarrow> bool" where
  "proposal_change W h op i p q s s' \<longleftrightarrow>
     q = p
   \<or> (\<exists>a v x. op = CastVote a i v \<and> pr_status p = Active \<and> now h \<le> pr_voting_ends_at p \<and> q = add_votes v x p)
   \<or> (\<exists>st t. q = p\<lparr>pr_status := st, pr_timelock_ends_at := t\<rparr> \<and>
        (\<exists>c. op = Finalize i \<and> pr_status p = Active \<and> pr_voting_ends_at p < now h \<and> gv_config s = Some c
             \<and> (proposal_passes p c = Inr True \<and> st = Queued \<and> t = now h + gc_timelock_seconds c
                \<or> proposal_passes p c = Inr False \<and> st = Defeated \<and> t = pr_timelock_ends_at p)
         \<or> op = Execute i \<and> pr_status p = Queued \<and> pr_timelock_ends_at p \<le> now h \<and> st = Executed
             \<and> t = pr_timelock_ends_at p
         \<or> op = CancelProposal (pr_proposer p) i \<and> authorized h (pr_proposer p) \<and> pr_status p = Active
             \<and> st = Cancelled \<and> t = pr_timelock_ends_at p
         \<or> op = Expire i \<and> st = Expired \<and> t = pr_timelock_ends_at p
             \<and> (pr_status p = Active \<and> pr_voting_ends_at p + 604800 < now h
                \<or> pr_status p = Queued \<and> pr_timelock_ends_at p + 604800 < now h)))"

lemma proposal_change_same: "proposal_change W h op i p p s s'"
  by (simp add: proposal_change_def)

lemma same_votes_proposals: "same_votes s s' \<Longrightarrow> gv_proposals s' = gv_proposals s"
  by (simp add: same_votes_def same_proposals_def)

lemma transition_other:
  "transition j p st t s s' \<Longrightarrow> gv_proposals s' i = (if i = j then Some (p\<lparr>pr_status := st, pr_timelock_ends_at := t\<rparr>)
     else gv_proposals s i) \<and> gv_proposals s j = Some p"
  by (simp add: transition_def)

lemma transition_changes:
  assumes t: "transition j p' st t s s'" and old: "gv_proposals s i = Some p"
    and change: "proposal_change W h op j p' (p'\<lparr>pr_status := st, pr_timelock_ends_at := t\<rparr>) s s'"
  shows "\<exists>q. gv_proposals s' i = Some q \<and> proposal_change W h op i p q s s'"
  using transition_other [OF t, of i] old change proposal_change_same by (cases "i = j") auto

lemma proposal_step_change:
  assumes ex: "gv_exec W h op s = Inr s'" and inv: "gov_inv s" and old: "gv_proposals s i = Some p"
  shows "\<exists>q. gv_proposals s' i = Some q \<and> proposal_change W h op i p q s s'"
proof -
  have keep: ?thesis if "gv_proposals s' i = gv_proposals s i" using that old proposal_change_same by fastforce
  show ?thesis
  proof (cases op)
    case (CreateProposal a d act desc)
    with ex obtain j where c: "create_proposal h a d act desc s = Inr (j, s')" by (auto simp: bind_res_Inr)
    then have j: "j = unwrap_or (gv_count s) 0" using create_proposal_InrD by blast
    have "i < unwrap_or (gv_count s) 0" using inv old unfolding gov_inv_def numbering_inv_def by blast
    then have "gv_proposals s' i = gv_proposals s i" using create_proposal_InrD [OF c] j by auto
    then show ?thesis by (rule keep)
  next
    case (CastVote a j v)
    with ex have c: "cast_vote W h a j v s = Inr s'" by simp
    from cast_vote_InrD [OF c] obtain p' x s1 where p': "gv_proposals s j = Some p'" "pr_status p' = Active"
      "now h \<le> pr_voting_ends_at p'" "s' = s1\<lparr>gv_proposals := (gv_proposals s)(j \<mapsto> add_votes v x p')\<rparr>" by blast
    with CastVote old keep show ?thesis by (cases "j = i") (auto simp: proposal_change_def)
  next
    case (Finalize j)
    with ex have c: "finalize_proposal h j s = Inr s'" by simp
    from finalize_proposal_InrD [OF c] obtain p' cf passed st t where p': "pr_status p' = Active"
      "gv_config s = Some cf" "pr_voting_ends_at p' < now h" "proposal_passes p' cf = Inr passed"
      "passed \<and> st = Queued \<and> t = now h + gc_timelock_seconds cf
         \<or> \<not> passed \<and> st = Defeated \<and> t = pr_timelock_ends_at p'" and tr: "transition j p' st t s s'"
      by (auto split: if_splits)
    from p' Finalize show ?thesis by (intro transition_changes [OF tr old]) (auto simp: proposal_change_def)
  next
    case (Execute j)
    with ex have c: "execute_proposal W h j s = Inr s'" by simp
    from execute_proposal_InrD [OF c] obtain p' where p': "pr_status p' = Queued" "pr_timelock_ends_at p' \<le> now h"
      and tr: "transition j p' Executed (pr_timelock_ends_at p') s s'" by blast
    from p' Execute show ?thesis by (intro transition_changes [OF tr old]) (auto simp: proposal_change_def)
  next
    case (CancelProposal a j)
    with ex have c: "cancel_proposal h a j s = Inr s'" by simp
    from cancel_proposal_InrD [OF c] obtain p' where p': "pr_status p' = Active" "pr_proposer p' = a" "authorized h a"
      and tr: "transition j p' Cancelled (pr_timelock_ends_at p') s s'" by blast
    from p' CancelProposal show ?thesis by (intro transition_changes [OF tr old]) (auto simp: proposal_change_def)
  next
    case (Expire j)
    with ex have c: "expire_proposal h j s = Inr s'" by simp
    from expire_proposal_InrD [OF c] obtain p' where p':
      "pr_status p' = Active \<and> pr_voting_ends_at p' + 604800 < now h
         \<or> pr_status p' = Queued \<and> pr_timelock_ends_at p' + 604800 < now h"
      and tr: "transition j p' Expired (pr_timelock_ends_at p') s s'"
      unfolding PROPOSAL_EXECUTION_WINDOW_def by blast
    from p' Expire show ?thesis by (intro transition_changes [OF tr old]) (auto simp: proposal_change_def)
  next
    case (GvInit a c)
    with ex init_InrD [of h a c s s'] keep show ?thesis by simp
  qed (use ex keep delegate_InrD revoke_delegation_InrD config_ops_InrD other_ops_InrD
      in \<open>auto simp: same_proposals_def dest!: delegate_InrD revoke_delegation_InrD config_ops_InrD
        other_ops_InrD same_votes_proposals\<close>)
qed

lemma proposal_new:
  assumes ex: "gv_exec W h op s = Inr s'" and new: "gv_proposals s i = None" "gv_proposals s' i = Some q"
  shows "pr_status q = Active"
proof -
  have tr: False if "transition j p st t s s'" for j p st t
    using transition_other [OF that, of i] new by (auto split: if_splits)
  show ?thesis
  proof (cases op)
  case (CreateProposal a d act desc)
  with ex obtain j where c: "create_proposal h a d act desc s = Inr (j, s')" by (auto simp: bind_res_Inr)
  from create_proposal_InrD [OF c] new show ?thesis by (auto split: if_splits)
next
  case (CastVote a j v)
  with ex have c: "cast_vote W h a j v s = Inr s'" by simp
  from cast_vote_InrD [OF c] new show ?thesis by (auto split: if_splits)
next
  case (Finalize j)
  with ex transition_steps(1) [of h j s s'] tr show ?thesis by auto
next
  case (Execute j)
  with ex transition_steps(2) [of W h j s s'] tr show ?thesis by auto
next
  case (CancelProposal a j)
  with ex transition_steps(3) [of h a j s s'] tr show ?thesis by auto
next
  case (Expire j)
  with ex transition_steps(4) [of h j s s'] tr show ?thesis by auto
next
  case (GvInit a c)
  with ex init_InrD [of h a c s s'] new show ?thesis by simp
qed (use ex new in \<open>auto simp: same_proposals_def dest!: delegate_InrD revoke_delegation_InrD config_ops_InrD
        other_ops_InrD same_votes_proposals\<close>)
qed

section \<open>What happened before a proposal was queued or the configuration changed\<close>

lemma queued_history:
  "gv_run W s0 s \<Longrightarrow> gov_inv s0 \<Longrightarrow> gv_proposals s0 i = None \<Longrightarrow> gv_proposals s i = Some p \<Longrightarrow>
     pr_status p = Queued \<Longrightarrow>
     \<exists>s1 s2 h c p1. gv_run W s0 s1 \<and> finalize_proposal h i s1 = Inr s2 \<and> gv_run W s2 s
       \<and> gv_config s1 = Some c \<and> gv_proposals s1 i = Some p1 \<and> proposal_passes p1 c = Inr True
       \<and> pr_voting_ends_at p1 < now h
       \<and> p = p1\<lparr>pr_status := Queued, pr_timelock_ends_at := now h + gc_timelock_seconds c\<rparr>"
proof (induction arbitrary: p rule: gv_run.induct)
  case (gv_call s0 s1 h op s2)
  have inv: "gov_inv s1" using gov_run_inv gv_call.hyps(1) gv_call.prems(1) .
  show ?case
  proof (cases "gv_proposals s1 i")
    case None
    from proposal_new [OF gv_call.hyps(2) None gv_call.prems(3)] gv_call.prems(4) show ?thesis by simp
  next
    case (Some p1)
    from proposal_step_change [OF gv_call.hyps(2) inv Some] gv_call.prems(3)
    have ch: "proposal_change W h op i p1 p s1 s2" by simp
    show ?thesis
    proof (cases "p = p1")
      case True
      with gv_call.IH [OF gv_call.prems(1,2) Some] gv_call.prems(4) gv_run.gv_call [OF _ gv_call.hyps(2)]
      show ?thesis by blast
    next
      case False
      with ch gv_call.prems(4) obtain c where c: "op = Finalize i" "pr_voting_ends_at p1 < now h"
        "gv_config s1 = Some c" "proposal_passes p1 c = Inr True"
        "p = p1\<lparr>pr_status := Queued, pr_timelock_ends_at := now h + gc_timelock_seconds c\<rparr>"
        by (auto simp: proposal_change_def)
      with gv_call.hyps Some gv_refl [of W s2] show ?thesis
        by (intro exI [of _ s1] exI [of _ s2] exI [of _ h] exI [of _ c] exI [of _ p1]) simp
    qed
  qed
next
  case (gv_env s0 s1 w)
  from gv_env.prems(3) have "gv_proposals s1 i = Some p" by simp
  from gv_env.IH [OF gv_env.prems(1,2) this gv_env.prems(4)] gv_run.gv_env [of W _ s1 w] show ?case by blast
qed simp

lemma config_step:
  assumes ex: "gv_exec W h op s = Inr s'"
  shows "(gv_config s' = gv_config s \<and> gv_pending s' = gv_pending s)
    \<or> (\<exists>a c. op = GvInit a c \<and> gv_admin s = None \<and> gv_pending s' = gv_pending s)
    \<or> (\<exists>a c. queue_config_update h a c s = Inr s' \<and> op = QueueConfig a c)
    \<or> (execute_config_update h s = Inr s' \<and> op = ExecuteConfig)
    \<or> (gv_config s' = gv_config s \<and> gv_pending s' = None)"
proof (cases op)
  case (GvInit a c)
  with ex init_InrD [of h a c s s'] show ?thesis by simp
next
  case (CreateProposal a d act desc)
  with ex obtain j where c: "create_proposal h a d act desc s = Inr (j, s')" by (auto simp: bind_res_Inr)
  from create_proposal_InrD [OF c] show ?thesis by (auto simp: same_tables_def)
next
  case (CastVote a j v)
  with ex have c: "cast_vote W h a j v s = Inr s'" by simp
  from cast_vote_InrD [OF c] show ?thesis by (auto simp: votes_added_def same_tables_def)
next
  case (Finalize j)
  with ex transition_steps(1) [of h j s s'] show ?thesis by (auto simp: transition_def same_tables_def)
next
  case (Execute j)
  with ex transition_steps(2) [of W h j s s'] show ?thesis by (auto simp: transition_def same_tables_def)
next
  case (CancelProposal a j)
  with ex transition_steps(3) [of h a j s s'] show ?thesis by (auto simp: transition_def same_tables_def)
next
  case (Expire j)
  with ex transition_steps(4) [of h j s s'] show ?thesis by (auto simp: transition_def same_tables_def)
qed (use ex in \<open>auto simp: same_config_def dest!: delegate_InrD revoke_delegation_InrD config_ops_InrD(3)
        other_ops_InrD\<close>)

lemma pending_history:
  "gv_run W s0 s \<Longrightarrow> gv_pending s0 = None \<Longrightarrow> gv_pending s = Some pc \<Longrightarrow>
     \<exists>s1 s2 h a. gv_run W s0 s1 \<and> queue_config_update h a (pc_new_config pc) s1 = Inr s2 \<and> gv_run W s2 s
       \<and> gv_admin s1 = Some a \<and> authorized h a \<and> pc_executable_at pc = now h + 172800"
proof (induction arbitrary: pc rule: gv_run.induct)
  case (gv_call s0 s1 h op s2)
  have old: ?case if "gv_pending s1 = Some pc"
    using gv_call.IH [OF gv_call.prems(1) that] gv_run.gv_call [OF _ gv_call.hyps(2)] by blast
  from config_step [OF gv_call.hyps(2)] gv_call.prems(2) config_ops_InrD(2) [of h s1 s2]
  consider "gv_pending s1 = Some pc" | a c where "queue_config_update h a c s1 = Inr s2" by auto
  then show ?case
  proof cases
    case 2
    with config_ops_InrD(1) [OF 2] gv_call.prems(2) have q: "c = pc_new_config pc" "gv_admin s1 = Some a"
      "authorized h a" "pc_executable_at pc = now h + 172800" by auto
    with 2 gv_call.hyps(1) gv_refl [of W s2] show ?thesis
      by (intro exI [of _ s1] exI [of _ s2] exI [of _ h] exI [of _ a]) simp
  qed (rule old)
next
  case (gv_env s0 s1 w)
  from gv_env.prems(2) have "gv_pending s1 = Some pc" by simp
  from gv_env.IH [OF gv_env.prems(1) this] gv_run.gv_env [of W _ s1 w] show ?case by blast
qed simp

section \<open>The queries and the vote count\<close>

lemma get_proposals_loop_take:
  "\<forall>i\<in>set ids. gv_proposals s i \<noteq> None \<Longrightarrow>
     get_proposals_loop s ids n out = out @ take (n - length out) (map (\<lambda>i. the (gv_proposals s i)) ids)"
proof (induction ids arbitrary: out)
  case (Cons i ids)
  then obtain p where p: "gv_proposals s i = Some p" by auto
  show ?case
  proof (cases "length out < n")
    case True
    then have "n - length out = Suc (n - Suc (length out))" by simp
    with Cons p True show ?thesis by simp
  qed simp
qed simp

lemma le_div_int_iff: "0 < d \<Longrightarrow> (t::int) \<le> x div d \<longleftrightarrow> t * d \<le> x"
proof
  assume "0 < d" "t \<le> x div d"
  then have "t * d \<le> x div d * d" by (simp add: mult_right_mono)
  also have "\<dots> \<le> x" using div_mult_mod_eq [of x d] pos_mod_sign [of d x] \<open>0 < d\<close> by linarith
  finally show "t * d \<le> x" .
next
  assume "0 < d" "t * d \<le> x"
  then show "t \<le> x div d" using zdiv_mono1 [of "t * d" x d] by simp
qed

section \<open>The source of the voting power\<close>

text \<open>
  What governance relies on when the admin has set a staking contract: asking for a voting power tells
  the weight of the account, changes no weight, and weights are not negative.
\<close>

locale vote_source =
  fixes power :: "'w \<Rightarrow> addr \<Rightarrow> addr \<Rightarrow> (int \<times> 'w) option"
    and weight_of :: "'w \<Rightarrow> addr \<Rightarrow> addr \<Rightarrow> int"
    and ok :: "'w \<Rightarrow> addr \<Rightarrow> bool"
  assumes power_weight: "ok w c \<Longrightarrow> power w c a = Some (p, w') \<Longrightarrow>
      p = weight_of w c a \<and> ok w' c \<and> (\<forall>b. weight_of w' c b = weight_of w c b)"
    and weight_nonneg: "ok w c \<Longrightarrow> 0 \<le> weight_of w c a"
begin

lemma get_vote_power_weight:
  assumes "get_vote_power W a s = Inr (p, s')" "ge_power W = power" "gv_staking s = Some c" "ok (gv_world s) c"
  shows "p = weight_of (gv_world s) c a \<and> 0 \<le> p \<and> gv_staking s' = Some c \<and> ok (gv_world s') c
    \<and> (\<forall>b. weight_of (gv_world s') c b = weight_of (gv_world s) c b)"
proof -
  from assms(1-3) obtain w where w: "power (gv_world s) c a = Some (p, w)" "s' = s\<lparr>gv_world := w\<rparr>"
    by (auto simp: get_vote_power_def res_simps)
  from power_weight [OF assms(4) w(1)] weight_nonneg [OF assms(4)] w(2) assms(3) show ?thesis by simp
qed

lemma record_vote_world [simp]:
  "gv_world (record_vote h i v a p s) = gv_world s" "gv_staking (record_vote h i v a p s) = gv_staking s"
  by (simp_all add: record_vote_def)

lemma delegators_loop_weight:
  "delegators_loop W h i v ds x s = Inr (y, s') \<Longrightarrow> ge_power W = power \<Longrightarrow> gv_staking s = Some c \<Longrightarrow>
     ok (gv_world s) c \<Longrightarrow> x \<le> y \<and> (\<forall>a r. votes_on i s' a = Some r \<longrightarrow>
       votes_on i s a = Some r \<or> vr_power r = weight_of (gv_world s) c a)"
proof (induction ds arbitrary: x s)
  case (Cons d ds)
  show ?case
  proof (cases "gv_votes s (i, d)")
    case (Some r)
    with Cons.prems have "delegators_loop W h i v ds x s = Inr (y, s')" by simp
    from Cons.IH [OF this Cons.prems(2-4)] show ?thesis .
  next
    case None
    with Cons.prems obtain p s1 where p: "get_vote_power W d s = Inr (p, s1)"
      and rest: "delegators_loop W h i v ds (x + p) (record_vote h i v d p s1) = Inr (y, s')"
      by (auto simp: res_simps)
    from get_vote_power_weight [OF p Cons.prems(2-4)] have w: "p = weight_of (gv_world s) c d" "0 \<le> p"
      "gv_staking s1 = Some c" "ok (gv_world s1) c"
      "\<And>b. weight_of (gv_world s1) c b = weight_of (gv_world s) c b" by simp_all
    have v: "votes_on i s1 = votes_on i s" using get_vote_power_InrD [OF p] by (simp add: votes_on_def)
    from Cons.IH [OF rest Cons.prems(2)] w(3-5) have IH: "x + p \<le> y"
      "\<And>a r. votes_on i s' a = Some r \<Longrightarrow> votes_on i (record_vote h i v d p s1) a = Some r
         \<or> vr_power r = weight_of (gv_world s) c a" by simp_all
    have "votes_on i s a = Some r \<or> vr_power r = weight_of (gv_world s) c a" if "votes_on i s' a = Some r" for a r
      using IH(2) [OF that] w(1) by (auto simp: votes_on_record v split: if_splits)
    with IH(1) w(2) show ?thesis by simp
  qed
qed simp

lemma cast_vote_weight:
  assumes ex: "cast_vote W h a i v s = Inr s'" and W: "ge_power W = power" "gv_staking s = Some c" "ok (gv_world s) c"
  shows "\<forall>b r. votes_on i s' b = Some r \<longrightarrow> votes_on i s b = Some r \<or> vr_power r = weight_of (gv_world s) c b"
    and "\<exists>p x. gv_proposals s i = Some p \<and> gv_proposals s' i = Some (add_votes v x p) \<and> 0 \<le> x"
proof -
  from cast_vote_parts [OF ex] obtain p q s0 x s1 where p: "gv_proposals s i = Some p"
    and q: "get_vote_power W a s = Inr (q, s0)"
    and x: "delegators_loop W h i v (unwrap_or (gv_delegators (record_vote h i v a q s0) a) []) q
        (record_vote h i v a q s0) = Inr (x, s1)"
    and s': "s' = s1\<lparr>gv_proposals := (gv_proposals s1)(i \<mapsto> add_votes v x p)\<rparr>" by blast
  from get_vote_power_weight [OF q W] have w: "q = weight_of (gv_world s) c a" "0 \<le> q"
      "gv_staking s0 = Some c" "ok (gv_world s0) c"
      "\<And>b. weight_of (gv_world s0) c b = weight_of (gv_world s) c b" by simp_all
  from delegators_loop_weight [OF x W(1)] w(3-5) have l: "q \<le> x"
    "\<And>a' r. votes_on i s1 a' = Some r \<Longrightarrow> votes_on i (record_vote h i v a q s0) a' = Some r
         \<or> vr_power r = weight_of (gv_world s) c a'" by simp_all
  have v: "votes_on i s0 = votes_on i s" using get_vote_power_InrD [OF q] by (simp add: votes_on_def)
  show "\<forall>b r. votes_on i s' b = Some r \<longrightarrow> votes_on i s b = Some r \<or> vr_power r = weight_of (gv_world s) c b"
  proof (intro allI impI)
    fix b r assume "votes_on i s' b = Some r"
    then have "votes_on i s1 b = Some r" by (simp add: s' votes_on_def)
    from l(2) [OF this] w(1) show "votes_on i s b = Some r \<or> vr_power r = weight_of (gv_world s) c b"
      by (auto simp: votes_on_record v split: if_splits)
  qed
  show "\<exists>p x. gv_proposals s i = Some p \<and> gv_proposals s' i = Some (add_votes v x p) \<and> 0 \<le> x"
    using p l(1) w(2) by (auto simp: s')
qed

end

text \<open>The staking contract is such a source as long as no position is negative.\<close>

definition staking_power :: "(addr \<Rightarrow> 'l staking) \<Rightarrow> addr \<Rightarrow> addr \<Rightarrow> (int \<times> (addr \<Rightarrow> 'l staking)) option" where
  "staking_power w c a = (case get_voting_power a (w c) of (p, k) \<Rightarrow> Some (p, w(c := k)))"

definition stake_weight :: "(addr \<Rightarrow> 'l staking) \<Rightarrow> addr \<Rightarrow> addr \<Rightarrow> int" where
  "stake_weight w c a = (case sk_stake (w c) a of None \<Rightarrow> 0 | Some p \<Rightarrow> sp_voting_power p)"

definition powers_ok :: "(addr \<Rightarrow> 'l staking) \<Rightarrow> addr \<Rightarrow> bool" where
  "powers_ok w c \<longleftrightarrow> (\<forall>p\<in>ran (sk_stake (w c)). 0 \<le> sp_voting_power p)"

interpretation staked: vote_source staking_power stake_weight powers_ok
proof
  fix w :: "addr \<Rightarrow> 'l staking" and c a p w'
  assume "powers_ok w c" "staking_power w c a = Some (p, w')"
  then show "p = stake_weight w c a \<and> powers_ok w' c \<and> (\<forall>b. stake_weight w' c b = stake_weight w c b)"
    by (auto simp: staking_power_def get_voting_power_def stake_weight_def powers_ok_def split: option.splits if_splits)
next
  fix w :: "addr \<Rightarrow> 'l staking" and c a
  assume "powers_ok w c"
  then show "0 \<le> stake_weight w c a" by (auto simp: stake_weight_def powers_ok_def ran_def split: option.splits)
qed

section \<open>How a proposal evolves\<close>

definition evolves :: "proposal \<Rightarrow> proposal \<Rightarrow> bool" where
  "evolves p q \<longleftrightarrow> same_terms p q \<and> pr_status p \<le> pr_status q
     \<and> (pr_status p \<noteq> Active \<longrightarrow> same_tally p q \<and> pr_timelock_ends_at q = pr_timelock_ends_at p)
     \<and> (pr_status p \<noteq> Active \<and> pr_status p \<noteq> Queued \<longrightarrow> q = p)"

lemma proposal_change_evolves: "proposal_change W h op i p q s s' \<Longrightarrow> evolves p q"
  by (auto simp: proposal_change_def evolves_def same_terms_def same_tally_def less_eq_proposal_status_def)

lemma active_is_first: "(a :: proposal_status) \<le> Active \<Longrightarrow> a = Active"
  by (simp add: less_eq_proposal_status_def)

lemma evolves_trans: "evolves p q \<Longrightarrow> evolves q r \<Longrightarrow> evolves p r"
  using active_is_first [of "pr_status p"] order_trans [of "pr_status p" "pr_status q" "pr_status r"]
  by (cases "pr_status p = Active") (auto simp: evolves_def same_terms_def same_tally_def)

lemma run_evolves:
  "gv_run W s s' \<Longrightarrow> gov_inv s \<Longrightarrow> gv_proposals s i = Some p \<Longrightarrow> \<exists>q. gv_proposals s' i = Some q \<and> evolves p q"
proof (induction rule: gv_run.induct)
  case (gv_refl s)
  then show ?case by (auto simp: evolves_def same_terms_def same_tally_def)
next
  case (gv_call s s1 h op s2)
  from gv_call.IH [OF gv_call.prems] obtain q where q: "gv_proposals s1 i = Some q" "evolves p q" by blast
  from proposal_step_change [OF gv_call.hyps(2) gov_run_inv [OF gv_call.hyps(1) gv_call.prems(1)] q(1)]
  show ?case using proposal_change_evolves evolves_trans [OF q(2)] by blast
next
  case (gv_env s s1 w)
  then show ?case by simp
qed

lemma proposal_passes_same:
  "proposal_passes (p\<lparr>pr_status := st, pr_timelock_ends_at := t\<rparr>) c = proposal_passes p c"
  by (simp add: proposal_passes_def cong: if_cong)

lemma count_list_distinct: "distinct xs \<Longrightarrow> count_list xs x = (if x \<in> set xs then 1 else 0)"
  by (induction xs) auto

section \<open>Properties\<close>

text \<open>
  C2: In every state governance can reach, by any sequence of calls of anybody, the three counters of
  every proposal are exactly the sums of the powers of the vote records stored for it, there is at most
  one record per account (each naming its own account), and no record is later than the end of voting.
\<close>

theorem tallies_are_sums_of_votes:
  assumes run: "gv_run W (governance_empty w) s" and p: "get_proposal i s = Inr p"
  shows "pr_votes_for p = tally For i s \<and> pr_votes_against p = tally Against i s
    \<and> pr_votes_abstain p = tally Abstain i s \<and> finite (dom (votes_on i s))
    \<and> (\<forall>a r. get_vote i a s = Some r \<longrightarrow> vr_voter r = a \<and> vr_timestamp r \<le> pr_voting_ends_at p)"
proof -
  from gov_reach_inv [OF run] have "tally_inv s" by (simp add: gov_inv_def)
  moreover from p have "gv_proposals s i = Some p" by (simp add: get_proposal_def ok_or_Inr)
  ultimately have "tally_ok i p s" unfolding tally_inv_def by (auto split: option.splits)
  then show ?thesis by (simp add: tally_ok_def get_vote_def votes_on_def)
qed

text \<open>
  C3: The life of a proposal. Whatever is called after it exists, it stays stored with its terms
  (proposer, deposit, action, description, times) unchanged; its status moves only along Active to
  Queued, Defeated, Cancelled or Expired and from Queued to Executed or Expired; once it is not Active
  its counters and its timelock never change; and once it is neither Active nor Queued, nothing does.
\<close>

theorem proposal_life_cycle:
  assumes reach: "gv_run W (governance_empty w) s" and run: "gv_run W s s'" and p: "get_proposal i s = Inr p"
  shows "\<exists>q. get_proposal i s' = Inr q \<and> same_terms p q \<and> proposal_step\<^sup>*\<^sup>* (pr_status p) (pr_status q)
    \<and> (pr_status p \<noteq> Active \<longrightarrow> same_tally p q \<and> pr_timelock_ends_at q = pr_timelock_ends_at p)
    \<and> (pr_status p \<noteq> Active \<and> pr_status p \<noteq> Queued \<longrightarrow> q = p)"
  using run_evolves [OF run gov_reach_inv [OF reach], of i p] p
  by (auto simp: get_proposal_def ok_or_Inr evolves_def proposal_steps_le)

text \<open>
  C1: No execution without a vote and a delay. When a proposal is executed, there was an earlier call
  that finalized it after the end of its voting, its final counters pass under the configuration of
  that moment, and that configuration's timelock has elapsed since; the call that is made is exactly
  the stored action, whose terms never changed.
\<close>

theorem execution_follows_vote_and_timelock:
  assumes run: "gv_run W (governance_empty w) s" and ex: "execute_proposal W h i s = Inr s'"
  shows "\<exists>p s1 s2 h1 c. get_proposal i s = Inr p \<and> gv_run W (governance_empty w) s1
    \<and> finalize_proposal h1 i s1 = Inr s2 \<and> gv_run W s2 s \<and> get_config s1 = Inr c
    \<and> pr_voting_ends_at p < now h1 \<and> proposal_passes p c = Inr True
    \<and> now h1 + gc_timelock_seconds c \<le> now h
    \<and> ge_invoke W (gv_world s) (pa_target (pr_action p)) (pa_method (pr_action p)) (pa_args (pr_action p))
        = Some (gv_world s')"
proof -
  from execute_proposal_InrD [OF ex] obtain p where p: "pr_status p = Queued" "pr_timelock_ends_at p \<le> now h"
    "ge_invoke W (gv_world s) (pa_target (pr_action p)) (pa_method (pr_action p)) (pa_args (pr_action p))
        = Some (gv_world s')" "gv_proposals s i = Some p"
    by (auto simp: transition_def)
  have "gv_proposals (governance_empty w) i = None" by (simp add: governance_empty_def)
  from queued_history [OF run gov_inv_empty this p(4,1)] obtain s1 s2 h1 c p1 where hist:
    "gv_run W (governance_empty w) s1" "finalize_proposal h1 i s1 = Inr s2" "gv_run W s2 s"
    "gv_config s1 = Some c" "proposal_passes p1 c = Inr True" "pr_voting_ends_at p1 < now h1"
    "p = p1\<lparr>pr_status := Queued, pr_timelock_ends_at := now h1 + gc_timelock_seconds c\<rparr>" by blast
  from hist(5,7) have "proposal_passes p c = Inr True" by (simp add: proposal_passes_same)
  with hist p show ?thesis
    by (intro exI [of _ p] exI [of _ s1] exI [of _ s2] exI [of _ h1] exI [of _ c])
      (simp add: get_proposal_def get_config_def)
qed


text \<open>
  C27: Parameter changes wait 48 hours. Whenever a call changes a configuration that is in force, it is the
  execution of a queued update, and there is an earlier call in which the admin of that moment,
  authorized, queued exactly this valid configuration at least 172800 seconds before.
\<close>

theorem config_changes_wait_48_hours:
  assumes run: "gv_run W (governance_empty w) s" and ex: "gv_exec W h op s = Inr s'"
    and change: "get_config s = Inr c" "get_config s' \<noteq> Inr c"
  shows "op = ExecuteConfig \<and> (\<exists>s1 s2 h1 a c'. gv_run W (governance_empty w) s1
    \<and> queue_config_update h1 a c' s1 = Inr s2 \<and> gv_run W s2 s \<and> gv_admin s1 = Some a \<and> authorized h1 a
    \<and> now h1 + 172800 \<le> now h \<and> get_config s' = Inr c' \<and> validate_config c' = Inr ())"
proof -
  from change(1) have c: "gv_config s = Some c" by (simp add: get_config_def ok_or_Inr)
  from gov_reach_inv [OF run] have inv: "numbering_inv s" "config_inv s" by (simp_all add: gov_inv_def)
  from c inv(1) have a: "gv_admin s \<noteq> None" by (auto simp: numbering_inv_def)
  have "gv_config s' \<noteq> gv_config s" using change c by (auto simp: get_config_def)
  with config_step [OF ex] a config_ops_InrD(1) [of h _ _ s s']
  have e: "execute_config_update h s = Inr s'" "op = ExecuteConfig" by blast+
  from config_ops_InrD(2) [OF e(1)] obtain pc where pc: "gv_pending s = Some pc" "pc_executable_at pc \<le> now h"
    "gv_config s' = Some (pc_new_config pc)" by blast
  have "gv_pending (governance_empty w) = None" by (simp add: governance_empty_def)
  from pending_history [OF run this pc(1)] obtain s1 s2 h1 a where hist:
    "gv_run W (governance_empty w) s1" "queue_config_update h1 a (pc_new_config pc) s1 = Inr s2" "gv_run W s2 s"
    "gv_admin s1 = Some a" "authorized h1 a" "pc_executable_at pc = now h1 + 172800" by blast
  moreover have "validate_config (pc_new_config pc) = Inr ()" using inv(2) pc(1) by (simp add: config_inv_def)
  ultimately show ?thesis using e(2) pc
    by (intro conjI exI [of _ s1] exI [of _ s2] exI [of _ h1] exI [of _ a] exI [of _ "pc_new_config pc"])
      (simp_all add: get_config_def)
qed

text \<open>
  The status index answers queries exactly: a query with a limit returns, without repetition, the
  proposals stored under the status in index order up to the limit, each with that status now; with a
  limit at least their number it returns all of them.
\<close>

theorem status_index_exact:
  assumes run: "gv_run W (governance_empty w) s"
  shows "map pr_id (get_proposals st n s) = take n (status_index st s) \<and> distinct (status_index st s)
    \<and> (\<forall>p\<in>set (get_proposals st n s). pr_status p = st \<and> get_proposal (pr_id p) s = Inr p)
    \<and> (length (status_index st s) \<le> n \<longrightarrow>
         pr_id ` set (get_proposals st n s) = {i. \<exists>p. get_proposal i s = Inr p \<and> pr_status p = st})"
proof -
  from gov_reach_inv [OF run] have ix: "distinct (status_index st s)"
    "\<And>i. i \<in> set (status_index st s) \<longleftrightarrow> (\<exists>p. gv_proposals s i = Some p \<and> pr_status p = st)"
    and num: "\<And>i p. gv_proposals s i = Some p \<Longrightarrow> pr_id p = i"
    by (auto simp: gov_inv_def index_inv_def numbering_inv_def)
  let ?f = "\<lambda>i. the (gv_proposals s i)"
  have g: "get_proposals st n s = map ?f (take n (status_index st s))"
    using get_proposals_loop_take [of "status_index st s" s n "[]"] ix(2)
    by (simp add: get_proposals_def status_index_def take_map) blast
  have f: "pr_id (?f i) = i \<and> pr_status (?f i) = st \<and> gv_proposals s i = Some (?f i)"
    if "i \<in> set (take n (status_index st s))" for i
    using in_set_takeD [OF that] ix(2) num by auto
  have m: "map pr_id (get_proposals st n s) = take n (status_index st s)"
    unfolding g map_map by (rule map_idI) (use f in simp)
  moreover have "\<forall>p\<in>set (get_proposals st n s). pr_status p = st \<and> get_proposal (pr_id p) s = Inr p"
    using f by (auto simp: g get_proposal_def ok_or_Inr)
  moreover have "pr_id ` set (get_proposals st n s) = {i. \<exists>p. get_proposal i s = Inr p \<and> pr_status p = st}"
    if "length (status_index st s) \<le> n"
  proof -
    have "pr_id ` set (get_proposals st n s) = set (take n (status_index st s))"
      unfolding m [symmetric] by simp
    then show ?thesis using that ix(2) by (auto simp: get_proposal_def ok_or_Inr)
  qed
  ultimately show ?thesis using ix(1) by blast
qed

text \<open>
  The result of a vote. For counters that are not negative and small enough to be scaled to basis
  points, a proposal passes if and only if participation reaches the quorum, somebody voted for or
  against, and the votes in favour are at least the threshold share of those for and against.
\<close>

theorem proposal_passes_exact:
  assumes nn: "0 \<le> pr_votes_for p" "0 \<le> pr_votes_against p" "0 \<le> pr_votes_abstain p"
    and fits: "10000 * (pr_votes_for p + pr_votes_against p + pr_votes_abstain p) \<le> i128_max"
  shows "proposal_passes p c = Inr (int (gc_quorum_votes c) \<le> pr_votes_for p + pr_votes_against p + pr_votes_abstain p
     \<and> 0 < pr_votes_for p + pr_votes_against p
     \<and> int (gc_pass_threshold_bps c) * (pr_votes_for p + pr_votes_against p) \<le> 10000 * pr_votes_for p)"
proof -
  let ?f = "pr_votes_for p" and ?d = "pr_votes_for p + pr_votes_against p"
  have r: "in_i128 ?d" "in_i128 (?d + pr_votes_abstain p)" "in_i128 (?f * 10000)"
    using nn fits by (simp_all add: in_i128_def i128_min_def)
  have d: "safe_div (?f * 10000) ?d = Inr (?f * 10000 div ?d)" if "0 < ?d"
  proof -
    have "0 \<le> ?f * 10000 div ?d" "?f * 10000 div ?d \<le> ?f * 10000"
      using nn that zdiv_mono2 [of "?f * 10000" 1 ?d] by (simp_all add: pos_imp_zdiv_nonneg_iff)
    with r(3) have "in_i128 (?f * 10000 div ?d)" using in_i128_mono by blast
    with that nn(1) show ?thesis
      by (simp add: safe_div_def i128_checked_div_def chk_i128_def sdiv_nonneg)
  qed
  have le: "int t \<le> ?f * 10000 div ?d \<longleftrightarrow> int t * ?d \<le> 10000 * ?f" if "0 < ?d" for t
    using le_div_int_iff [OF that, of "int t" "?f * 10000"] by (simp add: mult.commute)
  show ?thesis
  proof (cases "0 < ?d")
    case True
    with r d le show ?thesis
      by (auto simp: proposal_passes_def safe_add_def safe_mul_def i128_checked_add_def i128_checked_mul_def
          chk_i128_def BPS_DENOM_def not_less)
  next
    case False
    with r show ?thesis
      by (simp add: proposal_passes_def safe_add_def i128_checked_add_def chk_i128_def)
  qed
qed

text \<open>
  C28: Delegation is one level deep and consistent in every reachable state: an account that has delegated
  has a delegatee that has not, who is not itself, and who lists it exactly once, and no other account
  lists it; so no account's power is counted through two delegatees.
\<close>

theorem delegation_one_level:
  assumes run: "gv_run W (governance_empty w) s" and d: "gv_delegation s a = Some b"
  shows "a \<noteq> b \<and> gv_delegation s b = None \<and> count_list (unwrap_or (gv_delegators s b) []) a = 1
    \<and> (\<forall>c. c \<noteq> b \<longrightarrow> a \<notin> set (unwrap_or (gv_delegators s c) []))"
proof -
  from gov_reach_inv [OF run] have inv: "delegation_inv s" by (simp add: gov_inv_def)
  with d have "a \<in> set (delegators_of b s)" "distinct (delegators_of b s)" by (auto simp: delegation_inv_def)
  then have "count_list (delegators_of b s) a = 1" by (simp add: count_list_distinct)
  with inv d show ?thesis unfolding delegation_inv_def delegators_of_def by (metis option.distinct(1) option.inject)
qed

section \<open>A concrete run\<close>

definition gv_demo :: "nat gov_env" where
  "gv_demo = \<lparr>ge_power = (\<lambda>w c a. Some (1, w)), ge_invoke = (\<lambda>w t m as. Some (w + 1))\<rparr>"

definition gv_host :: "nat \<Rightarrow> host" where
  "gv_host t = \<lparr>self = 100, now = t, seq = 1, authorized = (\<lambda>a. a \<noteq> 100)\<rparr>"

definition gv_cfg :: "nat \<Rightarrow> governance_config" where
  "gv_cfg quorum = \<lparr>gc_proposal_deposit = 100, gc_voting_period_seconds = 1000, gc_timelock_seconds = 500,
     gc_quorum_votes = quorum, gc_pass_threshold_bps = 5000, gc_min_proposal_deposit = 10\<rparr>"

definition gv_action :: proposal_action where
  "gv_action = \<lparr>pa_target = 300, pa_method = ''set_fee'', pa_args = [IntV 5]\<rparr>"

definition gv_prop :: "proposal_status \<Rightarrow> nat \<Rightarrow> int \<Rightarrow> proposal" where
  "gv_prop st t v = \<lparr>pr_id = 0, pr_proposer = 4, pr_deposit = 50, pr_action = gv_action, pr_description = [],
     pr_status = st, pr_created_at = 10, pr_voting_ends_at = 1010, pr_timelock_ends_at = t,
     pr_votes_for = v, pr_votes_against = 0, pr_votes_abstain = 0\<rparr>"

fun gv_execs :: "'w gov_env \<Rightarrow> (nat \<times> gv_op) list \<Rightarrow> 'w governance \<Rightarrow> (governance_error, 'w governance) res" where
  "gv_execs W [] s = Inr s"
| "gv_execs W ((t, op) # ops) s = bind_res (gv_exec W (gv_host t) op s) (gv_execs W ops)"

lemma gv_execs_run: "gv_execs W ops s = Inr s' \<Longrightarrow> gv_run W s0 s \<Longrightarrow> gv_run W s0 s'"
proof (induction ops arbitrary: s)
  case (Cons x ops)
  obtain t op where x: "x = (t, op)" by (cases x)
  with Cons.prems obtain s1 where s1: "gv_exec W (gv_host t) op s = Inr s1" "gv_execs W ops s1 = Inr s'"
    by (auto simp: bind_res_Inr)
  from Cons.IH [OF s1(2) gv_call [OF Cons.prems(2) s1(1)]] show ?case .
qed simp

text \<open>Admin 1 initializes, 6 delegates to 5, 4 proposes; an update of the quorum is queued.\<close>

definition gv_start :: "nat governance" where
  "gv_start = (governance_empty 0)\<lparr>gv_admin := Some 1, gv_config := Some (gv_cfg 2), gv_count := Some 1,
     gv_proposals := [0 \<mapsto> gv_prop Active 0 0], gv_deposits := [0 \<mapsto> 50],
     gv_pending := Some \<lparr>pc_new_config = gv_cfg 3, pc_queued_at = 12, pc_executable_at = 172812\<rparr>,
     gv_by_status := [Active \<mapsto> [0]], gv_delegation := [6 \<mapsto> 5], gv_delegators := [5 \<mapsto> [6]],
     cb_events := [Event ''delegate'' [AddrV 6, AddrV 5] [], Event ''proposal'' [NatV 0, AddrV 4] [IntV 50, NatV 1010],
       Event ''cfg_queue'' [AddrV 1] [NatV 172812]]\<rparr>"

lemmas gv_eval = when_not_paused_def is_paused_def require_auth_def gv_host_def governance_empty_def
  publish_def u_checked_add_def Let_def

lemma gv_start_run: "gv_run gv_demo (governance_empty 0) gv_start"
proof (rule gv_execs_run [OF _ gv_refl])
  show "gv_execs gv_demo [(1, GvInit 1 (gv_cfg 2)), (5, Delegate 6 5), (10, CreateProposal 4 50 gv_action []),
      (12, QueueConfig 1 (gv_cfg 3))] (governance_empty 0) = Inr gv_start"
    by (simp add: gv_eval gv_start_def governance_init_def validate_config_def gv_cfg_def BPS_DENOM_def
        wrap_u_def delegate_def add_delegator_def create_proposal_def index_defs queue_config_update_def
        governance_check_admin_def CONFIG_TIMELOCK_SECONDS_def gv_prop_def)
qed

text \<open>Account 5 votes for the proposal, with 6 behind it.\<close>

definition gv_voted :: "nat governance" where
  "gv_voted = gv_start\<lparr>gv_proposals := [0 \<mapsto> gv_prop Active 0 2],
     gv_votes := [(0, 5) \<mapsto> \<lparr>vr_voter = 5, vr_vote = For, vr_power = 1, vr_timestamp = 20\<rparr>,
                  (0, 6) \<mapsto> \<lparr>vr_voter = 6, vr_vote = For, vr_power = 1, vr_timestamp = 20\<rparr>],
     cb_events := cb_events gv_start @ [Event ''vote'' [NatV 0, AddrV 5] [SymV ''For'', IntV 1],
       Event ''vote'' [NatV 0, AddrV 6] [SymV ''For'', IntV 1]]\<rparr>"

lemma gv_voted_step: "cast_vote gv_demo (gv_host 20) 5 0 For gv_start = Inr gv_voted"
  by (simp add: gv_eval cast_vote_def gv_start_def gv_voted_def get_vote_power_def record_vote_def
      safe_add_def i128_checked_add_def chk_i128_def in_i128_def i128_max_def i128_min_def vote_val_def gv_prop_def)

lemma gv_voted_run: "gv_run gv_demo gv_start gv_voted"
  by (rule gv_call [OF gv_refl, where op = "CastVote 5 0 For" and h = "gv_host 20"]) (simp add: gv_voted_step)

lemma gv_voted_reach: "gv_run gv_demo (governance_empty 0) gv_voted"
  by (rule gv_run_trans [OF gv_voted_run gv_start_run])

text \<open>The proposal is finalized at time 2000, so it can be executed from 2500 on.\<close>

lemma gv_queued_ex:
  "\<exists>s. gv_run gv_demo gv_voted s \<and> gv_proposals s 0 = Some (gv_prop Queued 2500 2)
     \<and> status_index Queued s = [0] \<and> cb_paused s = None \<and> gv_world s = 0"
proof -
  have "\<exists>s. gv_exec gv_demo (gv_host 2000) (Finalize 0) gv_voted = Inr s \<and> gv_proposals s 0 = Some (gv_prop Queued 2500 2)
     \<and> status_index Queued s = [0] \<and> cb_paused s = None \<and> gv_world s = 0"
    by (simp add: gv_eval finalize_proposal_def gv_voted_def gv_start_def proposal_passes_def safe_add_def safe_mul_def
      safe_div_def i128_checked_add_def i128_checked_mul_def i128_checked_div_def chk_i128_def in_i128_def
      i128_max_def i128_min_def gv_prop_def gv_cfg_def BPS_DENOM_def sdiv_nonneg index_defs status_index_def)
  then show ?thesis using gv_call [OF gv_refl] by blast
qed

theorem tallies_are_sums_of_votes_witness:
  "gv_run gv_demo (governance_empty 0) gv_voted \<and> tally For 0 gv_voted = 2 \<and> tally Against 0 gv_voted = 0"
proof -
  have p: "get_proposal 0 gv_voted = Inr (gv_prop Active 0 2)" by (simp add: get_proposal_def gv_voted_def)
  from tallies_are_sums_of_votes [OF gv_voted_reach p] show ?thesis
    using gv_voted_reach by (simp add: gv_prop_def)
qed

theorem proposal_life_cycle_witness:
  "\<exists>s q. gv_run gv_demo gv_voted s \<and> get_proposal 0 s = Inr q \<and> pr_status q = Queued
     \<and> same_terms (gv_prop Active 0 2) q \<and> proposal_step\<^sup>*\<^sup>* Active Queued"
proof -
  obtain s where s: "gv_run gv_demo gv_voted s" "gv_proposals s 0 = Some (gv_prop Queued 2500 2)"
    using gv_queued_ex by blast
  have p: "get_proposal 0 gv_voted = Inr (gv_prop Active 0 2)" by (simp add: get_proposal_def gv_voted_def)
  have q: "get_proposal 0 s = Inr (gv_prop Queued 2500 2)" using s(2) by (simp add: get_proposal_def)
  have st: "pr_status (gv_prop st t v) = st" for st t v by (simp add: gv_prop_def)
  from proposal_life_cycle [OF gv_voted_reach s(1) p] q s(1) show ?thesis by (auto simp: st)
qed

theorem execution_follows_vote_and_timelock_witness:
  "\<exists>s s' c. execute_proposal gv_demo (gv_host 2500) 0 s = Inr s' \<and> gv_world s' = 1
     \<and> proposal_passes (gv_prop Queued 2500 2) c = Inr True"
proof -
  obtain s where s: "gv_run gv_demo gv_voted s" "gv_proposals s 0 = Some (gv_prop Queued 2500 2)"
    "cb_paused s = None" "gv_world s = 0"
    using gv_queued_ex by blast
  have "\<exists>s'. execute_proposal gv_demo (gv_host 2500) 0 s = Inr s'"
    using s(2-4) by (simp add: execute_proposal_def gv_eval gv_demo_def gv_prop_def)
  then obtain s' where ex: "execute_proposal gv_demo (gv_host 2500) 0 s = Inr s'" by blast
  have run: "gv_run gv_demo (governance_empty 0) s" by (rule gv_run_trans [OF s(1) gv_voted_reach])
  from execution_follows_vote_and_timelock [OF run ex] s(2) obtain c where
    "proposal_passes (gv_prop Queued 2500 2) c = Inr True"
    "ge_invoke gv_demo (gv_world s) (pa_target gv_action) (pa_method gv_action) (pa_args gv_action) = Some (gv_world s')"
    by (auto simp: get_proposal_def gv_prop_def)
  moreover from this(2) s(4) have "gv_world s' = 1" by (simp add: gv_demo_def)
  ultimately show ?thesis using ex by blast
qed


theorem config_changes_wait_48_hours_witness:
  "\<exists>s' (s1 :: nat governance) s2 h1 a. gv_exec gv_demo (gv_host 172812) ExecuteConfig gv_start = Inr s' \<and> get_config s' = Inr (gv_cfg 3)
     \<and> queue_config_update h1 a (gv_cfg 3) s1 = Inr s2 \<and> now h1 + 172800 \<le> 172812"
proof -
  have "\<exists>s'. gv_exec gv_demo (gv_host 172812) ExecuteConfig gv_start = Inr s' \<and> get_config s' = Inr (gv_cfg 3)
      \<and> gv_admin s' = Some 1"
    by (simp add: execute_config_update_def gv_eval gv_start_def get_config_def)
  then obtain s' where s': "gv_exec gv_demo (gv_host 172812) ExecuteConfig gv_start = Inr s'"
    "get_config s' = Inr (gv_cfg 3)" by blast
  have c: "get_config gv_start = Inr (gv_cfg 2)" by (simp add: get_config_def gv_start_def)
  have "get_config s' \<noteq> Inr (gv_cfg 2)" using s'(2) by (simp add: gv_cfg_def)
  from config_changes_wait_48_hours [OF gv_start_run s'(1) c this] obtain s1 s2 h1 a where hist:
    "queue_config_update h1 a (gv_cfg 3) s1 = Inr s2" "gv_admin s1 = Some a" "now h1 + 172800 \<le> 172812"
    "gv_run gv_demo s2 gv_start" using s'(2) by (auto simp: gv_host_def)
  with s' hist show ?thesis by blast
qed

theorem status_index_exact_witness:
  "gv_run gv_demo (governance_empty 0) gv_voted \<and> map pr_id (get_proposals Active 5 gv_voted) = [0]
     \<and> {i. \<exists>p. get_proposal i gv_voted = Inr p \<and> pr_status p = Active} = {0}"
proof -
  have "status_index Active gv_voted = [0]" by (simp add: status_index_def gv_voted_def gv_start_def)
  with status_index_exact [OF gv_voted_reach, of Active 5] gv_voted_reach show ?thesis by force
qed

theorem proposal_passes_exact_witness:
  "proposal_passes (gv_prop Active 0 2) (gv_cfg 2) = Inr True \<and> proposal_passes (gv_prop Active 0 2) (gv_cfg 3) = Inr False"
  using proposal_passes_exact [of "gv_prop Active 0 2" "gv_cfg 2"] proposal_passes_exact [of "gv_prop Active 0 2" "gv_cfg 3"]
  by (simp add: gv_prop_def gv_cfg_def i128_max_def)

theorem delegation_one_level_witness:
  "gv_run gv_demo (governance_empty 0) gv_start \<and> gv_delegation gv_start 6 = Some 5 \<and> gv_delegation gv_start 5 = None
     \<and> count_list (unwrap_or (gv_delegators gv_start 5) []) 6 = 1"
proof -
  have "gv_delegation gv_start 6 = Some 5" by (simp add: gv_start_def)
  with delegation_one_level [OF gv_start_run this] gv_start_run show ?thesis by simp
qed

end
