(* ===== verification/Legacy_Circle.thy ===== *)
theory Legacy_Circle
  imports Gov_Token
begin

text \<open>
  The earlier single-file circle contract (\<open>circle.rs\<close> at the root of the repository, outside the
  workspace): collateral staking, slashing and refund, the payout fee and the price of an auction bid.
  Its methods that exist only under \<open>cfg(test)\<close> are not part of the deployed contract and not modelled.
\<close>

section \<open>Data and state\<close>

datatype legacy_error =
    AlreadyInitialized | InvalidToken | InvalidFeeBps | Overflow | FeeExceedsLimit | DiscountBipsExceeded
  | InvalidAmount | InsufficientBalance | CircleConfigNotFound | CollateralAlreadyStaked
  | MemberRecordNotFound | NotDefaulted | NoCollateralToSlash | RefundNotPermitted
  | NoCollateralToRefund | Unauthorized

record legacy_config =
  lc_token :: addr
  lc_base_amount :: int
  lc_collateral_amount :: int

datatype member_state = Active | Defaulted | Completed | Exited

record 'l legacy_circle = "'l token_base" +
  lg_config :: "legacy_config option"
  lg_fee_bps :: "nat option"
  lg_member_balance :: "addr \<Rightarrow> int option"
  lg_collateral :: "addr \<Rightarrow> int option"
  lg_member_state :: "addr \<Rightarrow> member_state option"

definition legacy_empty :: "'l \<Rightarrow> 'l legacy_circle" where
  "legacy_empty l = \<lparr>cb_paused = None, cb_reent = None, cb_events = [], cb_ledger = l,
     lg_config = None, lg_fee_bps = None, lg_member_balance = Map.empty, lg_collateral = Map.empty,
     lg_member_state = Map.empty\<rparr>"

lemma publish_legacy [simp]:
  "lg_config (publish ev s) = lg_config s" "lg_fee_bps (publish ev s) = lg_fee_bps s"
  "lg_member_balance (publish ev s) = lg_member_balance s" "lg_collateral (publish ev s) = lg_collateral s"
  "lg_member_state (publish ev s) = lg_member_state s"
  by (simp_all add: publish_def)

section \<open>Operations\<close>

text \<open>
  \<open>token_exists\<close> is the outcome of the call of \<open>decimals\<close> on the address, a parameter of
  \<open>legacy_initialize\<close>: whether that call returns is known to the other contract only.
\<close>

definition legacy_initialize ::
    "('l \<Rightarrow> addr \<Rightarrow> bool) \<Rightarrow> legacy_config \<Rightarrow> 'l legacy_circle \<Rightarrow> (legacy_error, 'l legacy_circle) res" where
  "legacy_initialize token_exists config s =
     (if lg_config s \<noteq> None then Inl (Err AlreadyInitialized)
      else if \<not> token_exists (cb_ledger s) (lc_token config) then Inl (Err InvalidToken)
      else Inr (s\<lparr>lg_config := Some config\<rparr>))"

definition legacy_set_fee_bps :: "nat \<Rightarrow> 'l legacy_circle \<Rightarrow> (legacy_error, 'l legacy_circle) res" where
  "legacy_set_fee_bps fee_bps s =
     (if fee_bps > 10000 then Inl (Err InvalidFeeBps) else Inr (s\<lparr>lg_fee_bps := Some fee_bps\<rparr>))"

text \<open>The product is taken in \<open>u128\<close>, where it is checked; the quotient goes back to \<open>i128\<close>.\<close>

definition calculate_payout_fee :: "int \<Rightarrow> 'l legacy_circle \<Rightarrow> (legacy_error, int) res" where
  "calculate_payout_fee contribution_amount s =
     (let fee_bps = unwrap_or (lg_fee_bps s) 0 in
      if contribution_amount \<le> 0 \<or> fee_bps = 0 then Inr 0 else
      bind_res (ok_or (u_checked_mul 128 (nat contribution_amount) fee_bps) Overflow) (\<lambda>product.
      let fee = product div 10000 in
      if int fee > i128_max then Inl (Err FeeExceedsLimit) else Inr (int fee)))"

text \<open>Here the product is a plain \<open>*\<close> on \<open>u128\<close>, which wraps.\<close>

definition auction_bid ::
    "host \<Rightarrow> addr \<Rightarrow> int \<Rightarrow> nat \<Rightarrow> 'l legacy_circle \<Rightarrow> (legacy_error, int) res" where
  "auction_bid h bidder base_amount discount_bips s =
     bind_res (require_auth h bidder) (\<lambda>_.
     if discount_bips > 5000 then Inl (Err DiscountBipsExceeded)
     else if base_amount \<le> 0 then Inl (Err InvalidAmount) else
     let discount_multiplier = 10000 - int discount_bips;
         discounted_amount = wrap_u 128 (base_amount * discount_multiplier) div 10000;
         final_payable = wrap_i128 (int discounted_amount);
         balance = unwrap_or (lg_member_balance s bidder) 0 in
     if balance < final_payable then Inl (Err InsufficientBalance) else Inr final_payable)"

definition join_with_collateral ::
    "'l token_api \<Rightarrow> host \<Rightarrow> addr \<Rightarrow> 'l legacy_circle \<Rightarrow> (legacy_error, 'l legacy_circle) res" where
  "join_with_collateral T h member s =
     bind_res (require_auth h member) (\<lambda>_.
     bind_res (ok_or (lg_config s) CircleConfigNotFound) (\<lambda>config.
     if lc_collateral_amount config \<le> 0 then Inr s
     else if unwrap_or (lg_collateral s member) 0 > 0 then Inl (Err CollateralAlreadyStaked) else
     bind_res (token_transfer T (lc_token config) member (self h) (lc_collateral_amount config) s) (\<lambda>s.
     Inr (publish (Event ''CollateralStaked'' [AddrV member] [IntV (lc_collateral_amount config)])
       (s\<lparr>lg_collateral := (lg_collateral s)(member \<mapsto> lc_collateral_amount config),
          lg_member_state := (lg_member_state s)(member \<mapsto> Active)\<rparr>)))))"

definition slash_collateral ::
    "'l token_api \<Rightarrow> host \<Rightarrow> addr \<Rightarrow> addr \<Rightarrow> 'l legacy_circle \<Rightarrow> (legacy_error, 'l legacy_circle) res" where
  "slash_collateral T h member treasury s =
     bind_res (ok_or (lg_member_state s member) MemberRecordNotFound) (\<lambda>state.
     if state \<noteq> Defaulted then Inl (Err NotDefaulted) else
     let collateral = unwrap_or (lg_collateral s member) 0 in
     if collateral \<le> 0 then Inl (Err NoCollateralToSlash) else
     bind_res (ok_or (lg_config s) CircleConfigNotFound) (\<lambda>config.
     bind_res (token_transfer T (lc_token config) (self h) treasury collateral
       (s\<lparr>lg_collateral := (lg_collateral s)(member \<mapsto> 0)\<rparr>)) (\<lambda>s.
     Inr (publish (Event ''CollateralSlashed'' [AddrV member] [IntV collateral]) s))))"

definition refund_collateral ::
    "'l token_api \<Rightarrow> host \<Rightarrow> addr \<Rightarrow> 'l legacy_circle \<Rightarrow> (legacy_error, 'l legacy_circle) res" where
  "refund_collateral T h member s =
     bind_res (require_auth h member) (\<lambda>_.
     bind_res (ok_or (lg_member_state s member) MemberRecordNotFound) (\<lambda>state.
     if state \<noteq> Completed \<and> state \<noteq> Exited then Inl (Err RefundNotPermitted) else
     let collateral = unwrap_or (lg_collateral s member) 0 in
     if collateral \<le> 0 then Inl (Err NoCollateralToRefund) else
     bind_res (ok_or (lg_config s) CircleConfigNotFound) (\<lambda>config.
     bind_res (token_transfer T (lc_token config) (self h) member collateral
       (s\<lparr>lg_collateral := (lg_collateral s)(member \<mapsto> 0)\<rparr>)) (\<lambda>s.
     Inr (publish (Event ''CollateralRefunded'' [AddrV member] [IntV collateral]) s)))))"

section \<open>Runs\<close>

datatype legacy_op =
    LgInitialize legacy_config | LgSetFee nat | LgJoin addr | LgSlash addr addr | LgRefund addr

fun lg_exec ::
    "('l \<Rightarrow> addr \<Rightarrow> bool) \<Rightarrow> 'l token_api \<Rightarrow> host \<Rightarrow> legacy_op \<Rightarrow> 'l legacy_circle
      \<Rightarrow> (legacy_error, 'l legacy_circle) res" where
  "lg_exec X T h (LgInitialize c) s = legacy_initialize X c s"
| "lg_exec X T h (LgSetFee n) s = legacy_set_fee_bps n s"
| "lg_exec X T h (LgJoin m) s = join_with_collateral T h m s"
| "lg_exec X T h (LgSlash m t) s = slash_collateral T h m t s"
| "lg_exec X T h (LgRefund m) s = refund_collateral T h m s"

text \<open>
  A run of the contract at \<open>me\<close>. A join is a call by another account; between calls the token contracts
  may do anything that keeps their invariant and takes nothing from \<open>me\<close>.
\<close>

inductive lg_run ::
    "('l \<Rightarrow> addr \<Rightarrow> bool) \<Rightarrow> 'l token_api \<Rightarrow> ('l \<Rightarrow> bool) \<Rightarrow> addr \<Rightarrow> 'l legacy_circle \<Rightarrow> 'l legacy_circle \<Rightarrow> bool"
  for X :: "'l \<Rightarrow> addr \<Rightarrow> bool" and T :: "'l token_api" and ok :: "'l \<Rightarrow> bool" and me :: addr where
  lg_refl: "lg_run X T ok me s s"
| lg_call: "lg_run X T ok me s s1 \<Longrightarrow> self h = me \<Longrightarrow> \<not> authorized h me \<Longrightarrow> lg_exec X T h op s1 = Inr s2
    \<Longrightarrow> lg_run X T ok me s s2"
| lg_env: "lg_run X T ok me s s1 \<Longrightarrow> ok l \<Longrightarrow> \<forall>t. tk_balance T (cb_ledger s1) t me \<le> tk_balance T l t me
    \<Longrightarrow> lg_run X T ok me s (s1\<lparr>cb_ledger := l\<rparr>)"

section \<open>Staked collateral\<close>

definition lg_inv :: "'l token_api \<Rightarrow> ('l \<Rightarrow> bool) \<Rightarrow> addr \<Rightarrow> 'l legacy_circle \<Rightarrow> bool" where
  "lg_inv T ok me s \<longleftrightarrow> ok (cb_ledger s) \<and> finite (dom (lg_collateral s))
     \<and> dom (lg_member_state s) = dom (lg_collateral s) \<and> lg_member_balance s = Map.empty
     \<and> (\<forall>m st. lg_member_state s m = Some st \<longrightarrow> st = Active)
     \<and> (case lg_config s of None \<Rightarrow> lg_collateral s = Map.empty
        | Some c \<Rightarrow> (\<forall>m x. lg_collateral s m = Some x \<longrightarrow> 0 < x \<and> x = lc_collateral_amount c)
            \<and> msum id (lg_collateral s) \<le> tk_balance T (cb_ledger s) (lc_token c) me)"

context sep41
begin

lemma join_inv:
  assumes "join_with_collateral T h m s = Inr s'" "lg_inv T ok (self h) s" "\<not> authorized h (self h)"
  shows "lg_inv T ok (self h) s'"
proof -
  from assms(1) obtain c where c: "lg_config s = Some c" and a: "authorized h m"
    by (auto simp: join_with_collateral_def res_simps)
  show ?thesis
  proof (cases "lc_collateral_amount c \<le> 0")
    case True
    with assms c show ?thesis by (auto simp: join_with_collateral_def res_simps)
  next
    case False
    with assms(1) c obtain l where free: "\<not> 0 < unwrap_or (lg_collateral s m) 0"
      and t: "tk_transfer T (cb_ledger s) (lc_token c) m (self h) (lc_collateral_amount c) = Some l"
      and s': "s' = publish (Event ''CollateralStaked'' [AddrV m] [IntV (lc_collateral_amount c)])
        (s\<lparr>cb_ledger := l, lg_collateral := (lg_collateral s)(m \<mapsto> lc_collateral_amount c),
           lg_member_state := (lg_member_state s)(m \<mapsto> Active)\<rparr>)"
      by (auto simp: join_with_collateral_def res_simps)
    from free assms(2) c have none: "lg_collateral s m = None"
      by (cases "lg_collateral s m") (auto simp: lg_inv_def)
    from assms(2) have ok: "ok (cb_ledger s)" by (simp add: lg_inv_def)
    from assms(3) a have "m \<noteq> self h" by auto
    note deposit_balance [OF ok t this] transfer_ok [OF ok t]
    with assms(2) none c s' False show ?thesis by (auto simp: lg_inv_def msum_upd)
  qed
qed

lemma lg_inv_no_release:
  assumes "lg_inv T ok me s"
  shows "slash_collateral T h m t s \<noteq> Inr s'" "refund_collateral T h m s \<noteq> Inr s'"
  using assms by (auto simp: slash_collateral_def refund_collateral_def res_simps lg_inv_def)

lemma lg_exec_inv:
  assumes "lg_exec X T h op s = Inr s'" "lg_inv T ok (self h) s" "\<not> authorized h (self h)"
  shows "lg_inv T ok (self h) s'"
proof (cases op)
  case (LgInitialize c)
  with assms show ?thesis
    by (auto simp: legacy_initialize_def lg_inv_def balance_range split: if_splits)
next
  case (LgSetFee n)
  with assms(1) have "s' = s\<lparr>lg_fee_bps := Some n\<rparr>" by (simp add: legacy_set_fee_bps_def split: if_split_asm)
  with assms(2) show ?thesis by (simp add: lg_inv_def cong: option.case_cong)
next
  case (LgJoin m)
  with assms show ?thesis by (auto intro: join_inv)
qed (use assms lg_inv_no_release in auto)

lemma lg_run_inv:
  assumes "lg_run X T ok me s s'" "lg_inv T ok me s"
  shows "lg_inv T ok me s'"
  using assms
proof (induction rule: lg_run.induct)
  case (lg_call s s1 h op s2)
  from lg_exec_inv [OF lg_call.hyps(4)] lg_call show ?case by simp
next
  case (lg_env s s1 l)
  then have "lg_inv T ok me s1" by blast
  with lg_env(2,3) show ?case by (auto simp: lg_inv_def split: option.splits intro: order_trans)
qed

lemma lg_exec_grows:
  assumes "lg_exec X T h op s = Inr s'" "lg_inv T ok (self h) s"
  shows "lg_collateral s \<subseteq>\<^sub>m lg_collateral s'"
proof (cases op)
  case (LgJoin m)
  show ?thesis
  proof (cases "lg_collateral s m")
    case None
    with assms(1) LgJoin show ?thesis
      by (auto simp: join_with_collateral_def res_simps map_le_def split: if_splits)
  next
    case (Some x)
    with assms LgJoin show ?thesis
      by (auto simp: join_with_collateral_def res_simps map_le_def lg_inv_def split: if_splits option.splits)
  qed
qed (use assms lg_inv_no_release in
    \<open>auto simp: legacy_initialize_def legacy_set_fee_bps_def split: if_splits\<close>)

lemma lg_run_grows:
  assumes "lg_run X T ok me s s'" "lg_inv T ok me s"
  shows "lg_collateral s \<subseteq>\<^sub>m lg_collateral s'"
  using assms
proof (induction rule: lg_run.induct)
  case (lg_call s s1 h op s2)
  from lg_run_inv [OF lg_call.hyps(1)] lg_exec_grows [OF lg_call.hyps(4)] lg_call
  have "lg_collateral s1 \<subseteq>\<^sub>m lg_collateral s2" by blast
  with lg_call show ?case by (blast intro: map_le_trans)
qed simp_all

end

lemma legacy_empty_inv: "ok l \<Longrightarrow> lg_inv T ok me (legacy_empty l)"
  by (simp add: lg_inv_def legacy_empty_def)

lemma lg_run_fee_bps:
  assumes "lg_run X T ok me s s'" "unwrap_or (lg_fee_bps s) 0 \<le> 10000"
  shows "unwrap_or (lg_fee_bps s') 0 \<le> 10000"
  using assms
proof (induction rule: lg_run.induct)
  case (lg_call s s1 h op s2)
  then have "unwrap_or (lg_fee_bps s1) 0 \<le> 10000" by blast
  with lg_call.hyps(4) show ?case
    by (cases op) (auto simp: legacy_initialize_def legacy_set_fee_bps_def join_with_collateral_def
        slash_collateral_def refund_collateral_def res_simps Let_def split: if_splits)
qed simp_all

section \<open>Properties\<close>

text \<open>
  C40: Staked collateral is held, and held for ever. In every state of a run of the deployed methods, every
  recorded collateral is the configured amount and the contract holds at least the sum of all of them in
  the configured token; no later call changes a recorded collateral, because nothing outside the tests
  ever gives a member another state than \<open>Active\<close>: \<open>slash_collateral\<close> and \<open>refund_collateral\<close> always
  fail. For the same reason no bid is ever accepted at a positive price.
\<close>

theorem legacy_collateral_never_released:
  assumes "sep41 T ok" "ok l" and run: "lg_run X T ok me (legacy_empty l) s" "lg_run X T ok me s s'"
  shows "(lg_collateral s m = Some x \<longrightarrow> (\<exists>c. lg_config s = Some c \<and> x = lc_collateral_amount c \<and> 0 < x
      \<and> msum id (lg_collateral s) \<le> tk_balance T (cb_ledger s) (lc_token c) me))
    \<and> (lg_collateral s m = Some x \<longrightarrow> lg_collateral s' m = Some x)
    \<and> slash_collateral T h m t s \<noteq> Inr s2 \<and> refund_collateral T h m s \<noteq> Inr s2
    \<and> (auction_bid h b amount bips s = Inr p \<longrightarrow> p \<le> 0)"
proof (intro conjI impI)
  have inv: "lg_inv T ok me s"
    by (rule sep41.lg_run_inv [OF assms(1) run(1)]) (rule legacy_empty_inv, rule assms(2))
  then show "\<exists>c. lg_config s = Some c \<and> x = lc_collateral_amount c \<and> 0 < x
      \<and> msum id (lg_collateral s) \<le> tk_balance T (cb_ledger s) (lc_token c) me" if "lg_collateral s m = Some x"
    using that by (auto simp: lg_inv_def split: option.splits)
  show "lg_collateral s' m = Some x" if "lg_collateral s m = Some x"
    using sep41.lg_run_grows [OF assms(1) run(2) inv] that by (metis domI map_le_def)
  show "slash_collateral T h m t s \<noteq> Inr s2" "refund_collateral T h m s \<noteq> Inr s2"
    using sep41.lg_inv_no_release [OF assms(1) inv] by blast+
  show "p \<le> 0" if "auction_bid h b amount bips s = Inr p"
    using that inv by (auto simp: auction_bid_def res_simps Let_def lg_inv_def)
qed

text \<open>A deployed legacy circle whose token is a governance token, and a member who has joined.\<close>

definition lg_host :: host where
  "lg_host = \<lparr>self = 100, now = 1, seq = 1, authorized = \<lambda>a. a \<noteq> 100\<rparr>"

definition lg_sample_config :: legacy_config where
  "lg_sample_config = \<lparr>lc_token = 9, lc_base_amount = 1000, lc_collateral_amount = 50\<rparr>"

abbreviation lg_start :: "(addr \<Rightarrow> gov_token) legacy_circle" where
  "lg_start \<equiv> legacy_empty (gov_ledger [(5, 80), (100, 0)])"

lemma lg_ledger_ok: "gt_ok (gov_ledger [(5, 80), (100, 0)])"
  by (rule gov_ledger_ok) (simp_all add: i128_max_def)

lemma lg_sample:
  "\<exists>s1 s2. lg_exec (\<lambda>_ _. True) (gt_api lg_host) lg_host (LgInitialize lg_sample_config) lg_start = Inr s1
    \<and> lg_exec (\<lambda>_ _. True) (gt_api lg_host) lg_host (LgJoin 5) s1 = Inr s2 \<and> lg_collateral s2 5 = Some 50"
proof -
  have "\<exists>l. tk_transfer (gt_api lg_host) (gov_ledger [(5, 80), (100, 0)]) 9 5 100 50 = Some l"
    by (rule gov_ledger_transfer [where v = 80]) (simp_all add: lg_host_def in_i128_def i128_max_def i128_min_def)
  then obtain l where "tk_transfer (gt_api lg_host) (gov_ledger [(5, 80), (100, 0)]) 9 5 100 50 = Some l" ..
  moreover have "self lg_host = 100" "authorized lg_host 5" by (simp_all add: lg_host_def)
  ultimately show ?thesis
    by (simp add: legacy_initialize_def join_with_collateral_def token_transfer_def legacy_empty_def
        lg_sample_config_def require_auth_def)
qed

theorem legacy_collateral_never_released_witness:
  "\<exists>s :: (addr \<Rightarrow> gov_token) legacy_circle. lg_collateral s 5 = Some 50
    \<and> 50 \<le> msum id (lg_collateral s) \<and> msum id (lg_collateral s) \<le> tk_balance (gt_api lg_host) (cb_ledger s) 9 100
    \<and> (\<forall>h. refund_collateral (gt_api lg_host) h 5 s \<noteq> Inr s)"
proof -
  obtain s1 s2 where i: "lg_exec (\<lambda>_ _. True) (gt_api lg_host) lg_host (LgInitialize lg_sample_config) lg_start = Inr s1"
    "lg_exec (\<lambda>_ _. True) (gt_api lg_host) lg_host (LgJoin 5) s1 = Inr s2" "lg_collateral s2 5 = Some 50"
    using lg_sample by blast
  have h: "self lg_host = 100" "\<not> authorized lg_host 100" by (simp_all add: lg_host_def)
  from lg_call [OF lg_call [OF lg_refl h i(1)] h i(2)]
  have run: "lg_run (\<lambda>_ _. True) (gt_api lg_host) gt_ok 100 lg_start s2" .
  note held = legacy_collateral_never_released [OF gov.sep41_axioms lg_ledger_ok run lg_refl]
  from i(1,2) have c: "lg_config s2 = Some lg_sample_config"
    by (auto simp: legacy_initialize_def join_with_collateral_def res_simps split: if_splits)
  from held [THEN conjunct1, rule_format, OF i(3)] c
  have le: "msum id (lg_collateral s2) \<le> tk_balance (gt_api lg_host) (cb_ledger s2) 9 100"
    by (simp add: lg_sample_config_def)
  from i(1,2) c have "lg_collateral s2 = [5 \<mapsto> 50]"
    by (auto simp: legacy_initialize_def join_with_collateral_def res_simps legacy_empty_def lg_sample_config_def
        split: if_splits)
  then have "msum id (lg_collateral s2) = 50" by (simp add: msum_def)
  with i(3) le held [THEN conjunct2, THEN conjunct2, THEN conjunct2, THEN conjunct1] show ?thesis by (intro exI [of _ s2]) simp
qed

text \<open>
  The payout fee is the percentage of the shared arithmetic. In every state of a run, whatever amount:
  wherever \<open>calculate_percentage\<close> of the common crate returns a value at the contract's rate,
  \<open>calculate_payout_fee\<close> returns the same (for a negative amount it returns 0 instead); on non-negative
  amounts it returns the floor exactly when the product fits in 128 unsigned bits, one bit further than
  the checked arithmetic, its only error is \<open>Overflow\<close>, and the fee never exceeds the amount.
\<close>

theorem legacy_fee_is_percentage:
  assumes run: "lg_run X T ok me (legacy_empty l) s" and amount: "in_i128 amount"
  shows "0 \<le> amount \<Longrightarrow> calculate_percentage amount (int (unwrap_or (lg_fee_bps s) 0)) = Inr x
      \<Longrightarrow> calculate_payout_fee amount s = Inr x"
    and "amount \<le> 0 \<Longrightarrow> calculate_payout_fee amount s = Inr 0"
    and "0 \<le> amount \<Longrightarrow> calculate_payout_fee amount s =
      (if amount * int (unwrap_or (lg_fee_bps s) 0) < 2 ^ 128
       then Inr (amount * int (unwrap_or (lg_fee_bps s) 0) div 10000) else Inl (Err Overflow))"
    and "calculate_payout_fee amount s = Inr x \<Longrightarrow> 0 \<le> x \<and> x \<le> max 0 amount"
proof -
  let ?f = "unwrap_or (lg_fee_bps s) 0"
  have f: "?f \<le> 10000" by (rule lg_run_fee_bps [OF run]) (simp add: legacy_empty_def)
  show neg: "calculate_payout_fee amount s = Inr 0" if "amount \<le> 0"
    using that by (simp add: calculate_payout_fee_def)
  have le: "0 \<le> amount * int ?f div 10000 \<and> amount * int ?f div 10000 \<le> amount" if "0 \<le> amount"
  proof -
    have "amount * int ?f \<le> amount * 10000" using f that by (intro mult_left_mono) auto
    then have "amount * int ?f div 10000 \<le> amount * 10000 div 10000" by (rule zdiv_mono1) simp
    with that show ?thesis by (simp add: pos_imp_zdiv_nonneg_iff)
  qed
  show exact: "calculate_payout_fee amount s =
      (if amount * int ?f < 2 ^ 128 then Inr (amount * int ?f div 10000) else Inl (Err Overflow))" if "0 \<le> amount"
  proof (cases "amount = 0 \<or> ?f = 0")
    case True
    then show ?thesis by (auto simp: calculate_payout_fee_def)
  next
    case False
    from that obtain n where n: "amount = int n" by (metis nonneg_int_cases)
    have "int (n * ?f) < int (2 ^ 128) \<longleftrightarrow> n * ?f < 2 ^ 128" by (rule of_nat_less_iff)
    then have fit: "amount * int ?f < 2 ^ 128 \<longleftrightarrow> n * ?f < 2 ^ 128" by (simp add: n)
    have d: "amount * int ?f div 10000 = int (n * ?f div 10000)" by (simp add: n zdiv_int)
    from le [OF that] amount have "int (n * ?f div 10000) \<le> i128_max" unfolding d in_i128_def by linarith
    with False show ?thesis unfolding fit d
      by (simp add: calculate_payout_fee_def Let_def u_checked_mul_def n del: of_nat_mult)
  qed
  show "calculate_payout_fee amount s = Inr x" if "0 \<le> amount" "calculate_percentage amount (int ?f) = Inr x"
  proof -
    from that(2) have "in_i128 (amount * int ?f)" "x = amount * int ?f sdiv 10000"
      by (auto simp: calculate_percentage_def safe_mul_def safe_div_def res_simps int_simps split: if_splits)
    moreover from this(1) have "amount * int ?f < 2 ^ 128" by (simp add: in_i128_def i128_max_def)
    moreover have "0 \<le> amount * int ?f" using that(1) by simp
    ultimately show ?thesis using exact [OF that(1)] by (simp add: sdiv_nonneg)
  qed
  show "0 \<le> x \<and> x \<le> max 0 amount" if "calculate_payout_fee amount s = Inr x"
  proof (cases "amount \<le> 0")
    case True
    with neg that show ?thesis by simp
  next
    case False
    then have "0 \<le> amount" by simp
    from exact [OF this] le [OF this] that this show ?thesis by (auto split: if_splits)
  qed
qed

theorem legacy_fee_is_percentage_witness:
  "\<exists>s :: unit legacy_circle. calculate_payout_fee 12345 s = Inr 308"
proof -
  let ?s = "(legacy_empty ())\<lparr>lg_fee_bps := Some 250\<rparr>"
  have "lg_run (\<lambda>_ _. True) T (\<lambda>_. True) 100 (legacy_empty ()) ?s" for T
    by (rule lg_call [OF lg_refl, of lg_host _ _ _ "LgSetFee 250"])
      (simp_all add: lg_host_def legacy_set_fee_bps_def)
  from legacy_fee_is_percentage(1) [OF this, where amount = 12345 and x = 308]
  have "calculate_payout_fee 12345 ?s = Inr 308"
    by (simp add: in_i128_def i128_max_def i128_min_def calculate_percentage_def safe_mul_def safe_div_def
        i128_checked_mul_def i128_checked_div_def chk_i128_def signed_divide_int_def)
  then show ?thesis by blast
qed

end
