(* ===== verification/Circle_Types.thy ===== *)
theory Circle_Types
  imports Vrf Reputation
begin

text \<open>
  The savings circle (\<open>packages/circle\<close>), first part: the data of \<open>types.rs\<close>, the storage of the
  contract as one record with a field per \<open>DataKey\<close> (but \<open>RoundEnforced\<close>, a key the contract neither
  reads nor writes), the error codes, and the calls the circle makes
  to other contracts. The functions of the reputation crate that the circle links against run in the
  circle's own storage, so a \<open>reputation\<close> record is one of its fields.
\<close>

section \<open>Constants\<close>

definition MAX_CIRCLE_MEMBERS :: nat where [simp]: "MAX_CIRCLE_MEMBERS = 100"

definition PAYOUT_RANDOM :: nat where [simp]: "PAYOUT_RANDOM = 0"
definition PAYOUT_FIXED :: nat where [simp]: "PAYOUT_FIXED = 1"
definition PAYOUT_AUCTION :: nat where [simp]: "PAYOUT_AUCTION = 2"
definition PAYOUT_VOTE :: nat where [simp]: "PAYOUT_VOTE = 3"

definition STATUS_PENDING :: nat where [simp]: "STATUS_PENDING = 0"
definition STATUS_ACTIVE :: nat where [simp]: "STATUS_ACTIVE = 1"
definition STATUS_COMPLETED :: nat where [simp]: "STATUS_COMPLETED = 2"
definition STATUS_CANCELLED :: nat where [simp]: "STATUS_CANCELLED = 3"
definition STATUS_DISPUTED :: nat where [simp]: "STATUS_DISPUTED = 4"

definition MEMBER_ACTIVE :: nat where [simp]: "MEMBER_ACTIVE = 0"
definition MEMBER_EXITED :: nat where [simp]: "MEMBER_EXITED = 1"
definition MEMBER_DEFAULTED :: nat where [simp]: "MEMBER_DEFAULTED = 2"

definition RESOLVE_DISMISS :: nat where [simp]: "RESOLVE_DISMISS = 1"
definition RESOLVE_PENALIZE :: nat where [simp]: "RESOLVE_PENALIZE = 2"
definition RESOLVE_FORCE_PAYOUT :: nat where [simp]: "RESOLVE_FORCE_PAYOUT = 3"
definition RESOLVE_REFUND :: nat where [simp]: "RESOLVE_REFUND = 4"

section \<open>Data\<close>

record circle_config =
  cc_organizer :: addr
  cc_token :: addr
  cc_name :: string
  cc_contribution_amount :: int
  cc_max_members :: nat
  cc_payout_type :: nat
  cc_total_rounds :: nat
  cc_contribution_deadline_seconds :: nat
  cc_min_moi_score :: nat
  cc_collateral_amount :: int
  cc_penalty_bps :: nat
  cc_grace_period_seconds :: nat
  cc_max_strikes :: nat
  cc_slug :: string
  cc_max_withdrawal_per_tx :: int
  cc_daily_withdrawal_limit :: int
  cc_min_duration_seconds :: nat

text \<open>The payout bitmap is kept at its width of 128 bits.\<close>

record circle =
  cl_id :: addr
  cl_token :: addr
  cl_name :: string
  cl_organizer :: addr
  cl_factory :: addr
  cl_contribution_amount :: int
  cl_max_members :: nat
  cl_member_count :: nat
  cl_payout_type :: nat
  cl_total_rounds :: nat
  cl_current_round :: nat
  cl_status :: nat
  cl_started_at :: nat
  cl_created_at :: nat
  cl_contribution_deadline_seconds :: nat
  cl_min_moi_score :: nat
  cl_collateral_amount :: int
  cl_penalty_bps :: nat
  cl_grace_period_seconds :: nat
  cl_max_strikes :: nat
  cl_payout_bitmap :: "128 word"
  cl_total_payouts :: int
  cl_total_fees :: int
  cl_slug :: string
  cl_health_score :: nat
  cl_max_withdrawal_per_tx :: int
  cl_daily_withdrawal_limit :: int
  cl_min_duration_seconds :: nat

record circle_member =
  mb_address :: addr
  mb_position :: nat
  mb_joined_at :: nat
  mb_strikes :: nat
  mb_status :: nat
  mb_exited_at :: nat
  mb_total_contributions :: int
  mb_total_received :: int

record contribution =
  co_member :: addr
  co_round :: nat
  co_amount :: int
  co_timestamp :: nat
  co_on_time :: bool
  co_time_weight :: nat

record payout_recipient =
  po_recipient :: addr
  po_round :: nat
  po_amount :: int
  po_fee :: int
  po_payout_type :: nat
  po_timestamp :: nat

record round_fee_ledger =
  rf_round :: nat
  rf_payout_fee :: int
  rf_late_penalty_fee :: int
  rf_total_fee :: int

record auction_bid =
  bd_bidder :: addr
  bd_discount_bips :: nat
  bd_round :: nat
  bd_timestamp :: nat
  bd_deposit :: int

record dutch_auction_config =
  da_round :: nat
  da_start_bips :: nat
  da_floor_bips :: nat
  da_decay_bips_per_ledger :: nat
  da_start_ledger :: nat
  da_expiry_ledgers :: nat
  da_resolved :: bool

record vote_entry =
  ve_voter :: addr
  ve_vote_for :: addr
  ve_round :: nat
  ve_timestamp :: nat

record dispute_entry =
  di_raised_by :: addr
  di_evidence_hash :: bytes
  di_raised_at :: nat
  di_resolved_at :: nat
  di_resolution :: nat
  di_resolved_by :: addr

record dispute_resolution_record =
  dr_raised_by :: addr
  dr_resolution :: nat
  dr_outcome_code :: nat
  dr_resolved_by :: addr
  dr_resolved_at :: nat

record referral =
  rl_referrer :: addr
  rl_referred :: addr
  rl_bonus_pct :: nat
  rl_timestamp :: nat

record streak =
  st_member :: addr
  st_current_streak :: nat
  st_longest_streak :: nat
  st_last_round :: nat

section \<open>Errors\<close>

datatype circle_error =
    NotInitialized | NotActive | CircleFull | AlreadyMember | NotMember | InsufficientMoiScore
    | RoundNotCurrent | InvalidAmount | PaymentDeadlinePassed | MaxStrikesReached | NotOrganizer
    | ContractPaused | InvalidInviteCode | AuctionAlreadyResolved | VoteQuorumNotMet
    | AlreadyContributed | AlreadyVoted | AlreadyBidded | PayoutAlreadyExecuted
    | InvalidPayoutType | InvalidRound | ContributionMismatch | CircleNotFull | NotEnoughVotes
    | DisputeAlreadyRaised | NoActiveDispute | Unauthorized | InvalidBid | InvalidMemberStatus
    | EmptyPayoutOrder | CircleSizeExceedsTier | ContributionExceedsTier | VecAccessError
    | AllowlistNotPermitted | InsufficientContractBalance | SelfReferral | OracleUnavailable
    | NotImplemented | ZeroPayoutAmount | WithdrawalCapExceeded | DailyWithdrawalLimitExceeded
    | CircleDurationTooShort | PayoutAlreadyScheduled | DutchAuctionNotConfigured
    | DutchAuctionExpired | InvalidDutchConfig | AuctionNotResolved | InvalidContributionRound
    | DeadlineNotPassed | ReentrantCall | AlreadyStruck

text \<open>The numbers the enum gives its variants.\<close>

fun circle_error_code :: "circle_error \<Rightarrow> nat" where
  "circle_error_code NotInitialized = 1"
| "circle_error_code NotActive = 2"
| "circle_error_code CircleFull = 3"
| "circle_error_code AlreadyMember = 4"
| "circle_error_code NotMember = 5"
| "circle_error_code InsufficientMoiScore = 6"
| "circle_error_code RoundNotCurrent = 7"
| "circle_error_code InvalidAmount = 8"
| "circle_error_code PaymentDeadlinePassed = 9"
| "circle_error_code MaxStrikesReached = 10"
| "circle_error_code NotOrganizer = 11"
| "circle_error_code ContractPaused = 12"
| "circle_error_code InvalidInviteCode = 13"
| "circle_error_code AuctionAlreadyResolved = 14"
| "circle_error_code VoteQuorumNotMet = 15"
| "circle_error_code AlreadyContributed = 16"
| "circle_error_code AlreadyVoted = 17"
| "circle_error_code AlreadyBidded = 18"
| "circle_error_code PayoutAlreadyExecuted = 19"
| "circle_error_code InvalidPayoutType = 20"
| "circle_error_code InvalidRound = 21"
| "circle_error_code ContributionMismatch = 22"
| "circle_error_code CircleNotFull = 23"
| "circle_error_code NotEnoughVotes = 24"
| "circle_error_code DisputeAlreadyRaised = 25"
| "circle_error_code NoActiveDispute = 26"
| "circle_error_code Unauthorized = 27"
| "circle_error_code InvalidBid = 28"
| "circle_error_code InvalidMemberStatus = 29"
| "circle_error_code EmptyPayoutOrder = 30"
| "circle_error_code CircleSizeExceedsTier = 31"
| "circle_error_code ContributionExceedsTier = 32"
| "circle_error_code VecAccessError = 33"
| "circle_error_code AllowlistNotPermitted = 34"
| "circle_error_code InsufficientContractBalance = 35"
| "circle_error_code SelfReferral = 36"
| "circle_error_code OracleUnavailable = 37"
| "circle_error_code NotImplemented = 38"
| "circle_error_code ZeroPayoutAmount = 39"
| "circle_error_code WithdrawalCapExceeded = 40"
| "circle_error_code DailyWithdrawalLimitExceeded = 41"
| "circle_error_code CircleDurationTooShort = 42"
| "circle_error_code PayoutAlreadyScheduled = 59"
| "circle_error_code DutchAuctionNotConfigured = 60"
| "circle_error_code DutchAuctionExpired = 61"
| "circle_error_code InvalidDutchConfig = 62"
| "circle_error_code AuctionNotResolved = 63"
| "circle_error_code InvalidContributionRound = 64"
| "circle_error_code DeadlineNotPassed = 65"
| "circle_error_code ReentrantCall = 66"
| "circle_error_code AlreadyStruck = 67"

text \<open>The error envelope of \<open>common::types\<close> and \<open>CircleError::to_envelope\<close>.\<close>

record error_envelope =
  ee_code :: nat
  ee_message :: string
  ee_details :: string
  ee_request_id :: nat

definition error_envelope_new :: "nat \<Rightarrow> string \<Rightarrow> string \<Rightarrow> nat \<Rightarrow> error_envelope" where
  "error_envelope_new code message details request_id =
     \<lparr>ee_code = code, ee_message = message, ee_details = details, ee_request_id = request_id\<rparr>"

fun envelope_parts :: "circle_error \<Rightarrow> nat \<times> string" where
  "envelope_parts NotInitialized = (1, ''Circle not initialized'')"
| "envelope_parts NotActive = (2, ''Circle not active'')"
| "envelope_parts CircleFull = (3, ''Circle is full'')"
| "envelope_parts AlreadyMember = (4, ''Already a member'')"
| "envelope_parts NotMember = (5, ''Not a member'')"
| "envelope_parts InsufficientMoiScore = (6, ''Insufficient MoiScore'')"
| "envelope_parts RoundNotCurrent = (7, ''Round not current'')"
| "envelope_parts InvalidAmount = (8, ''Invalid amount'')"
| "envelope_parts PaymentDeadlinePassed = (9, ''Payment deadline passed'')"
| "envelope_parts MaxStrikesReached = (10, ''Max strikes reached'')"
| "envelope_parts NotOrganizer = (11, ''Not organizer'')"
| "envelope_parts ContractPaused = (12, ''Contract paused'')"
| "envelope_parts InvalidInviteCode = (13, ''Invalid invite code'')"
| "envelope_parts AuctionAlreadyResolved = (14, ''Auction already resolved'')"
| "envelope_parts VoteQuorumNotMet = (15, ''Vote quorum not met'')"
| "envelope_parts AlreadyContributed = (16, ''Already contributed'')"
| "envelope_parts AlreadyVoted = (17, ''Already voted'')"
| "envelope_parts AlreadyBidded = (18, ''Already placed bid'')"
| "envelope_parts PayoutAlreadyExecuted = (19, ''Payout already executed'')"
| "envelope_parts InvalidPayoutType = (20, ''Invalid payout type'')"
| "envelope_parts InvalidRound = (21, ''Invalid round'')"
| "envelope_parts ContributionMismatch = (22, ''Contribution mismatch'')"
| "envelope_parts CircleNotFull = (23, ''Circle not full'')"
| "envelope_parts NotEnoughVotes = (24, ''Not enough votes'')"
| "envelope_parts DisputeAlreadyRaised = (25, ''Dispute already raised'')"
| "envelope_parts NoActiveDispute = (26, ''No active dispute'')"
| "envelope_parts Unauthorized = (27, ''Unauthorized'')"
| "envelope_parts InvalidBid = (28, ''Invalid bid'')"
| "envelope_parts InvalidMemberStatus = (29, ''Invalid member status'')"
| "envelope_parts EmptyPayoutOrder = (30, ''Empty payout order'')"
| "envelope_parts CircleSizeExceedsTier = (31, ''Circle size exceeds tier'')"
| "envelope_parts ContributionExceedsTier = (32, ''Contribution exceeds tier'')"
| "envelope_parts VecAccessError = (33, ''Vector access error'')"
| "envelope_parts AllowlistNotPermitted = (34, ''Allowlist not permitted'')"
| "envelope_parts InsufficientContractBalance = (35, ''Insufficient contract balance'')"
| "envelope_parts SelfReferral = (36, ''Self referral not allowed'')"
| "envelope_parts OracleUnavailable = (37, ''Oracle unavailable'')"
| "envelope_parts NotImplemented = (38, ''Not implemented'')"
| "envelope_parts ZeroPayoutAmount = (39, ''Zero payout amount'')"
| "envelope_parts WithdrawalCapExceeded = (40, ''Withdrawal cap exceeded'')"
| "envelope_parts DailyWithdrawalLimitExceeded = (41, ''Daily withdrawal limit exceeded'')"
| "envelope_parts CircleDurationTooShort = (42, ''Circle duration too short'')"
| "envelope_parts PayoutAlreadyScheduled = (59, ''Payout already scheduled'')"
| "envelope_parts DutchAuctionNotConfigured = (60, ''Dutch auction not configured'')"
| "envelope_parts DutchAuctionExpired = (61, ''Dutch auction expired'')"
| "envelope_parts InvalidDutchConfig = (62, ''Invalid Dutch auction config'')"
| "envelope_parts AuctionNotResolved = (63, ''Auction not resolved'')"
| "envelope_parts InvalidContributionRound = (64, ''Round has outstanding contributions'')"
| "envelope_parts DeadlineNotPassed = (65, ''Contribution deadline not passed'')"
| "envelope_parts ReentrantCall = (66, ''Reentrant call rejected'')"
| "envelope_parts AlreadyStruck = (67, ''Member already struck'')"

definition to_envelope :: "circle_error \<Rightarrow> string \<Rightarrow> nat \<Rightarrow> error_envelope" where
  "to_envelope e details request_id =
     (case envelope_parts e of (code, msg) \<Rightarrow> error_envelope_new code msg details request_id)"

definition circle_error_from_code :: "nat \<Rightarrow> circle_error option" where
  "circle_error_from_code code =
     (if code = 1 then Some NotInitialized else
      if code = 2 then Some NotActive else
      if code = 3 then Some CircleFull else
      if code = 4 then Some AlreadyMember else
      if code = 5 then Some NotMember else
      if code = 6 then Some InsufficientMoiScore else
      if code = 7 then Some RoundNotCurrent else
      if code = 8 then Some InvalidAmount else
      if code = 9 then Some PaymentDeadlinePassed else
      if code = 10 then Some MaxStrikesReached else
      if code = 11 then Some NotOrganizer else
      if code = 12 then Some ContractPaused else
      if code = 13 then Some InvalidInviteCode else
      if code = 14 then Some AuctionAlreadyResolved else
      if code = 15 then Some VoteQuorumNotMet else
      if code = 16 then Some AlreadyContributed else
      if code = 17 then Some AlreadyVoted else
      if code = 18 then Some AlreadyBidded else
      if code = 19 then Some PayoutAlreadyExecuted else
      if code = 20 then Some InvalidPayoutType else
      if code = 21 then Some InvalidRound else
      if code = 22 then Some ContributionMismatch else
      if code = 23 then Some CircleNotFull else
      if code = 24 then Some NotEnoughVotes else
      if code = 25 then Some DisputeAlreadyRaised else
      if code = 26 then Some NoActiveDispute else
      if code = 27 then Some Unauthorized else
      if code = 28 then Some InvalidBid else
      if code = 29 then Some InvalidMemberStatus else
      if code = 30 then Some EmptyPayoutOrder else
      if code = 31 then Some CircleSizeExceedsTier else
      if code = 32 then Some ContributionExceedsTier else
      if code = 33 then Some VecAccessError else
      if code = 34 then Some AllowlistNotPermitted else
      if code = 35 then Some InsufficientContractBalance else
      if code = 36 then Some SelfReferral else
      if code = 37 then Some OracleUnavailable else
      if code = 38 then Some NotImplemented else
      if code = 39 then Some ZeroPayoutAmount else
      if code = 40 then Some WithdrawalCapExceeded else
      if code = 41 then Some DailyWithdrawalLimitExceeded else
      if code = 42 then Some CircleDurationTooShort else
      if code = 59 then Some PayoutAlreadyScheduled else
      if code = 60 then Some DutchAuctionNotConfigured else
      if code = 61 then Some DutchAuctionExpired else
      if code = 62 then Some InvalidDutchConfig else
      if code = 63 then Some AuctionNotResolved else
      if code = 64 then Some InvalidContributionRound else
      if code = 65 then Some DeadlineNotPassed else
      if code = 66 then Some ReentrantCall else
      if code = 67 then Some AlreadyStruck else
      None)"

section \<open>Storage\<close>

text \<open>
  One field per key of \<open>DataKey\<close>, \<open>None\<close> for an absent entry; \<open>ci_contribs\<close> is the entry under the
  symbol \<open>contribs\<close> that older versions wrote, and \<open>ci_rep\<close> what the reputation crate's \<open>scoring\<close>
  and \<open>storage\<close> modules keep in this contract's storage. Pause flag, reentrancy flag, events, token
  ledgers and the VRF entries come from the records it extends.
\<close>

datatype linked_storage = Linked (linked: reputation)

record 'l circle_state = "'l vrf_base" +
  ci_circle :: "circle option"
  ci_admin :: "addr option"
  ci_factory :: "addr option"
  ci_members :: "circle_member list option"
  ci_contributions :: "contribution list option"
  ci_payouts :: "payout_recipient list option"
  ci_bids :: "auction_bid list option"
  ci_votes :: "vote_entry list option"
  ci_dispute :: "dispute_entry option"
  ci_dispute_resolution :: "dispute_resolution_record option"
  ci_fee_bps :: "nat option"
  ci_treasury :: "addr option"
  ci_allowlist :: "addr list option"
  ci_token :: "addr option"
  ci_referrals :: "referral list option"
  ci_streaks :: "streak list option"
  ci_registry :: "addr option"
  ci_oracle :: "addr option"
  ci_fallback_oracle :: "addr option"
  ci_config_snapshot :: "nat \<Rightarrow> bytes option"
  ci_payout_scheduled :: "nat \<Rightarrow> bool option"
  ci_dutch_auction :: "nat \<Rightarrow> dutch_auction_config option"
  ci_round_fee_ledger :: "nat \<Rightarrow> round_fee_ledger option"
  ci_auction_winner :: "nat \<Rightarrow> addr option"
  ci_withdrawal_day :: "nat option"
  ci_withdrawal_amount :: "int option"
  ci_round_strikes :: "nat \<Rightarrow> (addr \<Rightarrow> nat option) option"
  ci_round_total :: "nat \<Rightarrow> int option"
  ci_round_contributors :: "nat \<Rightarrow> addr list option"
  ci_member_contributed :: "addr \<times> nat \<Rightarrow> bool option"
  ci_member_status :: "addr \<Rightarrow> nat option"
  ci_contribs :: "(addr \<times> nat \<Rightarrow> bool option) option"
  ci_rep :: linked_storage

definition rep_of :: "('l, 'a) circle_state_scheme \<Rightarrow> reputation" where
  "rep_of s = linked (ci_rep s)"

text \<open>A call of a function of the reputation crate that returns a score and changes its storage.\<close>

definition rep_call ::
    "(reputation \<Rightarrow> nat \<times> reputation) \<Rightarrow> ('l, 'a) circle_state_scheme \<Rightarrow> ('l, 'a) circle_state_scheme" where
  "rep_call f s = s\<lparr>ci_rep := Linked (snd (f (rep_of s)))\<rparr>"

text \<open>The storage of a freshly deployed contract, in a world whose token ledgers are \<open>l\<close>.\<close>

definition circle_empty :: "'l \<Rightarrow> 'l circle_state" where
  "circle_empty l = \<lparr>cb_paused = None, cb_reent = None, cb_events = [], cb_ledger = l,
     vrf_admin = None, vrf_salt = None, vrf_counter = None, vrf_owner = None, vrf_pending = None,
     vrf_pending_at = None, vrf_nonce = None,
     ci_circle = None, ci_admin = None, ci_factory = None, ci_members = None,
     ci_contributions = None, ci_payouts = None, ci_bids = None, ci_votes = None,
     ci_dispute = None, ci_dispute_resolution = None, ci_fee_bps = None, ci_treasury = None,
     ci_allowlist = None, ci_token = None, ci_referrals = None, ci_streaks = None,
     ci_registry = None, ci_oracle = None, ci_fallback_oracle = None,
     ci_config_snapshot = Map.empty, ci_payout_scheduled = Map.empty,
     ci_dutch_auction = Map.empty, ci_round_fee_ledger = Map.empty,
     ci_auction_winner = Map.empty, ci_withdrawal_day = None, ci_withdrawal_amount = None,
     ci_round_strikes = Map.empty, ci_round_total = Map.empty,
     ci_round_contributors = Map.empty, ci_member_contributed = Map.empty,
     ci_member_status = Map.empty, ci_contribs = None, ci_rep = Linked rp_empty\<rparr>"

section \<open>The calls to other contracts\<close>

text \<open>
  \<open>'l\<close> is the state of all other contracts. \<open>ce_deposit_fee E l u c x i\<close> is the call
  \<open>deposit_fee(c, x, i)\<close> on the treasury at \<open>u\<close>, \<open>ce_max_size\<close> and \<open>ce_max_contrib\<close> the queries
  \<open>calc_max_size\<close> and \<open>calc_max_contrib\<close> on a reputation registry; \<open>None\<close> is a trap.
  \<open>ce_yield_rate\<close> is \<open>try_invoke\<close> of an oracle, where \<open>None\<close> is a failed call and the circle goes
  on. \<open>ce_sha\<close> is the host's SHA-256 and \<open>ce_xdr\<close> the host's XDR encoding of a configuration.
\<close>

record 'l circle_env =
  ce_token :: "'l token_api"
  ce_deposit_fee :: "'l \<Rightarrow> addr \<Rightarrow> addr \<Rightarrow> int \<Rightarrow> addr \<Rightarrow> 'l option"
  ce_max_size :: "'l \<Rightarrow> addr \<Rightarrow> addr \<Rightarrow> nat option"
  ce_max_contrib :: "'l \<Rightarrow> addr \<Rightarrow> addr \<Rightarrow> int option"
  ce_yield_rate :: "'l \<Rightarrow> addr \<Rightarrow> nat \<Rightarrow> (int \<times> 'l) option"
  ce_sha :: "bytes \<Rightarrow> bytes"
  ce_xdr :: "circle_config \<Rightarrow> bytes"

lemma publish_circle_state [simp]:
  "ci_circle (publish ev s) = ci_circle s" "ci_admin (publish ev s) = ci_admin s"
  "ci_factory (publish ev s) = ci_factory s" "ci_members (publish ev s) = ci_members s"
  "ci_contributions (publish ev s) = ci_contributions s"
  "ci_payouts (publish ev s) = ci_payouts s" "ci_bids (publish ev s) = ci_bids s"
  "ci_votes (publish ev s) = ci_votes s" "ci_dispute (publish ev s) = ci_dispute s"
  "ci_dispute_resolution (publish ev s) = ci_dispute_resolution s"
  "ci_fee_bps (publish ev s) = ci_fee_bps s" "ci_treasury (publish ev s) = ci_treasury s"
  "ci_allowlist (publish ev s) = ci_allowlist s" "ci_token (publish ev s) = ci_token s"
  "ci_referrals (publish ev s) = ci_referrals s" "ci_streaks (publish ev s) = ci_streaks s"
  "ci_registry (publish ev s) = ci_registry s" "ci_oracle (publish ev s) = ci_oracle s"
  "ci_fallback_oracle (publish ev s) = ci_fallback_oracle s"
  "ci_config_snapshot (publish ev s) = ci_config_snapshot s"
  "ci_payout_scheduled (publish ev s) = ci_payout_scheduled s"
  "ci_dutch_auction (publish ev s) = ci_dutch_auction s"
  "ci_round_fee_ledger (publish ev s) = ci_round_fee_ledger s"
  "ci_auction_winner (publish ev s) = ci_auction_winner s"
  "ci_withdrawal_day (publish ev s) = ci_withdrawal_day s"
  "ci_withdrawal_amount (publish ev s) = ci_withdrawal_amount s"
  "ci_round_strikes (publish ev s) = ci_round_strikes s"
  "ci_round_total (publish ev s) = ci_round_total s"
  "ci_round_contributors (publish ev s) = ci_round_contributors s"
  "ci_member_contributed (publish ev s) = ci_member_contributed s"
  "ci_member_status (publish ev s) = ci_member_status s"
  "ci_contribs (publish ev s) = ci_contribs s" "ci_rep (publish ev s) = ci_rep s"
  by (simp_all add: publish_def)

section \<open>The error codes\<close>

lemma if_code_step:
  "circle_error_code c = k \<Longrightarrow> (r = Some e \<longrightarrow> n = circle_error_code e) \<Longrightarrow>
    (if n = k then Some c else r) = Some e \<longrightarrow> n = circle_error_code e"
  by auto

text \<open>
  C38: the error codes are a faithful numbering. Decoding the code of an error gives the error back, a
  code that decodes is the code of the error it decodes to, no two errors share a code, and the
  envelope of an error carries exactly that code, so the tables of the enum, of \<open>to_envelope\<close> and of
  \<open>from_code\<close> agree on all 51 errors and refuse every other number.
\<close>

theorem error_codes_round_trip:
  "circle_error_from_code (circle_error_code e) = Some e
    \<and> (circle_error_from_code n = Some e \<longleftrightarrow> n = circle_error_code e)
    \<and> ee_code (to_envelope e details request_id) = circle_error_code e
    \<and> (circle_error_code e = circle_error_code e' \<longleftrightarrow> e = e')"
proof -
  have dec: "circle_error_from_code (circle_error_code e) = Some e" for e
    by (cases e) (simp_all add: circle_error_from_code_def)
  moreover have "circle_error_from_code n = Some e \<longrightarrow> n = circle_error_code e"
    unfolding circle_error_from_code_def by (intro if_code_step) simp_all
  moreover have "ee_code (to_envelope e details request_id) = circle_error_code e"
    by (cases e) (simp_all add: to_envelope_def error_envelope_new_def)
  moreover have "circle_error_code e = circle_error_code e' \<longleftrightarrow> e = e'"
    by (metis dec option.inject)
  ultimately show ?thesis by blast
qed

end
