(* ===== verification/Ordered_Map.thy ===== *)
theory Ordered_Map
  imports Main
begin

text \<open>
  The host's \<open>Map\<close>: a finite map whose iteration runs through the keys in ascending order. It is a
  list of pairs with strictly ascending keys; lookup is \<open>map_of\<close>.
\<close>

fun om_set :: "'k::linorder \<Rightarrow> 'v \<Rightarrow> ('k \<times> 'v) list \<Rightarrow> ('k \<times> 'v) list" where
  "om_set k v [] = [(k, v)]"
| "om_set k v ((k', v') # m) =
     (if k < k' then (k, v) # (k', v') # m
      else if k = k' then (k, v) # m
      else (k', v') # om_set k v m)"

definition om_sorted :: "('k::linorder \<times> 'v) list \<Rightarrow> bool" where
  "om_sorted m \<longleftrightarrow> sorted_wrt (<) (map fst m)"

lemma map_of_om_set [simp]: "map_of (om_set k v m) = (map_of m)(k \<mapsto> v)"
  by (induction m) auto

lemma fst_om_set: "fst ` set (om_set k v m) = insert k (fst ` set m)"
proof (induction m)
  case Nil
  then show ?case by simp
next
  case (Cons p m)
  then show ?case by (cases p) (simp add: insert_commute)
qed

lemma om_sorted_Nil [simp]: "om_sorted []"
  by (simp add: om_sorted_def)

lemma om_sorted_set [intro]: "om_sorted m \<Longrightarrow> om_sorted (om_set k v m)"
proof (induction m)
  case Nil
  then show ?case by (simp add: om_sorted_def)
next
  case (Cons p m)
  obtain k' v' where p: "p = (k', v')" by (cases p)
  from Cons.prems p have s: "om_sorted m" and lt: "\<forall>x\<in>fst ` set m. k' < x"
    by (auto simp: om_sorted_def)
  from Cons.IH [OF s] have IH: "sorted_wrt (<) (map fst (om_set k v m))" by (simp add: om_sorted_def)
  have gt: "\<forall>x\<in>fst ` set (om_set k v m). k' < x" if "k' < k"
    using lt that by (simp add: fst_om_set)
  consider "k < k'" | "k = k'" | "k' < k" by fastforce
  then show ?case
  proof cases
    case 1
    with s lt p show ?thesis by (fastforce simp: om_sorted_def)
  next
    case 2
    with s lt p show ?thesis by (simp add: om_sorted_def)
  next
    case 3
    then have "\<not> k < k'" "k \<noteq> k'" by simp_all
    with 3 IH gt p show ?thesis by (simp add: om_sorted_def)
  qed
qed

lemma om_sorted_distinct: "om_sorted m \<Longrightarrow> distinct (map fst m)"
  unfolding om_sorted_def by (simp add: strict_sorted_iff)

lemma om_entry: "om_sorted m \<Longrightarrow> (k, v) \<in> set m \<longleftrightarrow> map_of m k = Some v"
  by (simp add: om_sorted_distinct)

lemma length_om_set_le: "length (om_set k v m) \<le> Suc (length m)"
  by (induction m) auto

end
