(* ===== verification/Circle_Payout.thy ===== *)
theory Circle_Payout
  imports Circle_Types Ordered_Map
begin

text \<open>
  The savings circle, second part: who receives a round's payout (\<open>payout.rs\<close>) and the yield rate the
  circle reads from an oracle (\<open>oracle.rs\<close>). The resolvers read the member list, the bids and the votes;
  \<open>resolve_random\<close> also advances the VRF.
\<close>

section \<open>The payout bitmap\<close>

text \<open>
  \<open>circle.payout_bitmap & (1u128 << position) != 0\<close> and \<open>payout_bitmap |= 1u128 << position\<close>; a
  release build takes the shift distance modulo the width.
\<close>

definition position_paid :: "128 word \<Rightarrow> nat \<Rightarrow> bool" where
  "position_paid bm pos \<longleftrightarrow> Bit_Operations.and bm (push_bit (pos mod 128) 1) \<noteq> 0"

definition mark_paid :: "nat \<Rightarrow> 128 word \<Rightarrow> 128 word" where
  "mark_paid pos bm = Bit_Operations.or bm (push_bit (pos mod 128) 1)"

lemma position_paid_bit: "position_paid bm pos \<longleftrightarrow> bit bm (pos mod 128)"
proof -
  have "Bit_Operations.and bm (push_bit n 1) \<noteq> 0 \<longleftrightarrow> bit bm n" if "n < 128" for n
    using that by (auto simp: bit_eq_iff [where ?'a = "128 word"] bit_and_iff bit_exp_iff)
  then show ?thesis by (simp add: position_paid_def)
qed

lemma position_paid_mark:
  "position_paid (mark_paid p bm) q \<longleftrightarrow> position_paid bm q \<or> p mod 128 = q mod 128"
proof -
  have "q mod 128 < 128" "p mod 128 < 128" by simp_all
  then show ?thesis
    by (auto simp: position_paid_bit mark_paid_def bit_or_iff bit_exp_iff)
qed

lemma position_paid_zero [simp]: "\<not> position_paid 0 p"
  by (simp add: position_paid_def)

section \<open>Resolving the recipient\<close>

definition ensure_active_unpaid_member :: "circle \<Rightarrow> circle_member \<Rightarrow> (circle_error, unit) res" where
  "ensure_active_unpaid_member c m =
     (if mb_status m \<noteq> MEMBER_ACTIVE then Inl (Err InvalidMemberStatus)
      else if position_paid (cl_payout_bitmap c) (mb_position m) then Inl (Err PayoutAlreadyExecuted)
      else Inr ())"

text \<open>The map from the positions of active members to their addresses, built member by member.\<close>

definition pos_to_addr :: "circle_member list \<Rightarrow> (nat \<times> addr) list" where
  "pos_to_addr members =
     fold (\<lambda>m mp. if mb_status m = MEMBER_ACTIVE then om_set (mb_position m) (mb_address m) mp else mp)
       members []"

text \<open>The first position of a list that is unpaid and belongs to an active member.\<close>

fun first_unpaid :: "128 word \<Rightarrow> (nat \<times> addr) list \<Rightarrow> nat list \<Rightarrow> addr option" where
  "first_unpaid bm mp [] = None"
| "first_unpaid bm mp (pos # ps) =
     (if \<not> position_paid bm pos
      then (case map_of mp pos of Some a \<Rightarrow> Some a | None \<Rightarrow> first_unpaid bm mp ps)
      else first_unpaid bm mp ps)"

fun first_unpaid_member :: "128 word \<Rightarrow> circle_member list \<Rightarrow> addr option" where
  "first_unpaid_member bm [] = None"
| "first_unpaid_member bm (m # ms) =
     (if mb_status m = MEMBER_ACTIVE \<and> \<not> position_paid bm (mb_position m)
      then Some (mb_address m) else first_unpaid_member bm ms)"

definition resolve_random ::
    "'l circle_env \<Rightarrow> circle \<Rightarrow> nat \<Rightarrow> 'l circle_state \<Rightarrow> (circle_error, addr \<times> 'l circle_state) res" where
  "resolve_random E c round s =
     bind_res (map_err (\<lambda>_. InvalidAmount)
       (shuffle_positions (ce_sha E) (cl_max_members c) (wrap_u 32 (int round * 1000)) s))
     (\<lambda>(positions, s).
     bind_res (ok_or (ci_members s) NotInitialized) (\<lambda>members.
     let mp = pos_to_addr members; bm = cl_payout_bitmap c in
     case first_unpaid bm mp positions of Some a \<Rightarrow> Inr (a, s) | None \<Rightarrow>
     case first_unpaid bm mp [0..<cl_max_members c] of Some a \<Rightarrow> Inr (a, s) | None \<Rightarrow>
     case first_unpaid_member bm members of Some a \<Rightarrow> Inr (a, s) | None \<Rightarrow>
     Inl (Err PayoutAlreadyExecuted)))"

text \<open>The remainder by zero panics.\<close>

definition resolve_fixed :: "circle \<Rightarrow> nat \<Rightarrow> 'l circle_state \<Rightarrow> (circle_error, addr) res" where
  "resolve_fixed c round s =
     (if cl_max_members c = 0 then Inl Trap else
      let pos = round mod cl_max_members c in
      if position_paid (cl_payout_bitmap c) pos then Inl (Err PayoutAlreadyExecuted) else
      bind_res (ok_or (ci_members s) NotInitialized) (\<lambda>members.
      ok_or (map_of (pos_to_addr members) pos) NotMember))"

text \<open>The highest bid of a round, the later one on a tie.\<close>

fun best_bid :: "nat \<Rightarrow> nat \<Rightarrow> auction_bid option \<Rightarrow> auction_bid list \<Rightarrow> auction_bid option" where
  "best_bid round max_bps winner [] = winner"
| "best_bid round max_bps winner (b # bs) =
     (if bd_round b = round \<and> bd_discount_bips b \<ge> max_bps
      then best_bid round (bd_discount_bips b) (Some b) bs
      else best_bid round max_bps winner bs)"

definition find_member :: "addr \<Rightarrow> circle_member list \<Rightarrow> circle_member option" where
  "find_member a members = find (\<lambda>m. mb_address m = a) members"

definition resolve_auction :: "circle \<Rightarrow> nat \<Rightarrow> 'l circle_state \<Rightarrow> (circle_error, addr \<times> nat) res" where
  "resolve_auction c round s =
     (let bids = unwrap_or (ci_bids s) [] in
      bind_res (ok_or (ci_members s) NotInitialized) (\<lambda>members.
      bind_res (ok_or (best_bid round 0 None bids) VoteQuorumNotMet) (\<lambda>winner_bid.
      case find_member (bd_bidder winner_bid) members of
        None \<Rightarrow> Inl (Err NotMember)
      | Some m \<Rightarrow>
          if position_paid (cl_payout_bitmap c) (mb_position m) then Inl (Err PayoutAlreadyExecuted)
          else bind_res (ensure_active_unpaid_member c m) (\<lambda>_.
               Inr (bd_bidder winner_bid, bd_discount_bips winner_bid)))))"

fun count_active_loop :: "circle_member list \<Rightarrow> nat \<Rightarrow> (circle_error, nat) res" where
  "count_active_loop [] c = Inr c"
| "count_active_loop (m # ms) c =
     (if mb_status m = MEMBER_ACTIVE
      then bind_res (ok_or (u_checked_add 32 c 1) InvalidAmount) (\<lambda>c. count_active_loop ms c)
      else count_active_loop ms c)"

definition count_active :: "'l circle_state \<Rightarrow> (circle_error, nat) res" where
  "count_active s =
     bind_res (ok_or (ci_members s) NotInitialized) (\<lambda>members. count_active_loop members 0)"

fun tally_votes ::
    "nat \<Rightarrow> vote_entry list \<Rightarrow> nat \<Rightarrow> (addr \<times> nat) list \<Rightarrow> (circle_error, nat \<times> (addr \<times> nat) list) res" where
  "tally_votes round [] match_count tally = Inr (match_count, tally)"
| "tally_votes round (v # vs) match_count tally =
     (if ve_round v = round
      then bind_res (ok_or (u_checked_add 32 match_count 1) InvalidAmount) (\<lambda>match_count.
           let c = unwrap_or (map_of tally (ve_vote_for v)) 0 in
           bind_res (ok_or (u_checked_add 32 c 1) InvalidAmount) (\<lambda>c.
           tally_votes round vs match_count (om_set (ve_vote_for v) c tally)))
      else tally_votes round vs match_count tally)"

fun best_candidate :: "(addr \<times> nat) list \<Rightarrow> addr option \<Rightarrow> nat \<Rightarrow> addr option" where
  "best_candidate [] best_addr best_count = best_addr"
| "best_candidate ((a, n) # rest) best_addr best_count =
     (if n > best_count then best_candidate rest (Some a) n
      else best_candidate rest best_addr best_count)"

definition resolve_vote :: "circle \<Rightarrow> nat \<Rightarrow> 'l circle_state \<Rightarrow> (circle_error, addr) res" where
  "resolve_vote c round s =
     (let votes = unwrap_or (ci_votes s) [] in
      bind_res (ok_or (ci_members s) NotInitialized) (\<lambda>members.
      bind_res (count_active s) (\<lambda>active.
      let quorum = active div 2 + 1 in
      bind_res (tally_votes round votes 0 []) (\<lambda>(match_count, tally).
      if match_count < quorum then Inl (Err VoteQuorumNotMet) else
      bind_res (ok_or (best_candidate tally None 0) VoteQuorumNotMet) (\<lambda>winner.
      case find_member winner members of
        None \<Rightarrow> Inl (Err NotMember)
      | Some m \<Rightarrow>
          if position_paid (cl_payout_bitmap c) (mb_position m) then Inl (Err PayoutAlreadyExecuted)
          else bind_res (ensure_active_unpaid_member c m) (\<lambda>_. Inr winner))))))"

section \<open>The yield oracle\<close>

definition call_oracle :: "'l circle_env \<Rightarrow> addr \<Rightarrow> nat \<Rightarrow> 'l circle_state \<Rightarrow> (int \<times> 'l circle_state) option" where
  "call_oracle E oracle round s =
     (case ce_yield_rate E (cb_ledger s) oracle round of
        None \<Rightarrow> None
      | Some (rate, l) \<Rightarrow> Some (rate, s\<lparr>cb_ledger := l\<rparr>))"

definition get_yield_rate ::
    "'l circle_env \<Rightarrow> host \<Rightarrow> nat \<Rightarrow> 'l circle_state \<Rightarrow> (circle_error, int \<times> 'l circle_state) res" where
  "get_yield_rate E h round s =
     (case ci_oracle s of None \<Rightarrow> Inr (0, s) | Some primary_addr \<Rightarrow>
      case call_oracle E primary_addr round s of Some (rate, s) \<Rightarrow> Inr (rate, s) | None \<Rightarrow>
      case ci_fallback_oracle s of None \<Rightarrow> Inl (Err OracleUnavailable) | Some fallback_addr \<Rightarrow>
      case call_oracle E fallback_addr round s of
        Some (rate, s) \<Rightarrow>
          Inr (rate, publish (Event ''orc_fall'' [AddrV (self h)]
            [NatV round, AddrV primary_addr, AddrV fallback_addr]) s)
      | None \<Rightarrow> Inl (Err OracleUnavailable))"

definition set_primary_oracle :: "addr \<Rightarrow> 'l circle_state \<Rightarrow> 'l circle_state" where
  "set_primary_oracle oracle s = s\<lparr>ci_oracle := Some oracle\<rparr>"

definition store_fallback_oracle :: "addr \<Rightarrow> 'l circle_state \<Rightarrow> 'l circle_state" where
  "store_fallback_oracle oracle s = s\<lparr>ci_fallback_oracle := Some oracle\<rparr>"

definition get_primary_oracle :: "'l circle_state \<Rightarrow> addr option" where
  "get_primary_oracle s = ci_oracle s"

definition get_fallback_oracle :: "'l circle_state \<Rightarrow> addr option" where
  "get_fallback_oracle s = ci_fallback_oracle s"

section \<open>The recipient is an active member who has not been paid\<close>

definition active_unpaid :: "circle \<Rightarrow> circle_member list \<Rightarrow> addr \<Rightarrow> bool" where
  "active_unpaid c members a \<longleftrightarrow>
     (\<exists>m\<in>set members. mb_address m = a \<and> mb_status m = MEMBER_ACTIVE
        \<and> \<not> position_paid (cl_payout_bitmap c) (mb_position m))"

lemma pos_to_addr_entry:
  assumes "map_of (fold (\<lambda>m mp. if mb_status m = MEMBER_ACTIVE
      then om_set (mb_position m) (mb_address m) mp else mp) members mp) p = Some a"
  shows "map_of mp p = Some a \<or>
    (\<exists>m\<in>set members. mb_status m = MEMBER_ACTIVE \<and> mb_position m = p \<and> mb_address m = a)"
  using assms
proof (induction members arbitrary: mp)
  case Nil
  then show ?case by simp
next
  case (Cons m ms)
  from Cons.IH [OF Cons.prems [simplified fold_simps o_apply]]
  show ?case by (auto split: if_splits)
qed

lemma pos_to_addr_Some:
  assumes "map_of (pos_to_addr members) p = Some a"
  obtains m where "m \<in> set members" "mb_status m = MEMBER_ACTIVE" "mb_position m = p" "mb_address m = a"
  using pos_to_addr_entry [OF assms [unfolded pos_to_addr_def]] by auto

lemma first_unpaid_Some:
  "first_unpaid bm mp ps = Some a \<Longrightarrow>
     \<exists>p\<in>set ps. \<not> position_paid bm p \<and> map_of mp p = Some a"
  by (induction ps) (auto split: if_splits option.splits)

lemma first_unpaid_active:
  "first_unpaid (cl_payout_bitmap c) (pos_to_addr members) ps = Some a \<Longrightarrow> active_unpaid c members a"
  unfolding active_unpaid_def by (blast dest: first_unpaid_Some elim: pos_to_addr_Some)

lemma first_unpaid_member_active:
  "first_unpaid_member (cl_payout_bitmap c) members = Some a \<Longrightarrow> active_unpaid c members a"
  unfolding active_unpaid_def by (induction members) (auto split: if_splits)

lemma first_unpaid_member_None:
  "first_unpaid_member (cl_payout_bitmap c) members = None \<longleftrightarrow> (\<forall>a. \<not> active_unpaid c members a)"
  unfolding active_unpaid_def by (induction members) auto

lemma find_member_Some:
  "find_member a members = Some m \<Longrightarrow> m \<in> set members \<and> mb_address m = a"
  unfolding find_member_def by (auto simp: find_Some_iff)

lemma ensure_active_unpaid_member_Inr [res_simps]:
  "ensure_active_unpaid_member c m = Inr u \<longleftrightarrow>
     mb_status m = MEMBER_ACTIVE \<and> \<not> position_paid (cl_payout_bitmap c) (mb_position m)"
  by (auto simp: ensure_active_unpaid_member_def)

lemma found_member_active:
  "find_member a members = Some m \<Longrightarrow> mb_status m = MEMBER_ACTIVE \<Longrightarrow>
    \<not> position_paid (cl_payout_bitmap c) (mb_position m) \<Longrightarrow> active_unpaid c members a"
  unfolding active_unpaid_def by (blast dest: find_member_Some)

subsection \<open>Random order\<close>

text \<open>Drawing positions changes the VRF entries and the events of the circle and nothing else.\<close>

definition vrf_frame :: "'l circle_state \<Rightarrow> 'l circle_state \<Rightarrow> bool" where
  "vrf_frame s s' \<longleftrightarrow> cb_ledger s' = cb_ledger s \<and> cb_reent s' = cb_reent s \<and> cb_paused s' = cb_paused s
     \<and> vrf_base.more s' = vrf_base.more s"

lemma evaluate_vrf_frame:
  "evaluate_vrf sha seed s = Inr (out, s') \<Longrightarrow> vrf_frame s s'"
  by (auto simp: evaluate_vrf_Inr vrf_frame_def publish_def)

lemma shuffle_loop_frame:
  "shuffle_loop sha n base is acc s = Inr (ps, s') \<Longrightarrow> vrf_frame s s'"
proof (induction "is" arbitrary: acc s)
  case Nil
  then show ?case by (simp add: vrf_frame_def)
next
  case (Cons i "is")
  from Cons.prems obtain seed out s1 where "evaluate_vrf sha seed s = Inr (out, s1)"
    and "shuffle_loop sha n base is (acc @ [out mod n]) s1 = Inr (ps, s')"
    by (auto simp: res_simps)
  with Cons.IH evaluate_vrf_frame show ?case unfolding vrf_frame_def by metis
qed

lemma vrf_frame_ci:
  assumes "vrf_frame s s'"
  shows "ci_members s' = ci_members s" "ci_circle s' = ci_circle s"
  using assms by (cases s, cases s', simp add: vrf_frame_def)+

lemma resolve_random_Inr:
  assumes "resolve_random E c round s = Inr (a, s')"
  shows "vrf_frame s s' \<and> (\<exists>ms. ci_members s = Some ms \<and> active_unpaid c ms a)"
proof -
  from assms obtain ps ms where sh: "shuffle_positions (ce_sha E) (cl_max_members c)
      (wrap_u 32 (int round * 1000)) s = Inr (ps, s')" and ms: "ci_members s' = Some ms"
    and pick: "first_unpaid (cl_payout_bitmap c) (pos_to_addr ms) ps = Some a
      \<or> first_unpaid (cl_payout_bitmap c) (pos_to_addr ms) [0..<cl_max_members c] = Some a
      \<or> first_unpaid_member (cl_payout_bitmap c) ms = Some a"
    by (auto simp: resolve_random_def res_simps Let_def split: option.splits)
  from pick have a: "active_unpaid c ms a"
    using first_unpaid_active first_unpaid_member_active by blast
  from sh have fr: "vrf_frame s s'" unfolding shuffle_positions_def by (rule shuffle_loop_frame)
  with ms a vrf_frame_ci [OF fr] show ?thesis by auto
qed

text \<open>A random draw fails for want of a member only when no active member is left unpaid.\<close>

lemma resolve_random_total:
  assumes "ci_members s = Some ms" "active_unpaid c ms a"
    and "shuffle_positions (ce_sha E) (cl_max_members c) (wrap_u 32 (int round * 1000)) s = Inr (ps, s1)"
  shows "\<exists>b. resolve_random E c round s = Inr (b, s1)"
proof -
  from assms(3) have "vrf_frame s s1" unfolding shuffle_positions_def by (rule shuffle_loop_frame)
  with assms(1) have "ci_members s1 = Some ms" using vrf_frame_ci by metis
  then have members: "ok_or (ci_members s1) NotInitialized = Inr ms" by simp
  from assms(2) obtain b where b: "first_unpaid_member (cl_payout_bitmap c) ms = Some b"
    using first_unpaid_member_None by blast
  show ?thesis
    unfolding resolve_random_def assms(3) map_err_simps bind_res_simps prod.case members Let_def b
    by (simp split: option.split)
qed

subsection \<open>Fixed order\<close>

lemma resolve_fixed_Inr:
  assumes "resolve_fixed c round s = Inr a"
  shows "\<exists>ms. ci_members s = Some ms \<and> active_unpaid c ms a"
proof -
  from assms obtain ms where ms: "ci_members s = Some ms"
    and m: "map_of (pos_to_addr ms) (round mod cl_max_members c) = Some a"
    and p: "\<not> position_paid (cl_payout_bitmap c) (round mod cl_max_members c)"
    by (auto simp: resolve_fixed_def res_simps Let_def)
  from pos_to_addr_Some [OF m] obtain m' where "m' \<in> set ms" "mb_status m' = MEMBER_ACTIVE"
    "mb_position m' = round mod cl_max_members c" "mb_address m' = a" .
  with p have "active_unpaid c ms a" unfolding active_unpaid_def by metis
  with ms show ?thesis by blast
qed

subsection \<open>Auction\<close>

text \<open>\<open>wins_auction\<close>: the bid is the last of those with the highest discount of the round.\<close>

definition wins_auction :: "nat \<Rightarrow> auction_bid list \<Rightarrow> auction_bid \<Rightarrow> bool" where
  "wins_auction round bids b \<longleftrightarrow>
     (\<exists>pre post. bids = pre @ b # post \<and> bd_round b = round
        \<and> (\<forall>x\<in>set pre. bd_round x = round \<longrightarrow> bd_discount_bips x \<le> bd_discount_bips b)
        \<and> (\<forall>x\<in>set post. bd_round x = round \<longrightarrow> bd_discount_bips x < bd_discount_bips b))"

lemma best_bid_no_better:
  "\<forall>x\<in>set bids. bd_round x = round \<longrightarrow> bd_discount_bips x < mx \<Longrightarrow> best_bid round mx w bids = w"
  by (induction bids) auto

lemma best_bid_reaches:
  "bd_round b = round \<Longrightarrow> mx \<le> bd_discount_bips b \<Longrightarrow>
   \<forall>x\<in>set pre. bd_round x = round \<longrightarrow> bd_discount_bips x \<le> bd_discount_bips b \<Longrightarrow>
   best_bid round mx w (pre @ b # post) = best_bid round (bd_discount_bips b) (Some b) post"
  by (induction pre arbitrary: mx w) auto

lemma wins_auction_best_bid:
  "wins_auction round bids b \<Longrightarrow> best_bid round 0 None bids = Some b"
  unfolding wins_auction_def by (auto simp: best_bid_reaches best_bid_no_better)

lemma wins_auction_exists:
  "\<exists>x\<in>set bids. bd_round x = round \<Longrightarrow> \<exists>b. wins_auction round bids b"
proof (induction bids)
  case Nil
  then show ?case by simp
next
  case (Cons x xs)
  show ?case
  proof (cases "\<exists>y\<in>set xs. bd_round y = round")
    case False
    with Cons.prems have "wins_auction round (x # xs) x" unfolding wins_auction_def
      by (intro exI [of _ "[]"] exI [of _ xs]) auto
    then show ?thesis ..
  next
    case True
    with Cons.IH obtain b pre post where b: "xs = pre @ b # post" "bd_round b = round"
      "\<forall>y\<in>set pre. bd_round y = round \<longrightarrow> bd_discount_bips y \<le> bd_discount_bips b"
      "\<forall>y\<in>set post. bd_round y = round \<longrightarrow> bd_discount_bips y < bd_discount_bips b"
      unfolding wins_auction_def by blast
    show ?thesis
    proof (cases "bd_round x = round \<and> bd_discount_bips b < bd_discount_bips x")
      case True
      with b have "wins_auction round (x # xs) x" unfolding wins_auction_def
        by (intro exI [of _ "[]"] exI [of _ xs]) force
      then show ?thesis ..
    next
      case False
      with b have "wins_auction round (x # xs) b" unfolding wins_auction_def
        by (intro exI [of _ "x # pre"] exI [of _ post]) auto
      then show ?thesis ..
    qed
  qed
qed

lemma best_bid_None:
  "\<not> (\<exists>x\<in>set bids. bd_round x = round) \<Longrightarrow> best_bid round mx w bids = w"
  by (induction bids) auto

lemma best_bid_wins: "best_bid round 0 None bids = Some b \<longleftrightarrow> wins_auction round bids b"
proof
  assume eq: "best_bid round 0 None bids = Some b"
  then have "\<exists>x\<in>set bids. bd_round x = round" using best_bid_None [of bids round 0 None] by force
  then obtain b' where "wins_auction round bids b'" using wins_auction_exists by blast
  with eq wins_auction_best_bid show "wins_auction round bids b" by fastforce
qed (rule wins_auction_best_bid)

lemma resolve_auction_Inr [res_simps]:
  "resolve_auction c round s = Inr (w, bips) \<longleftrightarrow>
     (\<exists>ms b m. ci_members s = Some ms \<and> wins_auction round (unwrap_or (ci_bids s) []) b
        \<and> w = bd_bidder b \<and> bips = bd_discount_bips b \<and> find_member w ms = Some m
        \<and> mb_status m = MEMBER_ACTIVE \<and> \<not> position_paid (cl_payout_bitmap c) (mb_position m))"
  by (auto simp: resolve_auction_def Let_def res_simps best_bid_wins)

subsection \<open>Vote\<close>

definition votes_for :: "nat \<Rightarrow> vote_entry list \<Rightarrow> addr \<Rightarrow> nat" where
  "votes_for round votes a = length (filter (\<lambda>v. ve_round v = round \<and> ve_vote_for v = a) votes)"

definition votes_cast :: "nat \<Rightarrow> vote_entry list \<Rightarrow> nat" where
  "votes_cast round votes = length (filter (\<lambda>v. ve_round v = round) votes)"

definition active_members :: "circle_member list \<Rightarrow> nat" where
  "active_members members = length (filter (\<lambda>m. mb_status m = MEMBER_ACTIVE) members)"

lemma count_active_loop_eq:
  "c + length members < 2 ^ 32 \<Longrightarrow> count_active_loop members c = Inr (c + active_members members)"
  by (induction members arbitrary: c) (auto simp: active_members_def u_checked_add_def)

text \<open>The tally as a function: zero for an address without an entry.\<close>

definition tally_of :: "(addr \<times> nat) list \<Rightarrow> addr \<Rightarrow> nat" where
  "tally_of tally a = unwrap_or (map_of tally a) 0"

lemma tally_of_om_set: "tally_of (om_set x n tally) a = (if a = x then n else tally_of tally a)"
  by (simp add: tally_of_def)

lemma tally_votes_eq:
  assumes "n + length votes < 2 ^ 32" "\<forall>a. tally_of tally a \<le> n" "om_sorted tally"
    and "\<forall>(a, k)\<in>set tally. 0 < k"
  shows "\<exists>tally'. tally_votes round votes n tally = Inr (n + votes_cast round votes, tally')
    \<and> om_sorted tally' \<and> (\<forall>a. tally_of tally' a = tally_of tally a + votes_for round votes a)
    \<and> (\<forall>(a, k)\<in>set tally'. 0 < k)"
  using assms
proof (induction votes arbitrary: n tally)
  case Nil
  then show ?case by (simp add: votes_cast_def votes_for_def)
next
  case (Cons v vs)
  show ?case
  proof (cases "ve_round v = round")
    case False
    with Cons.IH [of n tally] Cons.prems show ?thesis by (simp add: votes_cast_def votes_for_def)
  next
    case True
    let ?k = "tally_of tally (ve_vote_for v)"
    let ?t = "om_set (ve_vote_for v) (Suc ?k) tally"
    have k: "?k \<le> n" using Cons.prems(2) by blast
    then have le: "\<forall>a. tally_of ?t a \<le> Suc n"
      using Cons.prems(2) by (simp add: tally_of_om_set le_SucI)
    have s: "om_sorted ?t" using Cons.prems(3) by blast
    have pos: "\<forall>(a, k)\<in>set ?t. 0 < k"
      using Cons.prems(4) om_entry [OF s] om_entry [OF Cons.prems(3)] by (fastforce split: if_splits)
    from Cons.IH [of "Suc n" ?t, OF _ le s pos] Cons.prems(1)
    obtain tally' where t: "tally_votes round vs (Suc n) ?t = Inr (Suc n + votes_cast round vs, tally')"
      and t': "om_sorted tally'" "\<forall>a. tally_of tally' a = tally_of ?t a + votes_for round vs a"
        "\<forall>(a, k)\<in>set tally'. 0 < k"
      by auto
    have "tally_votes round (v # vs) n tally = Inr (n + votes_cast round (v # vs), tally')"
      using True Cons.prems(1) k t by (simp add: u_checked_add_def votes_cast_def tally_of_def)
    moreover have "\<forall>a. tally_of tally' a = tally_of tally a + votes_for round (v # vs) a"
      using True t'(2) by (simp add: tally_of_om_set votes_for_def)
    ultimately show ?thesis using t' by blast
  qed
qed

lemma best_candidate_no_better:
  "\<forall>(a, n)\<in>set t. n \<le> k \<Longrightarrow> best_candidate t ba k = ba"
  by (induction t) auto

lemma best_candidate_reaches:
  "bc < k \<Longrightarrow> \<forall>(a, n)\<in>set pre. n < k \<Longrightarrow>
   best_candidate (pre @ (w, k) # post) ba bc = best_candidate post (Some w) k"
  by (induction pre arbitrary: ba bc) auto

lemma first_max_exists:
  fixes t :: "('a \<times> nat) list"
  assumes "t \<noteq> []"
  shows "\<exists>pre w k post. t = pre @ (w, k) # post \<and> (\<forall>(a, n)\<in>set pre. n < k) \<and> (\<forall>(a, n)\<in>set post. n \<le> k)"
  using assms
proof (induction t)
  case Nil
  then show ?case by simp
next
  case (Cons p t)
  obtain a n where p: "p = (a, n)" by (cases p)
  show ?case
  proof (cases "t = []")
    case True
    with p show ?thesis by (intro exI [of _ "[]"] exI [of _ a] exI [of _ n]) simp
  next
    case False
    with Cons.IH obtain pre w k post where s: "t = pre @ (w, k) # post"
      "\<forall>(a, n)\<in>set pre. n < k" "\<forall>(a, n)\<in>set post. n \<le> k"
      by blast
    show ?thesis
    proof (cases "k \<le> n")
      case True
      with s have "\<forall>(a, m)\<in>set t. m \<le> n" by fastforce
      with p show ?thesis
        by (intro exI [of _ "[]"] exI [of _ a] exI [of _ n] exI [of _ t]) simp
    next
      case False
      with s p show ?thesis
        by (intro exI [of _ "p # pre"] exI [of _ w] exI [of _ k] exI [of _ post]) auto
    qed
  qed
qed

definition wins_tally :: "(addr \<times> nat) list \<Rightarrow> addr \<Rightarrow> bool" where
  "wins_tally tally w \<longleftrightarrow> 0 < tally_of tally w \<and> (\<forall>a. tally_of tally a \<le> tally_of tally w)
     \<and> (\<forall>a. tally_of tally a = tally_of tally w \<longrightarrow> w \<le> a)"

lemma wins_tally_unique: "wins_tally t a \<Longrightarrow> wins_tally t b \<Longrightarrow> a = b"
  unfolding wins_tally_def by (meson antisym)

lemma best_candidate_wins:
  assumes "om_sorted tally" "\<forall>(a, k)\<in>set tally. 0 < k" "tally \<noteq> []"
  shows "\<exists>w. best_candidate tally None 0 = Some w \<and> wins_tally tally w"
proof -
  from first_max_exists [OF assms(3)] obtain pre w k post where t: "tally = pre @ (w, k) # post"
    and pre: "\<forall>(a, n)\<in>set pre. n < k" and post: "\<forall>(a, n)\<in>set post. n \<le> k" by blast
  have k: "0 < k" using assms(2) t by auto
  then have best: "best_candidate tally None 0 = Some w"
    using t pre post by (simp add: best_candidate_reaches best_candidate_no_better)
  have w: "tally_of tally w = k"
    using om_entry [OF assms(1), of w k] t by (simp add: tally_of_def)
  have entry: "tally_of tally a = 0 \<or> (a, tally_of tally a) \<in> set tally" for a
    using om_entry [OF assms(1), of a] by (cases "map_of tally a") (auto simp: tally_of_def)
  have "tally_of tally a \<le> k" for a using entry [of a] t pre post by fastforce
  moreover have "w \<le> a" if "tally_of tally a = k" for a
  proof -
    from entry [of a] that k have "(a, k) \<in> set tally" by simp
    with t pre have "a = w \<or> (a, k) \<in> set post" by auto
    with assms(1) t show ?thesis by (force simp: om_sorted_def sorted_wrt_append)
  qed
  ultimately have "wins_tally tally w" unfolding wins_tally_def using w k by simp
  with best show ?thesis by blast
qed

definition wins_vote :: "nat \<Rightarrow> vote_entry list \<Rightarrow> circle_member list \<Rightarrow> addr \<Rightarrow> bool" where
  "wins_vote round votes members w \<longleftrightarrow>
     active_members members div 2 + 1 \<le> votes_cast round votes
     \<and> (\<forall>a. votes_for round votes a \<le> votes_for round votes w)
     \<and> (\<forall>a. votes_for round votes a = votes_for round votes w \<longrightarrow> w \<le> a)"

lemma votes_for_pos:
  "0 < votes_cast round votes \<Longrightarrow> \<exists>a. 0 < votes_for round votes a"
  unfolding votes_cast_def votes_for_def by (auto simp: filter_empty_conv)

lemma resolve_vote_eq:
  assumes "ci_members s = Some ms" "length ms < 2 ^ 32" "length (unwrap_or (ci_votes s) []) < 2 ^ 32"
  shows "resolve_vote c round s = Inr w \<longleftrightarrow>
     wins_vote round (unwrap_or (ci_votes s) []) ms w
     \<and> (\<exists>m. find_member w ms = Some m \<and> mb_status m = MEMBER_ACTIVE
          \<and> \<not> position_paid (cl_payout_bitmap c) (mb_position m))"
proof -
  let ?vs = "unwrap_or (ci_votes s) []"
  have act: "count_active s = Inr (active_members ms)"
    using assms(1,2) by (simp add: count_active_def count_active_loop_eq)
  from tally_votes_eq [of 0 ?vs "[]" round] assms(3)
  obtain tally where t: "tally_votes round ?vs 0 [] = Inr (votes_cast round ?vs, tally)"
    and srt: "om_sorted tally" and n: "\<And>a. tally_of tally a = votes_for round ?vs a"
    and pos: "\<forall>(a, k)\<in>set tally. 0 < k"
    by (auto simp: tally_of_def)
  show ?thesis
  proof (cases "active_members ms div 2 + 1 \<le> votes_cast round ?vs")
    case False
    then show ?thesis using assms(1) act t
      by (simp add: resolve_vote_def Let_def wins_vote_def)
  next
    case True
    then have cast: "0 < votes_cast round ?vs" by simp
    then have "tally \<noteq> []" using votes_for_pos [OF cast] n by (auto simp: tally_of_def)
    from best_candidate_wins [OF srt pos this] obtain b where
      b: "best_candidate tally None 0 = Some b" and wb: "wins_tally tally b" by blast
    have iff: "wins_vote round ?vs ms x \<longleftrightarrow> x = b" for x
    proof
      assume x: "wins_vote round ?vs ms x"
      from votes_for_pos [OF cast] obtain a where "0 < votes_for round ?vs a" by blast
      with x have "0 < votes_for round ?vs x" unfolding wins_vote_def
        by (metis bot_nat_0.not_eq_extremum le_zero_eq)
      with x have "wins_tally tally x" unfolding wins_vote_def wins_tally_def n by simp
      then show "x = b" using wb wins_tally_unique by blast
    next
      assume "x = b"
      with wb True show "wins_vote round ?vs ms x" unfolding wins_vote_def wins_tally_def n by simp
    qed
    show ?thesis using assms(1) act t b True
      unfolding iff by (auto simp: resolve_vote_def Let_def res_simps)
  qed
qed

lemma resolve_vote_active:
  assumes "resolve_vote c round s = Inr w"
  shows "\<exists>ms. ci_members s = Some ms \<and> active_unpaid c ms w"
  using assms by (auto simp: resolve_vote_def Let_def res_simps dest: found_member_active)

section \<open>Properties\<close>


text \<open>
  C21: a vote is decided by quorum and plurality. A payout by vote resolves to an address exactly when
  the votes of the round number more than half of the active members (rounded down, plus one), the
  address has at least as many as any other and is the least of those with as many, and it is an
  active member who has not been paid; below the quorum the error is \<open>VoteQuorumNotMet\<close>.
\<close>

theorem vote_recipient_exact:
  assumes "ci_members s = Some ms" "length ms < 2 ^ 32" "length (unwrap_or (ci_votes s) []) < 2 ^ 32"
  shows "(resolve_vote c round s = Inr w \<longleftrightarrow>
      active_members ms div 2 + 1 \<le> votes_cast round (unwrap_or (ci_votes s) [])
      \<and> (\<forall>a. votes_for round (unwrap_or (ci_votes s) []) a \<le> votes_for round (unwrap_or (ci_votes s) []) w)
      \<and> (\<forall>a. votes_for round (unwrap_or (ci_votes s) []) a = votes_for round (unwrap_or (ci_votes s) []) w
            \<longrightarrow> w \<le> a)
      \<and> (\<exists>m. find_member w ms = Some m \<and> mb_status m = MEMBER_ACTIVE
            \<and> \<not> position_paid (cl_payout_bitmap c) (mb_position m)))
    \<and> (votes_cast round (unwrap_or (ci_votes s) []) < active_members ms div 2 + 1 \<longrightarrow>
        resolve_vote c round s = Inl (Err VoteQuorumNotMet))"
proof
  show "resolve_vote c round s = Inr w \<longleftrightarrow>
      active_members ms div 2 + 1 \<le> votes_cast round (unwrap_or (ci_votes s) [])
      \<and> (\<forall>a. votes_for round (unwrap_or (ci_votes s) []) a \<le> votes_for round (unwrap_or (ci_votes s) []) w)
      \<and> (\<forall>a. votes_for round (unwrap_or (ci_votes s) []) a = votes_for round (unwrap_or (ci_votes s) []) w
            \<longrightarrow> w \<le> a)
      \<and> (\<exists>m. find_member w ms = Some m \<and> mb_status m = MEMBER_ACTIVE
            \<and> \<not> position_paid (cl_payout_bitmap c) (mb_position m))"
    unfolding resolve_vote_eq [OF assms] wins_vote_def by simp
  from tally_votes_eq [of 0 "unwrap_or (ci_votes s) []" "[]" round] assms(3)
  obtain tally where "tally_votes round (unwrap_or (ci_votes s) []) 0 []
      = Inr (votes_cast round (unwrap_or (ci_votes s) []), tally)"
    by (auto simp: tally_of_def)
  then show "votes_cast round (unwrap_or (ci_votes s) []) < active_members ms div 2 + 1 \<longrightarrow>
      resolve_vote c round s = Inl (Err VoteQuorumNotMet)"
    using assms(1,2) by (simp add: resolve_vote_def Let_def count_active_def count_active_loop_eq)
qed

section \<open>The properties on concrete inputs\<close>

definition cp_member :: "addr \<Rightarrow> nat \<Rightarrow> circle_member" where
  "cp_member a p = \<lparr>mb_address = a, mb_position = p, mb_joined_at = 0, mb_strikes = 0,
     mb_status = MEMBER_ACTIVE, mb_exited_at = 0, mb_total_contributions = 0, mb_total_received = 0\<rparr>"

definition cp_bid :: "addr \<Rightarrow> nat \<Rightarrow> nat \<Rightarrow> auction_bid" where
  "cp_bid a bips round = \<lparr>bd_bidder = a, bd_discount_bips = bips, bd_round = round, bd_timestamp = 0,
     bd_deposit = 0\<rparr>"

definition cp_vote :: "addr \<Rightarrow> addr \<Rightarrow> nat \<Rightarrow> vote_entry" where
  "cp_vote a b round = \<lparr>ve_voter = a, ve_vote_for = b, ve_round = round, ve_timestamp = 0\<rparr>"

definition cp_state :: "unit circle_state" where
  "cp_state = (circle_empty ())\<lparr>ci_members := Some [cp_member 5 0, cp_member 6 1, cp_member 7 2],
     ci_bids := Some [cp_bid 5 300 1, cp_bid 6 300 1, cp_bid 7 900 0],
     ci_votes := Some [cp_vote 5 7 1, cp_vote 6 7 1, cp_vote 7 6 1]\<rparr>"

definition cp_circle :: circle where
  "cp_circle = \<lparr>cl_id = 100, cl_token = 9, cl_name = ''circle'', cl_organizer = 2, cl_factory = 3,
     cl_contribution_amount = 50, cl_max_members = 3, cl_member_count = 3, cl_payout_type = 0,
     cl_total_rounds = 3, cl_current_round = 1, cl_status = 1, cl_started_at = 10,
     cl_created_at = 5, cl_contribution_deadline_seconds = 0, cl_min_moi_score = 0,
     cl_collateral_amount = 0, cl_penalty_bps = 0, cl_grace_period_seconds = 0, cl_max_strikes = 3,
     cl_payout_bitmap = 1, cl_total_payouts = 0, cl_total_fees = 0, cl_slug = ''c'',
     cl_health_score = 100, cl_max_withdrawal_per_tx = 0, cl_daily_withdrawal_limit = 0,
     cl_min_duration_seconds = 0\<rparr>"


theorem vote_recipient_exact_witness: "resolve_vote cp_circle 1 cp_state = Inr 7"
proof -
  have ms: "ci_members cp_state = Some [cp_member 5 0, cp_member 6 1, cp_member 7 2]"
    by (simp add: cp_state_def)
  have vs: "unwrap_or (ci_votes cp_state) [] = [cp_vote 5 7 1, cp_vote 6 7 1, cp_vote 7 6 1]"
    by (simp add: cp_state_def)
  show ?thesis
    using vote_recipient_exact [OF ms, of cp_circle 1 7] unfolding vs
    by (simp add: find_member_def cp_member_def cp_vote_def position_paid_bit cp_circle_def
        active_members_def votes_cast_def votes_for_def)
qed

end
