(* ===== verification/Circle_Core.thy ===== *)
theory Circle_Core
  imports Circle_Payout
begin

text \<open>
  The savings circle, third part: construction, joining, contributions, the sweep of missed deadlines
  and the payout of a round (\<open>contract.rs\<close>, first half). A handler takes the environment \<open>E\<close> of other
  contracts, the host \<open>h\<close> and the storage, and returns the storage it leaves.
\<close>

section \<open>Construction\<close>

definition config_of :: "circle \<Rightarrow> circle_config" where
  "config_of c = \<lparr>cc_organizer = cl_organizer c, cc_token = cl_token c, cc_name = cl_name c,
     cc_contribution_amount = cl_contribution_amount c, cc_max_members = cl_max_members c,
     cc_payout_type = cl_payout_type c, cc_total_rounds = cl_total_rounds c,
     cc_contribution_deadline_seconds = cl_contribution_deadline_seconds c,
     cc_min_moi_score = cl_min_moi_score c, cc_collateral_amount = cl_collateral_amount c,
     cc_penalty_bps = cl_penalty_bps c, cc_grace_period_seconds = cl_grace_period_seconds c,
     cc_max_strikes = cl_max_strikes c, cc_slug = cl_slug c,
     cc_max_withdrawal_per_tx = cl_max_withdrawal_per_tx c,
     cc_daily_withdrawal_limit = cl_daily_withdrawal_limit c,
     cc_min_duration_seconds = cl_min_duration_seconds c\<rparr>"

definition compute_circle_config_hash :: "'l circle_env \<Rightarrow> circle \<Rightarrow> bytes" where
  "compute_circle_config_hash E c = ce_sha E (ce_xdr E (config_of c))"

definition new_circle :: "host \<Rightarrow> addr \<Rightarrow> circle_config \<Rightarrow> circle" where
  "new_circle h factory config = \<lparr>cl_id = self h, cl_token = cc_token config, cl_name = cc_name config,
     cl_organizer = cc_organizer config, cl_factory = factory,
     cl_contribution_amount = cc_contribution_amount config, cl_max_members = cc_max_members config,
     cl_member_count = 0, cl_payout_type = cc_payout_type config,
     cl_total_rounds = cc_total_rounds config, cl_current_round = 0, cl_status = STATUS_PENDING,
     cl_started_at = 0, cl_created_at = now h,
     cl_contribution_deadline_seconds = cc_contribution_deadline_seconds config,
     cl_min_moi_score = cc_min_moi_score config, cl_collateral_amount = cc_collateral_amount config,
     cl_penalty_bps = cc_penalty_bps config, cl_grace_period_seconds = cc_grace_period_seconds config,
     cl_max_strikes = cc_max_strikes config, cl_payout_bitmap = 0, cl_total_payouts = 0,
     cl_total_fees = 0, cl_slug = cc_slug config, cl_health_score = 100,
     cl_max_withdrawal_per_tx = cc_max_withdrawal_per_tx config,
     cl_daily_withdrawal_limit = cc_daily_withdrawal_limit config,
     cl_min_duration_seconds = cc_min_duration_seconds config\<rparr>"

definition check_tier_limits ::
    "'l circle_env \<Rightarrow> circle_config \<Rightarrow> 'l circle_state \<Rightarrow> (circle_error, unit) res" where
  "check_tier_limits E config s =
     (case ci_registry s of
        Some registry_address \<Rightarrow>
          bind_res (or_trap (ce_max_size E (cb_ledger s) registry_address (cc_organizer config))) (\<lambda>size.
          if cc_max_members config > size then Inl (Err CircleSizeExceedsTier) else
          bind_res (or_trap (ce_max_contrib E (cb_ledger s) registry_address (cc_organizer config))) (\<lambda>contrib.
          if cc_contribution_amount config > contrib then Inl (Err ContributionExceedsTier) else Inr ()))
      | None \<Rightarrow>
          if storage_get_score (rep_of s) (cc_organizer config) > 0 then
            if cc_max_members config > max_circle_size (rep_of s) (cc_organizer config)
            then Inl (Err CircleSizeExceedsTier)
            else if cc_contribution_amount config > max_contribution (rep_of s) (cc_organizer config)
            then Inl (Err ContributionExceedsTier) else Inr ()
          else Inr ())"

definition circle_init ::
    "'l circle_env \<Rightarrow> host \<Rightarrow> bytes \<Rightarrow> addr \<Rightarrow> addr \<Rightarrow> circle_config \<Rightarrow> 'l circle_state
      \<Rightarrow> (circle_error, 'l circle_state) res" where
  "circle_init E h salt admin factory config s =
     (if cc_max_members config < 2 \<or> cc_contribution_amount config < 0 \<or> cc_total_rounds config = 0
         \<or> cc_payout_type config > 3 then Inl (Err InvalidAmount)
      else if cc_max_members config > MAX_CIRCLE_MEMBERS then Inl (Err CircleSizeExceedsTier) else
      bind_res (check_tier_limits E config s) (\<lambda>_.
      let circle = new_circle h factory config;
          s = s\<lparr>ci_circle := Some circle, ci_admin := Some admin, ci_factory := Some factory,
                ci_members := Some [], ci_contributions := Some []\<rparr> in
      bind_res (map_err (\<lambda>_. InvalidAmount) (init_vrf salt None admin s)) (\<lambda>s.
      Inr (s\<lparr>ci_payouts := Some [], ci_bids := Some [], ci_votes := Some [],
             ci_config_snapshot :=
               (ci_config_snapshot s)(0 \<mapsto> compute_circle_config_hash E circle)\<rparr>))))"

section \<open>Joining\<close>

definition new_member :: "addr \<Rightarrow> nat \<Rightarrow> nat \<Rightarrow> circle_member" where
  "new_member a pos t = \<lparr>mb_address = a, mb_position = pos, mb_joined_at = t, mb_strikes = 0,
     mb_status = MEMBER_ACTIVE, mb_exited_at = 0, mb_total_contributions = 0,
     mb_total_received = 0\<rparr>"

definition circle_join ::
    "'l circle_env \<Rightarrow> host \<Rightarrow> addr \<Rightarrow> 'l circle_state \<Rightarrow> (circle_error, 'l circle_state) res" where
  "circle_join E h member s =
     bind_res (not_paused_or ContractPaused s) (\<lambda>_.
     bind_res (guard_or NotActive s) (\<lambda>s.
     bind_res (require_auth h member) (\<lambda>_.
     bind_res (ok_or (ci_circle s) NotInitialized) (\<lambda>circle.
     if cl_status circle \<noteq> STATUS_PENDING then Inl (Err NotActive)
     else if storage_get_score (rep_of s) member < cl_min_moi_score circle
     then Inl (Err InsufficientMoiScore) else
     let allowlist = unwrap_or (ci_allowlist s) [] in
     if length allowlist > 0 \<and> member \<notin> set allowlist then Inl (Err AllowlistNotPermitted) else
     let members = unwrap_or (ci_members s) [] in
     if \<exists>m\<in>set members. mb_address m = member then Inl (Err AlreadyMember)
     else if length members \<ge> cl_max_members circle then Inl (Err CircleFull) else
     bind_res (if cl_collateral_amount circle > 0
               then token_transfer (ce_token E) (cl_token circle) member (cl_id circle)
                      (cl_collateral_amount circle) s
               else Inr s) (\<lambda>s.
     let pos = length members;
         members = members @ [new_member member pos (now h)] in
     bind_res (ok_or (u_checked_add 32 (cl_member_count circle) 1) InvalidAmount) (\<lambda>count.
     let circle = circle\<lparr>cl_member_count := count\<rparr>;
         circle = (if cl_member_count circle \<ge> cl_max_members circle
                      \<and> cl_status circle = STATUS_PENDING
                   then circle\<lparr>cl_status := STATUS_ACTIVE, cl_started_at := now h\<rparr> else circle)
     in Inr (guard_leave (publish (Event ''joined'' [AddrV (self h)] [AddrV member, NatV pos])
          (s\<lparr>ci_circle := Some circle, ci_members := Some members,
             ci_member_status := (ci_member_status s)(member \<mapsto> MEMBER_ACTIVE)\<rparr>)))))))))"

section \<open>The contribution window\<close>

definition round_contributors :: "'l circle_state \<Rightarrow> nat \<Rightarrow> addr list" where
  "round_contributors s round =
     (case ci_round_contributors s round of
        Some contributors \<Rightarrow> contributors
      | None \<Rightarrow> map co_member (filter (\<lambda>c. co_round c = round) (unwrap_or (ci_contributions s) [])))"

definition round_contributed_total :: "'l circle_state \<Rightarrow> nat \<Rightarrow> int" where
  "round_contributed_total s round =
     (case ci_round_total s round of
        Some tot \<Rightarrow> tot
      | None \<Rightarrow> fold (\<lambda>c tot. if co_round c = round then i128_saturating_add tot (co_amount c) else tot)
                  (unwrap_or (ci_contributions s) []) 0)"

definition contributed_in :: "addr list \<Rightarrow> addr \<Rightarrow> bool" where
  "contributed_in contributors member \<longleftrightarrow> member \<in> set contributors"

definition record_round_strike :: "nat \<Rightarrow> addr \<Rightarrow> 'l circle_state \<Rightarrow> 'l circle_state" where
  "record_round_strike round member s =
     (let strikes = unwrap_or (ci_round_strikes s round) Map.empty;
          current = unwrap_or (strikes member) 0
      in s\<lparr>ci_round_strikes := (ci_round_strikes s)
             (round \<mapsto> strikes(member \<mapsto> u_saturating_add 32 current 1))\<rparr>)"

definition struck_in_round :: "'l circle_state \<Rightarrow> nat \<Rightarrow> addr \<Rightarrow> bool" where
  "struck_in_round s round member =
     (case ci_round_strikes s round of None \<Rightarrow> False | Some strikes \<Rightarrow> unwrap_or (strikes member) 0 > 0)"

definition round_contribution_deadline :: "circle \<Rightarrow> nat option" where
  "round_contribution_deadline c =
     (if cl_contribution_deadline_seconds c = 0 then None
      else u_checked_add 64 (cl_started_at c) (cl_contribution_deadline_seconds c))"

definition round_forfeit_time :: "circle \<Rightarrow> nat option" where
  "round_forfeit_time c =
     (case round_contribution_deadline c of None \<Rightarrow> None | Some deadline \<Rightarrow>
      if cl_grace_period_seconds c = 0 then Some deadline
      else u_checked_add 64 deadline (cl_grace_period_seconds c))"

definition contribution_window_closed :: "host \<Rightarrow> circle \<Rightarrow> bool" where
  "contribution_window_closed h c =
     (case round_forfeit_time c of Some forfeit_at \<Rightarrow> now h > forfeit_at | None \<Rightarrow> False)"

definition active_members_awaiting :: "circle_member list \<Rightarrow> addr list \<Rightarrow> nat" where
  "active_members_awaiting members contributors =
     fold (\<lambda>m awaiting.
         if mb_status m = MEMBER_ACTIVE \<and> \<not> contributed_in contributors (mb_address m)
         then u_saturating_add 32 awaiting 1 else awaiting)
       members 0"

text \<open>The strike one absent member gets, and the sweep over all members.\<close>

definition strike_member ::
    "host \<Rightarrow> circle \<Rightarrow> nat \<Rightarrow> circle_member \<Rightarrow> 'l circle_state \<Rightarrow> circle_member \<times> 'l circle_state" where
  "strike_member h c round m s =
     (let updated = m\<lparr>mb_strikes := u_saturating_add 32 (mb_strikes m) 1\<rparr>;
          (updated, s) =
            (if mb_strikes updated \<ge> cl_max_strikes c
             then (updated\<lparr>mb_status := MEMBER_DEFAULTED\<rparr>,
                   let s = rep_call (record_default h (mb_address updated)) s
                   in s\<lparr>ci_member_status := (ci_member_status s)(mb_address updated \<mapsto> MEMBER_DEFAULTED)\<rparr>)
             else (updated, s));
          s = record_round_strike round (mb_address updated) s
      in (updated, publish (Event ''default'' [AddrV (self h)]
            [AddrV (mb_address updated), NatV (mb_strikes updated)]) s))"

fun strike_loop ::
    "host \<Rightarrow> circle \<Rightarrow> nat \<Rightarrow> addr list \<Rightarrow> circle_member list \<Rightarrow> 'l circle_state
      \<Rightarrow> circle_member list \<times> bool \<times> 'l circle_state" where
  "strike_loop h c round contributors [] s = ([], False, s)"
| "strike_loop h c round contributors (m # ms) s =
     (if mb_status m \<noteq> MEMBER_ACTIVE \<or> contributed_in contributors (mb_address m)
      then (case strike_loop h c round contributors ms s of (ms, changed, s) \<Rightarrow> (m # ms, changed, s))
      else (case strike_member h c round m s of (m, s) \<Rightarrow>
            case strike_loop h c round contributors ms s of (ms, _, s) \<Rightarrow> (m # ms, True, s)))"

definition strike_non_contributors ::
    "host \<Rightarrow> circle \<Rightarrow> nat \<Rightarrow> addr list \<Rightarrow> circle_member list \<Rightarrow> 'l circle_state \<Rightarrow> 'l circle_state" where
  "strike_non_contributors h c round contributors members s =
     (case strike_loop h c round contributors members s of (members, changed, s) \<Rightarrow>
      if changed then s\<lparr>ci_members := Some members\<rparr> else s)"

section \<open>Contributing\<close>

definition empty_round_fee_ledger :: "nat \<Rightarrow> round_fee_ledger" where
  "empty_round_fee_ledger round =
     \<lparr>rf_round = round, rf_payout_fee = 0, rf_late_penalty_fee = 0, rf_total_fee = 0\<rparr>"

abbreviation add_or_invalid :: "int \<Rightarrow> int \<Rightarrow> (circle_error, int) res" where
  "add_or_invalid a b \<equiv> map_err (\<lambda>_. InvalidAmount) (safe_add a b)"

definition record_round_fee ::
    "nat \<Rightarrow> int \<Rightarrow> int \<Rightarrow> 'l circle_state \<Rightarrow> (circle_error, 'l circle_state) res" where
  "record_round_fee round payout_fee_delta late_penalty_fee_delta s =
     (let ledger = unwrap_or (ci_round_fee_ledger s round) (empty_round_fee_ledger round) in
      bind_res (add_or_invalid (rf_payout_fee ledger) payout_fee_delta) (\<lambda>payout_fee.
      bind_res (add_or_invalid (rf_late_penalty_fee ledger) late_penalty_fee_delta) (\<lambda>late_fee.
      bind_res (add_or_invalid payout_fee late_fee) (\<lambda>total_fee.
      Inr (s\<lparr>ci_round_fee_ledger := (ci_round_fee_ledger s)(round \<mapsto>
        ledger\<lparr>rf_payout_fee := payout_fee, rf_late_penalty_fee := late_fee,
               rf_total_fee := total_fee\<rparr>)\<rparr>)))))"

definition is_payout_scheduled :: "'l circle_state \<Rightarrow> nat \<Rightarrow> bool" where
  "is_payout_scheduled s round = unwrap_or (ci_payout_scheduled s round) False"

text \<open>The streak entry of a member after a contribution in time; plain \<open>+ 1\<close> on \<open>u32\<close> wraps.\<close>

definition bump_streak :: "nat \<Rightarrow> streak \<Rightarrow> streak" where
  "bump_streak round st =
     (if st_current_streak st = 0
      then (let st = st\<lparr>st_current_streak := 1\<rparr>;
                st = (if st_longest_streak st = 0 then st\<lparr>st_longest_streak := 1\<rparr> else st)
            in st\<lparr>st_last_round := round\<rparr>)
      else if round = wrap_u 32 (int (st_last_round st) + 1)
      then (let st = st\<lparr>st_current_streak := wrap_u 32 (int (st_current_streak st) + 1)\<rparr>;
                st = (if st_current_streak st > st_longest_streak st
                      then st\<lparr>st_longest_streak := st_current_streak st\<rparr> else st)
            in st\<lparr>st_last_round := round\<rparr>)
      else if round > wrap_u 32 (int (st_last_round st) + 1)
      then st\<lparr>st_current_streak := 1, st_last_round := round\<rparr>
      else st)"

fun update_streak_loop :: "addr \<Rightarrow> nat \<Rightarrow> streak list \<Rightarrow> streak list" where
  "update_streak_loop member round [] =
     [\<lparr>st_member = member, st_current_streak = 1, st_longest_streak = 1, st_last_round = round\<rparr>]"
| "update_streak_loop member round (st # sts) =
     (if st_member st = member then bump_streak round st # sts
      else st # update_streak_loop member round sts)"

definition update_streak_internal :: "addr \<Rightarrow> nat \<Rightarrow> 'l circle_state \<Rightarrow> 'l circle_state" where
  "update_streak_internal member round s =
     s\<lparr>ci_streaks := Some (update_streak_loop member round (unwrap_or (ci_streaks s) []))\<rparr>"

text \<open>The check of the member's status: the entry per member, or the list when there is none.\<close>

definition check_member_status ::
    "addr \<Rightarrow> 'l circle_state \<Rightarrow> (circle_error, 'l circle_state) res" where
  "check_member_status member s =
     (case ci_member_status s member of
        Some status \<Rightarrow> if status \<noteq> MEMBER_ACTIVE then Inl (Err InvalidMemberStatus) else Inr s
      | None \<Rightarrow>
          bind_res (ok_or (ci_members s) NotInitialized) (\<lambda>members.
          case find_member member members of
            None \<Rightarrow> Inl (Err NotMember)
          | Some m \<Rightarrow>
              if mb_status m \<noteq> MEMBER_ACTIVE then Inl (Err InvalidMemberStatus)
              else Inr (s\<lparr>ci_member_status := (ci_member_status s)(member \<mapsto> MEMBER_ACTIVE)\<rparr>)))"

definition contribution_on_time :: "host \<Rightarrow> circle \<Rightarrow> (circle_error, bool) res" where
  "contribution_on_time h circle =
     (if cl_contribution_deadline_seconds circle > 0 then
        bind_res (ok_or (u_checked_add 64 (cl_started_at circle) (cl_contribution_deadline_seconds circle))
          InvalidAmount) (\<lambda>deadline.
        if now h \<le> deadline then Inr True
        else if cl_grace_period_seconds circle > 0 then
          bind_res (ok_or (u_checked_add 64 deadline (cl_grace_period_seconds circle)) InvalidAmount)
            (\<lambda>grace_deadline.
          if now h \<le> grace_deadline then Inr False else Inl (Err PaymentDeadlinePassed))
        else Inl (Err PaymentDeadlinePassed))
      else Inr True)"

definition late_penalty ::
    "'l circle_env \<Rightarrow> host \<Rightarrow> addr \<Rightarrow> int \<Rightarrow> nat \<Rightarrow> circle \<Rightarrow> 'l circle_state
      \<Rightarrow> (circle_error, 'l circle_state) res" where
  "late_penalty E h member amount round circle s =
     bind_res (map_err (\<lambda>_. InvalidAmount) (calculate_penalty amount (int (cl_penalty_bps circle)))) (\<lambda>penalty.
     if penalty > 0 then
       bind_res (case ci_treasury s of
            Some treasury \<Rightarrow> token_transfer (ce_token E) (cl_token circle) (cl_id circle) treasury penalty s
          | None \<Rightarrow> Inr s) (\<lambda>s.
       bind_res (add_or_invalid (cl_total_fees circle) penalty) (\<lambda>fees.
       bind_res (record_round_fee round 0 penalty s) (\<lambda>s.
       Inr (publish (Event ''late_pen'' [AddrV (self h)] [AddrV member, NatV round, IntV penalty])
         (s\<lparr>ci_circle := Some (circle\<lparr>cl_total_fees := fees\<rparr>)\<rparr>)))))
     else Inr s)"

text \<open>The entries a contribution writes.\<close>

definition store_contribution ::
    "host \<Rightarrow> addr \<Rightarrow> int \<Rightarrow> nat \<Rightarrow> bool \<Rightarrow> contribution list \<Rightarrow> 'l circle_state \<Rightarrow> 'l circle_state" where
  "store_contribution h member amount round on_time contributions s =
     (let s = s\<lparr>ci_contributions := Some (contributions @
              [\<lparr>co_member = member, co_round = round, co_amount = amount, co_timestamp = now h,
                co_on_time = on_time, co_time_weight = now h\<rparr>]),
            ci_member_contributed := (ci_member_contributed s)((member, round) \<mapsto> True),
            ci_round_total := (ci_round_total s)(round \<mapsto>
              i128_saturating_add (unwrap_or (ci_round_total s round) 0) amount),
            ci_round_contributors := (ci_round_contributors s)(round \<mapsto>
              unwrap_or (ci_round_contributors s round) [] @ [member])\<rparr>
      in case ci_contribs s of
           Some contrib_map \<Rightarrow> s\<lparr>ci_contribs := Some (contrib_map((member, round) \<mapsto> True))\<rparr>
         | None \<Rightarrow> s)"

definition circle_contribute ::
    "'l circle_env \<Rightarrow> host \<Rightarrow> addr \<Rightarrow> int \<Rightarrow> nat \<Rightarrow> 'l circle_state
      \<Rightarrow> (circle_error, 'l circle_state) res" where
  "circle_contribute E h member amount round s =
     bind_res (not_paused_or ContractPaused s) (\<lambda>_.
     bind_res (guard_or NotActive s) (\<lambda>s.
     bind_res (require_auth h member) (\<lambda>_.
     bind_res (ok_or (ci_circle s) NotInitialized) (\<lambda>circle.
     if cl_status circle \<noteq> STATUS_ACTIVE then Inl (Err NotActive)
     else if struck_in_round s round member then Inl (Err AlreadyStruck)
     else if round \<noteq> cl_current_round circle then Inl (Err RoundNotCurrent)
     else if is_payout_scheduled s round then Inl (Err PayoutAlreadyScheduled)
     else if amount \<noteq> cl_contribution_amount circle then Inl (Err ContributionMismatch) else
     bind_res (check_member_status member s) (\<lambda>s.
     if ci_member_contributed s (member, round) \<noteq> None then Inl (Err AlreadyContributed)
     else if (case ci_contribs s of Some contrib_map \<Rightarrow> unwrap_or (contrib_map (member, round)) False
              | None \<Rightarrow> False) then Inl (Err AlreadyContributed) else
     let contributions = unwrap_or (ci_contributions s) [] in
     bind_res (contribution_on_time h circle) (\<lambda>on_time.
     bind_res (token_transfer (ce_token E) (cl_token circle) member (cl_id circle) amount s) (\<lambda>s.
     bind_res (if \<not> on_time \<and> cl_penalty_bps circle > 0
               then late_penalty E h member amount round circle s else Inr s) (\<lambda>s.
     let s = store_contribution h member amount round on_time contributions s;
         s = publish (Event ''contrib'' [AddrV (self h)]
               [AddrV member, NatV round, IntV amount, BoolV on_time]) s;
         s = (if on_time
              then update_streak_internal member round
                     (rep_call (record_on_time_payment h member (cl_id circle) amount round) s)
              else s)
     in Inr (guard_leave s)))))))))"

section \<open>The health score\<close>

record health_score_result =
  hs_score :: nat
  hs_on_time_rate_bps :: nat
  hs_completion_rate_bps :: nat
  hs_member_retention_bps :: nat

text \<open>A \<open>u32\<close> counter that starts at zero and is incremented by plain \<open>+ 1\<close> for every match.\<close>

definition count_u32 :: "('a \<Rightarrow> bool) \<Rightarrow> 'a list \<Rightarrow> nat" where
  "count_u32 p xs = fold (\<lambda>x n. if p x then wrap_u 32 (int n + 1) else n) xs 0"

definition calculate_health_score ::
    "circle_member list \<Rightarrow> contribution list \<Rightarrow> health_score_result" where
  "calculate_health_score members contributions =
     (let BPS_SCALE = 10000;
          on_time_count = count_u32 co_on_time contributions;
          total_contributions = count_u32 (\<lambda>_. True) contributions;
          on_time_rate_bps =
            (if total_contributions = 0 then BPS_SCALE
             else u_saturating_mul 32 on_time_count BPS_SCALE div total_contributions);
          member_count = count_u32 (\<lambda>_. True) members;
          defaulted_count = count_u32 (\<lambda>m. mb_status m = MEMBER_DEFAULTED) members;
          exited_count = count_u32 (\<lambda>m. mb_status m \<noteq> MEMBER_DEFAULTED \<and> mb_status m = MEMBER_EXITED) members;
          (completion_rate_bps, member_retention_bps) =
            (if member_count = 0 then (BPS_SCALE, BPS_SCALE)
             else (u_saturating_mul 32 (wrap_u 32 (int member_count - int defaulted_count)) BPS_SCALE
                     div member_count,
                   u_saturating_mul 32 (wrap_u 32 (int member_count - int exited_count)) BPS_SCALE
                     div member_count));
          weighted = on_time_rate_bps * 40 + completion_rate_bps * 35 + member_retention_bps * 25;
          score = wrap_u 32 (int (weighted div (BPS_SCALE * 100)))
      in \<lparr>hs_score = min score 100, hs_on_time_rate_bps = on_time_rate_bps,
          hs_completion_rate_bps = completion_rate_bps,
          hs_member_retention_bps = member_retention_bps\<rparr>)"

section \<open>The payout of a round\<close>

definition deposit_protocol_fee ::
    "'l circle_env \<Rightarrow> addr \<Rightarrow> addr \<Rightarrow> addr \<Rightarrow> int \<Rightarrow> 'l circle_state
      \<Rightarrow> (circle_error, 'l circle_state) res" where
  "deposit_protocol_fee E token treasury circle_id amount s =
     bind_res (or_trap (ce_deposit_fee E (cb_ledger s) treasury circle_id amount circle_id)) (\<lambda>l.
     Inr (s\<lparr>cb_ledger := l\<rparr>))"

text \<open>Who receives the round, by the circle's payout type; an auction also records its winner.\<close>

definition resolve_recipient ::
    "'l circle_env \<Rightarrow> circle \<Rightarrow> nat \<Rightarrow> 'l circle_state
      \<Rightarrow> (circle_error, (addr \<times> nat) \<times> 'l circle_state) res" where
  "resolve_recipient E circle round s =
     (if cl_payout_type circle = PAYOUT_RANDOM then
        bind_res (resolve_random E circle round s) (\<lambda>(w, s). Inr ((w, PAYOUT_RANDOM), s))
      else if cl_payout_type circle = PAYOUT_FIXED then
        bind_res (resolve_fixed circle round s) (\<lambda>w. Inr ((w, PAYOUT_FIXED), s))
      else if cl_payout_type circle = PAYOUT_AUCTION then
        bind_res (resolve_auction circle round s) (\<lambda>(w, _).
        Inr ((w, PAYOUT_AUCTION), s\<lparr>ci_auction_winner := (ci_auction_winner s)(round \<mapsto> w)\<rparr>))
      else if cl_payout_type circle = PAYOUT_VOTE then
        bind_res (resolve_vote circle round s) (\<lambda>w. Inr ((w, PAYOUT_VOTE), s))
      else Inl (Err InvalidPayoutType))"

text \<open>Marking the position of the first member with the recipient's address.\<close>

definition mark_recipient :: "addr \<Rightarrow> circle_member list \<Rightarrow> circle \<Rightarrow> circle" where
  "mark_recipient recipient members circle =
     (case find_member recipient members of
        None \<Rightarrow> circle
      | Some m \<Rightarrow> circle\<lparr>cl_payout_bitmap := mark_paid (mb_position m) (cl_payout_bitmap circle)\<rparr>)"

definition payout_entry :: "host \<Rightarrow> addr \<Rightarrow> nat \<Rightarrow> int \<Rightarrow> int \<Rightarrow> nat \<Rightarrow> payout_recipient" where
  "payout_entry h recipient round amount fee payout_type =
     \<lparr>po_recipient = recipient, po_round = round, po_amount = amount, po_fee = fee,
      po_payout_type = payout_type, po_timestamp = now h\<rparr>"

text \<open>The step to the next round: completion after the last one, a snapshot of the terms otherwise.\<close>

definition advance_round ::
    "'l circle_env \<Rightarrow> circle \<Rightarrow> 'l circle_state \<Rightarrow> circle \<times> 'l circle_state" where
  "advance_round E circle s =
     (if cl_current_round circle \<ge> cl_total_rounds circle
      then (circle\<lparr>cl_status := STATUS_COMPLETED\<rparr>, s)
      else (circle, s\<lparr>ci_config_snapshot := (ci_config_snapshot s)
              (cl_current_round circle \<mapsto> compute_circle_config_hash E circle)\<rparr>))"

definition health_event :: "host \<Rightarrow> health_score_result \<Rightarrow> nat \<Rightarrow> event" where
  "health_event h health round = Event ''health'' [AddrV (self h)]
     [NatV (hs_score health), NatV (hs_on_time_rate_bps health), NatV (hs_completion_rate_bps health),
      NatV (hs_member_retention_bps health), NatV round]"

text \<open>A round whose pool is zero after the fee is settled without moving tokens.\<close>

definition settle_empty_round ::
    "'l circle_env \<Rightarrow> host \<Rightarrow> circle \<Rightarrow> addr \<Rightarrow> nat \<Rightarrow> nat \<Rightarrow> 'l circle_state
      \<Rightarrow> (circle_error, 'l circle_state) res" where
  "settle_empty_round E h circle recipient payout_type round s =
     bind_res (ok_or (ci_members s) NotInitialized) (\<lambda>members.
     let circle = mark_recipient recipient members circle;
         s = s\<lparr>ci_payouts := Some (unwrap_or (ci_payouts s) [] @ [payout_entry h recipient round 0 0 payout_type]),
               ci_members := Some members\<rparr> in
     bind_res (ok_or (u_checked_add 32 (cl_current_round circle) 1) InvalidAmount) (\<lambda>next_round.
     let (circle, s) = advance_round E (circle\<lparr>cl_current_round := next_round\<rparr>) s;
         health = calculate_health_score members (unwrap_or (ci_contributions s) []);
         circle = circle\<lparr>cl_health_score := hs_score health\<rparr>
     in Inr (publish (Event ''payout'' [AddrV (self h)]
               [AddrV recipient, NatV round, IntV 0, IntV 0, NatV payout_type])
          (publish (health_event h health round) (s\<lparr>ci_circle := Some circle\<rparr>)))))"

text \<open>The time weight of every contributor to the round, in saturating \<open>u128\<close> arithmetic.\<close>

fun weigh_contributions ::
    "nat \<Rightarrow> nat \<Rightarrow> contribution list \<Rightarrow> nat \<Rightarrow> (addr \<Rightarrow> nat option) \<Rightarrow> nat \<times> (addr \<Rightarrow> nat option)" where
  "weigh_contributions t round [] total_weighted member_weighted = (total_weighted, member_weighted)"
| "weigh_contributions t round (c # cs) total_weighted member_weighted =
     (if co_round c = round then
        let time_held = u_saturating_sub t (co_timestamp c);
            w = u_saturating_mul 128 (wrap_u 128 (co_amount c)) time_held;
            prev = unwrap_or (member_weighted (co_member c)) 0
        in weigh_contributions t round cs (u_saturating_add 128 total_weighted w)
             (member_weighted(co_member c \<mapsto> u_saturating_add 128 prev w))
      else weigh_contributions t round cs total_weighted member_weighted)"

text \<open>Adding an amount to what the members with an address have received.\<close>

fun credit_members :: "addr \<Rightarrow> int \<Rightarrow> circle_member list \<Rightarrow> (circle_error, circle_member list) res" where
  "credit_members a x [] = Inr []"
| "credit_members a x (m # ms) =
     (if mb_address m = a
      then bind_res (add_or_invalid (mb_total_received m) x) (\<lambda>r.
           bind_res (credit_members a x ms) (\<lambda>ms. Inr (m\<lparr>mb_total_received := r\<rparr> # ms)))
      else bind_res (credit_members a x ms) (\<lambda>ms. Inr (m # ms)))"

text \<open>
  The time-weighted shares of a random round, member by member: \<open>as\<close> are the addresses still to be
  visited, and the members, the payout log and the amount distributed are carried along.
\<close>

fun share_loop ::
    "'l circle_env \<Rightarrow> host \<Rightarrow> circle \<Rightarrow> nat \<Rightarrow> nat \<Rightarrow> int \<Rightarrow> nat \<Rightarrow> (addr \<Rightarrow> nat option) \<Rightarrow> addr list
      \<Rightarrow> circle_member list \<Rightarrow> payout_recipient list \<Rightarrow> int \<Rightarrow> 'l circle_state
      \<Rightarrow> (circle_error, circle_member list \<times> payout_recipient list \<times> int \<times> 'l circle_state) res" where
  "share_loop E h circle round payout_type net total_weighted mw [] members payouts distributed s =
     Inr (members, payouts, distributed, s)"
| "share_loop E h circle round payout_type net total_weighted mw (a # as) members payouts distributed s =
     (case mw a of
        None \<Rightarrow> share_loop E h circle round payout_type net total_weighted mw as members payouts distributed s
      | Some w \<Rightarrow>
          if total_weighted > 0 then
            let share = (if distributed = 0 \<and> w = total_weighted then net
                         else wrap_i128 (int (u_saturating_mul 128 (nat net) w div total_weighted))) in
            if share > 0 then
              bind_res (token_transfer (ce_token E) (cl_token circle) (cl_id circle) a share s) (\<lambda>s.
              bind_res (add_or_invalid distributed share) (\<lambda>distributed.
              bind_res (credit_members a share members) (\<lambda>members.
              share_loop E h circle round payout_type net total_weighted mw as members
                (payouts @ [payout_entry h a round share 0 payout_type]) distributed s)))
            else share_loop E h circle round payout_type net total_weighted mw as members payouts distributed s
          else share_loop E h circle round payout_type net total_weighted mw as members payouts distributed s)"

definition pay_round_fee ::
    "'l circle_env \<Rightarrow> circle \<Rightarrow> nat \<Rightarrow> int \<Rightarrow> 'l circle_state \<Rightarrow> (circle_error, 'l circle_state) res" where
  "pay_round_fee E circle round fee s =
     (if fee > 0 then
        bind_res (case ci_treasury s of
             Some treasury \<Rightarrow> deposit_protocol_fee E (cl_token circle) treasury (cl_id circle) fee s
           | None \<Rightarrow> Inr s) (\<lambda>s.
        record_round_fee round fee 0 s)
      else Inr s)"

definition pay_dust ::
    "'l circle_env \<Rightarrow> host \<Rightarrow> circle \<Rightarrow> nat \<Rightarrow> nat \<Rightarrow> int \<Rightarrow> addr \<Rightarrow> circle_member list
      \<Rightarrow> payout_recipient list \<Rightarrow> int \<Rightarrow> 'l circle_state
      \<Rightarrow> (circle_error, circle_member list \<times> payout_recipient list \<times> int \<times> 'l circle_state) res" where
  "pay_dust E h circle round payout_type net recipient members payouts distributed s =
     (if distributed < net then
        bind_res (map_err (\<lambda>_. InvalidAmount) (safe_sub net distributed)) (\<lambda>dust.
        bind_res (token_transfer (ce_token E) (cl_token circle) (cl_id circle) recipient dust s) (\<lambda>s.
        bind_res (credit_members recipient dust members) (\<lambda>members.
        bind_res (add_or_invalid distributed dust) (\<lambda>distributed.
        Inr (members, payouts @ [payout_entry h recipient round dust 0 payout_type], distributed, s)))))
      else Inr (members, payouts, distributed, s))"

text \<open>The end of the last round: collateral back to the active members, and their completion scores.\<close>

fun refund_collateral ::
    "'l circle_env \<Rightarrow> circle \<Rightarrow> circle_member list \<Rightarrow> 'l circle_state \<Rightarrow> (circle_error, 'l circle_state) res" where
  "refund_collateral E circle [] s = Inr s"
| "refund_collateral E circle (m # ms) s =
     (if mb_status m = MEMBER_ACTIVE
      then bind_res (token_transfer (ce_token E) (cl_token circle) (cl_id circle) (mb_address m)
             (cl_collateral_amount circle) s) (\<lambda>s. refund_collateral E circle ms s)
      else refund_collateral E circle ms s)"

fun score_completions :: "host \<Rightarrow> circle_member list \<Rightarrow> 'l circle_state \<Rightarrow> 'l circle_state" where
  "score_completions h [] s = s"
| "score_completions h (m # ms) s =
     score_completions h ms
       (if mb_status m = MEMBER_ACTIVE then rep_call (record_circle_completion h (mb_address m)) s else s)"

definition complete_circle ::
    "'l circle_env \<Rightarrow> host \<Rightarrow> circle \<Rightarrow> circle_member list \<Rightarrow> 'l circle_state
      \<Rightarrow> (circle_error, 'l circle_state) res" where
  "complete_circle E h circle members s =
     (let s = publish (Event ''complete'' [AddrV (self h)] [IntV (cl_total_payouts circle)]) s in
      bind_res (if cl_collateral_amount circle > 0 then refund_collateral E circle members s else Inr s) (\<lambda>s.
      bind_res (ok_or (ci_members s) NotInitialized) (\<lambda>final_members.
      Inr (score_completions h final_members s))))"

definition settle_round ::
    "'l circle_env \<Rightarrow> host \<Rightarrow> circle \<Rightarrow> addr \<Rightarrow> nat \<Rightarrow> nat \<Rightarrow> int \<Rightarrow> int \<Rightarrow> 'l circle_state
      \<Rightarrow> (circle_error, 'l circle_state) res" where
  "settle_round E h circle recipient payout_type round net fee s =
     bind_res (get_yield_rate E h round s) (\<lambda>(_, s).
     let all_contributions = unwrap_or (ci_contributions s) [];
         (total_weighted, member_weighted) = weigh_contributions (now h) round all_contributions 0 Map.empty;
         payouts = unwrap_or (ci_payouts s) [] @ [payout_entry h recipient round net fee payout_type] in
     bind_res (ok_or (ci_members s) NotInitialized) (\<lambda>members.
     let circle = mark_recipient recipient members circle in
     bind_res (if payout_type = PAYOUT_RANDOM
               then share_loop E h circle round payout_type net total_weighted member_weighted
                      (map mb_address members) members payouts 0 s
               else Inr (members, payouts, 0, s)) (\<lambda>(members, payouts, distributed, s).
     bind_res (pay_round_fee E circle round fee s) (\<lambda>s.
     bind_res (pay_dust E h circle round payout_type net recipient members payouts distributed s)
       (\<lambda>(members, payouts, distributed, s).
     bind_res (ok_or (u_checked_add 32 (cl_current_round circle) 1) InvalidAmount) (\<lambda>next_round.
     bind_res (add_or_invalid (cl_total_payouts circle) distributed) (\<lambda>total_payouts.
     bind_res (add_or_invalid (cl_total_fees circle) fee) (\<lambda>total_fees.
     let (circle, s) = advance_round E (circle\<lparr>cl_current_round := next_round,
              cl_total_payouts := total_payouts, cl_total_fees := total_fees\<rparr>) s;
         health = calculate_health_score members all_contributions;
         circle = circle\<lparr>cl_health_score := hs_score health\<rparr>;
         s = s\<lparr>ci_circle := Some circle, ci_payouts := Some payouts, ci_members := Some members\<rparr>;
         s = publish (Event ''payout'' [AddrV (self h)]
               [AddrV recipient, NatV round, IntV distributed, IntV fee, NatV payout_type])
               (publish (health_event h health round) s)
     in if cl_status circle = STATUS_COMPLETED then complete_circle E h circle members s
        else Inr s))))))))"

definition trigger_payout_internal ::
    "'l circle_env \<Rightarrow> host \<Rightarrow> nat \<Rightarrow> 'l circle_state \<Rightarrow> (circle_error, 'l circle_state) res" where
  "trigger_payout_internal E h round s =
     bind_res (not_paused_or ContractPaused s) (\<lambda>_.
     bind_res (ok_or (ci_circle s) NotInitialized) (\<lambda>circle.
     if cl_status circle \<noteq> STATUS_ACTIVE then Inl (Err NotActive)
     else if round \<noteq> cl_current_round circle then Inl (Err RoundNotCurrent)
     else if cl_min_duration_seconds circle > 0
             \<and> u_saturating_sub (now h) (cl_created_at circle) < cl_min_duration_seconds circle
     then Inl (Err CircleDurationTooShort) else
     bind_res (resolve_recipient E circle round s) (\<lambda>((recipient, payout_type), s).
     bind_res (ok_or (ci_members s) NotInitialized) (\<lambda>members.
     let contributors = round_contributors s round in
     if \<not> contribution_window_closed h circle \<and> active_members_awaiting members contributors > 0
     then Inl (Err InvalidContributionRound) else
     let pool = round_contributed_total s round;
         fee_bps = unwrap_or (ci_fee_bps s) 0 in
     bind_res (map_err (\<lambda>_. InvalidAmount) (apply_fee pool (int fee_bps))) (\<lambda>(net, fee).
     if net \<le> 0 then settle_empty_round E h circle recipient payout_type round s
     else settle_round E h circle recipient payout_type round net fee s)))))"

definition trigger_payout ::
    "'l circle_env \<Rightarrow> host \<Rightarrow> addr \<Rightarrow> nat \<Rightarrow> 'l circle_state \<Rightarrow> (circle_error, 'l circle_state) res" where
  "trigger_payout E h caller round s =
     bind_res (not_paused_or ContractPaused s) (\<lambda>_.
     bind_res (guard_or ReentrantCall s) (\<lambda>s.
     bind_res (ok_or (ci_circle s) NotInitialized) (\<lambda>circle.
     bind_res (ok_or (ci_admin s) NotInitialized) (\<lambda>stored_admin.
     if caller \<noteq> cl_organizer circle \<and> caller \<noteq> stored_admin then Inl (Err Unauthorized) else
     bind_res (require_auth h caller) (\<lambda>_.
     bind_res (trigger_payout_internal E h round s) (\<lambda>s. Inr (guard_leave s)))))))"

definition check_contribution_deadline ::
    "'l circle_env \<Rightarrow> host \<Rightarrow> 'l circle_state \<Rightarrow> (circle_error, 'l circle_state) res" where
  "check_contribution_deadline E h s =
     bind_res (not_paused_or ContractPaused s) (\<lambda>_.
     bind_res (guard_or ReentrantCall s) (\<lambda>s.
     bind_res (ok_or (ci_circle s) NotInitialized) (\<lambda>circle.
     if cl_status circle \<noteq> STATUS_ACTIVE then Inl (Err NotActive)
     else if cl_current_round circle \<ge> cl_total_rounds circle then Inl (Err InvalidRound)
     else if \<not> contribution_window_closed h circle then Inl (Err DeadlineNotPassed) else
     let round = cl_current_round circle in
     bind_res (ok_or (ci_members s) NotInitialized) (\<lambda>members.
     let contributors = round_contributors s round;
         s = strike_non_contributors h circle round contributors members s in
     bind_res (trigger_payout_internal E h round s) (\<lambda>s. Inr (guard_leave s))))))"

end
