(* ===== verification/Circle_Auction.thy ===== *)
theory Circle_Auction
  imports Circle_Core
begin

text \<open>
  The savings circle, fourth part: bids, refunds of losing bids, Dutch auctions, votes and the
  cancellation of an auction (\<open>contract.rs\<close>, middle part).
\<close>

section \<open>Bids\<close>

definition circle_auction_bid ::
    "'l circle_env \<Rightarrow> host \<Rightarrow> addr \<Rightarrow> nat \<Rightarrow> nat \<Rightarrow> 'l circle_state
      \<Rightarrow> (circle_error, 'l circle_state) res" where
  "circle_auction_bid E h bidder discount_bips round s =
     bind_res (not_paused_or ContractPaused s) (\<lambda>_.
     bind_res (guard_or NotActive s) (\<lambda>s.
     bind_res (require_auth h bidder) (\<lambda>_.
     bind_res (ok_or (ci_circle s) NotInitialized) (\<lambda>circle.
     if cl_payout_type circle \<noteq> PAYOUT_AUCTION then Inl (Err InvalidPayoutType)
     else if discount_bips > 10000 then Inl (Err InvalidBid)
     else if round \<noteq> cl_current_round circle then Inl (Err RoundNotCurrent)
     else if ci_dutch_auction s round \<noteq> None then Inl (Err InvalidPayoutType) else
     let bids = unwrap_or (ci_bids s) [] in
     if \<exists>b\<in>set bids. bd_bidder b = bidder \<and> bd_round b = round then Inl (Err AlreadyBidded) else
     let deposit = cl_contribution_amount circle in
     bind_res (if deposit > 0
               then token_transfer (ce_token E) (cl_token circle) bidder (cl_id circle) deposit s
               else Inr s) (\<lambda>s.
     Inr (guard_leave (publish (Event ''bid'' [AddrV (self h)]
            [AddrV bidder, NatV discount_bips, NatV round])
          (s\<lparr>ci_bids := Some (bids @ [\<lparr>bd_bidder = bidder, bd_discount_bips = discount_bips,
               bd_round = round, bd_timestamp = now h, bd_deposit = deposit\<rparr>])\<rparr>))))))))"

definition LOSER_REFUND_BATCH_CAP :: nat where "LOSER_REFUND_BATCH_CAP = 20"

text \<open>
  One pass over the bids: losing bids are refunded until the cap is reached, the others are kept.
\<close>

fun refund_loop ::
    "'l circle_env \<Rightarrow> host \<Rightarrow> circle \<Rightarrow> nat \<Rightarrow> addr \<Rightarrow> nat \<Rightarrow> auction_bid list \<Rightarrow> auction_bid list \<Rightarrow> nat \<Rightarrow> nat
      \<Rightarrow> 'l circle_state \<Rightarrow> (circle_error, auction_bid list \<times> nat \<times> 'l circle_state) res" where
  "refund_loop E h circle round winner cap [] kept refunded remaining s = Inr (kept, remaining, s)"
| "refund_loop E h circle round winner cap (b # bs) kept refunded remaining s =
     (let is_loser = bd_round b = round \<and> bd_bidder b \<noteq> winner in
      if is_loser \<and> refunded < cap then
        bind_res (if bd_deposit b > 0
                  then token_transfer (ce_token E) (cl_token circle) (cl_id circle) (bd_bidder b) (bd_deposit b) s
                  else Inr s) (\<lambda>s.
        let s = publish (Event ''refund'' [AddrV (self h)]
                  [AddrV (bd_bidder b), NatV round, IntV (bd_deposit b)]) s in
        bind_res (ok_or (u_checked_add 32 refunded 1) InvalidAmount) (\<lambda>refunded.
        refund_loop E h circle round winner cap bs kept refunded remaining s))
      else
        bind_res (if is_loser then ok_or (u_checked_add 32 remaining 1) InvalidAmount else Inr remaining) (\<lambda>remaining.
        refund_loop E h circle round winner cap bs (kept @ [b]) refunded remaining s))"

definition refund_losing_bids ::
    "'l circle_env \<Rightarrow> host \<Rightarrow> addr \<Rightarrow> nat \<Rightarrow> nat \<Rightarrow> 'l circle_state
      \<Rightarrow> (circle_error, nat \<times> 'l circle_state) res" where
  "refund_losing_bids E h caller round limit s =
     bind_res (not_paused_or ContractPaused s) (\<lambda>_.
     bind_res (require_auth h caller) (\<lambda>_.
     if limit = 0 then Inl (Err InvalidAmount) else
     bind_res (ok_or (ci_auction_winner s round) AuctionNotResolved) (\<lambda>winner.
     bind_res (ok_or (ci_circle s) NotInitialized) (\<lambda>circle.
     let cap = (if limit > LOSER_REFUND_BATCH_CAP then LOSER_REFUND_BATCH_CAP else limit);
         bids = unwrap_or (ci_bids s) [] in
     bind_res (refund_loop E h circle round winner cap bids [] 0 0 s) (\<lambda>(kept, remaining, s).
     Inr (remaining, s\<lparr>ci_bids := Some kept\<rparr>))))))"

section \<open>Dutch auctions\<close>

definition init_dutch_auction ::
    "host \<Rightarrow> addr \<Rightarrow> nat \<Rightarrow> nat \<Rightarrow> nat \<Rightarrow> nat \<Rightarrow> nat \<Rightarrow> 'l circle_state
      \<Rightarrow> (circle_error, 'l circle_state) res" where
  "init_dutch_auction h caller round start_bips floor_bips decay_bips_per_ledger expiry_ledgers s =
     bind_res (not_paused_or ContractPaused s) (\<lambda>_.
     bind_res (require_auth h caller) (\<lambda>_.
     bind_res (ok_or (ci_circle s) NotInitialized) (\<lambda>circle.
     if caller \<noteq> cl_organizer circle then Inl (Err NotOrganizer)
     else if cl_payout_type circle \<noteq> PAYOUT_AUCTION then Inl (Err InvalidPayoutType)
     else if round \<noteq> cl_current_round circle then Inl (Err RoundNotCurrent)
     else if start_bips > 10000 \<or> floor_bips > start_bips \<or> decay_bips_per_ledger = 0 \<or> expiry_ledgers = 0
     then Inl (Err InvalidDutchConfig)
     else if \<exists>b\<in>set (unwrap_or (ci_bids s) []). bd_round b = round then Inl (Err AlreadyBidded)
     else Inr (s\<lparr>ci_dutch_auction := (ci_dutch_auction s)(round \<mapsto>
       \<lparr>da_round = round, da_start_bips = start_bips, da_floor_bips = floor_bips,
        da_decay_bips_per_ledger = decay_bips_per_ledger, da_start_ledger = seq h,
        da_expiry_ledgers = expiry_ledgers, da_resolved = False\<rparr>)\<rparr>))))"

text \<open>The price after a number of ledgers, shared by the query and the bid.\<close>

definition decayed_price :: "dutch_auction_config \<Rightarrow> nat \<Rightarrow> nat" where
  "decayed_price config elapsed =
     max (u_saturating_sub (da_start_bips config)
            (u_saturating_mul 32 (da_decay_bips_per_ledger config) elapsed))
         (da_floor_bips config)"

definition dutch_auction_price :: "host \<Rightarrow> nat \<Rightarrow> 'l circle_state \<Rightarrow> (circle_error, nat \<times> bool) res" where
  "dutch_auction_price h round s =
     bind_res (ok_or (ci_dutch_auction s round) DutchAuctionNotConfigured) (\<lambda>config.
     let elapsed = u_saturating_sub (seq h) (da_start_ledger config);
         price = decayed_price config elapsed;
         expired = (\<not> da_resolved config \<and> elapsed \<ge> da_expiry_ledgers config)
     in Inr (price, expired))"

definition dutch_auction_bid ::
    "host \<Rightarrow> addr \<Rightarrow> nat \<Rightarrow> 'l circle_state \<Rightarrow> (circle_error, nat \<times> 'l circle_state) res" where
  "dutch_auction_bid h bidder round s =
     bind_res (not_paused_or ContractPaused s) (\<lambda>_.
     bind_res (guard_or NotActive s) (\<lambda>s.
     bind_res (require_auth h bidder) (\<lambda>_.
     bind_res (ok_or (ci_circle s) NotInitialized) (\<lambda>circle.
     if round \<noteq> cl_current_round circle then Inl (Err RoundNotCurrent) else
     bind_res (ok_or (ci_dutch_auction s round) DutchAuctionNotConfigured) (\<lambda>config.
     if da_resolved config then Inl (Err AuctionAlreadyResolved) else
     let elapsed = u_saturating_sub (seq h) (da_start_ledger config) in
     if elapsed \<ge> da_expiry_ledgers config then Inl (Err DutchAuctionExpired) else
     let clearing_bips = decayed_price config elapsed;
         bids = unwrap_or (ci_bids s) [];
         s = s\<lparr>ci_bids := Some (bids @ [\<lparr>bd_bidder = bidder, bd_discount_bips = clearing_bips,
                 bd_round = round, bd_timestamp = now h, bd_deposit = 0\<rparr>]),
               ci_dutch_auction := (ci_dutch_auction s)(round \<mapsto> config\<lparr>da_resolved := True\<rparr>)\<rparr>;
         s = publish (Event ''bid'' [AddrV (self h)]
               [AddrV bidder, NatV clearing_bips, NatV round]) s
     in Inr (clearing_bips, guard_leave s))))))"

section \<open>Votes\<close>

text \<open>
  The scan of the member list: an entry of the voter that is not active stops it with an error.
\<close>

fun vote_scan :: "addr \<Rightarrow> addr \<Rightarrow> circle_member list \<Rightarrow> bool \<Rightarrow> bool \<Rightarrow> (circle_error, bool \<times> bool) res" where
  "vote_scan voter vote_for [] is_member is_vote_for_member = Inr (is_member, is_vote_for_member)"
| "vote_scan voter vote_for (m # ms) is_member is_vote_for_member =
     (if mb_address m = voter \<and> mb_status m \<noteq> MEMBER_ACTIVE then Inl (Err InvalidMemberStatus)
      else vote_scan voter vote_for ms
             (if mb_address m = voter then True else is_member)
             (if mb_address m = vote_for \<and> mb_status m = MEMBER_ACTIVE then True else is_vote_for_member))"

definition vote_payout ::
    "host \<Rightarrow> addr \<Rightarrow> addr \<Rightarrow> nat \<Rightarrow> 'l circle_state \<Rightarrow> (circle_error, 'l circle_state) res" where
  "vote_payout h voter vote_for round s =
     bind_res (not_paused_or ContractPaused s) (\<lambda>_.
     bind_res (guard_or NotActive s) (\<lambda>s.
     bind_res (require_auth h voter) (\<lambda>_.
     bind_res (ok_or (ci_circle s) NotInitialized) (\<lambda>circle.
     if cl_payout_type circle \<noteq> PAYOUT_VOTE then Inl (Err InvalidPayoutType)
     else if round \<noteq> cl_current_round circle then Inl (Err RoundNotCurrent) else
     bind_res (ok_or (ci_members s) NotInitialized) (\<lambda>members.
     bind_res (vote_scan voter vote_for members False False) (\<lambda>(is_member, is_vote_for_member).
     if \<not> is_member \<or> \<not> is_vote_for_member then Inl (Err NotMember) else
     let votes = unwrap_or (ci_votes s) [] in
     if \<exists>v\<in>set votes. ve_voter v = voter \<and> ve_round v = round then Inl (Err AlreadyVoted) else
     Inr (guard_leave (publish (Event ''vote'' [AddrV (self h)]
            [AddrV voter, AddrV vote_for, NatV round])
          (s\<lparr>ci_votes := Some (votes @ [\<lparr>ve_voter = voter, ve_vote_for = vote_for,
               ve_round = round, ve_timestamp = now h\<rparr>])\<rparr>)))))))))"

section \<open>Scheduling and cancelling\<close>

definition schedule_payout ::
    "host \<Rightarrow> addr \<Rightarrow> nat \<Rightarrow> 'l circle_state \<Rightarrow> (circle_error, 'l circle_state) res" where
  "schedule_payout h caller round s =
     bind_res (not_paused_or ContractPaused s) (\<lambda>_.
     bind_res (guard_or NotActive s) (\<lambda>s.
     bind_res (require_auth h caller) (\<lambda>_.
     bind_res (ok_or (ci_circle s) NotInitialized) (\<lambda>circle.
     bind_res (ok_or (ci_admin s) NotInitialized) (\<lambda>stored_admin.
     if caller \<noteq> cl_organizer circle \<and> caller \<noteq> stored_admin then Inl (Err Unauthorized)
     else if cl_status circle \<noteq> STATUS_ACTIVE then Inl (Err NotActive)
     else if round \<noteq> cl_current_round circle then Inl (Err RoundNotCurrent)
     else Inr (guard_leave (s\<lparr>ci_payout_scheduled := (ci_payout_scheduled s)(round \<mapsto> True)\<rparr>)))))))"

text \<open>What an address contributed to a round, by checked addition.\<close>

fun contributed_by :: "addr \<Rightarrow> nat \<Rightarrow> contribution list \<Rightarrow> int \<Rightarrow> (circle_error, int) res" where
  "contributed_by a round [] amount = Inr amount"
| "contributed_by a round (c # cs) amount =
     (if co_member c = a \<and> co_round c = round
      then bind_res (ok_or (i128_checked_add amount (co_amount c)) InvalidAmount) (\<lambda>amount.
           contributed_by a round cs amount)
      else contributed_by a round cs amount)"

definition cancel_auction ::
    "'l circle_env \<Rightarrow> host \<Rightarrow> addr \<Rightarrow> 'l circle_state \<Rightarrow> (circle_error, 'l circle_state) res" where
  "cancel_auction E h caller s =
     bind_res (not_paused_or ContractPaused s) (\<lambda>_.
     bind_res (guard_or NotActive s) (\<lambda>s.
     bind_res (require_auth h caller) (\<lambda>_.
     bind_res (ok_or (ci_circle s) NotInitialized) (\<lambda>circle.
     if caller \<noteq> cl_organizer circle then Inl (Err NotOrganizer)
     else if cl_payout_type circle \<noteq> PAYOUT_AUCTION then Inl (Err InvalidPayoutType) else
     let bids = unwrap_or (ci_bids s) [];
         winner = best_bid (cl_current_round circle) 0 None bids in
     bind_res (case winner of
         None \<Rightarrow> Inr (None, 0, s)
       | Some w \<Rightarrow>
           bind_res (contributed_by (bd_bidder w) (cl_current_round circle)
             (unwrap_or (ci_contributions s) []) 0) (\<lambda>refunded_amount.
           let refunded_amount =
             (if refunded_amount = 0 then cl_contribution_amount circle else refunded_amount) in
           bind_res (if refunded_amount > 0
             then token_transfer (ce_token E) (cl_token circle) (cl_id circle) (bd_bidder w) refunded_amount s
             else Inr s) (\<lambda>s. Inr (Some (bd_bidder w), refunded_amount, s))))
     (\<lambda>(refunded_bidder, refunded_amount, s).
     Inr (guard_leave (publish (Event ''auc_cncl'' [AddrV (self h)]
            [NatV (cl_current_round circle), AddrV caller, OptV (map_option AddrV refunded_bidder),
             IntV refunded_amount])
          (s\<lparr>ci_bids := Some (filter (\<lambda>b. bd_round b \<noteq> cl_current_round circle) bids)\<rparr>))))))))"

end
