(* ===== verification/Circle_Admin.thy ===== *)
theory Circle_Admin
  imports Circle_Auction
begin

text \<open>
  The savings circle, fifth part: leaving, strikes by report, cancellation, disputes, the organizer's
  batch calls, referrals and streaks, treasury withdrawals, the setters of the administrator and the
  factory, and the queries (\<open>contract.rs\<close>, second half).
\<close>

section \<open>Leaving and strikes\<close>

text \<open>The sum of all contributions of a member, by checked addition.\<close>

fun contributions_total :: "addr \<Rightarrow> contribution list \<Rightarrow> int \<Rightarrow> (circle_error, int) res" where
  "contributions_total a [] tot = Inr tot"
| "contributions_total a (c # cs) tot =
     (if co_member c = a
      then bind_res (add_or_invalid tot (co_amount c)) (\<lambda>tot. contributions_total a cs tot)
      else contributions_total a cs tot)"

text \<open>The loop over the members; an address without an entry passes through it unchanged.\<close>

fun exit_loop ::
    "host \<Rightarrow> addr \<Rightarrow> contribution list \<Rightarrow> circle_member list \<Rightarrow> int
      \<Rightarrow> (circle_error, circle_member list \<times> int) res" where
  "exit_loop h member contributions [] penalty = Inr ([], penalty)"
| "exit_loop h member contributions (m # ms) penalty =
     (if mb_address m = member then
        if mb_status m \<noteq> MEMBER_ACTIVE then Inl (Err InvalidMemberStatus) else
        bind_res (contributions_total member contributions 0) (\<lambda>ctotal.
        bind_res (map_err (\<lambda>_. InvalidAmount) (calculate_percentage ctotal 500)) (\<lambda>penalty.
        bind_res (exit_loop h member contributions ms penalty) (\<lambda>(ms, penalty).
        Inr (m\<lparr>mb_status := MEMBER_EXITED, mb_exited_at := now h\<rparr> # ms, penalty))))
      else
        bind_res (exit_loop h member contributions ms penalty) (\<lambda>(ms, penalty).
        Inr (m # ms, penalty)))"

definition circle_exit ::
    "'l circle_env \<Rightarrow> host \<Rightarrow> addr \<Rightarrow> 'l circle_state \<Rightarrow> (circle_error, 'l circle_state) res" where
  "circle_exit E h member s =
     bind_res (not_paused_or ContractPaused s) (\<lambda>_.
     bind_res (guard_or NotActive s) (\<lambda>s.
     bind_res (require_auth h member) (\<lambda>_.
     bind_res (ok_or (ci_circle s) NotInitialized) (\<lambda>circle.
     if cl_status circle = STATUS_COMPLETED then Inl (Err NotActive) else
     bind_res (ok_or (ci_members s) NotInitialized) (\<lambda>members.
     bind_res (exit_loop h member (unwrap_or (ci_contributions s) []) members 0) (\<lambda>(members, penalty).
     let s = s\<lparr>ci_members := Some members,
               ci_member_status := (ci_member_status s)(member \<mapsto> MEMBER_EXITED)\<rparr> in
     bind_res (if cl_collateral_amount circle > 0
               then token_transfer (ce_token E) (cl_token circle) (cl_id circle) member
                      (cl_collateral_amount circle) s
               else Inr s) (\<lambda>s.
     Inr (guard_leave (publish (Event ''exited'' [AddrV (self h)] [AddrV member, IntV penalty]) s)))))))))"

text \<open>Two strikes per report: a wrapping and a checked increment.\<close>

fun report_loop ::
    "host \<Rightarrow> circle \<Rightarrow> nat \<Rightarrow> addr \<Rightarrow> circle_member list \<Rightarrow> 'l circle_state
      \<Rightarrow> (circle_error, circle_member list \<times> 'l circle_state) res" where
  "report_loop h circle round late_member [] s = Inr ([], s)"
| "report_loop h circle round late_member (m # ms) s =
     (if mb_address m = late_member then
        bind_res (ok_or (u_checked_add 32 (wrap_u 32 (int (mb_strikes m) + 1)) 1) InvalidAmount) (\<lambda>strikes.
        let m = m\<lparr>mb_strikes := strikes\<rparr>;
            s = record_round_strike round (mb_address m) s;
            (m, s) =
              (if mb_strikes m \<ge> cl_max_strikes circle
               then (m\<lparr>mb_status := MEMBER_DEFAULTED\<rparr>,
                     let s = rep_call (record_default h (mb_address m)) s;
                         s = s\<lparr>ci_member_status := (ci_member_status s)(late_member \<mapsto> MEMBER_DEFAULTED)\<rparr>
                     in publish (Event ''default'' [AddrV (self h)]
                          [AddrV late_member, NatV (mb_strikes m)]) s)
               else (m, s))
        in bind_res (report_loop h circle round late_member ms s) (\<lambda>(ms, s). Inr (m # ms, s)))
      else bind_res (report_loop h circle round late_member ms s) (\<lambda>(ms, s). Inr (m # ms, s)))"

definition report_late ::
    "host \<Rightarrow> addr \<Rightarrow> addr \<Rightarrow> nat \<Rightarrow> 'l circle_state \<Rightarrow> (circle_error, 'l circle_state) res" where
  "report_late h reporter late_member round s =
     bind_res (require_auth h reporter) (\<lambda>_.
     bind_res (not_paused_or ContractPaused s) (\<lambda>_.
     bind_res (guard_or NotActive s) (\<lambda>s.
     bind_res (ok_or (ci_circle s) NotInitialized) (\<lambda>circle.
     if cl_status circle \<noteq> STATUS_ACTIVE then Inl (Err NotActive)
     else if \<not> (\<exists>c\<in>set (unwrap_or (ci_contributions s) []).
                co_member c = late_member \<and> co_round c = round \<and> \<not> co_on_time c)
     then Inl (Err NotMember) else
     bind_res (ok_or (ci_members s) NotInitialized) (\<lambda>members.
     bind_res (report_loop h circle round late_member members s) (\<lambda>(members, s).
     Inr (guard_leave (s\<lparr>ci_members := Some members\<rparr>))))))))"

section \<open>Cancellation\<close>

text \<open>The refund of the collateral is the loop of the last payout.\<close>

definition cancel_circle ::
    "'l circle_env \<Rightarrow> host \<Rightarrow> addr \<Rightarrow> 'l circle_state \<Rightarrow> (circle_error, 'l circle_state) res" where
  "cancel_circle E h caller s =
     bind_res (not_paused_or ContractPaused s) (\<lambda>_.
     bind_res (guard_or NotActive s) (\<lambda>s.
     bind_res (require_auth h caller) (\<lambda>_.
     bind_res (ok_or (ci_circle s) NotInitialized) (\<lambda>circle.
     if caller \<noteq> cl_organizer circle then Inl (Err NotOrganizer)
     else if cl_status circle \<noteq> STATUS_PENDING then Inl (Err NotActive) else
     bind_res (ok_or (ci_members s) NotInitialized) (\<lambda>members.
     bind_res (if cl_collateral_amount circle > 0 then refund_collateral E circle members s else Inr s) (\<lambda>s.
     Inr (guard_leave (publish (Event ''cancel'' [AddrV (self h)]
            [AddrV (cl_id circle), AddrV caller, NatV (now h)])
          (s\<lparr>ci_circle := Some (circle\<lparr>cl_status := STATUS_CANCELLED\<rparr>)\<rparr>)))))))))"

section \<open>Disputes\<close>

definition raise_dispute ::
    "host \<Rightarrow> addr \<Rightarrow> bytes \<Rightarrow> 'l circle_state \<Rightarrow> (circle_error, 'l circle_state) res" where
  "raise_dispute h member evidence_hash s =
     bind_res (not_paused_or ContractPaused s) (\<lambda>_.
     bind_res (guard_or NotActive s) (\<lambda>s.
     bind_res (require_auth h member) (\<lambda>_.
     bind_res (ok_or (ci_circle s) NotInitialized) (\<lambda>circle.
     if cl_status circle = STATUS_DISPUTED then Inl (Err DisputeAlreadyRaised)
     else if cl_status circle = STATUS_COMPLETED \<or> cl_status circle = STATUS_CANCELLED
     then Inl (Err NotActive)
     else if ci_dispute s \<noteq> None then Inl (Err DisputeAlreadyRaised)
     else Inr (guard_leave (publish (Event ''disputed'' [AddrV (self h)]
            [AddrV member, BytesV evidence_hash])
          (s\<lparr>ci_circle := Some (circle\<lparr>cl_status := STATUS_DISPUTED\<rparr>),
             ci_dispute := Some \<lparr>di_raised_by = member, di_evidence_hash = evidence_hash,
               di_raised_at = now h, di_resolved_at = 0, di_resolution = 0,
               di_resolved_by = self h\<rparr>\<rparr>)))))))"

text \<open>Striking out the first member with the address of the one who raised the dispute.\<close>

fun penalize_loop :: "addr \<Rightarrow> circle_member list \<Rightarrow> circle_member list" where
  "penalize_loop a [] = []"
| "penalize_loop a (m # ms) =
     (if mb_address m = a
      then m\<lparr>mb_strikes := u_saturating_add 32 (mb_strikes m) 1, mb_status := MEMBER_DEFAULTED\<rparr> # ms
      else m # penalize_loop a ms)"

text \<open>Paying every member the total recorded for it and resetting that total.\<close>

fun refund_loop_members ::
    "'l circle_env \<Rightarrow> host \<Rightarrow> addr \<Rightarrow> circle_member list \<Rightarrow> 'l circle_state
      \<Rightarrow> (circle_error, circle_member list \<times> 'l circle_state) res" where
  "refund_loop_members E h token [] s = Inr ([], s)"
| "refund_loop_members E h token (m # ms) s =
     (if mb_total_contributions m > 0
      then bind_res (token_transfer (ce_token E) token (self h) (mb_address m) (mb_total_contributions m) s) (\<lambda>s.
           bind_res (refund_loop_members E h token ms s) (\<lambda>(ms, s).
           Inr (m\<lparr>mb_total_contributions := 0\<rparr> # ms, s)))
      else bind_res (refund_loop_members E h token ms s) (\<lambda>(ms, s). Inr (m # ms, s)))"

definition resolve_dispute ::
    "'l circle_env \<Rightarrow> host \<Rightarrow> addr \<Rightarrow> nat \<Rightarrow> 'l circle_state \<Rightarrow> (circle_error, 'l circle_state) res" where
  "resolve_dispute E h admin resolution s =
     bind_res (not_paused_or ContractPaused s) (\<lambda>_.
     bind_res (ok_or (ci_admin s) NotInitialized) (\<lambda>stored.
     if admin \<noteq> stored then Inl (Err Unauthorized) else
     bind_res (require_auth h admin) (\<lambda>_.
     bind_res (ok_or (ci_circle s) NotInitialized) (\<lambda>circle.
     bind_res (ok_or (ci_dispute s) NoActiveDispute) (\<lambda>dispute.
     if resolution > RESOLVE_REFUND then Inl (Err InvalidAmount) else
     let outcome_code = resolution in
     bind_res
       (if resolution = RESOLVE_DISMISS \<or> resolution = RESOLVE_FORCE_PAYOUT
        then Inr (circle\<lparr>cl_status := STATUS_ACTIVE\<rparr>, s)
        else if resolution = RESOLVE_PENALIZE then
          (let circle = circle\<lparr>cl_status := STATUS_ACTIVE\<rparr> in
           bind_res (if cl_collateral_amount circle > 0
                     then (case ci_treasury s of
                             Some treasury \<Rightarrow> token_transfer (ce_token E) (cl_token circle) (self h)
                                                treasury (cl_collateral_amount circle) s
                           | None \<Rightarrow> Inr s)
                     else Inr s) (\<lambda>s.
           Inr (circle, s\<lparr>ci_members :=
             Some (penalize_loop (di_raised_by dispute) (unwrap_or (ci_members s) []))\<rparr>)))
        else if resolution = RESOLVE_REFUND then
          bind_res (refund_loop_members E h (cl_token circle) (unwrap_or (ci_members s) []) s) (\<lambda>(members, s).
          Inr (circle\<lparr>cl_status := STATUS_CANCELLED\<rparr>, s\<lparr>ci_members := Some members\<rparr>))
        else Inl (Err InvalidAmount)) (\<lambda>(circle, s).
     Inr (publish (Event ''disp_res'' [AddrV (self h)]
            [AddrV (di_raised_by dispute), NatV resolution, NatV outcome_code, AddrV admin])
          (s\<lparr>ci_circle := Some circle,
             ci_dispute := Some (dispute\<lparr>di_resolved_at := now h, di_resolution := resolution,
               di_resolved_by := admin\<rparr>),
             ci_dispute_resolution := Some \<lparr>dr_raised_by = di_raised_by dispute,
               dr_resolution = resolution, dr_outcome_code = outcome_code, dr_resolved_by = admin,
               dr_resolved_at = now h\<rparr>\<rparr>))))))))"

section \<open>The organizer's batch calls\<close>

fun invite_loop ::
    "host \<Rightarrow> circle \<Rightarrow> (addr \<Rightarrow> nat) \<Rightarrow> addr list \<Rightarrow> circle_member list
      \<Rightarrow> (circle_error, circle_member list) res" where
  "invite_loop h circle score [] members_vec = Inr members_vec"
| "invite_loop h circle score (a # as) members_vec =
     (if score a < cl_min_moi_score circle then Inl (Err InsufficientMoiScore)
      else if \<exists>m\<in>set members_vec. mb_address m = a then Inl (Err AlreadyMember)
      else if length members_vec \<ge> cl_max_members circle then Inl (Err CircleFull)
      else invite_loop h circle score as (members_vec @ [new_member a (length members_vec) (now h)]))"

definition batch_invite ::
    "host \<Rightarrow> addr \<Rightarrow> addr list \<Rightarrow> 'l circle_state \<Rightarrow> (circle_error, 'l circle_state) res" where
  "batch_invite h caller members s =
     bind_res (not_paused_or ContractPaused s) (\<lambda>_.
     bind_res (guard_or NotActive s) (\<lambda>s.
     bind_res (ok_or (ci_circle s) NotInitialized) (\<lambda>circle.
     if caller \<noteq> cl_organizer circle then Inl (Err NotOrganizer) else
     bind_res (require_auth h caller) (\<lambda>_.
     if cl_status circle = STATUS_DISPUTED \<or> cl_status circle = STATUS_COMPLETED
     then Inl (Err NotActive) else
     bind_res (invite_loop h circle (storage_get_score (rep_of s)) members (unwrap_or (ci_members s) []))
       (\<lambda>members_vec.
     let s = s\<lparr>ci_members := Some members_vec,
               ci_member_status := fold (\<lambda>m status. status(m \<mapsto> MEMBER_ACTIVE)) members (ci_member_status s)\<rparr>;
         stored = circle\<lparr>cl_member_count := length members_vec\<rparr>;
         stored = (if length members_vec \<ge> cl_max_members circle \<and> cl_status circle = STATUS_PENDING
                   then stored\<lparr>cl_status := STATUS_ACTIVE, cl_started_at := now h\<rparr> else stored)
     in Inr (guard_leave (fold (\<lambda>m. publish (Event ''joined'' [AddrV (self h)]
              [AddrV (mb_address m), NatV (mb_position m)])) members_vec
          (s\<lparr>ci_circle := Some stored\<rparr>))))))))"

text \<open>Crediting the first member with the address, and no other.\<close>

fun credit_first :: "addr \<Rightarrow> int \<Rightarrow> circle_member list \<Rightarrow> (circle_error, circle_member list) res" where
  "credit_first a x [] = Inr []"
| "credit_first a x (m # ms) =
     (if mb_address m = a
      then bind_res (add_or_invalid (mb_total_received m) x) (\<lambda>r. Inr (m\<lparr>mb_total_received := r\<rparr> # ms))
      else bind_res (credit_first a x ms) (\<lambda>ms. Inr (m # ms)))"

text \<open>The fee of a batch payout is computed with plain operators, which wrap.\<close>

definition batch_fee :: "int \<Rightarrow> nat \<Rightarrow> int" where
  "batch_fee amount fee_bps =
     (if fee_bps > 0 then wrap_i128 (amount * int fee_bps) sdiv 10000 else 0)"

fun batch_loop ::
    "'l circle_env \<Rightarrow> host \<Rightarrow> nat \<Rightarrow> nat \<Rightarrow> (addr \<times> int) list \<Rightarrow> circle \<Rightarrow> circle_member list
      \<Rightarrow> payout_recipient list \<Rightarrow> 'l circle_state
      \<Rightarrow> (circle_error, circle \<times> circle_member list \<times> payout_recipient list \<times> 'l circle_state) res" where
  "batch_loop E h round fee_bps [] circle members payouts s = Inr (circle, members, payouts, s)"
| "batch_loop E h round fee_bps ((recipient, amount) # rest) circle members payouts s =
     (if amount \<le> 0 then Inl (Err InvalidAmount) else
      bind_res (case find_member recipient members of
          None \<Rightarrow> Inr circle
        | Some m \<Rightarrow>
            if position_paid (cl_payout_bitmap circle) (mb_position m) then Inl (Err PayoutAlreadyExecuted)
            else Inr (circle\<lparr>cl_payout_bitmap := mark_paid (mb_position m) (cl_payout_bitmap circle)\<rparr>)) (\<lambda>circle.
      let fee = batch_fee amount fee_bps;
          net_amount = wrap_i128 (amount - fee) in
      bind_res (token_transfer (ce_token E) (cl_token circle) (cl_id circle) recipient net_amount s) (\<lambda>s.
      bind_res (if fee > 0
                then bind_res (ok_or (ci_treasury s) NotInitialized) (\<lambda>treasury.
                     token_transfer (ce_token E) (cl_token circle) (cl_id circle) treasury fee s)
                else Inr s) (\<lambda>s.
      let payouts = payouts @ [payout_entry h recipient round net_amount fee (cl_payout_type circle)] in
      bind_res (credit_first recipient net_amount members) (\<lambda>members.
      batch_loop E h round fee_bps rest circle members payouts
        (publish (Event ''payout'' [AddrV (self h)]
          [AddrV recipient, NatV round, IntV amount, IntV fee, NatV (cl_payout_type circle)]) s))))))"

definition batch_payout ::
    "'l circle_env \<Rightarrow> host \<Rightarrow> addr \<Rightarrow> addr list \<Rightarrow> int list \<Rightarrow> nat \<Rightarrow> 'l circle_state
      \<Rightarrow> (circle_error, 'l circle_state) res" where
  "batch_payout E h caller recipients amounts round s =
     bind_res (not_paused_or ContractPaused s) (\<lambda>_.
     bind_res (guard_or NotActive s) (\<lambda>s.
     bind_res (ok_or (ci_circle s) NotInitialized) (\<lambda>circle.
     bind_res (ok_or (ci_admin s) NotInitialized) (\<lambda>stored_admin.
     if caller \<noteq> cl_organizer circle \<and> caller \<noteq> stored_admin then Inl (Err Unauthorized) else
     bind_res (require_auth h caller) (\<lambda>_.
     if cl_status circle \<noteq> STATUS_ACTIVE then Inl (Err NotActive)
     else if round \<noteq> cl_current_round circle then Inl (Err RoundNotCurrent)
     else if length recipients = 0 \<or> length recipients > 10 \<or> length recipients \<noteq> length amounts
     then Inl (Err InvalidAmount) else
     let fee_bps = unwrap_or (ci_fee_bps s) 0;
         payouts = unwrap_or (ci_payouts s) [] in
     bind_res (ok_or (ci_members s) NotInitialized) (\<lambda>members.
     bind_res (batch_loop E h round fee_bps (zip recipients amounts) circle members payouts s)
       (\<lambda>(circle, members, payouts, s).
     Inr (guard_leave (s\<lparr>ci_circle := Some circle, ci_payouts := Some payouts,
            ci_members := Some members\<rparr>)))))))))"

end
