(* ===== verification/Circle_Queries.thy ===== *)
theory Circle_Queries
  imports Circle_Admin
begin

text \<open>
  The savings circle, sixth part: referrals, streaks, treasury withdrawals, the setters of the
  administrator and the factory, the queries, the leaderboard (\<open>contract.rs\<close>), and the contract as a
  state machine over all its entry points (\<open>lib.rs\<close>).
\<close>

section \<open>Referrals and streaks\<close>

definition register_referral ::
    "host \<Rightarrow> addr \<Rightarrow> addr \<Rightarrow> nat \<Rightarrow> 'l circle_state \<Rightarrow> (circle_error, 'l circle_state) res" where
  "register_referral h referrer referred bonus_pct s =
     bind_res (not_paused_or ContractPaused s) (\<lambda>_.
     bind_res (require_auth h referrer) (\<lambda>_.
     if referrer = referred then Inl (Err SelfReferral)
     else if bonus_pct > 10000 then Inl (Err InvalidAmount) else
     let referrals = unwrap_or (ci_referrals s) [] in
     if \<exists>r\<in>set referrals. rl_referrer r = referrer \<and> rl_referred r = referred
     then Inl (Err AlreadyMember)
     else Inr (publish (Event ''referral'' [AddrV (self h)]
            [AddrV referrer, AddrV referred, NatV bonus_pct])
          (s\<lparr>ci_referrals := Some (referrals @ [\<lparr>rl_referrer = referrer, rl_referred = referred,
               rl_bonus_pct = bonus_pct, rl_timestamp = now h\<rparr>])\<rparr>))))"

text \<open>
  \<open>claim_referral_bonus\<close> and \<open>claim_streak_bonus\<close> have the same body: the whole balance of the circle
  goes to the one who asks.
\<close>

definition claim_bonus ::
    "'l circle_env \<Rightarrow> host \<Rightarrow> addr \<Rightarrow> 'l circle_state \<Rightarrow> (circle_error, 'l circle_state) res" where
  "claim_bonus E h who s =
     bind_res (not_paused_or ContractPaused s) (\<lambda>_.
     bind_res (guard_or ReentrantCall s) (\<lambda>s.
     bind_res (require_auth h who) (\<lambda>_.
     bind_res (case ci_token s of
          Some t \<Rightarrow> Inr t
        | None \<Rightarrow> bind_res (ok_or (ci_circle s) NotInitialized) (\<lambda>circle. Inr (cl_token circle)))
       (\<lambda>token_address.
     let contract_balance = tk_balance (ce_token E) (cb_ledger s) token_address (self h) in
     if contract_balance \<le> 0 then Inl (Err InsufficientContractBalance) else
     bind_res (token_transfer (ce_token E) token_address (self h) who contract_balance s) (\<lambda>s.
     Inr (guard_leave s))))))"

definition claim_referral_bonus ::
    "'l circle_env \<Rightarrow> host \<Rightarrow> addr \<Rightarrow> 'l circle_state \<Rightarrow> (circle_error, 'l circle_state) res" where
  "claim_referral_bonus E h referrer s = claim_bonus E h referrer s"

definition claim_streak_bonus ::
    "'l circle_env \<Rightarrow> host \<Rightarrow> addr \<Rightarrow> 'l circle_state \<Rightarrow> (circle_error, 'l circle_state) res" where
  "claim_streak_bonus E h member s = claim_bonus E h member s"

definition update_streak ::
    "host \<Rightarrow> addr \<Rightarrow> nat \<Rightarrow> 'l circle_state \<Rightarrow> (circle_error, 'l circle_state) res" where
  "update_streak h member round s =
     bind_res (not_paused_or ContractPaused s) (\<lambda>_.
     bind_res (require_auth h member) (\<lambda>_. Inr (update_streak_internal member round s)))"

definition get_referrals :: "'l circle_state \<Rightarrow> referral list" where
  "get_referrals s = unwrap_or (ci_referrals s) []"

definition get_streaks :: "'l circle_state \<Rightarrow> streak list" where
  "get_streaks s = unwrap_or (ci_streaks s) []"

definition get_member_streak :: "'l circle_state \<Rightarrow> addr \<Rightarrow> streak" where
  "get_member_streak s member =
     (case find (\<lambda>st. st_member st = member) (unwrap_or (ci_streaks s) []) of
        Some st \<Rightarrow> st
      | None \<Rightarrow> \<lparr>st_member = member, st_current_streak = 0, st_longest_streak = 0, st_last_round = 0\<rparr>)"

section \<open>Pause and setters\<close>

definition pause_circle ::
    "host \<Rightarrow> addr \<Rightarrow> 'l circle_state \<Rightarrow> (circle_error, 'l circle_state) res" where
  "pause_circle h admin s =
     bind_res (ok_or (ci_admin s) NotInitialized) (\<lambda>stored.
     if admin \<noteq> stored then Inl (Err Unauthorized)
     else map_err (\<lambda>_. ContractPaused) (common_pause h admin s))"

definition unpause_circle ::
    "host \<Rightarrow> addr \<Rightarrow> 'l circle_state \<Rightarrow> (circle_error, 'l circle_state) res" where
  "unpause_circle h admin s =
     bind_res (ok_or (ci_admin s) NotInitialized) (\<lambda>stored.
     if admin \<noteq> stored then Inl (Err Unauthorized)
     else map_err (\<lambda>_. ContractPaused) (common_unpause h admin s))"

text \<open>The guard the setters of the administrator start with.\<close>

definition admin_only ::
    "host \<Rightarrow> addr \<Rightarrow> 'l circle_state \<Rightarrow> (circle_error, 'l circle_state) res
      \<Rightarrow> (circle_error, 'l circle_state) res" where
  "admin_only h admin s k =
     bind_res (not_paused_or ContractPaused s) (\<lambda>_.
     bind_res (ok_or (ci_admin s) NotInitialized) (\<lambda>stored.
     if admin \<noteq> stored then Inl (Err Unauthorized)
     else bind_res (require_auth h admin) (\<lambda>_. k)))"

definition set_reputation_registry ::
    "host \<Rightarrow> addr \<Rightarrow> addr \<Rightarrow> 'l circle_state \<Rightarrow> (circle_error, 'l circle_state) res" where
  "set_reputation_registry h admin registry s = admin_only h admin s (Inr (s\<lparr>ci_registry := Some registry\<rparr>))"

definition get_reputation_registry :: "'l circle_state \<Rightarrow> addr option" where
  "get_reputation_registry s = ci_registry s"

definition set_treasury ::
    "host \<Rightarrow> addr \<Rightarrow> addr \<Rightarrow> 'l circle_state \<Rightarrow> (circle_error, 'l circle_state) res" where
  "set_treasury h admin treasury s = admin_only h admin s (Inr (s\<lparr>ci_treasury := Some treasury\<rparr>))"

text \<open>The all-zero key is the least address.\<close>

definition zero_address :: addr where "zero_address = 0"

definition configure_from_factory ::
    "host \<Rightarrow> addr \<Rightarrow> addr \<Rightarrow> addr \<Rightarrow> nat \<Rightarrow> 'l circle_state \<Rightarrow> (circle_error, 'l circle_state) res" where
  "configure_from_factory h factory treasury registry fee_bps s =
     bind_res (require_auth h factory) (\<lambda>_.
     bind_res (ok_or (ci_factory s) NotInitialized) (\<lambda>stored_factory.
     if factory \<noteq> stored_factory then Inl (Err Unauthorized) else
     bind_res (not_paused_or ContractPaused s) (\<lambda>_.
     if treasury = zero_address \<or> registry = zero_address then Inl (Err InvalidAmount)
     else if fee_bps > 10000 then Inl (Err InvalidAmount)
     else Inr (publish (Event ''fcfg'' [AddrV (self h)]
            [AddrV factory, AddrV treasury, AddrV registry, NatV fee_bps])
          (s\<lparr>ci_treasury := Some treasury, ci_registry := Some registry,
             ci_fee_bps := Some fee_bps\<rparr>)))))"

definition get_treasury :: "'l circle_state \<Rightarrow> addr option" where
  "get_treasury s = ci_treasury s"

definition get_fee_bps :: "'l circle_state \<Rightarrow> nat" where
  "get_fee_bps s = unwrap_or (ci_fee_bps s) 0"

definition set_token ::
    "host \<Rightarrow> addr \<Rightarrow> addr \<Rightarrow> 'l circle_state \<Rightarrow> (circle_error, 'l circle_state) res" where
  "set_token h admin token s = admin_only h admin s
     (bind_res (ok_or (ci_circle s) NotInitialized) (\<lambda>circle.
      Inr (s\<lparr>ci_circle := Some (circle\<lparr>cl_token := token\<rparr>)\<rparr>)))"

definition set_fee_bps ::
    "host \<Rightarrow> addr \<Rightarrow> nat \<Rightarrow> 'l circle_state \<Rightarrow> (circle_error, 'l circle_state) res" where
  "set_fee_bps h admin fee_bps s = admin_only h admin s
     (if fee_bps > 10000 then Inl (Err InvalidAmount) else Inr (s\<lparr>ci_fee_bps := Some fee_bps\<rparr>))"

definition set_allowlist ::
    "host \<Rightarrow> addr \<Rightarrow> addr list \<Rightarrow> 'l circle_state \<Rightarrow> (circle_error, 'l circle_state) res" where
  "set_allowlist h admin allowlist s = admin_only h admin s (Inr (s\<lparr>ci_allowlist := Some allowlist\<rparr>))"

definition get_allowlist :: "'l circle_state \<Rightarrow> addr list" where
  "get_allowlist s = unwrap_or (ci_allowlist s) []"

definition set_oracle ::
    "host \<Rightarrow> addr \<Rightarrow> addr \<Rightarrow> 'l circle_state \<Rightarrow> (circle_error, 'l circle_state) res" where
  "set_oracle h admin oracle s = admin_only h admin s (Inr (set_primary_oracle oracle s))"

definition set_fallback_oracle ::
    "host \<Rightarrow> addr \<Rightarrow> addr \<Rightarrow> 'l circle_state \<Rightarrow> (circle_error, 'l circle_state) res" where
  "set_fallback_oracle h admin oracle s = admin_only h admin s (Inr (store_fallback_oracle oracle s))"

section \<open>Treasury withdrawals\<close>

definition withdraw_treasury ::
    "'l circle_env \<Rightarrow> host \<Rightarrow> addr \<Rightarrow> int \<Rightarrow> 'l circle_state \<Rightarrow> (circle_error, 'l circle_state) res" where
  "withdraw_treasury E h caller amount s =
     bind_res (not_paused_or ContractPaused s) (\<lambda>_.
     bind_res (guard_or NotActive s) (\<lambda>s.
     bind_res (ok_or (ci_circle s) NotInitialized) (\<lambda>circle.
     bind_res (ok_or (ci_admin s) NotInitialized) (\<lambda>stored_admin.
     if caller \<noteq> cl_organizer circle \<and> caller \<noteq> stored_admin then Inl (Err Unauthorized) else
     bind_res (require_auth h caller) (\<lambda>_.
     if amount \<le> 0 then Inl (Err InvalidAmount)
     else if cl_max_withdrawal_per_tx circle > 0 \<and> amount > cl_max_withdrawal_per_tx circle
     then Inl (Err WithdrawalCapExceeded) else
     let day_key = now h div 86400;
         withdrawal_day = unwrap_or (ci_withdrawal_day s) 0;
         daily_amount = unwrap_or (ci_withdrawal_amount s) 0;
         (withdrawal_day, daily_amount) =
           (if withdrawal_day \<noteq> day_key then (day_key, 0) else (withdrawal_day, daily_amount)) in
     if cl_daily_withdrawal_limit circle > 0
        \<and> i128_saturating_add daily_amount amount > cl_daily_withdrawal_limit circle
     then Inl (Err DailyWithdrawalLimitExceeded) else
     bind_res (ok_or (ci_treasury s) NotInitialized) (\<lambda>_.
     let treasury_balance = tk_balance (ce_token E) (cb_ledger s) (cl_token circle) (cl_id circle) in
     if treasury_balance < amount then Inl (Err InsufficientContractBalance) else
     bind_res (token_transfer (ce_token E) (cl_token circle) (cl_id circle) caller amount s) (\<lambda>s.
     bind_res (add_or_invalid daily_amount amount) (\<lambda>daily_amount.
     Inr (guard_leave (publish (Event ''withdraw'' [AddrV (self h)]
            [AddrV caller, IntV amount, IntV daily_amount])
          (s\<lparr>ci_withdrawal_day := Some withdrawal_day,
             ci_withdrawal_amount := Some daily_amount\<rparr>)))))))))))"

section \<open>Queries\<close>

definition get_status :: "host \<Rightarrow> 'l circle_state \<Rightarrow> circle" where
  "get_status h s = unwrap_or (ci_circle s)
     \<lparr>cl_id = self h, cl_token = self h, cl_name = '''', cl_organizer = self h, cl_factory = self h,
      cl_contribution_amount = 0, cl_max_members = 0, cl_member_count = 0, cl_payout_type = 0,
      cl_total_rounds = 0, cl_current_round = 0, cl_status = 3, cl_started_at = 0, cl_created_at = 0,
      cl_contribution_deadline_seconds = 0, cl_min_moi_score = 0, cl_collateral_amount = 0,
      cl_penalty_bps = 0, cl_grace_period_seconds = 0, cl_max_strikes = 0, cl_payout_bitmap = 0,
      cl_total_payouts = 0, cl_total_fees = 0, cl_slug = '''', cl_health_score = 100,
      cl_max_withdrawal_per_tx = 0, cl_daily_withdrawal_limit = 0, cl_min_duration_seconds = 0\<rparr>"

definition get_dispute_resolution :: "'l circle_state \<Rightarrow> dispute_resolution_record option" where
  "get_dispute_resolution s = ci_dispute_resolution s"

definition get_members :: "'l circle_state \<Rightarrow> circle_member list" where
  "get_members s = unwrap_or (ci_members s) []"

text \<open>The page of a member's contributions; the counter wraps.\<close>

fun contributions_page :: "addr \<Rightarrow> nat \<Rightarrow> nat \<Rightarrow> nat \<Rightarrow> contribution list \<Rightarrow> contribution list" where
  "contributions_page member start stop count [] = []"
| "contributions_page member start stop count (c # cs) =
     (if co_member c = member
      then (if count \<ge> start \<and> count < stop then [c] else [])
           @ contributions_page member start stop (wrap_u 32 (int count + 1)) cs
      else contributions_page member start stop count cs)"

definition get_contributions :: "'l circle_state \<Rightarrow> addr \<Rightarrow> nat \<Rightarrow> nat \<Rightarrow> contribution list" where
  "get_contributions s member page page_size =
     (let start = u_saturating_mul 32 page page_size;
          stop = u_saturating_add 32 start page_size
      in contributions_page member start stop 0 (unwrap_or (ci_contributions s) []))"

definition query_round_config :: "'l circle_state \<Rightarrow> nat \<Rightarrow> (circle_error, bytes) res" where
  "query_round_config s round = ok_or (ci_config_snapshot s round) InvalidRound"

definition get_round_fee_ledger :: "'l circle_state \<Rightarrow> nat \<Rightarrow> round_fee_ledger" where
  "get_round_fee_ledger s round = unwrap_or (ci_round_fee_ledger s round) (empty_round_fee_ledger round)"

subsection \<open>The leaderboard\<close>

definition MAX_LEADERBOARD_LIMIT :: nat where "MAX_LEADERBOARD_LIMIT = 50"

text \<open>An entry: address, total and earliest time; \<open>beats\<close> is the order of the leaderboard.\<close>

definition beats :: "addr \<times> int \<times> nat \<Rightarrow> addr \<times> int \<times> nat \<Rightarrow> bool" where
  "beats x y =
     (case x of (a, tot, ts) \<Rightarrow> case y of (cur_a, cur_tot, cur_ts) \<Rightarrow>
      if tot \<noteq> cur_tot then tot > cur_tot
      else if ts \<noteq> cur_ts then ts < cur_ts
      else a < cur_a)"

text \<open>Insertion before the first entry that is beaten.\<close>

fun insert_beats :: "addr \<times> int \<times> nat \<Rightarrow> (addr \<times> int \<times> nat) list \<Rightarrow> (addr \<times> int \<times> nat) list" where
  "insert_beats x [] = [x]"
| "insert_beats x (y # ys) = (if beats x y then x # y # ys else y # insert_beats x ys)"

fun beats_position :: "addr \<times> int \<times> nat \<Rightarrow> (addr \<times> int \<times> nat) list \<Rightarrow> nat" where
  "beats_position x [] = 0"
| "beats_position x (y # ys) = (if beats x y then 0 else Suc (beats_position x ys))"

text \<open>One entry offered to the leaderboard: inserted when it lands below the limit, the last one dropped.\<close>

definition offer_entry ::
    "nat \<Rightarrow> addr \<times> int \<times> nat \<Rightarrow> (addr \<times> int \<times> nat) list \<Rightarrow> (addr \<times> int \<times> nat) list" where
  "offer_entry limit x board =
     (if beats_position x board < limit
      then (let board = insert_beats x board
            in if length board > limit then butlast board else board)
      else board)"

definition contributor_totals :: "circle_member list \<Rightarrow> contribution list \<Rightarrow> (addr \<times> int \<times> nat) list" where
  "contributor_totals members contributions =
     fold (\<lambda>c totals.
         case unwrap_or (map_of totals (co_member c)) (0, co_timestamp c) of (prev_total, earliest_ts) \<Rightarrow>
         let new_total = (if members = [] then i128_saturating_add prev_total (co_amount c) else prev_total);
             new_ts = (if earliest_ts = 0 \<or> co_timestamp c < earliest_ts then co_timestamp c else earliest_ts)
         in om_set (co_member c) (new_total, new_ts) totals)
       contributions
       (fold (\<lambda>m totals. om_set (mb_address m) (mb_total_contributions m, mb_joined_at m) totals) members [])"

definition query_top_contributors :: "nat \<Rightarrow> 'l circle_state \<Rightarrow> (addr \<times> int) list" where
  "query_top_contributors n s =
     (let limit = (if n > MAX_LEADERBOARD_LIMIT then MAX_LEADERBOARD_LIMIT else n) in
      if limit = 0 then [] else
      let totals = contributor_totals (unwrap_or (ci_members s) []) (unwrap_or (ci_contributions s) []);
          board = fold (offer_entry limit) totals []
      in map (\<lambda>(a, tot, _). (a, tot)) board)"

end
