(* ===== verification/Circle_Machine.thy ===== *)
theory Circle_Machine
  imports Circle_Queries
begin

text \<open>
  The savings circle as a state machine: one operation per entry point of \<open>lib.rs\<close> that changes state,
  runs of the contract interleaved with changes of the other contracts, and what every operation
  leaves unchanged.
\<close>

section \<open>Operations and runs\<close>

datatype circle_op =
    CiJoin addr | CiContribute addr int nat | CiCheckDeadline | CiTriggerPayout addr nat
  | CiAuctionBid addr nat nat | CiRefundLosingBids addr nat nat
  | CiInitDutch addr nat nat nat nat nat | CiDutchBid addr nat | CiVotePayout addr addr nat
  | CiExit addr | CiCancelCircle addr | CiReportLate addr addr nat | CiRaiseDispute addr bytes
  | CiResolveDispute addr nat | CiWithdrawTreasury addr int | CiCancelAuction addr
  | CiSchedulePayout addr nat | CiPause addr | CiUnpause addr | CiBatchInvite addr "addr list"
  | CiBatchPayout addr "addr list" "int list" nat | CiRegisterReferral addr addr nat
  | CiClaimReferral addr | CiUpdateStreak addr nat | CiClaimStreak addr
  | CiSetRegistry addr addr | CiSetTreasury addr addr | CiSetToken addr addr | CiSetFee addr nat
  | CiSetAllowlist addr "addr list" | CiSetOracle addr addr | CiSetFallbackOracle addr addr
  | CiConfigure addr addr addr nat

text \<open>The state a call leaves; results other than the state are dropped.\<close>

abbreviation drop_value :: "('e, 'a \<times> 's) res \<Rightarrow> ('e, 's) res" where
  "drop_value r \<equiv> bind_res r (\<lambda>(_, s). Inr s)"

fun ci_exec ::
    "'l circle_env \<Rightarrow> host \<Rightarrow> circle_op \<Rightarrow> 'l circle_state \<Rightarrow> (circle_error, 'l circle_state) res" where
  "ci_exec E h (CiJoin m) s = circle_join E h m s"
| "ci_exec E h (CiContribute m a r) s = circle_contribute E h m a r s"
| "ci_exec E h CiCheckDeadline s = check_contribution_deadline E h s"
| "ci_exec E h (CiTriggerPayout c r) s = trigger_payout E h c r s"
| "ci_exec E h (CiAuctionBid b d r) s = circle_auction_bid E h b d r s"
| "ci_exec E h (CiRefundLosingBids c r n) s = drop_value (refund_losing_bids E h c r n s)"
| "ci_exec E h (CiInitDutch c r st fl de ex) s = init_dutch_auction h c r st fl de ex s"
| "ci_exec E h (CiDutchBid b r) s = drop_value (dutch_auction_bid h b r s)"
| "ci_exec E h (CiVotePayout u v r) s = vote_payout h u v r s"
| "ci_exec E h (CiExit m) s = circle_exit E h m s"
| "ci_exec E h (CiCancelCircle c) s = cancel_circle E h c s"
| "ci_exec E h (CiReportLate u m r) s = report_late h u m r s"
| "ci_exec E h (CiRaiseDispute m e) s = raise_dispute h m e s"
| "ci_exec E h (CiResolveDispute a r) s = resolve_dispute E h a r s"
| "ci_exec E h (CiWithdrawTreasury c a) s = withdraw_treasury E h c a s"
| "ci_exec E h (CiCancelAuction c) s = cancel_auction E h c s"
| "ci_exec E h (CiSchedulePayout c r) s = schedule_payout h c r s"
| "ci_exec E h (CiPause a) s = pause_circle h a s"
| "ci_exec E h (CiUnpause a) s = unpause_circle h a s"
| "ci_exec E h (CiBatchInvite c ms) s = batch_invite h c ms s"
| "ci_exec E h (CiBatchPayout c rs as r) s = batch_payout E h c rs as r s"
| "ci_exec E h (CiRegisterReferral a b p) s = register_referral h a b p s"
| "ci_exec E h (CiClaimReferral a) s = claim_referral_bonus E h a s"
| "ci_exec E h (CiUpdateStreak m r) s = update_streak h m r s"
| "ci_exec E h (CiClaimStreak m) s = claim_streak_bonus E h m s"
| "ci_exec E h (CiSetRegistry a r) s = set_reputation_registry h a r s"
| "ci_exec E h (CiSetTreasury a t) s = set_treasury h a t s"
| "ci_exec E h (CiSetToken a t) s = set_token h a t s"
| "ci_exec E h (CiSetFee a f) s = set_fee_bps h a f s"
| "ci_exec E h (CiSetAllowlist a l) s = set_allowlist h a l s"
| "ci_exec E h (CiSetOracle a x) s = set_oracle h a x s"
| "ci_exec E h (CiSetFallbackOracle a x) s = set_fallback_oracle h a x s"
| "ci_exec E h (CiConfigure f t r n) s = configure_from_factory h f t r n s"

text \<open>
  A run of the circle at address \<open>me\<close>: calls, and between them any change of the other contracts.
\<close>

inductive ci_run :: "'l circle_env \<Rightarrow> addr \<Rightarrow> 'l circle_state \<Rightarrow> 'l circle_state \<Rightarrow> bool"
  for E :: "'l circle_env" and me :: addr where
  ci_refl: "ci_run E me s s"
| ci_call: "ci_run E me s s1 \<Longrightarrow> self h = me \<Longrightarrow> ci_exec E h op s1 = Inr s2 \<Longrightarrow> ci_run E me s s2"
| ci_env: "ci_run E me s s1 \<Longrightarrow> ci_run E me s (s1\<lparr>cb_ledger := l\<rparr>)"

text \<open>An invariant of every operation that does not look at the other contracts holds along runs.\<close>

lemma ci_run_invariant:
  assumes "ci_run E me s s'" "I s"
    and "\<And>h op s1 s2. self h = me \<Longrightarrow> I s1 \<Longrightarrow> ci_exec E h op s1 = Inr s2 \<Longrightarrow> I s2"
    and "\<And>s1 l. I s1 \<Longrightarrow> I (s1\<lparr>cb_ledger := l\<rparr>)"
  shows "I s'"
  using assms(1,2)
proof (induction rule: ci_run.induct)
  case (ci_call s s1 h op s2)
  from ci_call.IH ci_call.prems have "I s1" by blast
  with ci_call.hyps(2,3) show ?case using assms(3) by blast
next
  case (ci_env s s1 l)
  then show ?case using assms(4) by blast
qed

section \<open>Operations that leave the core of the circle alone\<close>

text \<open>
  The core of the storage: the circle and its members, and the entries \<open>contribute\<close> keeps. Most
  operations do not touch it.
\<close>

definition core_same :: "'l circle_state \<Rightarrow> 'l circle_state \<Rightarrow> bool" where
  "core_same s s' \<longleftrightarrow> ci_circle s' = ci_circle s \<and> ci_members s' = ci_members s
     \<and> ci_member_status s' = ci_member_status s \<and> ci_contributions s' = ci_contributions s
     \<and> ci_round_total s' = ci_round_total s \<and> ci_round_contributors s' = ci_round_contributors s
     \<and> ci_member_contributed s' = ci_member_contributed s \<and> ci_contribs s' = ci_contribs s"

lemma core_same_refl [simp]: "core_same s s"
  by (simp add: core_same_def)

lemma core_same_trans: "core_same s t \<Longrightarrow> core_same t u \<Longrightarrow> core_same s u"
  by (simp add: core_same_def)

lemma core_same_upd [simp]:
  "core_same s (s\<lparr>cb_ledger := l\<rparr>)" "core_same s (s\<lparr>cb_reent := r\<rparr>)" "core_same s (s\<lparr>cb_paused := p\<rparr>)"
  "core_same s (publish ev s)" "core_same s (guard_leave s)"
  by (simp_all add: core_same_def guard_leave_def)

lemma core_same_left [simp]:
  "core_same (s\<lparr>cb_reent := r\<rparr>) t = core_same s t"
  by (simp add: core_same_def)

fun touches_core :: "circle_op \<Rightarrow> bool" where
  "touches_core (CiJoin m) = True"
| "touches_core (CiContribute m a r) = True"
| "touches_core CiCheckDeadline = True"
| "touches_core (CiTriggerPayout c r) = True"
| "touches_core (CiExit m) = True"
| "touches_core (CiCancelCircle c) = True"
| "touches_core (CiReportLate u m r) = True"
| "touches_core (CiRaiseDispute m e) = True"
| "touches_core (CiResolveDispute a r) = True"
| "touches_core (CiBatchInvite c ms) = True"
| "touches_core (CiBatchPayout c rs as r) = True"
| "touches_core (CiSetToken a t) = True"
| "touches_core _ = False"

lemma token_transfer_core: "token_transfer T t a b x s = Inr s' \<Longrightarrow> core_same s s'"
  by (auto simp: res_simps)

lemma maybe_transfer_core:
  "(if c then token_transfer T t a b x s else Inr s) = Inr s' \<Longrightarrow> core_same s s'"
  by (auto simp: res_simps split: if_splits)

lemma core_same_after_publish: "core_same (publish ev s) t \<longleftrightarrow> core_same s t"
  by (simp add: core_same_def)

lemma refund_loop_core:
  "refund_loop E h circle round winner cap bids kept refunded remaining s = Inr (k, r, s') \<Longrightarrow> core_same s s'"
proof (induction bids arbitrary: kept refunded remaining s)
  case Nil
  then show ?case by simp
next
  case (Cons b bs)
  show ?case
  proof (cases "bd_round b = round \<and> bd_bidder b \<noteq> winner \<and> refunded < cap")
    case True
    with Cons.prems obtain s1 rf ev where
      "(if bd_deposit b > 0 then token_transfer (ce_token E) (cl_token circle) (cl_id circle)
          (bd_bidder b) (bd_deposit b) s else Inr s) = (Inr s1 :: (circle_error, _) res)"
      and "refund_loop E h circle round winner cap bs kept rf remaining (publish ev s1) = Inr (k, r, s')"
      by (clarsimp simp: bind_res_Inr Let_def)
    with Cons.IH maybe_transfer_core core_same_trans core_same_after_publish show ?thesis by blast
  next
    case False
    with Cons.prems show ?thesis
      by (auto simp: res_simps Let_def split: if_splits intro: Cons.IH)
  qed
qed

lemma refund_losing_bids_core:
  assumes "refund_losing_bids E h caller round limit s = Inr (n, s')"
  shows "core_same s s'"
proof -
  from assms obtain c w cap kept s1 where
    "refund_loop E h c round w cap (unwrap_or (ci_bids s) []) [] 0 0 s = Inr (kept, n, s1)"
    "s' = s1\<lparr>ci_bids := Some kept\<rparr>"
    by (auto simp: refund_losing_bids_def res_simps Let_def)
  then show ?thesis using refund_loop_core by (fastforce simp: core_same_def)
qed

lemma circle_bid_core:
  "circle_auction_bid E h b d r s = Inr s' \<Longrightarrow> core_same s s'"
  "init_dutch_auction h c r st fl de ex s = Inr s' \<Longrightarrow> core_same s s'"
  "dutch_auction_bid h b r s = Inr (n, s') \<Longrightarrow> core_same s s'"
  "vote_payout h u v r s = Inr s' \<Longrightarrow> core_same s s'"
  "schedule_payout h c r s = Inr s' \<Longrightarrow> core_same s s'"
  subgoal by (auto simp: circle_auction_bid_def res_simps Let_def core_same_def guard_leave_def split: if_splits)
  subgoal by (auto simp: init_dutch_auction_def res_simps Let_def core_same_def split: if_splits)
  subgoal by (auto simp: dutch_auction_bid_def res_simps Let_def core_same_def guard_leave_def split: if_splits)
  subgoal by (auto simp: vote_payout_def res_simps Let_def core_same_def guard_leave_def split: if_splits)
  subgoal by (auto simp: schedule_payout_def res_simps Let_def core_same_def guard_leave_def split: if_splits)
  done

lemma cancel_auction_core: "cancel_auction E h c s = Inr s' \<Longrightarrow> core_same s s'"
  by (cases "best_bid (cl_current_round (the (ci_circle s))) 0 None (unwrap_or (ci_bids s) [])")
    (auto simp: cancel_auction_def res_simps Let_def core_same_def guard_leave_def split: if_splits)

lemma withdraw_treasury_core: "withdraw_treasury E h c a s = Inr s' \<Longrightarrow> core_same s s'"
  by (auto simp: withdraw_treasury_def res_simps Let_def core_same_def guard_leave_def split: if_splits)

lemma claim_bonus_core: "claim_bonus E h a s = Inr s' \<Longrightarrow> core_same s s'"
  by (auto simp: claim_bonus_def res_simps Let_def core_same_def guard_leave_def split: option.splits)

lemma circle_pause_core:
  "pause_circle h a s = Inr s' \<Longrightarrow> core_same s s'" "unpause_circle h a s = Inr s' \<Longrightarrow> core_same s s'"
  by (auto simp: pause_circle_def unpause_circle_def common_pause_def common_unpause_def res_simps
      core_same_def split: if_splits)

lemma admin_only_Inr [res_simps]:
  "admin_only h a s k = Inr s' \<longleftrightarrow>
     \<not> is_paused s \<and> ci_admin s = Some a \<and> authorized h a \<and> k = Inr s'"
  by (auto simp: admin_only_def res_simps)

lemma circle_setter_core:
  "register_referral h a b p s = Inr s' \<Longrightarrow> core_same s s'"
  "update_streak h m r s = Inr s' \<Longrightarrow> core_same s s'"
  "set_reputation_registry h a x s = Inr s' \<Longrightarrow> core_same s s'"
  "set_treasury h a x s = Inr s' \<Longrightarrow> core_same s s'"
  "set_fee_bps h a r s = Inr s' \<Longrightarrow> core_same s s'"
  "set_allowlist h a l s = Inr s' \<Longrightarrow> core_same s s'"
  "set_oracle h a x s = Inr s' \<Longrightarrow> core_same s s'"
  "set_fallback_oracle h a x s = Inr s' \<Longrightarrow> core_same s s'"
  "configure_from_factory h a x y r s = Inr s' \<Longrightarrow> core_same s s'"
  by (auto simp: register_referral_def update_streak_def update_streak_internal_def
      set_reputation_registry_def set_treasury_def set_fee_bps_def set_allowlist_def set_oracle_def
      set_fallback_oracle_def configure_from_factory_def set_primary_oracle_def
      store_fallback_oracle_def res_simps Let_def core_same_def)

lemmas circle_side_core_facts = circle_bid_core refund_losing_bids_core cancel_auction_core
  withdraw_treasury_core claim_bonus_core circle_pause_core circle_setter_core

lemma circle_side_core:
  assumes "ci_exec E h op s = Inr s'" "\<not> touches_core op"
  shows "core_same s s'"
  using assms
  by (cases op) (auto simp: bind_res_Inr claim_referral_bonus_def claim_streak_bonus_def
      dest: circle_side_core_facts)

section \<open>What the core operations do to the circle and its members\<close>

text \<open>
  \<open>same_people\<close>: the same addresses at the same positions, and for each member the total it had or none
  (\<open>kept_total\<close>). \<open>circle_keeps\<close>: what the terms and the
  progress of a circle have in common when no round is settled and nobody joins.
\<close>

definition kept_total :: "circle_member \<Rightarrow> circle_member \<Rightarrow> bool" where
  "kept_total m m' \<longleftrightarrow> mb_total_contributions m' = 0 \<or> mb_total_contributions m' = mb_total_contributions m"

definition same_people :: "circle_member list \<Rightarrow> circle_member list \<Rightarrow> bool" where
  "same_people ms ms' \<longleftrightarrow> map mb_address ms' = map mb_address ms \<and> map mb_position ms' = map mb_position ms
     \<and> list_all2 kept_total ms ms'"

lemma kept_totalI [simp]:
  "mb_total_contributions m' = mb_total_contributions m \<Longrightarrow> kept_total m m'"
  "mb_total_contributions m' = 0 \<Longrightarrow> kept_total m m'"
  by (simp_all add: kept_total_def)

lemma same_people_refl [simp]: "same_people ms ms"
  by (simp add: same_people_def list_all2_refl)

lemma same_people_trans:
  assumes "same_people a b" "same_people b c"
  shows "same_people a c"
proof -
  have "list_all2 kept_total a c"
    by (rule list_all2_trans [of kept_total kept_total kept_total a b])
      (use assms in \<open>auto simp: same_people_def kept_total_def\<close>)
  with assms show ?thesis by (simp add: same_people_def)
qed

lemma same_people_totals:
  assumes "same_people ms ms'" "\<forall>m\<in>set ms. mb_total_contributions m = 0"
  shows "\<forall>m\<in>set ms'. mb_total_contributions m = 0"
proof -
  from assms(1) have "list_all2 kept_total ms ms'" by (simp add: same_people_def)
  then show ?thesis using assms(2) by (induction rule: list_all2_induct) (auto simp: kept_total_def)
qed

lemma same_people_Cons [simp]:
  "same_people (m # ms) (m' # ms') \<longleftrightarrow>
     mb_address m' = mb_address m \<and> mb_position m' = mb_position m \<and> kept_total m m' \<and> same_people ms ms'"
  by (auto simp: same_people_def)

lemma same_people_length: "same_people ms ms' \<Longrightarrow> length ms' = length ms"
  unfolding same_people_def by (metis length_map)

lemma same_people_Nil [simp]: "same_people [] ms \<longleftrightarrow> ms = []" "same_people ms [] \<longleftrightarrow> ms = []"
  by (auto simp: same_people_def)

lemma same_people_find:
  assumes "same_people ms ms'" "find_member a ms' = Some m'"
  shows "\<exists>m. find_member a ms = Some m \<and> mb_position m = mb_position m'"
  using assms
proof (induction ms arbitrary: ms')
  case Nil
  then show ?case by (simp add: find_member_def)
next
  case (Cons m ms)
  then obtain n ns where ms': "ms' = n # ns" by (cases ms') (auto simp: same_people_def)
  with Cons show ?case by (auto simp: find_member_def)
qed

lemma strike_member_frame:
  assumes "strike_member h c round m s = (m', s')"
  shows "mb_address m' = mb_address m \<and> mb_position m' = mb_position m
    \<and> mb_total_contributions m' = mb_total_contributions m \<and> ci_circle s' = ci_circle s \<and> ci_members s' = ci_members s
    \<and> cb_ledger s' = cb_ledger s \<and> cb_reent s' = cb_reent s"
  using assms
  by (auto simp: strike_member_def Let_def record_round_strike_def rep_call_def split: if_splits)

lemma strike_loop_frame:
  assumes "strike_loop h c round contributors ms s = (ms', ch, s')"
  shows "same_people ms ms' \<and> ci_circle s' = ci_circle s \<and> ci_members s' = ci_members s
    \<and> cb_ledger s' = cb_ledger s \<and> cb_reent s' = cb_reent s"
  using assms
proof (induction ms arbitrary: ms' ch s)
  case Nil
  then show ?case by simp
next
  case (Cons m ms)
  show ?case
  proof (cases "mb_status m \<noteq> MEMBER_ACTIVE \<or> contributed_in contributors (mb_address m)")
    case True
    with Cons.prems obtain ns where "strike_loop h c round contributors ms s = (ns, ch, s')"
      "ms' = m # ns" by (auto split: prod.splits)
    with Cons.IH show ?thesis by fastforce
  next
    case False
    with Cons.prems obtain m1 s1 ns ch1 where "strike_member h c round m s = (m1, s1)"
      "strike_loop h c round contributors ms s1 = (ns, ch1, s')" "ms' = m1 # ns"
      by (auto split: prod.splits)
    with Cons.IH [of s1 ns ch1] strike_member_frame [of h c round m s m1 s1] show ?thesis by auto
  qed
qed

lemma strike_non_contributors_frame:
  assumes "ci_members s = Some ms"
  shows "\<exists>ms'. ci_members (strike_non_contributors h c round contributors ms s) = Some ms'
    \<and> same_people ms ms'
    \<and> ci_circle (strike_non_contributors h c round contributors ms s) = ci_circle s
    \<and> cb_ledger (strike_non_contributors h c round contributors ms s) = cb_ledger s"
proof -
  obtain ms' ch s' where l: "strike_loop h c round contributors ms s = (ms', ch, s')"
    by (cases "strike_loop h c round contributors ms s")
  from strike_loop_frame [OF l] assms show ?thesis
    unfolding strike_non_contributors_def l by (cases ch) auto
qed

lemma credit_members_same:
  "credit_members a x ms = Inr ms' \<Longrightarrow> same_people ms ms' \<and> map mb_status ms' = map mb_status ms"
proof (induction ms arbitrary: ms')
  case Nil
  then show ?case by simp
next
  case (Cons m ms)
  then show ?case by (fastforce simp: res_simps split: if_splits)
qed

lemma credit_first_same:
  "credit_first a x ms = Inr ms' \<Longrightarrow> same_people ms ms'"
proof (induction ms arbitrary: ms')
  case Nil
  then show ?case by simp
next
  case (Cons m ms)
  then show ?case by (fastforce simp: res_simps split: if_splits)
qed

lemma penalize_loop_same: "same_people ms (penalize_loop a ms)"
  by (induction ms) auto

lemma exit_loop_same: "exit_loop h a cs ms pen = Inr (ms', pen') \<Longrightarrow> same_people ms ms'"
proof (induction ms arbitrary: ms' pen)
  case Nil
  then show ?case by simp
next
  case (Cons m ms)
  then show ?case by (fastforce simp: res_simps split: if_splits)
qed

lemma report_loop_frame:
  "report_loop h c round a ms s = Inr (ms', s') \<Longrightarrow> same_people ms ms' \<and> ci_circle s' = ci_circle s"
proof (induction ms arbitrary: ms' s)
  case Nil
  then show ?case by simp
next
  case (Cons m ms)
  show ?case
  proof (cases "mb_address m = a")
    case False
    with Cons.prems obtain ns where "report_loop h c round a ms s = Inr (ns, s')" "ms' = m # ns"
      by (auto simp: res_simps)
    with Cons.IH show ?thesis by fastforce
  next
    case True
    with Cons.prems obtain m1 s1 ns where "report_loop h c round a ms s1 = Inr (ns, s')"
      "ms' = m1 # ns" "mb_address m1 = mb_address m" "mb_position m1 = mb_position m"
      "mb_total_contributions m1 = mb_total_contributions m" "ci_circle s1 = ci_circle s"
      by (auto simp: res_simps Let_def record_round_strike_def rep_call_def split: if_splits)
    with Cons.IH [of s1 ns] show ?thesis by auto
  qed
qed

lemma refund_loop_members_frame:
  "refund_loop_members E h t ms s = Inr (ms', s') \<Longrightarrow> same_people ms ms' \<and> ci_circle s' = ci_circle s"
proof (induction ms arbitrary: ms' s)
  case Nil
  then show ?case by simp
next
  case (Cons m ms)
  then show ?case by (fastforce simp: res_simps split: if_splits)
qed

lemma refund_collateral_core:
  "refund_collateral E c ms s = Inr s' \<Longrightarrow> core_same s s'"
proof (induction ms arbitrary: s)
  case Nil
  then show ?case by simp
next
  case (Cons m ms)
  show ?case
  proof (cases "mb_status m = MEMBER_ACTIVE")
    case True
    with Cons.prems obtain s1 where "token_transfer (ce_token E) (cl_token c) (cl_id c) (mb_address m)
        (cl_collateral_amount c) s = (Inr s1 :: (circle_error, _) res)" "refund_collateral E c ms s1 = Inr s'"
      by (auto simp: bind_res_Inr)
    with Cons.IH token_transfer_core core_same_trans show ?thesis by blast
  next
    case False
    with Cons show ?thesis by simp
  qed
qed

lemma score_completions_core: "core_same s (score_completions h ms s)"
proof (induction ms arbitrary: s)
  case Nil
  then show ?case by simp
next
  case (Cons m ms)
  let ?s = "if mb_status m = MEMBER_ACTIVE then rep_call (record_circle_completion h (mb_address m)) s else s"
  have "core_same s ?s" by (simp add: core_same_def rep_call_def)
  from core_same_trans [OF this Cons.IH [of ?s]] show ?case by simp
qed

end
