(* ===== verification/Circle_Rounds.thy ===== *)
theory Circle_Rounds
  imports Circle_Machine
begin

text \<open>
  The rounds of the savings circle: what a settled round changes, the invariant that ties the payout
  bitmap, the member list and the round counter together, and its preservation by every operation.
\<close>

section \<open>The effect of settling a round\<close>

definition round_settled :: "circle \<Rightarrow> addr \<Rightarrow> circle_member list \<Rightarrow> circle \<Rightarrow> bool" where
  "round_settled c r ms c' \<longleftrightarrow>
     cl_payout_bitmap c' = cl_payout_bitmap (mark_recipient r ms c)
     \<and> cl_current_round c' = Suc (cl_current_round c)
     \<and> cl_status c' = (if cl_total_rounds c \<le> Suc (cl_current_round c) then STATUS_COMPLETED else cl_status c)
     \<and> config_of c' = config_of c \<and> cl_member_count c' = cl_member_count c
     \<and> cl_started_at c' = cl_started_at c \<and> cl_created_at c' = cl_created_at c \<and> cl_id c' = cl_id c"

lemma mark_recipient_frame [simp]:
  "config_of (mark_recipient r ms c) = config_of c"
  "cl_current_round (mark_recipient r ms c) = cl_current_round c"
  "cl_total_rounds (mark_recipient r ms c) = cl_total_rounds c"
  "cl_status (mark_recipient r ms c) = cl_status c"
  "cl_member_count (mark_recipient r ms c) = cl_member_count c"
  "cl_started_at (mark_recipient r ms c) = cl_started_at c"
  "cl_created_at (mark_recipient r ms c) = cl_created_at c"
  "cl_id (mark_recipient r ms c) = cl_id c" "cl_token (mark_recipient r ms c) = cl_token c"
  "cl_total_payouts (mark_recipient r ms c) = cl_total_payouts c"
  "cl_total_fees (mark_recipient r ms c) = cl_total_fees c"
  "cl_collateral_amount (mark_recipient r ms c) = cl_collateral_amount c"
  by (simp_all add: mark_recipient_def config_of_def split: option.split)

lemma config_of_upd [simp]:
  "config_of (c\<lparr>cl_current_round := n\<rparr>) = config_of c" "config_of (c\<lparr>cl_status := n\<rparr>) = config_of c"
  "config_of (c\<lparr>cl_total_payouts := x\<rparr>) = config_of c" "config_of (c\<lparr>cl_total_fees := x\<rparr>) = config_of c"
  "config_of (c\<lparr>cl_health_score := n\<rparr>) = config_of c" "config_of (c\<lparr>cl_payout_bitmap := b\<rparr>) = config_of c"
  "config_of (c\<lparr>cl_member_count := n\<rparr>) = config_of c" "config_of (c\<lparr>cl_started_at := n\<rparr>) = config_of c"
  by (simp_all add: config_of_def)

lemma advance_round_frame:
  assumes "advance_round E c s = (c', s')"
  shows "core_same s s' \<and> c' = (if cl_total_rounds c \<le> cl_current_round c
      then c\<lparr>cl_status := STATUS_COMPLETED\<rparr> else c)
    \<and> cb_ledger s' = cb_ledger s"
  using assms by (auto simp: advance_round_def core_same_def split: if_splits)

lemma settle_empty_round_Inr:
  assumes "settle_empty_round E h c r pt round s = Inr s'" "ci_members s = Some ms"
  shows "\<exists>c'. ci_members s' = Some ms \<and> ci_circle s' = Some c' \<and> round_settled c r ms c'
    \<and> cb_ledger s' = cb_ledger s"
proof -
  let ?c = "mark_recipient r ms c"
  let ?s = "s\<lparr>ci_payouts := Some (unwrap_or (ci_payouts s) [] @ [payout_entry h r round 0 0 pt]),
    ci_members := Some ms\<rparr>"
  obtain c1 s1 where adv: "advance_round E (?c\<lparr>cl_current_round := Suc (cl_current_round c)\<rparr>) ?s = (c1, s1)"
    by (cases "advance_round E (?c\<lparr>cl_current_round := Suc (cl_current_round c)\<rparr>) ?s")
  from assms adv have s': "\<exists>ev ev' hs. s' = publish ev (publish ev' (s1\<lparr>ci_circle := Some (c1\<lparr>cl_health_score := hs\<rparr>)\<rparr>))"
    by (auto simp: settle_empty_round_def res_simps int_simps Let_def)
  from advance_round_frame [OF adv] have "core_same ?s s1" "cb_ledger s1 = cb_ledger s"
    and c1: "c1 = (if cl_total_rounds c \<le> Suc (cl_current_round c)
      then ?c\<lparr>cl_current_round := Suc (cl_current_round c), cl_status := STATUS_COMPLETED\<rparr>
      else ?c\<lparr>cl_current_round := Suc (cl_current_round c)\<rparr>)"
    by (auto split: if_splits)
  then show ?thesis using s' by (auto simp: core_same_def round_settled_def)
qed

lemma get_yield_rate_core: "get_yield_rate E h round s = Inr (y, s') \<Longrightarrow> core_same s s'"
  by (auto simp: get_yield_rate_def call_oracle_def core_same_def split: option.splits)

lemma share_loop_frame:
  "share_loop E h c round pt net tw mw as ms ps d s = Inr (ms', ps', d', s') \<Longrightarrow>
    same_people ms ms' \<and> map mb_status ms' = map mb_status ms \<and> core_same s s'"
proof (induction "as" arbitrary: ms ps d s)
  case Nil
  then show ?case by simp
next
  case (Cons a "as")
  show ?case
  proof (cases "share_loop E h c round pt net tw mw as ms ps d s = Inr (ms', ps', d', s')")
    case True
    with Cons.IH show ?thesis by blast
  next
    case False
    with Cons.prems obtain share s1 d1 ms1 ps1 where
      t: "token_transfer (ce_token E) (cl_token c) (cl_id c) a share s = (Inr s1 :: (circle_error, _) res)"
      and m: "credit_members a share ms = Inr ms1"
      and l: "share_loop E h c round pt net tw mw as ms1 ps1 d1 s1 = Inr (ms', ps', d', s')"
      by (auto simp: bind_res_Inr Let_def split: option.splits if_splits)
    from Cons.IH [OF l] token_transfer_core [OF t] credit_members_same [OF m]
    show ?thesis using same_people_trans core_same_trans by (metis (no_types))
  qed
qed

lemma pay_round_fee_core: "pay_round_fee E c round fee s = Inr s' \<Longrightarrow> core_same s s'"
  by (auto simp: pay_round_fee_def deposit_protocol_fee_def record_round_fee_def res_simps Let_def
      core_same_def split: if_splits option.splits)

lemma pay_dust_frame:
  assumes "pay_dust E h c round pt net r ms ps d s = Inr (ms', ps', d', s')"
  shows "same_people ms ms' \<and> map mb_status ms' = map mb_status ms \<and> core_same s s'"
  using assms credit_members_same [of r "net - d" ms ms']
  by (auto simp: pay_dust_def res_simps core_same_def split: if_splits)

lemma complete_circle_core: "complete_circle E h c ms s = Inr s' \<Longrightarrow> core_same s s'"
proof -
  assume a: "complete_circle E h c ms s = Inr s'"
  let ?s = "publish (Event ''complete'' [AddrV (self h)] [IntV (cl_total_payouts c)]) s"
  from a obtain s1 fm where
    r: "(if cl_collateral_amount c > 0 then refund_collateral E c ms ?s else Inr ?s) = Inr s1"
    and s': "s' = score_completions h fm s1"
    by (clarsimp simp: complete_circle_def bind_res_Inr Let_def)
  from r have "core_same ?s s1" by (auto split: if_splits dest: refund_collateral_core)
  then have "core_same s s1" by (simp add: core_same_after_publish)
  from core_same_trans [OF this score_completions_core] s' show ?thesis by simp
qed

text \<open>The pieces a successful settlement goes through.\<close>

lemma settle_round_pieces:
  assumes "settle_round E h c r pt round net fee s = Inr s'" "ci_members s = Some ms"
  obtains y s0 tw mw ms1 ps1 d1 s1 s2 ms2 ps2 d2 s3 tp tf c4 s4 ev ev' where
    "get_yield_rate E h round s = Inr (y, s0)"
    "weigh_contributions (now h) round (unwrap_or (ci_contributions s) []) 0 Map.empty = (tw, mw)"
    "(if pt = PAYOUT_RANDOM
      then share_loop E h (mark_recipient r ms c) round pt net tw mw (map mb_address ms) ms
        (unwrap_or (ci_payouts s0) [] @ [payout_entry h r round net fee pt]) 0 s0
      else Inr (ms, unwrap_or (ci_payouts s0) [] @ [payout_entry h r round net fee pt], 0, s0))
      = (Inr (ms1, ps1, d1, s1) :: (circle_error, _) res)"
    "pay_round_fee E (mark_recipient r ms c) round fee s1 = Inr s2"
    "pay_dust E h (mark_recipient r ms c) round pt net r ms1 ps1 d1 s2 = Inr (ms2, ps2, d2, s3)"
    "tp = cl_total_payouts c + d2" "in_i128 tp" "tf = cl_total_fees c + fee" "in_i128 tf"
    "cl_current_round c + 1 < 2 ^ 32"
    "advance_round E ((mark_recipient r ms c)\<lparr>cl_current_round := Suc (cl_current_round c),
       cl_total_payouts := tp, cl_total_fees := tf\<rparr>) s3 = (c4, s4)"
    "s' = publish ev (publish ev' (s4\<lparr>ci_circle := Some (c4\<lparr>cl_health_score :=
        hs_score (calculate_health_score ms2 (unwrap_or (ci_contributions s) []))\<rparr>),
        ci_payouts := Some ps2, ci_members := Some ms2\<rparr>)) \<and> cl_status c4 \<noteq> STATUS_COMPLETED
     \<or> complete_circle E h (c4\<lparr>cl_health_score :=
        hs_score (calculate_health_score ms2 (unwrap_or (ci_contributions s) []))\<rparr>) ms2
       (publish ev (publish ev' (s4\<lparr>ci_circle := Some (c4\<lparr>cl_health_score :=
        hs_score (calculate_health_score ms2 (unwrap_or (ci_contributions s) []))\<rparr>),
        ci_payouts := Some ps2, ci_members := Some ms2\<rparr>))) = Inr s' \<and> cl_status c4 = STATUS_COMPLETED"
proof -
  from assms(1) obtain y s0 where y: "get_yield_rate E h round s = Inr (y, s0)"
    by (auto simp: settle_round_def bind_res_Inr)
  from get_yield_rate_core [OF y] have c0: "ci_contributions s0 = ci_contributions s" "ci_members s0 = Some ms"
    using assms(2) by (simp_all add: core_same_def)
  obtain tw mw where w: "weigh_contributions (now h) round (unwrap_or (ci_contributions s) []) 0 Map.empty
      = (tw, mw)" by (cases "weigh_contributions (now h) round (unwrap_or (ci_contributions s) []) 0 Map.empty")
  let ?c = "mark_recipient r ms c"
  let ?ps = "unwrap_or (ci_payouts s0) [] @ [payout_entry h r round net fee pt]"
  from assms(1) obtain ms1 ps1 d1 s1 where
    sh: "(if pt = PAYOUT_RANDOM
      then share_loop E h ?c round pt net tw mw (map mb_address ms) ms ?ps 0 s0
      else Inr (ms, ?ps, 0, s0)) = (Inr (ms1, ps1, d1, s1) :: (circle_error, _) res)"
    by (auto simp: settle_round_def bind_res_Inr y w c0 Let_def)
  from assms(1) obtain s2 where fe: "pay_round_fee E ?c round fee s1 = Inr s2"
    unfolding settle_round_def y w c0 Let_def bind_res_simps prod.case ok_or_simps sh
    by (auto simp: bind_res_Inr)
  from assms(1) obtain ms2 ps2 d2 s3 where
    du: "pay_dust E h ?c round pt net r ms1 ps1 d1 s2 = Inr (ms2, ps2, d2, s3)"
    unfolding settle_round_def y w c0 Let_def bind_res_simps prod.case ok_or_simps sh fe
    by (auto simp: bind_res_Inr)
  let ?tp = "cl_total_payouts c + d2" and ?tf = "cl_total_fees c + fee"
  obtain c4 s4 where adv: "advance_round E (?c\<lparr>cl_current_round := Suc (cl_current_round c),
       cl_total_payouts := ?tp, cl_total_fees := ?tf\<rparr>) s3 = (c4, s4)"
    by (cases "advance_round E (?c\<lparr>cl_current_round := Suc (cl_current_round c),
       cl_total_payouts := ?tp, cl_total_fees := ?tf\<rparr>) s3")
  from assms(1) have rng: "in_i128 ?tp" "in_i128 ?tf" "cl_current_round c + 1 < 2 ^ 32"
    unfolding settle_round_def y w c0 Let_def bind_res_simps prod.case ok_or_simps sh fe du
    by (auto simp: res_simps int_simps)
  then have oks: "ok_or (u_checked_add 32 (cl_current_round ?c) 1) InvalidAmount = Inr (Suc (cl_current_round c))"
    "add_or_invalid (cl_total_payouts ?c) d2 = Inr ?tp" "add_or_invalid (cl_total_fees ?c) fee = Inr ?tf"
    by (simp_all add: res_simps int_simps)
  from assms(1) show ?thesis
    unfolding settle_round_def y w c0 Let_def bind_res_simps prod.case ok_or_simps sh fe du oks adv
    by (intro that [OF y w sh fe du refl rng(1) refl rng(2) rng(3) adv]) (auto split: if_splits)
qed

lemma settle_round_Inr:
  assumes "settle_round E h c r pt round net fee s = Inr s'" "ci_members s = Some ms"
  shows "\<exists>ms' c'. ci_members s' = Some ms' \<and> same_people ms ms' \<and> map mb_status ms' = map mb_status ms
    \<and> ci_circle s' = Some c' \<and> round_settled c r ms c'"
proof (rule settle_round_pieces [OF assms])
  fix y s0 tw mw ms1 ps1 d1 s1 s2 ms2 ps2 d2 s3 tp tf c4 s4 ev ev'
  assume sh: "(if pt = PAYOUT_RANDOM
      then share_loop E h (mark_recipient r ms c) round pt net tw mw (map mb_address ms) ms
        (unwrap_or (ci_payouts s0) [] @ [payout_entry h r round net fee pt]) 0 s0
      else Inr (ms, unwrap_or (ci_payouts s0) [] @ [payout_entry h r round net fee pt], 0, s0))
      = (Inr (ms1, ps1, d1, s1) :: (circle_error, _) res)"
    and du: "pay_dust E h (mark_recipient r ms c) round pt net r ms1 ps1 d1 s2 = Inr (ms2, ps2, d2, s3)"
    and adv: "advance_round E ((mark_recipient r ms c)\<lparr>cl_current_round := Suc (cl_current_round c),
       cl_total_payouts := tp, cl_total_fees := tf\<rparr>) s3 = (c4, s4)"
    and fin: "s' = publish ev (publish ev' (s4\<lparr>ci_circle := Some (c4\<lparr>cl_health_score :=
        hs_score (calculate_health_score ms2 (unwrap_or (ci_contributions s) []))\<rparr>),
        ci_payouts := Some ps2, ci_members := Some ms2\<rparr>)) \<and> cl_status c4 \<noteq> STATUS_COMPLETED
     \<or> complete_circle E h (c4\<lparr>cl_health_score :=
        hs_score (calculate_health_score ms2 (unwrap_or (ci_contributions s) []))\<rparr>) ms2
       (publish ev (publish ev' (s4\<lparr>ci_circle := Some (c4\<lparr>cl_health_score :=
        hs_score (calculate_health_score ms2 (unwrap_or (ci_contributions s) []))\<rparr>),
        ci_payouts := Some ps2, ci_members := Some ms2\<rparr>))) = Inr s' \<and> cl_status c4 = STATUS_COMPLETED"
  from sh have m1: "same_people ms ms1 \<and> map mb_status ms1 = map mb_status ms"
    using share_loop_frame by (fastforce split: if_splits)
  from pay_dust_frame [OF du] m1 have m2: "same_people ms ms2 \<and> map mb_status ms2 = map mb_status ms"
    using same_people_trans by metis
  let ?c4 = "c4\<lparr>cl_health_score := hs_score (calculate_health_score ms2 (unwrap_or (ci_contributions s) []))\<rparr>"
  from fin have "ci_members s' = Some ms2 \<and> ci_circle s' = Some ?c4"
    by (auto simp: core_same_def dest!: complete_circle_core)
  moreover from advance_round_frame [OF adv] have "round_settled c r ms ?c4"
    by (auto simp: round_settled_def)
  ultimately show ?thesis using m2 by blast
qed

lemma resolve_recipient_Inr:
  assumes "resolve_recipient E c round s = Inr ((r, pt), s')"
  shows "core_same s s' \<and> pt = cl_payout_type c \<and> pt \<le> 3
    \<and> (\<exists>ms. ci_members s = Some ms \<and> active_unpaid c ms r)"
proof -
  have vrf: "vrf_frame s s1 \<Longrightarrow> core_same s s1" for s1
    by (cases s; cases s1; simp add: vrf_frame_def core_same_def)
  consider "cl_payout_type c = PAYOUT_RANDOM" | "cl_payout_type c = PAYOUT_FIXED"
    | "cl_payout_type c = PAYOUT_AUCTION" | "cl_payout_type c = PAYOUT_VOTE"
    using assms by (auto simp: resolve_recipient_def split: if_splits)
  then show ?thesis
  proof cases
    case 1
    with assms have "resolve_random E c round s = Inr (r, s')" "pt = cl_payout_type c"
      by (auto simp: resolve_recipient_def res_simps)
    with resolve_random_Inr vrf 1 show ?thesis by (metis PAYOUT_RANDOM_def zero_le)
  next
    case 2
    with assms have "resolve_fixed c round s = Inr r" "s' = s" "pt = cl_payout_type c"
      by (auto simp: resolve_recipient_def res_simps)
    with resolve_fixed_Inr 2 show ?thesis by fastforce
  next
    case 3
    with assms obtain bips where ra: "resolve_auction c round s = Inr (r, bips)"
      and s': "s' = s\<lparr>ci_auction_winner := (ci_auction_winner s)(round \<mapsto> r)\<rparr>" "pt = cl_payout_type c"
      by (auto simp: resolve_recipient_def bind_res_Inr)
    from ra obtain ms m where "ci_members s = Some ms" "find_member r ms = Some m"
      "mb_status m = MEMBER_ACTIVE" "\<not> position_paid (cl_payout_bitmap c) (mb_position m)"
      unfolding resolve_auction_Inr by blast
    with found_member_active s' 3 show ?thesis by (fastforce simp: core_same_def)
  next
    case 4
    with assms have "resolve_vote c round s = Inr r" "s' = s" "pt = cl_payout_type c"
      by (auto simp: resolve_recipient_def res_simps)
    with resolve_vote_active 4 show ?thesis by fastforce
  qed
qed

lemma active_members_awaiting_zero:
  "active_members_awaiting ms cs = 0 \<longleftrightarrow>
     (\<forall>m\<in>set ms. mb_status m = MEMBER_ACTIVE \<longrightarrow> mb_address m \<in> set cs)"
proof -
  have "fold (\<lambda>m k. if mb_status m = MEMBER_ACTIVE \<and> \<not> contributed_in cs (mb_address m)
          then u_saturating_add 32 k 1 else k) ms n = 0
        \<longleftrightarrow> n = 0 \<and> (\<forall>m\<in>set ms. mb_status m = MEMBER_ACTIVE \<longrightarrow> mb_address m \<in> set cs)" for n
  proof (induction ms arbitrary: n)
    case Nil
    then show ?case by simp
  next
    case (Cons m ms)
    then show ?case by (auto simp: contributed_in_def u_saturating_add_def)
  qed
  from this [of 0] show ?thesis by (simp add: active_members_awaiting_def)
qed

text \<open>What a settled round means for the state, whatever the payout type.\<close>

lemma trigger_payout_internal_Inr:
  assumes "trigger_payout_internal E h round s = Inr s'"
  shows "\<exists>c ms r ms' c'. ci_circle s = Some c \<and> ci_members s = Some ms \<and> cl_status c = STATUS_ACTIVE
    \<and> round = cl_current_round c \<and> active_unpaid c ms r
    \<and> (contribution_window_closed h c
       \<or> (\<forall>m\<in>set ms. mb_status m = MEMBER_ACTIVE \<longrightarrow> mb_address m \<in> set (round_contributors s round)))
    \<and> (cl_min_duration_seconds c = 0 \<or> cl_min_duration_seconds c \<le> now h - cl_created_at c)
    \<and> ci_members s' = Some ms' \<and> same_people ms ms' \<and> map mb_status ms' = map mb_status ms
    \<and> ci_circle s' = Some c' \<and> round_settled c r ms c'"
proof -
  from assms obtain c r pt s1 ms net fee where c: "ci_circle s = Some c" "cl_status c = STATUS_ACTIVE"
      "round = cl_current_round c" "cl_min_duration_seconds c = 0 \<or> cl_min_duration_seconds c \<le> now h - cl_created_at c"
    and r: "resolve_recipient E c round s = Inr ((r, pt), s1)"
    and ms1: "ci_members s1 = Some ms"
    and own: "contribution_window_closed h c \<or> active_members_awaiting ms (round_contributors s1 round) = 0"
    and fin: "if net \<le> 0 then settle_empty_round E h c r pt round s1 = Inr s'
      else settle_round E h c r pt round net fee s1 = Inr s'"
    by (fastforce simp: trigger_payout_internal_def res_simps Let_def split: if_splits)
  from resolve_recipient_Inr [OF r] have core: "core_same s s1"
    and un: "\<exists>ms. ci_members s = Some ms \<and> active_unpaid c ms r" by blast+
  from core ms1 have ms: "ci_members s = Some ms" by (simp add: core_same_def)
  from core have cont: "round_contributors s1 round = round_contributors s round"
    unfolding core_same_def round_contributors_def by presburger
  from un ms have un: "active_unpaid c ms r" by simp
  have "\<exists>ms' c'. ci_members s' = Some ms' \<and> same_people ms ms' \<and> map mb_status ms' = map mb_status ms
    \<and> ci_circle s' = Some c' \<and> round_settled c r ms c'"
  proof (cases "net \<le> 0")
    case True
    with fin settle_empty_round_Inr [OF _ ms1] show ?thesis by fastforce
  next
    case False
    with fin settle_round_Inr [OF _ ms1] show ?thesis by (meson order_refl)
  qed
  with c ms un own show ?thesis unfolding active_members_awaiting_zero cont by blast
qed

section \<open>The invariant\<close>

definition paid_positions :: "circle \<Rightarrow> nat set" where
  "paid_positions c = {p. bit (cl_payout_bitmap c) p}"

definition circle_ok :: "circle \<Rightarrow> circle_member list \<Rightarrow> bool" where
  "circle_ok c ms \<longleftrightarrow>
     distinct (map mb_address ms) \<and> map mb_position ms = [0..<length ms]
     \<and> (\<forall>m\<in>set ms. mb_total_contributions m = 0)
     \<and> cl_member_count c = length ms \<and> length ms \<le> cl_max_members c
     \<and> 2 \<le> cl_max_members c \<and> cl_max_members c \<le> MAX_CIRCLE_MEMBERS
     \<and> paid_positions c \<subseteq> {..<length ms} \<and> cl_current_round c \<le> card (paid_positions c)
     \<and> (cl_status c = STATUS_COMPLETED \<longrightarrow> cl_total_rounds c \<le> cl_current_round c)"

definition mem_inv :: "'l circle_state \<Rightarrow> bool" where
  "mem_inv s \<longleftrightarrow> (\<forall>c. ci_circle s = Some c \<longrightarrow> (\<exists>ms. ci_members s = Some ms \<and> circle_ok c ms))"

definition circle_agrees :: "circle \<Rightarrow> circle \<Rightarrow> bool" where
  "circle_agrees c c' \<longleftrightarrow> cl_member_count c' = cl_member_count c \<and> cl_max_members c' = cl_max_members c
     \<and> cl_payout_bitmap c' = cl_payout_bitmap c \<and> cl_current_round c' = cl_current_round c
     \<and> cl_total_rounds c' = cl_total_rounds c
     \<and> (cl_status c' = STATUS_COMPLETED \<longrightarrow> cl_status c = STATUS_COMPLETED)"

lemma mem_inv_cong: "ci_circle s' = ci_circle s \<Longrightarrow> ci_members s' = ci_members s \<Longrightarrow> mem_inv s' \<longleftrightarrow> mem_inv s"
  by (simp add: mem_inv_def)

lemma core_same_mem_inv: "core_same s s' \<Longrightarrow> mem_inv s' \<longleftrightarrow> mem_inv s"
  unfolding core_same_def mem_inv_def by simp

lemma circle_okD:
  assumes "circle_ok c ms"
  shows "distinct (map mb_address ms)" "map mb_position ms = [0..<length ms]"
    "cl_member_count c = length ms" "length ms \<le> cl_max_members c" "2 \<le> cl_max_members c"
    "cl_max_members c \<le> 100" "paid_positions c \<subseteq> {..<length ms}"
    "cl_current_round c \<le> card (paid_positions c)"
    "cl_status c = STATUS_COMPLETED \<Longrightarrow> cl_total_rounds c \<le> cl_current_round c"
    "\<forall>m\<in>set ms. mb_total_contributions m = 0"
  using assms unfolding circle_ok_def by simp_all

lemma circle_ok_agrees:
  assumes "circle_ok c ms" "circle_agrees c c'" "same_people ms ms'"
  shows "circle_ok c' ms'"
proof -
  have "paid_positions c' = paid_positions c"
    using assms(2) by (simp add: circle_agrees_def paid_positions_def)
  moreover have "length ms' = length ms" by (rule same_people_length [OF assms(3)])
  moreover have "map mb_address ms' = map mb_address ms" "map mb_position ms' = map mb_position ms"
    using assms(3) by (simp_all add: same_people_def)
  moreover have "\<forall>m\<in>set ms'. mb_total_contributions m = 0"
    by (rule same_people_totals [OF assms(3) circle_okD(10) [OF assms(1)]])
  ultimately show ?thesis
    using assms(1,2) unfolding circle_ok_def circle_agrees_def by metis
qed

lemma circle_ok_same_people:
  assumes "circle_ok c ms" "same_people ms ms'"
  shows "circle_ok c ms'"
  by (rule circle_ok_agrees [OF assms(1) _ assms(2)]) (simp add: circle_agrees_def)

lemma circle_ok_find_position:
  assumes "circle_ok c ms" "find_member a ms = Some m"
  shows "mb_position m < length ms \<and> mb_position m < 128"
proof -
  note ok = circle_okD [OF assms(1)]
  from find_member_Some [OF assms(2)] have "mb_position m \<in> set (map mb_position ms)" by simp
  then have "mb_position m < length ms" unfolding ok(2) by simp
  with ok(4,6) show ?thesis by linarith
qed

text \<open>With distinct addresses the active unpaid member with an address is the first one with it.\<close>

lemma active_unpaid_find:
  assumes "distinct (map mb_address ms)" "active_unpaid c ms a"
  shows "\<exists>m. find_member a ms = Some m \<and> mb_status m = MEMBER_ACTIVE
    \<and> \<not> position_paid (cl_payout_bitmap c) (mb_position m)"
proof -
  from assms(2) obtain m where m: "m \<in> set ms" "mb_address m = a" "mb_status m = MEMBER_ACTIVE"
    "\<not> position_paid (cl_payout_bitmap c) (mb_position m)" unfolding active_unpaid_def by blast
  have "find_member a ms \<noteq> None"
    using m(1,2) unfolding find_member_def find_None_iff by blast
  then obtain m' where f: "find_member a ms = Some m'" by blast
  from assms(1) have inj: "inj_on mb_address (set ms)" by (simp add: distinct_map)
  from find_member_Some [OF f] m(1,2) have "m' = m" by (intro inj_onD [OF inj]) simp_all
  with f m show ?thesis by blast
qed

lemma paid_positions_mark:
  assumes "p < 128"
  shows "paid_positions (c\<lparr>cl_payout_bitmap := mark_paid p (cl_payout_bitmap c)\<rparr>) = insert p (paid_positions c)"
  using assms
  by (auto simp: paid_positions_def mark_paid_def bit_or_iff bit_exp_iff)

lemma finite_paid_positions: "circle_ok c ms \<Longrightarrow> finite (paid_positions c)"
  using circle_okD(7) finite_subset by blast

lemma circle_ok_settled:
  assumes "circle_ok c ms" "active_unpaid c ms r" "round_settled c r ms c'" "same_people ms ms'"
    and "cl_status c = STATUS_ACTIVE"
  shows "circle_ok c' ms'"
proof -
  note ok = circle_okD [OF assms(1)]
  from active_unpaid_find [OF ok(1) assms(2)] obtain m where m: "find_member r ms = Some m"
    and un: "\<not> position_paid (cl_payout_bitmap c) (mb_position m)" by blast
  from circle_ok_find_position [OF assms(1) m] have p: "mb_position m < length ms" "mb_position m < 128"
    by simp_all
  let ?c = "c\<lparr>cl_payout_bitmap := mark_paid (mb_position m) (cl_payout_bitmap c)\<rparr>"
  from assms(3) m have "paid_positions c' = paid_positions ?c"
    by (simp add: round_settled_def mark_recipient_def paid_positions_def)
  with paid_positions_mark [OF p(2)] have pp: "paid_positions c' = insert (mb_position m) (paid_positions c)"
    by simp
  from un p(2) have "mb_position m \<notin> paid_positions c"
    by (simp add: position_paid_bit paid_positions_def)
  with finite_paid_positions [OF assms(1)] have card: "card (paid_positions c') = Suc (card (paid_positions c))"
    by (simp add: pp)
  have same: "cl_max_members c' = cl_max_members c" "cl_total_rounds c' = cl_total_rounds c"
    "cl_member_count c' = cl_member_count c"
    using assms(3) by (simp_all add: round_settled_def config_of_def)
  show ?thesis
    unfolding circle_ok_def same_people_length [OF assms(4)] same pp [symmetric] card
    using ok(1-9) same_people_totals [OF assms(4) ok(10)] p(1) assms(3,4,5) pp card
    by (auto simp: same_people_def round_settled_def)
qed

lemma circle_ok_joined:
  assumes "circle_ok c ms" "\<forall>m\<in>set ms. mb_address m \<noteq> a" "length ms < cl_max_members c"
    and "cl_member_count c' = Suc (length ms)" "cl_max_members c' = cl_max_members c"
    "cl_payout_bitmap c' = cl_payout_bitmap c" "cl_current_round c' = cl_current_round c"
    "cl_total_rounds c' = cl_total_rounds c"
    "cl_status c' = STATUS_COMPLETED \<longrightarrow> cl_status c = STATUS_COMPLETED"
  shows "circle_ok c' (ms @ [new_member a (length ms) t])"
proof -
  note ok = circle_okD [OF assms(1)]
  have pp: "paid_positions c' = paid_positions c" using assms(6) by (simp add: paid_positions_def)
  have "distinct (map mb_address (ms @ [new_member a (length ms) t]))"
    using ok(1) assms(2) by (auto simp: new_member_def)
  moreover have "map mb_position (ms @ [new_member a (length ms) t]) = [0..<length (ms @ [new_member a (length ms) t])]"
    using ok(2) by (simp add: new_member_def)
  ultimately show ?thesis
    unfolding circle_ok_def pp assms(4,5,7,8) using ok(4-10) assms(3,9) by (auto simp: new_member_def)
qed

end
