(* ===== verification/Circle_Money.thy ===== *)
theory Circle_Money
  imports Circle_Rounds
begin

text \<open>
  Where the money of a settled round goes, movement by movement and without any assumption on the token:
  the payout log, what the members are credited, and the transfers of the circle with their recipients.
\<close>

section \<open>Payments\<close>

text \<open>A sequence of transfers from the circle, in order, each to a recipient and of an amount.\<close>

fun pays :: "'l circle_env \<Rightarrow> addr \<Rightarrow> addr \<Rightarrow> (addr \<times> int) list \<Rightarrow> 'l \<Rightarrow> 'l \<Rightarrow> bool" where
  "pays E t me [] l l' \<longleftrightarrow> l' = l"
| "pays E t me ((a, x) # ps) l l' \<longleftrightarrow>
     (\<exists>l1. tk_transfer (ce_token E) l t me a x = Some l1 \<and> pays E t me ps l1 l')"

definition paid :: "payout_recipient list \<Rightarrow> (addr \<times> int) list" where
  "paid es = map (\<lambda>e. (po_recipient e, po_amount e)) es"

definition paid_total :: "payout_recipient list \<Rightarrow> int" where
  "paid_total es = (\<Sum>e\<leftarrow>es. po_amount e)"

text \<open>A member after it was credited with what a list of payout records says for its address.\<close>

definition credited :: "payout_recipient list \<Rightarrow> circle_member \<Rightarrow> circle_member" where
  "credited es m = m\<lparr>mb_total_received := mb_total_received m
     + paid_total (filter (\<lambda>e. po_recipient e = mb_address m) es)\<rparr>"

text \<open>The deposit of the fee into the treasury, if there is a treasury and a fee.\<close>

definition fee_paid :: "'l circle_env \<Rightarrow> addr option \<Rightarrow> addr \<Rightarrow> int \<Rightarrow> 'l \<Rightarrow> 'l \<Rightarrow> bool" where
  "fee_paid E treasury me fee l l' \<longleftrightarrow>
     (case treasury of
        Some t \<Rightarrow> if 0 < fee then ce_deposit_fee E l t me fee me = Some l' else l' = l
      | None \<Rightarrow> l' = l)"

text \<open>The collateral the completion of the circle returns to every active member.\<close>

definition collateral_returned ::
    "'l circle_env \<Rightarrow> circle \<Rightarrow> circle_member list \<Rightarrow> 'l \<Rightarrow> 'l \<Rightarrow> bool" where
  "collateral_returned E c ms l l' \<longleftrightarrow>
     (if 0 < cl_collateral_amount c
      then pays E (cl_token c) (cl_id c) (map (\<lambda>m. (mb_address m, cl_collateral_amount c))
             (filter (\<lambda>m. mb_status m = MEMBER_ACTIVE) ms)) l l'
      else l' = l)"

text \<open>
  The whole of a settlement with a positive net amount for the recipient \<open>r\<close>. The log gains one record
  of the net amount and the fee for \<open>r\<close>, one record for every share (of a random circle only) and
  one for what the shares leave of the net amount, which goes to \<open>r\<close>; every share and the rest is
  transferred to and credited to the recipient on its record and to nobody else; in between
  the fee goes to the treasury; at the end of the last round the collateral is returned. The ledger before
  the first transfer is the one the circle was called in, unless an oracle was asked.
\<close>

definition round_paid ::
    "'l circle_env \<Rightarrow> host \<Rightarrow> circle \<Rightarrow> circle_member list \<Rightarrow> addr \<Rightarrow> nat \<Rightarrow> int \<Rightarrow> int
      \<Rightarrow> 'l circle_state \<Rightarrow> 'l circle_state \<Rightarrow> bool" where
  "round_paid E h c ms r round net fee s s' \<longleftrightarrow>
     (\<exists>shares rest l0 l1 l2 l3.
        ci_payouts s' = Some (unwrap_or (ci_payouts s) []
          @ payout_entry h r round net fee (cl_payout_type c) # shares @ rest)
      \<and> ci_members s' = Some (map (credited (shares @ rest)) ms)
      \<and> (cl_payout_type c \<noteq> PAYOUT_RANDOM \<longrightarrow> shares = [])
      \<and> (\<forall>e\<in>set shares. po_recipient e \<in> mb_address ` set ms \<and> 0 < po_amount e \<and> po_round e = round)
      \<and> rest = (if paid_total shares < net
          then [payout_entry h r round (net - paid_total shares) 0 (cl_payout_type c)] else [])
      \<and> (ci_oracle s = None \<longrightarrow> l0 = cb_ledger s)
      \<and> pays E (cl_token c) (cl_id c) (paid shares) l0 l1
      \<and> fee_paid E (ci_treasury s) (cl_id c) fee l1 l2
      \<and> pays E (cl_token c) (cl_id c) (paid rest) l2 l3
      \<and> (if cl_total_rounds c \<le> Suc round then collateral_returned E c ms l3 (cb_ledger s')
         else cb_ledger s' = l3))"

section \<open>The steps of a settlement\<close>

lemma paid_simps [simp]:
  "paid [] = []" "paid (e # es) = (po_recipient e, po_amount e) # paid es"
  "paid_total [] = 0" "paid_total (e # es) = po_amount e + paid_total es"
  by (simp_all add: paid_def paid_total_def)

lemma payout_entry_simps [simp]:
  "po_recipient (payout_entry h a r x f t) = a" "po_amount (payout_entry h a r x f t) = x"
  "po_round (payout_entry h a r x f t) = r"
  by (simp_all add: payout_entry_def)

lemma credited_Nil [simp]: "credited [] m = m"
  by (simp add: credited_def)

lemma map_credited_Nil [simp]: "map (credited []) ms = ms"
  by (simp add: map_idI)

lemma credited_address [simp]: "mb_address (credited es m) = mb_address m"
  by (simp add: credited_def)

lemma credited_append: "credited (es @ fs) m = credited fs (credited es m)"
  by (simp add: credited_def paid_total_def)

lemma map_credited_append: "map (credited (es @ fs)) ms = map (credited fs) (map (credited es) ms)"
  by (simp add: credited_append)

lemma credit_members_exact:
  "credit_members (po_recipient e) (po_amount e) ms = Inr ms' \<Longrightarrow> ms' = map (credited [e]) ms"
proof (induction ms arbitrary: ms')
  case Nil
  then show ?case by simp
next
  case (Cons m ms)
  then show ?case by (auto simp: res_simps int_simps safe_add_Inr credited_def)
qed

lemma share_loop_pays:
  "share_loop E h c round pt net tw mw as ms ps d s = Inr (ms', ps', d', s') \<Longrightarrow>
    \<exists>es. ps' = ps @ es \<and> ms' = map (credited es) ms \<and> d' = d + paid_total es
      \<and> pays E (cl_token c) (cl_id c) (paid es) (cb_ledger s) (cb_ledger s')
      \<and> s' = s\<lparr>cb_ledger := cb_ledger s'\<rparr>
      \<and> (\<forall>e\<in>set es. po_recipient e \<in> set as \<and> 0 < po_amount e \<and> po_round e = round)"
proof (induction "as" arbitrary: ms ps d s)
  case Nil
  then show ?case by (intro exI [of _ "[]"]) simp
next
  case (Cons a "as")
  show ?case
  proof (cases "share_loop E h c round pt net tw mw as ms ps d s = Inr (ms', ps', d', s')")
    case True
    from Cons.IH [OF this] show ?thesis by auto
  next
    case False
    with Cons.prems obtain share s1 d1 ms1 where
      t: "token_transfer (ce_token E) (cl_token c) (cl_id c) a share s = (Inr s1 :: (circle_error, _) res)"
      and p: "0 < share" and d: "add_or_invalid d share = Inr d1" and m: "credit_members a share ms = Inr ms1"
      and l: "share_loop E h c round pt net tw mw as ms1 (ps @ [payout_entry h a round share 0 pt]) d1 s1
        = Inr (ms', ps', d', s')"
      by (auto simp: bind_res_Inr Let_def split: option.splits if_splits)
    let ?e = "payout_entry h a round share 0 pt"
    from Cons.IH [OF l] obtain es where es: "ps' = ps @ ?e # es" "ms' = map (credited es) ms1"
      "d' = d1 + paid_total es" "pays E (cl_token c) (cl_id c) (paid es) (cb_ledger s1) (cb_ledger s')"
      "s' = s1\<lparr>cb_ledger := cb_ledger s'\<rparr>"
      "\<forall>e\<in>set es. po_recipient e \<in> set as \<and> 0 < po_amount e \<and> po_round e = round" by auto
    from credit_members_exact [of ?e ms ms1] m have "ms1 = map (credited [?e]) ms" by simp
    with es(2) map_credited_append [of "[?e]" es ms] have m': "ms' = map (credited (?e # es)) ms" by simp
    from d have "d1 = d + share" by (simp add: res_simps int_simps)
    with es t p m' show ?thesis by (intro exI [of _ "?e # es"]) (auto simp: token_transfer_Inr)
  qed
qed

lemma pay_dust_pays:
  assumes "pay_dust E h c round pt net r ms ps d s = Inr (ms', ps', d', s')"
  shows "\<exists>rest. rest = (if d < net then [payout_entry h r round (net - d) 0 pt] else [])
    \<and> ps' = ps @ rest \<and> ms' = map (credited rest) ms
    \<and> pays E (cl_token c) (cl_id c) (paid rest) (cb_ledger s) (cb_ledger s')
    \<and> s' = s\<lparr>cb_ledger := cb_ledger s'\<rparr>"
proof (cases "d < net")
  case False
  with assms show ?thesis by (simp add: pay_dust_def)
next
  case True
  let ?e = "payout_entry h r round (net - d) 0 pt"
  from assms True obtain l where
    "tk_transfer (ce_token E) (cb_ledger s) (cl_token c) (cl_id c) r (net - d) = Some l" "s' = s\<lparr>cb_ledger := l\<rparr>"
    "credit_members r (net - d) ms = Inr ms'" "ps' = ps @ [?e]"
    by (auto simp: pay_dust_def bind_res_Inr map_err_Inr safe_sub_Inr token_transfer_Inr)
  with True credit_members_exact [of ?e ms ms'] show ?thesis by simp
qed

lemma pay_round_fee_pays:
  assumes "pay_round_fee E c round fee s = Inr s'"
  shows "fee_paid E (ci_treasury s) (cl_id c) fee (cb_ledger s) (cb_ledger s')
    \<and> ci_payouts s' = ci_payouts s"
  using assms
  by (auto simp: pay_round_fee_def deposit_protocol_fee_def record_round_fee_def res_simps Let_def
      fee_paid_def split: if_splits option.splits)

lemma refund_collateral_pays:
  "refund_collateral E c ms s = Inr s' \<Longrightarrow>
    pays E (cl_token c) (cl_id c) (map (\<lambda>m. (mb_address m, cl_collateral_amount c))
      (filter (\<lambda>m. mb_status m = MEMBER_ACTIVE) ms)) (cb_ledger s) (cb_ledger s')
    \<and> ci_payouts s' = ci_payouts s"
  by (induction ms arbitrary: s) (fastforce simp: bind_res_Inr token_transfer_Inr split: if_splits)+

lemma score_completions_money:
  "cb_ledger (score_completions h ms s) = cb_ledger s \<and> ci_payouts (score_completions h ms s) = ci_payouts s"
  by (induction ms arbitrary: s) (simp_all add: rep_call_def)

lemma complete_circle_pays:
  assumes "complete_circle E h c ms s = Inr s'"
  shows "collateral_returned E c ms (cb_ledger s) (cb_ledger s') \<and> ci_payouts s' = ci_payouts s"
proof -
  let ?s = "publish (Event ''complete'' [AddrV (self h)] [IntV (cl_total_payouts c)]) s"
  from assms obtain s1 fm where
    r: "(if cl_collateral_amount c > 0 then refund_collateral E c ms ?s else Inr ?s) = Inr s1"
    and s': "s' = score_completions h fm s1"
    by (clarsimp simp: complete_circle_def bind_res_Inr Let_def)
  from r refund_collateral_pays [of E c ms ?s s1] show ?thesis
    by (auto simp: s' score_completions_money collateral_returned_def split: if_splits)
qed

lemma get_yield_rate_money:
  "get_yield_rate E h round s = Inr (y, s0) \<Longrightarrow> ci_payouts s0 = ci_payouts s \<and> ci_treasury s0 = ci_treasury s
    \<and> (ci_oracle s = None \<longrightarrow> cb_ledger s0 = cb_ledger s)"
  by (auto simp: get_yield_rate_def call_oracle_def split: option.splits)

text \<open>Drawing the recipient makes no call and pays nothing.\<close>

lemma resolve_recipient_ledger:
  assumes "resolve_recipient E c round s = Inr (rp, s')"
  shows "cb_ledger s' = cb_ledger s \<and> ci_fee_bps s' = ci_fee_bps s \<and> ci_payouts s' = ci_payouts s
    \<and> ci_treasury s' = ci_treasury s \<and> ci_oracle s' = ci_oracle s"
proof -
  have "cb_ledger s1 = cb_ledger s \<and> ci_fee_bps s1 = ci_fee_bps s \<and> ci_payouts s1 = ci_payouts s
    \<and> ci_treasury s1 = ci_treasury s \<and> ci_oracle s1 = ci_oracle s"
    if "resolve_random E c round s = Inr (r, s1)" for r s1
  proof -
    from resolve_random_Inr [OF that] have "vrf_frame s s1" by blast
    then show ?thesis by (cases s; cases s1; simp add: vrf_frame_def)
  qed
  with assms show ?thesis by (auto simp: resolve_recipient_def bind_res_Inr split: if_splits)
qed

section \<open>The whole settlement\<close>

lemma active_addresses_cong:
  "map mb_address ms' = map mb_address ms \<Longrightarrow> map mb_status ms' = map mb_status ms \<Longrightarrow>
    map (\<lambda>m. (mb_address m, x)) (filter (\<lambda>m. mb_status m = MEMBER_ACTIVE) ms')
      = map (\<lambda>m. (mb_address m, x)) (filter (\<lambda>m. mb_status m = MEMBER_ACTIVE) ms)"
proof (induction ms arbitrary: ms')
  case Nil
  then show ?case by simp
next
  case (Cons m ms)
  then obtain m' ns where "ms' = m' # ns" by (cases ms') simp_all
  with Cons show ?case by simp
qed

lemma settle_round_paid:
  fixes E :: "'l circle_env"
  assumes "settle_round E h c r pt round net fee s = Inr s'" "ci_members s = Some ms"
    and pt: "pt = cl_payout_type c" and c: "cl_status c = STATUS_ACTIVE" "round = cl_current_round c"
  shows "round_paid E h c ms r round net fee s s'"
proof (rule settle_round_pieces [OF assms(1,2)])
  fix y tw mw ms1 ps1 d1 ms2 ps2 d2 tp tf ev ev' and c4 :: circle and s0 s1 s2 s3 s4 :: "'l circle_state"
  let ?c = "mark_recipient r ms c"
  let ?ps = "unwrap_or (ci_payouts s0) [] @ [payout_entry h r round net fee pt]"
  let ?c4 = "c4\<lparr>cl_health_score := hs_score (calculate_health_score ms2 (unwrap_or (ci_contributions s) []))\<rparr>"
  let ?s4 = "publish ev (publish ev' (s4\<lparr>ci_circle := Some ?c4, ci_payouts := Some ps2, ci_members := Some ms2\<rparr>))"
  assume y: "get_yield_rate E h round s = Inr (y, s0)"
    and sh: "(if pt = PAYOUT_RANDOM
      then share_loop E h ?c round pt net tw mw (map mb_address ms) ms ?ps 0 s0
      else Inr (ms, ?ps, 0, s0)) = (Inr (ms1, ps1, d1, s1) :: (circle_error, _) res)"
    and fe: "pay_round_fee E ?c round fee s1 = Inr s2"
    and du: "pay_dust E h ?c round pt net r ms1 ps1 d1 s2 = Inr (ms2, ps2, d2, s3)"
    and adv: "advance_round E (?c\<lparr>cl_current_round := Suc (cl_current_round c),
       cl_total_payouts := tp, cl_total_fees := tf\<rparr>) s3 = (c4, s4)"
    and fin: "s' = ?s4 \<and> cl_status c4 \<noteq> STATUS_COMPLETED
     \<or> complete_circle E h ?c4 ms2 ?s4 = Inr s' \<and> cl_status c4 = STATUS_COMPLETED"
  note y = get_yield_rate_money [OF y]
  have "\<exists>es. ps1 = ?ps @ es \<and> ms1 = map (credited es) ms \<and> d1 = paid_total es
      \<and> pays E (cl_token c) (cl_id c) (paid es) (cb_ledger s0) (cb_ledger s1)
      \<and> s1 = s0\<lparr>cb_ledger := cb_ledger s1\<rparr> \<and> (pt \<noteq> PAYOUT_RANDOM \<longrightarrow> es = [])
      \<and> (\<forall>e\<in>set es. po_recipient e \<in> mb_address ` set ms \<and> 0 < po_amount e \<and> po_round e = round)"
  proof (cases "pt = PAYOUT_RANDOM")
    case True
    with sh have "share_loop E h ?c round pt net tw mw (map mb_address ms) ms ?ps 0 s0 = Inr (ms1, ps1, d1, s1)"
      by simp
    from share_loop_pays [OF this] True show ?thesis by auto
  next
    case False
    with sh show ?thesis by (intro exI [of _ "[]"]) auto
  qed
  then obtain es where es: "ps1 = ?ps @ es" "ms1 = map (credited es) ms" "d1 = paid_total es"
    "pays E (cl_token c) (cl_id c) (paid es) (cb_ledger s0) (cb_ledger s1)"
    "s1 = s0\<lparr>cb_ledger := cb_ledger s1\<rparr>" "pt \<noteq> PAYOUT_RANDOM \<longrightarrow> es = []"
    "\<forall>e\<in>set es. po_recipient e \<in> mb_address ` set ms \<and> 0 < po_amount e \<and> po_round e = round" by blast
  from es(5) have "ci_treasury s1 = ci_treasury s0" by (cases s1; cases s0) simp
  with pay_round_fee_pays [OF fe] y have f: "fee_paid E (ci_treasury s) (cl_id c) fee (cb_ledger s1) (cb_ledger s2)"
    by simp
  from pay_dust_pays [OF du] obtain rest where
    rest: "rest = (if d1 < net then [payout_entry h r round (net - d1) 0 pt] else [])" "ps2 = ps1 @ rest"
      "ms2 = map (credited rest) ms1"
      "pays E (cl_token c) (cl_id c) (paid rest) (cb_ledger s2) (cb_ledger s3)" by auto
  have m2: "ms2 = map (credited (es @ rest)) ms" unfolding rest(3) es(2) by (rule map_credited_append [symmetric])
  from share_loop_frame pay_dust_frame [OF du] sh have st: "map mb_status ms2 = map mb_status ms"
    by (fastforce split: if_splits)
  have ad: "map mb_address ms2 = map mb_address ms" by (simp add: m2)
  from advance_round_frame [OF adv] c have a: "cb_ledger s4 = cb_ledger s3"
    "cl_status c4 = STATUS_COMPLETED \<longleftrightarrow> cl_total_rounds c \<le> Suc round" "cl_token c4 = cl_token c" "cl_id c4 = cl_id c"
    "cl_collateral_amount c4 = cl_collateral_amount c" by (auto split: if_splits)
  have act: "map (\<lambda>m. (mb_address m, x)) (filter (\<lambda>m. mb_status m = MEMBER_ACTIVE) ms2)
      = map (\<lambda>m. (mb_address m, x)) (filter (\<lambda>m. mb_status m = MEMBER_ACTIVE) ms)" for x :: int
    by (rule active_addresses_cong [OF ad st])
  have out: "ci_members s' = Some ms2 \<and> ci_payouts s' = Some ps2
      \<and> (if cl_total_rounds c \<le> Suc round then collateral_returned E c ms (cb_ledger s3) (cb_ledger s')
         else cb_ledger s' = cb_ledger s3)"
  proof (cases "cl_status c4 = STATUS_COMPLETED")
    case False
    with fin a show ?thesis by simp
  next
    case True
    with fin have cc: "complete_circle E h ?c4 ms2 ?s4 = Inr s'" by blast
    have "collateral_returned E ?c4 ms2 l l' = collateral_returned E c ms l l'" for l l'
      using a(3-5) act by (cases "0 < cl_collateral_amount c") (simp_all add: collateral_returned_def)
    with complete_circle_pays [OF cc] complete_circle_core [OF cc] a True show ?thesis
      by (simp add: core_same_def)
  qed
  show ?thesis
    unfolding round_paid_def
    by (rule exI [of _ es], rule exI [of _ rest], rule exI [of _ "cb_ledger s0"], rule exI [of _ "cb_ledger s1"],
        rule exI [of _ "cb_ledger s2"], rule exI [of _ "cb_ledger s3"])
      (use out es f rest y pt m2 in simp)
qed

lemma settle_empty_round_paid:
  assumes "settle_empty_round E h c r pt round s = Inr s'" "ci_members s = Some ms"
  shows "ci_payouts s' = Some (unwrap_or (ci_payouts s) [] @ [payout_entry h r round 0 0 pt])"
proof -
  let ?s = "s\<lparr>ci_payouts := Some (unwrap_or (ci_payouts s) [] @ [payout_entry h r round 0 0 pt]),
    ci_members := Some ms\<rparr>"
  from assms show ?thesis
    by (auto simp: settle_empty_round_def res_simps int_simps Let_def advance_round_def split: if_splits)
qed

text \<open>What a call of the payout pays, for the recipient whose position it marks.\<close>

definition payout_paid ::
    "'l circle_env \<Rightarrow> host \<Rightarrow> circle \<Rightarrow> circle_member list \<Rightarrow> addr \<Rightarrow> nat \<Rightarrow> int \<Rightarrow> int
      \<Rightarrow> 'l circle_state \<Rightarrow> 'l circle_state \<Rightarrow> bool" where
  "payout_paid E h c ms r round net fee s s' \<longleftrightarrow>
     (if net \<le> 0
      then ci_payouts s' = Some (unwrap_or (ci_payouts s) [] @ [payout_entry h r round 0 0 (cl_payout_type c)])
        \<and> ci_members s' = Some ms \<and> cb_ledger s' = cb_ledger s
      else round_paid E h c ms r round net fee s s')"

lemma payout_paid_cong:
  assumes "cb_ledger t = cb_ledger s" "ci_payouts t = ci_payouts s" "ci_treasury t = ci_treasury s"
    "ci_oracle t = ci_oracle s" "ci_payouts t' = ci_payouts s'" "ci_members t' = ci_members s'"
    "cb_ledger t' = cb_ledger s'"
  shows "payout_paid E h c ms r round net fee t t' \<longleftrightarrow> payout_paid E h c ms r round net fee s s'"
  unfolding payout_paid_def round_paid_def assms ..

text \<open>In a circle that is not random the payment is one transfer and one credit of the net amount.\<close>

lemma payout_paid_unshared:
  assumes "payout_paid E h c ms r round net fee s s'" "0 < net" "cl_payout_type c \<noteq> PAYOUT_RANDOM"
  shows "ci_members s' = Some (map (\<lambda>x. if mb_address x = r
      then x\<lparr>mb_total_received := mb_total_received x + net\<rparr> else x) ms)
    \<and> (\<exists>l l'. tk_transfer (ce_token E) l (cl_token c) (cl_id c) r net = Some l'
       \<and> (if cl_total_rounds c \<le> Suc round then collateral_returned E c ms l' (cb_ledger s')
          else cb_ledger s' = l'))"
proof -
  let ?e = "payout_entry h r round net 0 (cl_payout_type c)"
  have "credited [?e] = (\<lambda>x. if mb_address x = r
      then x\<lparr>mb_total_received := mb_total_received x + net\<rparr> else x)"
    by (rule ext) (simp add: credited_def)
  moreover from assms obtain l2 l3 where "ci_members s' = Some (map (credited [?e]) ms)"
    "pays E (cl_token c) (cl_id c) (paid [?e]) l2 l3"
    "if cl_total_rounds c \<le> Suc round then collateral_returned E c ms l3 (cb_ledger s') else cb_ledger s' = l3"
    unfolding payout_paid_def round_paid_def by auto
  ultimately have "ci_members s' = Some (map (\<lambda>x. if mb_address x = r
      then x\<lparr>mb_total_received := mb_total_received x + net\<rparr> else x) ms)"
    "tk_transfer (ce_token E) l2 (cl_token c) (cl_id c) r net = Some l3"
    "if cl_total_rounds c \<le> Suc round then collateral_returned E c ms l3 (cb_ledger s') else cb_ledger s' = l3"
    by simp_all
  then show ?thesis by blast
qed

lemma trigger_payout_internal_paid:
  assumes "trigger_payout_internal E h round s = Inr s'" "ci_circle s = Some c" "ci_members s = Some ms"
  shows "\<exists>r net fee c'. active_unpaid c ms r \<and> ci_circle s' = Some c' \<and> round_settled c r ms c'
    \<and> apply_fee (round_contributed_total s round) (int (unwrap_or (ci_fee_bps s) 0)) = Inr (net, fee)
    \<and> payout_paid E h c ms r round net fee s s'"
proof -
  from assms(1,2) obtain r pt s1 ms1 net fee where c: "cl_status c = STATUS_ACTIVE" "round = cl_current_round c"
    and r: "resolve_recipient E c round s = Inr ((r, pt), s1)" and ms1: "ci_members s1 = Some ms1"
    and ap: "apply_fee (round_contributed_total s1 round) (int (unwrap_or (ci_fee_bps s1) 0)) = Inr (net, fee)"
    and fin: "if net \<le> 0 then settle_empty_round E h c r pt round s1 = Inr s'
      else settle_round E h c r pt round net fee s1 = Inr s'"
    by (fastforce simp: trigger_payout_internal_def res_simps Let_def split: if_splits)
  from resolve_recipient_Inr [OF r] have core: "core_same s s1" and un: "active_unpaid c ms r"
    and pt: "pt = cl_payout_type c" using assms(3) by auto
  note l = resolve_recipient_ledger [OF r]
  from core have m: "ms1 = ms" and cs: "ci_contributions s1 = ci_contributions s" "ci_round_total s1 = ci_round_total s"
    using ms1 assms(3) by (simp_all add: core_same_def)
  have tot: "round_contributed_total s1 round = round_contributed_total s round"
    by (simp only: round_contributed_total_def cs)
  have "\<exists>c'. ci_circle s' = Some c' \<and> round_settled c r ms c' \<and> payout_paid E h c ms r round net fee s1 s'"
  proof (cases "net \<le> 0")
    case True
    with fin have e: "settle_empty_round E h c r pt round s1 = Inr s'" by simp
    from settle_empty_round_Inr [OF e ms1] settle_empty_round_paid [OF e ms1] True pt m show ?thesis
      by (auto simp: payout_paid_def)
  next
    case False
    with fin have e: "settle_round E h c r pt round net fee s1 = Inr s'" by simp
    from settle_round_Inr [OF e ms1] settle_round_paid [OF e ms1 pt c] False m show ?thesis
      by (auto simp: payout_paid_def)
  qed
  then show ?thesis using un ap l payout_paid_cong [of s1 s s' s'] by (auto simp: tot)
qed

end
