(* ===== verification/Circle_Invariant.thy ===== *)
theory Circle_Invariant
  imports Circle_Money
begin

text \<open>
  The savings circle: every operation keeps the invariant of \<open>Circle_Rounds\<close>, so it holds in every
  reachable state; who can be paid, how often, and when a circle is complete follow from it.
\<close>

section \<open>Preservation, operation by operation\<close>

lemmas seq_simps = bind_res_Inr map_err_Inr ok_or_Inr or_trap_Inr require_auth_Inr
  when_not_paused_Inr guard_new_Inr if_Inl_Inr

lemma circle_init_mem_inv:
  assumes "circle_init E h salt admin factory config s = Inr s'"
  shows "mem_inv s'"
proof -
  from assms have lim: "2 \<le> cc_max_members config" "cc_max_members config \<le> 100"
    and s': "ci_circle s' = Some (new_circle h factory config)" "ci_members s' = Some []"
    by (auto simp: circle_init_def seq_simps Let_def init_vrf_def)
  have "circle_ok (new_circle h factory config) []"
    using lim by (simp add: circle_ok_def new_circle_def paid_positions_def)
  with s' show ?thesis by (simp add: mem_inv_def)
qed

lemma guard_leave_sel [simp]:
  "ci_circle (guard_leave s) = ci_circle s" "ci_members (guard_leave s) = ci_members s"
  "ci_contributions (guard_leave s) = ci_contributions s"
  "ci_member_status (guard_leave s) = ci_member_status s"
  "ci_round_total (guard_leave s) = ci_round_total s"
  "ci_round_contributors (guard_leave s) = ci_round_contributors s"
  "ci_member_contributed (guard_leave s) = ci_member_contributed s"
  "ci_contribs (guard_leave s) = ci_contribs s" "cb_ledger (guard_leave s) = cb_ledger s"
  by (simp_all add: guard_leave_def)

lemma circle_join_Inr:
  assumes "circle_join E h a s = Inr s'"
  obtains c s1 ev where "ci_circle s = Some c" "cl_status c = STATUS_PENDING"
    "cl_min_moi_score c \<le> storage_get_score (rep_of s) a" "authorized h a"
    "unwrap_or (ci_allowlist s) [] = [] \<or> a \<in> set (unwrap_or (ci_allowlist s) [])"
    "\<forall>m\<in>set (unwrap_or (ci_members s) []). mb_address m \<noteq> a"
    "length (unwrap_or (ci_members s) []) < cl_max_members c"
    "(if cl_collateral_amount c > 0
      then token_transfer (ce_token E) (cl_token c) a (cl_id c) (cl_collateral_amount c) (s\<lparr>cb_reent := Some True\<rparr>)
      else Inr (s\<lparr>cb_reent := Some True\<rparr>)) = (Inr s1 :: (circle_error, _) res)"
    "s' = guard_leave (publish ev (s1\<lparr>
      ci_circle := Some (if cl_max_members c \<le> Suc (cl_member_count c)
        then c\<lparr>cl_member_count := Suc (cl_member_count c), cl_status := STATUS_ACTIVE, cl_started_at := now h\<rparr>
        else c\<lparr>cl_member_count := Suc (cl_member_count c)\<rparr>),
      ci_members := Some (unwrap_or (ci_members s) [] @ [new_member a (length (unwrap_or (ci_members s) [])) (now h)]),
      ci_member_status := (ci_member_status s1)(a \<mapsto> MEMBER_ACTIVE)\<rparr>))"
  using assms
  by (clarsimp simp: circle_join_def seq_simps int_simps Let_def
        simp del: STATUS_PENDING_def STATUS_ACTIVE_def MEMBER_ACTIVE_def)
    (rule that, (assumption | simp add: rep_of_def)+)

lemma circle_join_mem_inv:
  assumes "circle_join E h a s = Inr s'" "mem_inv s"
  shows "mem_inv s'"
proof (rule circle_join_Inr [OF assms(1)])
  fix c :: circle and s1 ev
  let ?ms = "unwrap_or (ci_members s) []"
  let ?c = "if cl_max_members c \<le> Suc (cl_member_count c)
        then c\<lparr>cl_member_count := Suc (cl_member_count c), cl_status := STATUS_ACTIVE, cl_started_at := now h\<rparr>
        else c\<lparr>cl_member_count := Suc (cl_member_count c)\<rparr>"
  assume c: "ci_circle s = Some c" "cl_status c = STATUS_PENDING"
    and new: "\<forall>m\<in>set ?ms. mb_address m \<noteq> a" "length ?ms < cl_max_members c"
    and s': "s' = guard_leave (publish ev (s1\<lparr>ci_circle := Some ?c,
      ci_members := Some (?ms @ [new_member a (length ?ms) (now h)]),
      ci_member_status := (ci_member_status s1)(a \<mapsto> MEMBER_ACTIVE)\<rparr>))"
  from assms(2) c obtain ms where ms: "ci_members s = Some ms" "circle_ok c ms" by (auto simp: mem_inv_def)
  have "circle_ok ?c (ms @ [new_member a (length ms) (now h)])"
    using circle_okD(3) [OF ms(2)] c new ms(1)
    by (intro circle_ok_joined [OF ms(2)]) simp_all
  with s' ms(1) show ?thesis by (simp add: mem_inv_def)
qed

text \<open>A contribution adds a penalty to the fees of the circle and touches nothing else of it.\<close>

lemma late_penalty_circle:
  assumes "late_penalty E h a x round c s = Inr s'" "ci_circle s = Some c"
  shows "\<exists>f. ci_circle s' = Some (c\<lparr>cl_total_fees := f\<rparr>) \<and> ci_members s' = ci_members s
    \<and> ci_member_status s' = ci_member_status s \<and> ci_contributions s' = ci_contributions s
    \<and> ci_round_total s' = ci_round_total s \<and> ci_round_contributors s' = ci_round_contributors s
    \<and> ci_member_contributed s' = ci_member_contributed s \<and> ci_contribs s' = ci_contribs s"
proof -
  have same: "c\<lparr>cl_total_fees := cl_total_fees c\<rparr> = c" by simp
  from assms(1) obtain pen where pen:
    "map_err (\<lambda>_. InvalidAmount) (calculate_penalty x (int (cl_penalty_bps c))) = (Inr pen :: (circle_error, _) res)"
    by (auto simp: late_penalty_def bind_res_Inr)
  show ?thesis
  proof (cases "0 < pen")
    case False
    with assms(1) pen have "s' = s" by (simp add: late_penalty_def)
    with assms(2) same show ?thesis by metis
  next
    case True
    with assms(1) pen obtain s1 f s2 ev where
      t: "(case ci_treasury s of
            Some treasury \<Rightarrow> token_transfer (ce_token E) (cl_token c) (cl_id c) treasury pen s
          | None \<Rightarrow> Inr s) = (Inr s1 :: (circle_error, _) res)"
      and r: "record_round_fee round 0 pen s1 = Inr s2"
      and s': "s' = publish ev (s2\<lparr>ci_circle := Some (c\<lparr>cl_total_fees := f\<rparr>)\<rparr>)"
      by (clarsimp simp: late_penalty_def bind_res_Inr)
    from t have 1: "core_same s s1" by (auto split: option.splits dest: token_transfer_core)
    from r have 2: "core_same s1 s2" by (auto simp: record_round_fee_def bind_res_Inr Let_def core_same_def)
    from s' 1 2 show ?thesis by (auto simp: core_same_def)
  qed
qed

text \<open>The steps of a successful contribution.\<close>

lemma circle_contribute_pieces:
  assumes "circle_contribute E h a x round s = Inr s'"
  obtains c s1 on_time s2 s3 ev where "ci_circle s = Some c" "cl_status c = STATUS_ACTIVE"
    "round = cl_current_round c" "x = cl_contribution_amount c" "authorized h a"
    "\<not> struck_in_round s round a"
    "check_member_status a (s\<lparr>cb_reent := Some True\<rparr>) = Inr s1"
    "ci_member_contributed s1 (a, round) = None"
    "contribution_on_time h c = Inr on_time"
    "token_transfer (ce_token E) (cl_token c) a (cl_id c) x s1 = (Inr s2 :: (circle_error, _) res)"
    "(if \<not> on_time \<and> cl_penalty_bps c > 0 then late_penalty E h a x round c s2 else Inr s2) = Inr s3"
    "s' = guard_leave (if on_time
        then update_streak_internal a round (rep_call (record_on_time_payment h a (cl_id c) x round)
          (publish ev (store_contribution h a x round on_time (unwrap_or (ci_contributions s1) []) s3)))
        else publish ev (store_contribution h a x round on_time (unwrap_or (ci_contributions s1) []) s3))"
  using assms
  by (simp add: circle_contribute_def seq_simps Let_def del: STATUS_ACTIVE_def)
    (elim exE conjE, rule that, (assumption | (rule sym, assumption) | simp add: struck_in_round_def)+)

lemma check_member_status_Inr:
  assumes "check_member_status a s = Inr s'"
  shows "(ci_member_status s a = Some MEMBER_ACTIVE \<and> s' = s)
    \<or> (ci_member_status s a = None \<and> (\<exists>ms m. ci_members s = Some ms \<and> find_member a ms = Some m
        \<and> mb_status m = MEMBER_ACTIVE)
       \<and> s' = s\<lparr>ci_member_status := (ci_member_status s)(a \<mapsto> MEMBER_ACTIVE)\<rparr>)"
  using assms by (auto simp: check_member_status_def seq_simps split: option.splits)

lemma after_contribution_sel [simp]:
  "ci_circle (update_streak_internal a r s) = ci_circle s"
  "ci_members (update_streak_internal a r s) = ci_members s"
  "ci_contributions (update_streak_internal a r s) = ci_contributions s"
  "ci_member_status (update_streak_internal a r s) = ci_member_status s"
  "ci_round_total (update_streak_internal a r s) = ci_round_total s"
  "ci_round_contributors (update_streak_internal a r s) = ci_round_contributors s"
  "ci_member_contributed (update_streak_internal a r s) = ci_member_contributed s"
  "ci_contribs (update_streak_internal a r s) = ci_contribs s"
  "cb_ledger (update_streak_internal a r s) = cb_ledger s"
  "ci_circle (rep_call f s) = ci_circle s" "ci_members (rep_call f s) = ci_members s"
  "ci_contributions (rep_call f s) = ci_contributions s"
  "ci_member_status (rep_call f s) = ci_member_status s"
  "ci_round_total (rep_call f s) = ci_round_total s"
  "ci_round_contributors (rep_call f s) = ci_round_contributors s"
  "ci_member_contributed (rep_call f s) = ci_member_contributed s"
  "ci_contribs (rep_call f s) = ci_contribs s" "cb_ledger (rep_call f s) = cb_ledger s"
  by (simp_all add: update_streak_internal_def rep_call_def)

lemma store_contribution_sel [simp]:
  "ci_circle (store_contribution h a x r t cs s) = ci_circle s"
  "ci_members (store_contribution h a x r t cs s) = ci_members s"
  "ci_member_status (store_contribution h a x r t cs s) = ci_member_status s"
  "cb_ledger (store_contribution h a x r t cs s) = cb_ledger s"
  "ci_contributions (store_contribution h a x r t cs s) = Some (cs @
     [\<lparr>co_member = a, co_round = r, co_amount = x, co_timestamp = now h, co_on_time = t,
       co_time_weight = now h\<rparr>])"
  "ci_member_contributed (store_contribution h a x r t cs s) = (ci_member_contributed s)((a, r) \<mapsto> True)"
  "ci_round_total (store_contribution h a x r t cs s) = (ci_round_total s)(r \<mapsto>
     i128_saturating_add (unwrap_or (ci_round_total s r) 0) x)"
  "ci_round_contributors (store_contribution h a x r t cs s) = (ci_round_contributors s)(r \<mapsto>
     unwrap_or (ci_round_contributors s r) [] @ [a])"
  by (simp_all add: store_contribution_def Let_def split: option.split)

lemma circle_contribute_mem_inv:
  assumes "circle_contribute E h a x round s = Inr s'" "mem_inv s"
  shows "mem_inv s'"
proof (rule circle_contribute_pieces [OF assms(1)])
  fix c :: circle and s1 s2 s3 on_time ev
  assume c: "ci_circle s = Some c"
    and chk: "check_member_status a (s\<lparr>cb_reent := Some True\<rparr>) = Inr s1"
    and tr: "token_transfer (ce_token E) (cl_token c) a (cl_id c) x s1 = (Inr s2 :: (circle_error, _) res)"
    and pen: "(if \<not> on_time \<and> cl_penalty_bps c > 0 then late_penalty E h a x round c s2 else Inr s2) = Inr s3"
    and s': "s' = guard_leave (if on_time
        then update_streak_internal a round (rep_call (record_on_time_payment h a (cl_id c) x round)
          (publish ev (store_contribution h a x round on_time (unwrap_or (ci_contributions s1) []) s3)))
        else publish ev (store_contribution h a x round on_time (unwrap_or (ci_contributions s1) []) s3))"
  from check_member_status_Inr [OF chk] c have "ci_circle s1 = Some c" "ci_members s1 = ci_members s" by auto
  with token_transfer_core [OF tr] have 2: "ci_circle s2 = Some c" "ci_members s2 = ci_members s"
    by (simp_all add: core_same_def)
  have "\<exists>f. ci_circle s3 = Some (c\<lparr>cl_total_fees := f\<rparr>) \<and> ci_members s3 = ci_members s"
  proof (cases "\<not> on_time \<and> cl_penalty_bps c > 0")
    case True
    with pen late_penalty_circle [OF _ 2(1)] 2(2) show ?thesis by fastforce
  next
    case False
    with pen 2 have "ci_circle s3 = Some (c\<lparr>cl_total_fees := cl_total_fees c\<rparr>)" "ci_members s3 = ci_members s" by auto
    then show ?thesis by blast
  qed
  then obtain f where "ci_circle s' = Some (c\<lparr>cl_total_fees := f\<rparr>)" "ci_members s' = ci_members s"
    unfolding s' by (cases on_time) auto
  moreover from assms(2) c obtain ms where ms: "ci_members s = Some ms" "circle_ok c ms"
    by (auto simp: mem_inv_def)
  moreover have "circle_ok (c\<lparr>cl_total_fees := f\<rparr>) ms"
    by (rule circle_ok_agrees [OF ms(2)]) (simp_all add: circle_agrees_def)
  ultimately show ?thesis by (simp add: mem_inv_def)
qed

lemma trigger_internal_mem_inv:
  assumes "trigger_payout_internal E h round s = Inr s'" "mem_inv s"
  shows "mem_inv s'"
proof -
  from trigger_payout_internal_Inr [OF assms(1)] obtain c ms r ms' c' where
    c: "ci_circle s = Some c" "ci_members s = Some ms" "cl_status c = STATUS_ACTIVE" "active_unpaid c ms r"
    "ci_members s' = Some ms'" "same_people ms ms'" "ci_circle s' = Some c'" "round_settled c r ms c'"
    by blast
  from assms(2) c(1,2) have "circle_ok c ms" by (auto simp: mem_inv_def)
  from circle_ok_settled [OF this c(4,8,6,3)] c(5,7) show ?thesis by (simp add: mem_inv_def)
qed

lemma trigger_payout_Inr:
  assumes "trigger_payout E h caller round s = Inr s'"
  obtains s1 where "trigger_payout_internal E h round (s\<lparr>cb_reent := Some True\<rparr>) = Inr s1"
    "s' = guard_leave s1" "authorized h caller"
    "\<exists>c. ci_circle s = Some c \<and> (caller = cl_organizer c \<or> ci_admin s = Some caller)"
  using assms
  by (simp add: trigger_payout_def seq_simps)
    (elim exE conjE, rule that, (assumption | (rule sym, assumption) | force)+)

lemma check_deadline_Inr:
  assumes "check_contribution_deadline E h s = Inr s'"
  obtains c ms s1 where "ci_circle s = Some c" "ci_members s = Some ms" "cl_status c = STATUS_ACTIVE"
    "contribution_window_closed h c"
    "trigger_payout_internal E h (cl_current_round c)
       (strike_non_contributors h c (cl_current_round c)
         (round_contributors (s\<lparr>cb_reent := Some True\<rparr>) (cl_current_round c)) ms
         (s\<lparr>cb_reent := Some True\<rparr>)) = Inr s1"
    "s' = guard_leave s1"
  using assms
  by (simp add: check_contribution_deadline_def seq_simps Let_def del: STATUS_ACTIVE_def)
    (elim exE conjE, rule that, (assumption | (rule sym, assumption))+)

lemma mem_inv_people:
  assumes "mem_inv s" "ci_circle s = Some c" "ci_members s = Some ms"
    and "ci_circle s' = Some c'" "circle_agrees c c'" "ci_members s' = Some ms'" "same_people ms ms'"
  shows "mem_inv s'"
  using assms circle_ok_agrees unfolding mem_inv_def by fastforce

lemma check_deadline_mem_inv:
  assumes "check_contribution_deadline E h s = Inr s'" "mem_inv s"
  shows "mem_inv s'"
proof (rule check_deadline_Inr [OF assms(1)])
  fix c :: circle and ms s1
  let ?s = "s\<lparr>cb_reent := Some True\<rparr>"
  let ?t = "strike_non_contributors h c (cl_current_round c) (round_contributors ?s (cl_current_round c)) ms ?s"
  assume c: "ci_circle s = Some c" "ci_members s = Some ms"
    and tr: "trigger_payout_internal E h (cl_current_round c) ?t = Inr s1" and s': "s' = guard_leave s1"
  from strike_non_contributors_frame [of ?s ms h c] c(2)
  obtain ms' where ms': "ci_members ?t = Some ms'" "same_people ms ms'" "ci_circle ?t = Some c"
    using c(1) by fastforce
  have "mem_inv ?t"
    by (rule mem_inv_people [OF assms(2) c ms'(3) _ ms'(1,2)]) (simp add: circle_agrees_def)
  from trigger_internal_mem_inv [OF tr this] show ?thesis by (simp add: s' mem_inv_def)
qed

lemma trigger_payout_mem_inv:
  assumes "trigger_payout E h caller round s = Inr s'" "mem_inv s"
  shows "mem_inv s'"
proof (rule trigger_payout_Inr [OF assms(1)])
  fix s1
  assume tr: "trigger_payout_internal E h round (s\<lparr>cb_reent := Some True\<rparr>) = Inr s1"
    and s': "s' = guard_leave s1"
  from assms(2) have "mem_inv (s\<lparr>cb_reent := Some True\<rparr>)" by (simp add: mem_inv_def)
  from trigger_internal_mem_inv [OF tr this] show ?thesis by (simp add: s' mem_inv_def)
qed

lemma circle_exit_Inr:
  assumes "circle_exit E h a s = Inr s'"
  obtains c ms ms' pen s1 ev where "ci_circle s = Some c" "cl_status c \<noteq> STATUS_COMPLETED"
    "authorized h a" "ci_members s = Some ms"
    "exit_loop h a (unwrap_or (ci_contributions s) []) ms 0 = Inr (ms', pen)"
    "(if cl_collateral_amount c > 0
      then token_transfer (ce_token E) (cl_token c) (cl_id c) a (cl_collateral_amount c)
        (s\<lparr>cb_reent := Some True, ci_members := Some ms',
           ci_member_status := (ci_member_status (s\<lparr>cb_reent := Some True\<rparr>))(a \<mapsto> MEMBER_EXITED)\<rparr>)
      else Inr (s\<lparr>cb_reent := Some True, ci_members := Some ms',
           ci_member_status := (ci_member_status (s\<lparr>cb_reent := Some True\<rparr>))(a \<mapsto> MEMBER_EXITED)\<rparr>)) = (Inr s1 :: (circle_error, _) res)"
    "s' = guard_leave (publish ev s1)"
  using assms
  by (simp add: circle_exit_def seq_simps Let_def split_paired_Ex del: STATUS_COMPLETED_def MEMBER_EXITED_def)
    (elim exE conjE, rule that, (assumption | (rule sym, assumption))+)

lemma circle_exit_mem_inv:
  assumes "circle_exit E h a s = Inr s'" "mem_inv s"
  shows "mem_inv s'"
proof (rule circle_exit_Inr [OF assms(1)])
  fix c :: circle and ms ms' pen s1 ev
  assume c: "ci_circle s = Some c" "ci_members s = Some ms"
    and ex: "exit_loop h a (unwrap_or (ci_contributions s) []) ms 0 = Inr (ms', pen)"
    and tr: "(if cl_collateral_amount c > 0
      then token_transfer (ce_token E) (cl_token c) (cl_id c) a (cl_collateral_amount c)
        (s\<lparr>cb_reent := Some True, ci_members := Some ms',
           ci_member_status := (ci_member_status (s\<lparr>cb_reent := Some True\<rparr>))(a \<mapsto> MEMBER_EXITED)\<rparr>)
      else Inr (s\<lparr>cb_reent := Some True, ci_members := Some ms',
           ci_member_status := (ci_member_status (s\<lparr>cb_reent := Some True\<rparr>))(a \<mapsto> MEMBER_EXITED)\<rparr>)) = (Inr s1 :: (circle_error, _) res)"
    and s': "s' = guard_leave (publish ev s1)"
  from maybe_transfer_core [OF tr] have s1: "ci_circle s' = Some c" "ci_members s' = Some ms'"
    using c(1) by (simp_all add: core_same_def s')
  show ?thesis
    by (rule mem_inv_people [OF assms(2) c s1(1) _ s1(2) exit_loop_same [OF ex]]) (simp add: circle_agrees_def)
qed

lemma report_late_mem_inv:
  assumes "report_late h u a round s = Inr s'" "mem_inv s"
  shows "mem_inv s'"
proof -
  from assms(1) obtain c ms ms' s1 where c: "ci_circle s = Some c" "ci_members s = Some ms"
    and l: "report_loop h c round a ms (s\<lparr>cb_reent := Some True\<rparr>) = Inr (ms', s1)"
    and s': "s' = guard_leave (s1\<lparr>ci_members := Some ms'\<rparr>)"
    by (auto simp: report_late_def seq_simps)
  from report_loop_frame [OF l] c s' have 1: "same_people ms ms'" "ci_circle s' = Some c"
    "ci_members s' = Some ms'" by simp_all
  show ?thesis
    by (rule mem_inv_people [OF assms(2) c 1(2) _ 1(3,1)]) (simp add: circle_agrees_def)
qed

lemma cancel_circle_mem_inv:
  assumes "cancel_circle E h a s = Inr s'" "mem_inv s"
  shows "mem_inv s'"
proof -
  from assms(1) obtain c ms s1 ev where c: "ci_circle s = Some c" "ci_members s = Some ms"
    and r: "(if cl_collateral_amount c > 0 then refund_collateral E c ms (s\<lparr>cb_reent := Some True\<rparr>)
        else Inr (s\<lparr>cb_reent := Some True\<rparr>)) = (Inr s1 :: (circle_error, _) res)"
    and s': "s' = guard_leave (publish ev (s1\<lparr>ci_circle := Some (c\<lparr>cl_status := STATUS_CANCELLED\<rparr>)\<rparr>))"
    by (clarsimp simp: cancel_circle_def seq_simps simp del: STATUS_CANCELLED_def)
  from r have "core_same (s\<lparr>cb_reent := Some True\<rparr>) s1"
    by (auto split: if_splits dest: refund_collateral_core)
  with c(2) s' have 1: "ci_members s' = Some ms" "ci_circle s' = Some (c\<lparr>cl_status := STATUS_CANCELLED\<rparr>)"
    by (simp_all add: core_same_def)
  show ?thesis
    by (rule mem_inv_people [OF assms(2) c 1(2) _ 1(1)]) (simp_all add: circle_agrees_def)
qed

lemma raise_dispute_mem_inv:
  assumes "raise_dispute h a e s = Inr s'" "mem_inv s"
  shows "mem_inv s'"
proof -
  from assms(1) obtain c where c: "ci_circle s = Some c"
    "ci_circle s' = Some (c\<lparr>cl_status := STATUS_DISPUTED\<rparr>)" "ci_members s' = ci_members s"
    by (auto simp: raise_dispute_def seq_simps)
  from assms(2) c(1) obtain ms where ms: "ci_members s = Some ms" by (auto simp: mem_inv_def)
  show ?thesis
    by (rule mem_inv_people [OF assms(2) c(1) ms c(2) _ _ same_people_refl])
      (simp_all add: circle_agrees_def c(3) ms)
qed

lemma resolve_dispute_circle:
  assumes "resolve_dispute E h a r s = Inr s'"
  shows "\<exists>c st ms'. ci_circle s = Some c \<and> (st = STATUS_ACTIVE \<or> st = STATUS_CANCELLED)
    \<and> ci_circle s' = Some (c\<lparr>cl_status := st\<rparr>)
    \<and> (ci_members s' = ci_members s \<or> ci_members s' = Some ms' \<and> same_people (unwrap_or (ci_members s) []) ms')"
proof -
  from assms obtain c d where c: "ci_circle s = Some c" "ci_dispute s = Some d"
    and r: "r = 1 \<or> r = 2 \<or> r = 3 \<or> r = 4"
    by (auto simp: resolve_dispute_def seq_simps Let_def split: if_splits)
  consider "r = 1 \<or> r = 3" | "r = 2" | "r = 4" using r by blast
  then show ?thesis
  proof cases
    case 1
    with assms c have "ci_circle s' = Some (c\<lparr>cl_status := STATUS_ACTIVE\<rparr>)" "ci_members s' = ci_members s"
      by (auto simp: resolve_dispute_def seq_simps Let_def)
    with c show ?thesis by blast
  next
    case 2
    with assms c obtain s1 where
      t: "(if cl_collateral_amount c > 0
           then (case ci_treasury s of
                  Some treasury \<Rightarrow> token_transfer (ce_token E) (cl_token (c\<lparr>cl_status := Suc 0\<rparr>)) (self h)
                                     treasury (cl_collateral_amount (c\<lparr>cl_status := Suc 0\<rparr>)) s
                | None \<Rightarrow> Inr s)
           else Inr s) = (Inr s1 :: (circle_error, _) res)"
      and s': "ci_circle s' = Some (c\<lparr>cl_status := STATUS_ACTIVE\<rparr>)"
        "ci_members s' = Some (penalize_loop (di_raised_by d) (unwrap_or (ci_members s1) []))"
      by (auto simp: resolve_dispute_def seq_simps Let_def)
    from t have "core_same s s1" by (auto split: if_splits option.splits dest: token_transfer_core)
    then have "ci_members s1 = ci_members s" by (simp add: core_same_def)
    with c s' penalize_loop_same show ?thesis by metis
  next
    case 3
    with assms c obtain ms' s1 where
      l: "refund_loop_members E h (cl_token c) (unwrap_or (ci_members s) []) s = Inr (ms', s1)"
      and s': "ci_circle s' = Some (c\<lparr>cl_status := STATUS_CANCELLED\<rparr>)" "ci_members s' = Some ms'"
      by (auto simp: resolve_dispute_def seq_simps Let_def)
    from refund_loop_members_frame [OF l] c s' show ?thesis by blast
  qed
qed

lemma resolve_dispute_mem_inv:
  assumes "resolve_dispute E h a r s = Inr s'" "mem_inv s"
  shows "mem_inv s'"
proof -
  from resolve_dispute_circle [OF assms(1)] obtain c st ms' where c: "ci_circle s = Some c"
    and st: "st = STATUS_ACTIVE \<or> st = STATUS_CANCELLED" and c': "ci_circle s' = Some (c\<lparr>cl_status := st\<rparr>)"
    and m: "ci_members s' = ci_members s \<or> ci_members s' = Some ms' \<and> same_people (unwrap_or (ci_members s) []) ms'"
    by blast
  from assms(2) c obtain ms where ms: "ci_members s = Some ms" by (auto simp: mem_inv_def)
  have ag: "circle_agrees c (c\<lparr>cl_status := st\<rparr>)" using st by (auto simp: circle_agrees_def)
  from m ms have "ci_members s' = Some ms \<or> ci_members s' = Some ms' \<and> same_people ms ms'" by simp
  with mem_inv_people [OF assms(2) c ms c' ag] show ?thesis by (auto intro: same_people_refl)
qed

lemma set_token_mem_inv:
  assumes "set_token h a x s = Inr s'" "mem_inv s"
  shows "mem_inv s'"
proof -
  from assms(1) obtain c where c: "ci_circle s = Some c"
    "ci_circle s' = Some (c\<lparr>cl_token := x\<rparr>)" "ci_members s' = ci_members s"
    by (auto simp: set_token_def res_simps)
  from assms(2) c(1) obtain ms where ms: "ci_members s = Some ms" by (auto simp: mem_inv_def)
  show ?thesis
    by (rule mem_inv_people [OF assms(2) c(1) ms c(2) _ _ same_people_refl])
      (simp_all add: circle_agrees_def c(3) ms)
qed

lemma invite_loop_Inr:
  assumes "invite_loop h c score as ms = Inr ms'" "circle_ok c ms" "cl_status c \<noteq> STATUS_COMPLETED"
  shows "circle_ok (c\<lparr>cl_member_count := length ms'\<rparr>) ms'
    \<and> map mb_address ms' = map mb_address ms @ as"
  using assms
proof (induction "as" arbitrary: ms c)
  case Nil
  have "c\<lparr>cl_member_count := length ms\<rparr> = c"
    unfolding circle_okD(3) [OF Nil.prems(2), symmetric] by simp
  with Nil show ?case by simp
next
  case (Cons a "as")
  let ?m = "new_member a (length ms) (now h)"
  let ?c = "c\<lparr>cl_member_count := Suc (length ms)\<rparr>"
  have same: "invite_loop h ?c score xs ys = invite_loop h c score xs ys" for xs ys
    by (induction xs arbitrary: ys) auto
  from Cons.prems(1) have new: "\<forall>m\<in>set ms. mb_address m \<noteq> a" "length ms < cl_max_members c"
    and l: "invite_loop h c score as (ms @ [?m]) = Inr ms'"
    by (auto split: if_splits)
  have "circle_ok ?c (ms @ [?m])"
    by (rule circle_ok_joined [OF Cons.prems(2) new]) simp_all
  from Cons.IH [of ?c "ms @ [?m]", unfolded same, OF l this] Cons.prems(3)
  show ?case by (simp add: new_member_def)
qed

lemma fold_publish_core:
  "core_same s (fold (\<lambda>m. publish (f m)) ms s)"
proof (induction ms arbitrary: s)
  case Nil
  then show ?case by simp
next
  case (Cons m ms)
  from core_same_trans [OF core_same_upd(4) Cons.IH [of "publish (f m) s"]] show ?case by simp
qed

lemma batch_invite_Inr:
  assumes "batch_invite h a as s = Inr s'"
  obtains c ms' ev where "ci_circle s = Some c" "cl_status c \<noteq> STATUS_DISPUTED" "cl_status c \<noteq> STATUS_COMPLETED"
    "a = cl_organizer c" "authorized h a"
    "invite_loop h c (storage_get_score (rep_of (s\<lparr>cb_reent := Some True\<rparr>))) as (unwrap_or (ci_members s) []) = Inr ms'"
    "s' = guard_leave (fold (\<lambda>m. publish (ev m)) ms'
       (s\<lparr>cb_reent := Some True, ci_members := Some ms',
          ci_member_status := fold (\<lambda>m status. status(m \<mapsto> MEMBER_ACTIVE)) as (ci_member_status s),
          ci_circle := Some (if length ms' \<ge> cl_max_members c \<and> cl_status c = STATUS_PENDING
            then c\<lparr>cl_member_count := length ms', cl_status := STATUS_ACTIVE, cl_started_at := now h\<rparr>
            else c\<lparr>cl_member_count := length ms'\<rparr>)\<rparr>))"
  using assms
  by (simp add: batch_invite_def seq_simps Let_def
      del: STATUS_DISPUTED_def STATUS_COMPLETED_def MEMBER_ACTIVE_def STATUS_PENDING_def STATUS_ACTIVE_def)
    (elim exE conjE, rule that, (assumption | (rule sym, assumption) | simp)+)

lemma batch_invite_mem_inv:
  assumes "batch_invite h a as s = Inr s'" "mem_inv s"
  shows "mem_inv s'"
proof (rule batch_invite_Inr [OF assms(1)])
  fix c :: circle and ms' :: "circle_member list" and ev
  let ?c = "if length ms' \<ge> cl_max_members c \<and> cl_status c = STATUS_PENDING
            then c\<lparr>cl_member_count := length ms', cl_status := STATUS_ACTIVE, cl_started_at := now h\<rparr>
            else c\<lparr>cl_member_count := length ms'\<rparr>"
  let ?s = "s\<lparr>cb_reent := Some True, ci_members := Some ms',
          ci_member_status := fold (\<lambda>m status. status(m \<mapsto> MEMBER_ACTIVE)) as (ci_member_status s),
          ci_circle := Some ?c\<rparr>"
  assume c: "ci_circle s = Some c" "cl_status c \<noteq> STATUS_COMPLETED"
    and l: "invite_loop h c (storage_get_score (rep_of (s\<lparr>cb_reent := Some True\<rparr>))) as (unwrap_or (ci_members s) []) = Inr ms'"
    and s': "s' = guard_leave (fold (\<lambda>m. publish (ev m)) ms' ?s)"
  from assms(2) c(1) obtain ms where ms: "ci_members s = Some ms" "circle_ok c ms" by (auto simp: mem_inv_def)
  from invite_loop_Inr [OF l] ms c(2) have ok: "circle_ok (c\<lparr>cl_member_count := length ms'\<rparr>) ms'" by simp
  have "circle_ok ?c ms'"
    by (rule circle_ok_agrees [OF ok]) (simp_all add: circle_agrees_def)
  then have "mem_inv ?s" by (simp add: mem_inv_def)
  with core_same_mem_inv [OF fold_publish_core [of ?s ev ms']] show ?thesis
    by (simp add: s' mem_inv_def)
qed

lemma circle_ok_mark:
  assumes "circle_ok c ms" "find_member a ms = Some m"
  shows "circle_ok (c\<lparr>cl_payout_bitmap := mark_paid (mb_position m) (cl_payout_bitmap c)\<rparr>) ms"
proof -
  let ?c = "c\<lparr>cl_payout_bitmap := mark_paid (mb_position m) (cl_payout_bitmap c)\<rparr>"
  note ok = circle_okD [OF assms(1)]
  from circle_ok_find_position [OF assms] have p: "mb_position m < length ms" "mb_position m < 128" by simp_all
  have pp: "paid_positions ?c = insert (mb_position m) (paid_positions c)"
    by (rule paid_positions_mark [OF p(2)])
  have "card (paid_positions c) \<le> card (paid_positions ?c)"
    unfolding pp by (rule card_insert_le)
  with ok(8) have "cl_current_round ?c \<le> card (paid_positions ?c)" by simp
  then show ?thesis
    unfolding circle_ok_def pp using ok(1-7,9,10) p(1) by auto
qed

lemma batch_loop_frame:
  "batch_loop E h round fee rest c ms ps s = Inr (c', ms', ps', s') \<Longrightarrow> circle_ok c ms \<Longrightarrow>
    circle_ok c' ms' \<and> same_people ms ms' \<and> core_same s s'
    \<and> (\<exists>b. c' = c\<lparr>cl_payout_bitmap := b\<rparr>) \<and> paid_positions c \<subseteq> paid_positions c'"
proof (induction rest arbitrary: c ms ps s)
  case Nil
  from Nil.prems(1) have eqs: "c' = c" "ms' = ms" "s' = s" by simp_all
  have "c = c\<lparr>cl_payout_bitmap := cl_payout_bitmap c\<rparr>" by simp
  then have "\<exists>b. c = c\<lparr>cl_payout_bitmap := b\<rparr>" ..
  with Nil.prems(2) show ?case
    unfolding eqs using same_people_refl core_same_refl by blast
next
  case (Cons p rest)
  obtain a x where p: "p = (a, x)" by (cases p)
  from Cons.prems(1)
  obtain c1 s1 s2 ms1 ps1 ev where
    c1: "(case find_member a ms of
          None \<Rightarrow> Inr c
        | Some m \<Rightarrow>
            if position_paid (cl_payout_bitmap c) (mb_position m) then Inl (Err PayoutAlreadyExecuted)
            else Inr (c\<lparr>cl_payout_bitmap := mark_paid (mb_position m) (cl_payout_bitmap c)\<rparr>)) = Inr c1"
    and t1: "token_transfer (ce_token E) (cl_token c1) (cl_id c1) a (wrap_i128 (x - batch_fee x fee)) s
       = (Inr s1 :: (circle_error, _) res)"
    and t2: "(if batch_fee x fee > 0
                then bind_res (ok_or (ci_treasury s1) NotInitialized) (\<lambda>treasury.
                     token_transfer (ce_token E) (cl_token c1) (cl_id c1) treasury (batch_fee x fee) s1)
                else Inr s1) = Inr s2"
    and cr: "credit_first a (wrap_i128 (x - batch_fee x fee)) ms = Inr ms1"
    and l: "batch_loop E h round fee rest c1 ms1 ps1 (publish ev s2) = Inr (c', ms', ps', s')"
    unfolding p batch_loop.simps if_Inl_Inr bind_res_Inr Let_def by blast
  from c1 circle_ok_mark [OF Cons.prems(2)]
  have ok1: "circle_ok c1 ms" and b: "\<exists>b. c1 = c\<lparr>cl_payout_bitmap := b\<rparr>"
    using Cons.prems(2) by (auto split: option.splits if_splits intro: exI [of _ "cl_payout_bitmap c"])
  from c1 have mono: "paid_positions c \<subseteq> paid_positions c1"
    by (auto simp: paid_positions_def mark_paid_def bit_or_iff split: option.splits if_splits)
  have core: "core_same s (publish ev s2)"
  proof -
    have "core_same s1 s2" using t2 by (auto simp: bind_res_Inr split: if_splits dest: token_transfer_core)
    with token_transfer_core [OF t1] show ?thesis using core_same_trans core_same_upd(4) by blast
  qed
  have sp: "same_people ms ms1" by (rule credit_first_same [OF cr])
  from Cons.IH [OF l circle_ok_same_people [OF ok1 sp]] sp core b
  show ?case using mono by (auto intro: same_people_trans core_same_trans)
qed

lemma batch_payout_Inr:
  assumes "batch_payout E h a rs xs round s = Inr s'"
  obtains c c' ms ms' ps' s1 where "ci_circle s = Some c" "cl_status c = STATUS_ACTIVE"
    "round = cl_current_round c" "ci_members s = Some ms" "length rs = length xs" "length rs \<le> 10"
    "a = cl_organizer c \<or> ci_admin s = Some a" "authorized h a"
    "batch_loop E h round (unwrap_or (ci_fee_bps s) 0) (zip rs xs) c ms (unwrap_or (ci_payouts s) [])
      (s\<lparr>cb_reent := Some True\<rparr>) = Inr (c', ms', ps', s1)"
    "s' = guard_leave (s1\<lparr>ci_circle := Some c', ci_payouts := Some ps', ci_members := Some ms'\<rparr>)"
  using assms
  by (simp add: batch_payout_def seq_simps Let_def split_paired_Ex del: STATUS_ACTIVE_def)
    (elim exE conjE, rule that, (assumption | (rule sym, assumption) | force)+)

lemma batch_payout_mem_inv:
  assumes "batch_payout E h a rs xs round s = Inr s'" "mem_inv s"
  shows "mem_inv s'"
proof (rule batch_payout_Inr [OF assms(1)])
  fix c c' :: circle and ms ms' ps' s1
  assume c: "ci_circle s = Some c" "ci_members s = Some ms"
    and l: "batch_loop E h round (unwrap_or (ci_fee_bps s) 0) (zip rs xs) c ms (unwrap_or (ci_payouts s) [])
      (s\<lparr>cb_reent := Some True\<rparr>) = Inr (c', ms', ps', s1)"
    and s': "s' = guard_leave (s1\<lparr>ci_circle := Some c', ci_payouts := Some ps', ci_members := Some ms'\<rparr>)"
  from assms(2) c have "circle_ok c ms" by (auto simp: mem_inv_def)
  from batch_loop_frame [OF l this] show ?thesis by (simp add: s' mem_inv_def)
qed

section \<open>The invariant along runs\<close>

lemma ci_exec_mem_inv:
  assumes "ci_exec E h op s = Inr s'" "mem_inv s"
  shows "mem_inv s'"
proof (cases "touches_core op")
  case False
  with circle_side_core [OF assms(1)] core_same_mem_inv assms(2) show ?thesis by blast
next
  case True
  with assms show ?thesis
    by (cases op) (simp_all add: circle_join_mem_inv circle_contribute_mem_inv check_deadline_mem_inv
        trigger_payout_mem_inv circle_exit_mem_inv cancel_circle_mem_inv report_late_mem_inv
        raise_dispute_mem_inv resolve_dispute_mem_inv batch_invite_mem_inv batch_payout_mem_inv
        set_token_mem_inv)
qed

lemma ci_run_mem_inv:
  assumes "ci_run E me s s'" "mem_inv s"
  shows "mem_inv s'"
  by (rule ci_run_invariant [where I = mem_inv, OF assms]) (blast intro: ci_exec_mem_inv, simp add: mem_inv_def)

section \<open>How a circle evolves\<close>

text \<open>
  Whatever is called, the terms of a circle stay (the token apart, which the administrator may set),
  its rounds and paid positions only grow, and the time it started is fixed once it has started.
\<close>

definition circle_evolves :: "circle \<Rightarrow> circle \<Rightarrow> bool" where
  "circle_evolves c c' \<longleftrightarrow>
     config_of (c'\<lparr>cl_token := cl_token c\<rparr>) = config_of c \<and> cl_id c' = cl_id c
     \<and> cl_created_at c' = cl_created_at c \<and> paid_positions c \<subseteq> paid_positions c'
     \<and> cl_current_round c \<le> cl_current_round c'
     \<and> (cl_status c \<noteq> STATUS_PENDING \<longrightarrow>
          cl_status c' \<noteq> STATUS_PENDING \<and> cl_started_at c' = cl_started_at c)"

lemma circle_evolves_refl [simp]: "circle_evolves c c"
  by (simp add: circle_evolves_def)

lemma config_of_token_eq:
  "config_of (c\<lparr>cl_token := t\<rparr>) = (config_of c)\<lparr>cc_token := t\<rparr>"
  by (simp add: config_of_def)

lemma circle_evolves_trans:
  assumes "circle_evolves a b" "circle_evolves b c"
  shows "circle_evolves a c"
proof -
  have "config_of (c\<lparr>cl_token := cl_token a\<rparr>) = (config_of (c\<lparr>cl_token := cl_token b\<rparr>))\<lparr>cc_token := cl_token a\<rparr>"
    by (simp add: config_of_def)
  also have "\<dots> = config_of (b\<lparr>cl_token := cl_token a\<rparr>)"
    using assms(2) by (simp add: circle_evolves_def config_of_token_eq)
  also have "\<dots> = config_of a" using assms(1) by (simp add: circle_evolves_def)
  finally have 1: "config_of (c\<lparr>cl_token := cl_token a\<rparr>) = config_of a" .
  from assms have "paid_positions a \<subseteq> paid_positions c" by (auto simp: circle_evolves_def)
  with 1 assms show ?thesis unfolding circle_evolves_def by (metis order_trans)
qed

lemma config_of_token_self: "config_of c' = config_of c \<Longrightarrow> config_of (c'\<lparr>cl_token := cl_token c\<rparr>) = config_of c"
  by (simp add: config_of_def)

text \<open>No call but the setter of the token changes the token of the circle.\<close>

definition circle_moves :: "circle \<Rightarrow> circle \<Rightarrow> bool" where
  "circle_moves c c' \<longleftrightarrow> circle_evolves c c' \<and> cl_token c' = cl_token c"

lemma circle_moves_refl [simp]: "circle_moves c c"
  by (simp add: circle_moves_def)

lemma round_settled_moves:
  assumes "round_settled c r ms c'" "cl_status c = STATUS_ACTIVE"
  shows "circle_moves c c'"
proof -
  from assms(1) have bm: "cl_payout_bitmap c' = cl_payout_bitmap (mark_recipient r ms c)"
    by (simp add: round_settled_def)
  have "paid_positions c \<subseteq> paid_positions c'"
    unfolding paid_positions_def bm
    by (auto simp: mark_recipient_def mark_paid_def bit_or_iff split: option.split)
  moreover from assms(1) have "config_of (c'\<lparr>cl_token := cl_token c\<rparr>) = config_of c"
    by (intro config_of_token_self) (simp add: round_settled_def)
  moreover from assms(1) have "cl_token c' = cl_token c" by (simp add: round_settled_def config_of_def)
  ultimately show ?thesis using assms by (simp add: circle_moves_def circle_evolves_def round_settled_def)
qed

lemma trigger_internal_moves:
  assumes "trigger_payout_internal E h round s = Inr s'" "ci_circle s = Some c"
  shows "\<exists>c'. ci_circle s' = Some c' \<and> circle_moves c c'"
proof -
  from trigger_payout_internal_Inr [OF assms(1)] obtain c0 ms r c' where
    c: "ci_circle s = Some c0" "cl_status c0 = STATUS_ACTIVE" "ci_circle s' = Some c'" "round_settled c0 r ms c'"
    by blast
  from round_settled_moves [OF c(4,2)] c(1,3) assms(2) show ?thesis by simp
qed

lemma circle_contribute_evolves:
  assumes "circle_contribute E h a x round s = Inr s'" "ci_circle s = Some c"
  shows "\<exists>f. ci_circle s' = Some (c\<lparr>cl_total_fees := f\<rparr>)"
proof (rule circle_contribute_pieces [OF assms(1)])
  fix c1 :: circle and s1 s2 s3 on_time ev
  assume c: "ci_circle s = Some c1"
    and chk: "check_member_status a (s\<lparr>cb_reent := Some True\<rparr>) = Inr s1"
    and tr: "token_transfer (ce_token E) (cl_token c1) a (cl_id c1) x s1 = (Inr s2 :: (circle_error, _) res)"
    and pen: "(if \<not> on_time \<and> cl_penalty_bps c1 > 0 then late_penalty E h a x round c1 s2 else Inr s2) = Inr s3"
    and s': "s' = guard_leave (if on_time
        then update_streak_internal a round (rep_call (record_on_time_payment h a (cl_id c1) x round)
          (publish ev (store_contribution h a x round on_time (unwrap_or (ci_contributions s1) []) s3)))
        else publish ev (store_contribution h a x round on_time (unwrap_or (ci_contributions s1) []) s3))"
  from check_member_status_Inr [OF chk] c assms(2) have "ci_circle s1 = Some c" "c1 = c" by auto
  with token_transfer_core [OF tr] have 2: "ci_circle s2 = Some c" by (simp add: core_same_def)
  have "\<exists>f. ci_circle s3 = Some (c\<lparr>cl_total_fees := f\<rparr>)"
  proof (cases "\<not> on_time \<and> cl_penalty_bps c1 > 0")
    case True
    with pen late_penalty_circle [OF _ 2] \<open>c1 = c\<close> show ?thesis by fastforce
  next
    case False
    with pen 2 have "ci_circle s3 = Some (c\<lparr>cl_total_fees := cl_total_fees c\<rparr>)" by auto
    then show ?thesis by blast
  qed
  then show ?thesis unfolding s' by (cases on_time) auto
qed

text \<open>How an operation may change the circle record.\<close>

lemma circle_moves_updates:
  "circle_moves c (c\<lparr>cl_total_fees := f\<rparr>)"
  "st \<noteq> STATUS_PENDING \<Longrightarrow> circle_moves c (c\<lparr>cl_status := st\<rparr>)"
  "circle_moves c (c\<lparr>cl_member_count := n\<rparr>)"
  "cl_status c = STATUS_PENDING \<Longrightarrow>
    circle_moves c (c\<lparr>cl_member_count := n, cl_status := STATUS_ACTIVE, cl_started_at := m\<rparr>)"
  by (simp_all add: circle_moves_def circle_evolves_def paid_positions_def config_of_def)

lemma check_deadline_moves:
  assumes "check_contribution_deadline E h s = Inr s'" "ci_circle s = Some c"
  shows "\<exists>c'. ci_circle s' = Some c' \<and> circle_moves c c'"
  using assms(1)
proof (rule check_deadline_Inr)
  fix c1 :: circle and ms s1
  let ?s = "s\<lparr>cb_reent := Some True\<rparr>"
  let ?t = "strike_non_contributors h c1 (cl_current_round c1) (round_contributors ?s (cl_current_round c1)) ms ?s"
  assume c: "ci_circle s = Some c1" "ci_members s = Some ms"
    and tr: "trigger_payout_internal E h (cl_current_round c1) ?t = Inr s1" and s': "s' = guard_leave s1"
  from strike_non_contributors_frame [of ?s ms h c1] c assms(2) have "ci_circle ?t = Some c" by fastforce
  from trigger_internal_moves [OF tr this] show ?thesis by (simp add: s')
qed

lemma batch_invite_moves:
  assumes "batch_invite h a as s = Inr s'" "ci_circle s = Some c"
  shows "\<exists>c'. ci_circle s' = Some c' \<and> circle_moves c c'"
  using assms(1)
proof (rule batch_invite_Inr)
  fix c1 :: circle and ms' :: "circle_member list" and ev
  let ?c = "if length ms' \<ge> cl_max_members c1 \<and> cl_status c1 = STATUS_PENDING
        then c1\<lparr>cl_member_count := length ms', cl_status := STATUS_ACTIVE, cl_started_at := now h\<rparr>
        else c1\<lparr>cl_member_count := length ms'\<rparr>"
  let ?s = "s\<lparr>cb_reent := Some True, ci_members := Some ms',
      ci_member_status := fold (\<lambda>m status. status(m \<mapsto> MEMBER_ACTIVE)) as (ci_member_status s),
      ci_circle := Some ?c\<rparr>"
  assume "ci_circle s = Some c1" and s': "s' = guard_leave (fold (\<lambda>m. publish (ev m)) ms' ?s)"
  then have "c1 = c" using assms(2) by simp
  moreover have "ci_circle s' = Some ?c"
    using fold_publish_core [of ?s ev ms'] by (simp add: s' core_same_def)
  ultimately show ?thesis using circle_moves_updates by simp
qed

lemma batch_payout_moves:
  assumes "batch_payout E h a rs xs r s = Inr s'" "ci_circle s = Some c" "mem_inv s"
  shows "\<exists>c'. ci_circle s' = Some c' \<and> circle_moves c c'"
  using assms(1)
proof (rule batch_payout_Inr)
  fix c1 c' :: circle and ms ms' ps' s1
  assume c: "ci_circle s = Some c1" "ci_members s = Some ms"
    and l: "batch_loop E h r (unwrap_or (ci_fee_bps s) 0) (zip rs xs) c1 ms (unwrap_or (ci_payouts s) [])
      (s\<lparr>cb_reent := Some True\<rparr>) = Inr (c', ms', ps', s1)"
    and s': "s' = guard_leave (s1\<lparr>ci_circle := Some c', ci_payouts := Some ps', ci_members := Some ms'\<rparr>)"
  from assms(2,3) c have "c1 = c" "circle_ok c1 ms" by (auto simp: mem_inv_def)
  with batch_loop_frame [OF l] obtain b where "c' = c\<lparr>cl_payout_bitmap := b\<rparr>"
    "paid_positions c \<subseteq> paid_positions c'" by blast
  then have "circle_moves c c'" by (simp add: circle_moves_def circle_evolves_def config_of_def)
  then show ?thesis by (simp add: s')
qed

lemma ci_exec_moves:
  assumes "ci_exec E h op s = Inr s'" "ci_circle s = Some c" "mem_inv s" "\<nexists>a t. op = CiSetToken a t"
  shows "\<exists>c'. ci_circle s' = Some c' \<and> circle_moves c c'"
proof (cases "touches_core op")
  case False
  with circle_side_core [OF assms(1)] assms(2) show ?thesis by (auto simp: core_same_def)
next
  case True
  note upd = circle_moves_updates
  show ?thesis
  proof (cases op)
    case (CiJoin a)
    with assms(1) have "circle_join E h a s = Inr s'" by simp
    then show ?thesis
      by (rule circle_join_Inr) (use assms(2) upd in auto)
  next
    case (CiContribute a x r)
    with assms(1,2) circle_contribute_evolves upd(1) show ?thesis by fastforce
  next
    case CiCheckDeadline
    with check_deadline_moves assms(1,2) show ?thesis by simp
  next
    case (CiTriggerPayout a r)
    with assms(1) have "trigger_payout E h a r s = Inr s'" by simp
    then show ?thesis
      by (rule trigger_payout_Inr) (use trigger_internal_moves assms(2) in fastforce)
  next
    case (CiExit a)
    with assms(1) have "circle_exit E h a s = Inr s'" by simp
    then show ?thesis
      by (rule circle_exit_Inr) (use assms(2) in \<open>auto dest!: maybe_transfer_core simp: core_same_def\<close>)
  next
    case (CiCancelCircle a)
    with assms(1,2) have "ci_circle s' = Some (c\<lparr>cl_status := STATUS_CANCELLED\<rparr>)"
      by (auto simp: cancel_circle_def seq_simps)
    with upd(2) show ?thesis by simp
  next
    case (CiReportLate u a r)
    with assms(1,2) have "ci_circle s' = Some c"
      by (auto simp: report_late_def seq_simps dest!: report_loop_frame)
    then show ?thesis by simp
  next
    case (CiRaiseDispute a e)
    with assms(1,2) have "ci_circle s' = Some (c\<lparr>cl_status := STATUS_DISPUTED\<rparr>)"
      by (auto simp: raise_dispute_def seq_simps)
    with upd(2) show ?thesis by simp
  next
    case (CiResolveDispute a r)
    with assms(1) have "resolve_dispute E h a r s = Inr s'" by simp
    from resolve_dispute_circle [OF this] assms(2) obtain st where
      "st = STATUS_ACTIVE \<or> st = STATUS_CANCELLED" "ci_circle s' = Some (c\<lparr>cl_status := st\<rparr>)"
      by auto
    with upd(2) [of st] show ?thesis by auto
  next
    case (CiBatchInvite a as)
    with batch_invite_moves assms(1,2) show ?thesis by simp
  next
    case (CiBatchPayout a rs xs r)
    with batch_payout_moves assms(1-3) show ?thesis by simp
  qed (use True assms(4) in simp_all)
qed

lemma ci_exec_evolves:
  assumes "ci_exec E h op s = Inr s'" "ci_circle s = Some c" "mem_inv s"
  shows "\<exists>c'. ci_circle s' = Some c' \<and> circle_evolves c c'"
proof (cases "\<exists>a t. op = CiSetToken a t")
  case True
  then obtain a t where "op = CiSetToken a t" by blast
  with assms(1,2) have "ci_circle s' = Some (c\<lparr>cl_token := t\<rparr>)" by (auto simp: set_token_def res_simps)
  then show ?thesis by (simp add: circle_evolves_def paid_positions_def config_of_def)
next
  case False
  with ci_exec_moves [OF assms] show ?thesis by (auto simp: circle_moves_def)
qed

lemma ci_run_evolves:
  assumes "ci_run E me s s'" "ci_circle s = Some c" "mem_inv s"
  shows "\<exists>c'. ci_circle s' = Some c' \<and> circle_evolves c c'"
  using assms
proof (induction rule: ci_run.induct)
  case (ci_refl s)
  then show ?case by simp
next
  case (ci_call s s1 h op s2)
  then obtain c1 where c1: "ci_circle s1 = Some c1" "circle_evolves c c1" by blast
  from ci_run_mem_inv [OF ci_call.hyps(1)] ci_call.prems(2) have "mem_inv s1" by blast
  from ci_exec_evolves [OF ci_call.hyps(3) c1(1) this] c1(2) circle_evolves_trans show ?case by blast
next
  case (ci_env s s1 l)
  then show ?case by simp
qed

lemma circle_init_Inr:
  assumes "circle_init E h salt admin factory config s = Inr s'"
  shows "ci_circle s' = Some (new_circle h factory config) \<and> ci_members s' = Some []
    \<and> ci_contributions s' = Some [] \<and> ci_admin s' = Some admin
    \<and> 2 \<le> cc_max_members config \<and> cc_max_members config \<le> MAX_CIRCLE_MEMBERS
    \<and> 0 \<le> cc_contribution_amount config"
  using assms by (auto simp: circle_init_def seq_simps Let_def init_vrf_def)

section \<open>Properties\<close>

text \<open>
  C4: every settled round uses up a different member. In every state reachable from construction the
  members have distinct addresses and sit at the positions 0, 1, 2, ... in the order they joined, the
  member count is the length of the list and within the configured size of at most 100; only positions
  of members are marked as paid, and the round counter is at most the number of paid positions. So a
  circle counts as completed only after at least as many distinct positions were paid as it has rounds,
  and one configured with more rounds than its members never completes.
\<close>

theorem rounds_need_distinct_members:
  assumes "circle_init E h0 salt admin factory config s0 = Inr s1" "ci_run E me s1 s"
    and "ci_circle s = Some c"
  shows "distinct (map mb_address (get_members s))
    \<and> map mb_position (get_members s) = [0..<length (get_members s)]
    \<and> cl_member_count c = length (get_members s)
    \<and> length (get_members s) \<le> cc_max_members config \<and> cc_max_members config \<le> MAX_CIRCLE_MEMBERS
    \<and> (\<forall>p. bit (cl_payout_bitmap c) p \<longrightarrow> p < length (get_members s))
    \<and> cl_current_round c \<le> card {p. bit (cl_payout_bitmap c) p}
    \<and> (cl_status c = STATUS_COMPLETED \<longrightarrow>
        cc_total_rounds config \<le> card {p. bit (cl_payout_bitmap c) p}
        \<and> cc_total_rounds config \<le> length (get_members s))"
proof -
  note init = circle_init_Inr [OF assms(1)] circle_init_mem_inv [OF assms(1)]
  from ci_run_mem_inv [OF assms(2) init(2)] assms(3)
  obtain ms where ms: "get_members s = ms" "circle_ok c ms" by (auto simp: mem_inv_def get_members_def)
  from ci_run_evolves [OF assms(2) _ init(2)] init(1) assms(3)
  have "config_of (c\<lparr>cl_token := cc_token config\<rparr>) = config_of (new_circle h0 factory config)"
    by (auto simp: circle_evolves_def new_circle_def)
  then have terms: "cl_max_members c = cc_max_members config" "cl_total_rounds c = cc_total_rounds config"
    by (simp_all add: config_of_def new_circle_def)
  note ok = circle_okD [OF ms(2)]
  have "card (paid_positions c) \<le> length ms"
    using card_mono [OF _ ok(7)] by simp
  then show ?thesis
    unfolding ms(1) using ok init(1) terms by (auto simp: paid_positions_def)
qed

text \<open>
  C9: the terms and the progress of a circle are never taken back. Along every run the configuration
  the circle was created with stays (the token apart, which the administrator may replace), the round
  counter does not go down, a position marked as paid stays marked, and the start time is fixed as soon
  as the circle has left the pending state, to which it does not return.
\<close>

theorem circle_terms_and_progress:
  assumes "circle_init E h0 salt admin factory config s0 = Inr s1" "ci_run E me s1 s"
    and "ci_run E me s s'" "ci_circle s = Some c"
  shows "\<exists>c'. ci_circle s' = Some c' \<and> (config_of c')\<lparr>cc_token := cc_token config\<rparr> = config
    \<and> cl_current_round c \<le> cl_current_round c'
    \<and> (\<forall>p. bit (cl_payout_bitmap c) p \<longrightarrow> bit (cl_payout_bitmap c') p)
    \<and> (cl_status c \<noteq> STATUS_PENDING \<longrightarrow>
        cl_status c' \<noteq> STATUS_PENDING \<and> cl_started_at c' = cl_started_at c)"
proof -
  note init = circle_init_Inr [OF assms(1)] circle_init_mem_inv [OF assms(1)]
  have inv: "mem_inv s" by (rule ci_run_mem_inv [OF assms(2) init(2)])
  from ci_run_evolves [OF assms(3,4) inv] obtain c' where
    c': "ci_circle s' = Some c'" "circle_evolves c c'" by blast
  from ci_run_evolves [OF assms(2) _ init(2)] init(1) assms(4)
  have e: "circle_evolves (new_circle h0 factory config) c" by auto
  from circle_evolves_trans [OF e c'(2)]
  have "config_of (c'\<lparr>cl_token := cc_token config\<rparr>) = config_of (new_circle h0 factory config)"
    by (simp add: circle_evolves_def new_circle_def)
  also have "\<dots> = config" by (simp add: config_of_def new_circle_def)
  finally have "(config_of c')\<lparr>cc_token := cc_token config\<rparr> = config"
    by (simp add: config_of_token_eq)
  with c' show ?thesis by (auto simp: circle_evolves_def paid_positions_def)
qed

text \<open>
  C7: a payout settles exactly the current round, for one member who was owed it, and pays that member. A
  successful \<open>trigger_payout\<close> was authorized by the organizer or the administrator, for the current
  round of an active circle; either the contribution window is closed or every active member has
  contributed; the recipient is an active member whose position was unpaid. Afterwards exactly
  that position is marked in addition, the round counter is one higher, the circle is completed
  exactly when that was the last round, and the members and their states are the same. The pool of the round
  is split into a fee and a net amount. If the net amount is positive, the payout log names
  that same member with it; in a circle that is not random the whole of it is transferred to that
  member and credited to nobody else, and in a random circle every share on record is transferred and
  credited to the member on the record and the rest goes to that member; the fee goes to the
  treasury. Otherwise nothing moves.
\<close>

theorem trigger_payout_settles_round:
  assumes "circle_init E h0 salt admin factory config s0 = Inr s1" "ci_run E me s1 s"
    and trig: "trigger_payout E h caller round s = Inr s'"
  shows "\<exists>c ms m c' net fee. ci_circle s = Some c \<and> ci_members s = Some ms \<and> ci_circle s' = Some c'
    \<and> authorized h caller \<and> (caller = cl_organizer c \<or> ci_admin s = Some caller)
    \<and> cl_status c = STATUS_ACTIVE \<and> round = cl_current_round c
    \<and> (contribution_window_closed h c
       \<or> (\<forall>x\<in>set ms. mb_status x = MEMBER_ACTIVE \<longrightarrow> mb_address x \<in> set (round_contributors s round)))
    \<and> m \<in> set ms \<and> mb_status m = MEMBER_ACTIVE \<and> \<not> bit (cl_payout_bitmap c) (mb_position m)
    \<and> {p. bit (cl_payout_bitmap c') p} = insert (mb_position m) {p. bit (cl_payout_bitmap c) p}
    \<and> cl_current_round c' = Suc round
    \<and> cl_status c' = (if cl_total_rounds c \<le> Suc round then STATUS_COMPLETED else STATUS_ACTIVE)
    \<and> map mb_address (get_members s') = map mb_address ms
    \<and> map mb_status (get_members s') = map mb_status ms
    \<and> apply_fee (round_contributed_total s round) (int (unwrap_or (ci_fee_bps s) 0)) = Inr (net, fee)
    \<and> payout_paid E h c ms (mb_address m) round net fee s s'
    \<and> (0 < net \<longrightarrow> cl_payout_type c \<noteq> PAYOUT_RANDOM \<longrightarrow>
        get_members s' = map (\<lambda>x. if mb_address x = mb_address m
          then x\<lparr>mb_total_received := mb_total_received x + net\<rparr> else x) ms
        \<and> (\<exists>l l'. tk_transfer (ce_token E) l (cl_token c) (cl_id c) (mb_address m) net = Some l'
           \<and> (if cl_total_rounds c \<le> Suc round then collateral_returned E c ms l' (cb_ledger s')
              else cb_ledger s' = l')))"
proof (rule trigger_payout_Inr [OF trig])
  fix s1
  let ?s = "s\<lparr>cb_reent := Some True\<rparr>"
  have inv: "mem_inv s" by (rule ci_run_mem_inv [OF assms(2) circle_init_mem_inv [OF assms(1)]])
  assume tr: "trigger_payout_internal E h round ?s = Inr s1" and s': "s' = guard_leave s1"
    and auth: "authorized h caller"
    and who: "\<exists>c. ci_circle s = Some c \<and> (caller = cl_organizer c \<or> ci_admin s = Some caller)"
  have cont: "round_contributors ?s round = round_contributors s round"
    "round_contributed_total ?s round = round_contributed_total s round"
    by (simp_all add: round_contributors_def round_contributed_total_def split: option.split)
  from trigger_payout_internal_Inr [OF tr, unfolded cont] obtain c ms ms' where
    c: "ci_circle s = Some c" "ci_members s = Some ms" "cl_status c = STATUS_ACTIVE" "round = cl_current_round c"
    and win: "contribution_window_closed h c
       \<or> (\<forall>m\<in>set ms. mb_status m = MEMBER_ACTIVE \<longrightarrow> mb_address m \<in> set (round_contributors s round))"
    and ms': "ci_members s1 = Some ms'" "same_people ms ms'" "map mb_status ms' = map mb_status ms"
    by (simp del: STATUS_ACTIVE_def MEMBER_ACTIVE_def) blast
  have "ci_circle ?s = Some c" "ci_members ?s = Some ms" using c by simp_all
  from trigger_payout_internal_paid [OF tr this, unfolded cont] obtain r net fee c' where
    r: "active_unpaid c ms r" and c': "ci_circle s1 = Some c'" "round_settled c r ms c'"
    and ap: "apply_fee (round_contributed_total s round) (int (unwrap_or (ci_fee_bps s) 0)) = Inr (net, fee)"
    and paid: "payout_paid E h c ms r round net fee ?s s1" by auto
  from inv c(1,2) have ok: "circle_ok c ms" by (auto simp: mem_inv_def)
  from active_unpaid_find [OF circle_okD(1) [OF ok] r] obtain m where
    m: "find_member r ms = Some m" "mb_status m = MEMBER_ACTIVE"
      "\<not> position_paid (cl_payout_bitmap c) (mb_position m)" by blast
  from circle_ok_find_position [OF ok m(1)] have p: "mb_position m < 128" by simp
  have "paid_positions c' = insert (mb_position m) (paid_positions c)"
    using c'(2) m(1) paid_positions_mark [OF p, of c]
    by (simp add: round_settled_def mark_recipient_def paid_positions_def)
  then have bits: "{p. bit (cl_payout_bitmap c') p} = insert (mb_position m) {p. bit (cl_payout_bitmap c) p}"
    by (simp add: paid_positions_def)
  have unpaid: "\<not> bit (cl_payout_bitmap c) (mb_position m)" using m(3) p by (simp add: position_paid_bit)
  have g: "get_members s' = ms'" "ci_circle s' = Some c'" "ci_members s' = ci_members s1"
    "ci_payouts s' = ci_payouts s1" "cb_ledger s' = cb_ledger s1"
    using c'(1) ms'(1) by (simp_all add: s' get_members_def guard_leave_def)
  have mr: "m \<in> set ms" "r = mb_address m" using find_member_Some [OF m(1)] by auto
  have pd: "payout_paid E h c ms (mb_address m) round net fee s s'"
    using paid payout_paid_cong [of ?s s s1 s'] g mr(2) by simp
  have nxt: "cl_current_round c' = Suc round"
    "cl_status c' = (if cl_total_rounds c \<le> Suc round then STATUS_COMPLETED else STATUS_ACTIVE)"
    using c'(2) c(3,4) by (simp_all add: round_settled_def)
  have people: "map mb_address (get_members s') = map mb_address ms" "map mb_status (get_members s') = map mb_status ms"
    using ms'(2,3) g(1) by (simp_all add: same_people_def)
  have by_whom: "caller = cl_organizer c \<or> ci_admin s = Some caller" using who c(1) by auto
  have "0 < net \<longrightarrow> cl_payout_type c \<noteq> PAYOUT_RANDOM \<longrightarrow>
        get_members s' = map (\<lambda>x. if mb_address x = mb_address m
          then x\<lparr>mb_total_received := mb_total_received x + net\<rparr> else x) ms
        \<and> (\<exists>l l'. tk_transfer (ce_token E) l (cl_token c) (cl_id c) (mb_address m) net = Some l'
           \<and> (if cl_total_rounds c \<le> Suc round then collateral_returned E c ms l' (cb_ledger s')
              else cb_ledger s' = l'))"
    using payout_paid_unshared [OF pd] by (simp add: get_members_def)
  with c win auth ap bits unpaid g(2) mr(1) m(2) pd nxt people by_whom show ?thesis by blast
qed

text \<open>
  Once a contribution window has closed, no contribution ever succeeds again. The deadline is
  computed from the time the circle started, which no later round moves: if the window of an active
  circle is closed at some time, every call of \<open>contribute\<close> in every later state, for whatever round,
  member and amount, fails.
\<close>

theorem closed_window_is_final:
  assumes "circle_init E h0 salt admin factory config s0 = Inr s1" "ci_run E me s1 s"
    and "ci_circle s = Some c" "cl_status c \<noteq> STATUS_PENDING" "contribution_window_closed h c"
    and "ci_run E me s s'" "now h \<le> now h'"
  shows "circle_contribute E h' a x round s' \<noteq> Inr s''"
proof
  assume "circle_contribute E h' a x round s' = Inr s''"
  then show False
  proof (rule circle_contribute_pieces)
    fix c1 :: circle and on_time
    assume c1: "ci_circle s' = Some c1" and t: "contribution_on_time h' c1 = Inr on_time"
    have "mem_inv s" by (rule ci_run_mem_inv [OF assms(2) circle_init_mem_inv [OF assms(1)]])
    from ci_run_evolves [OF assms(6,3) this] c1 have "circle_evolves c c1" by simp
    then have "cl_started_at c1 = cl_started_at c"
      "cl_contribution_deadline_seconds c1 = cl_contribution_deadline_seconds c"
      "cl_grace_period_seconds c1 = cl_grace_period_seconds c"
      using assms(4) by (simp_all add: circle_evolves_def config_of_def)
    with assms(5,7) t show False
      by (auto simp: contribution_window_closed_def round_forfeit_time_def round_contribution_deadline_def
          contribution_on_time_def seq_simps int_simps split: option.splits if_splits)
  qed
qed

section \<open>The properties on concrete inputs\<close>

fun ci_execs ::
    "'l circle_env \<Rightarrow> (host \<times> circle_op) list \<Rightarrow> 'l circle_state \<Rightarrow> (circle_error, 'l circle_state) res" where
  "ci_execs E [] s = Inr s"
| "ci_execs E ((h, op) # xs) s = bind_res (ci_exec E h op s) (ci_execs E xs)"

lemma ci_execs_run:
  assumes "ci_execs E xs s1 = Inr s2" "\<forall>(h, _)\<in>set xs. self h = me" "ci_run E me s s1"
  shows "ci_run E me s s2"
  using assms
proof (induction xs arbitrary: s1)
  case Nil
  then show ?case by simp
next
  case (Cons p xs)
  obtain h op where p: "p = (h, op)" by (cases p)
  from Cons.prems(1) p obtain s3 where "ci_exec E h op s1 = Inr s3" "ci_execs E xs s3 = Inr s2"
    by (auto simp: bind_res_Inr)
  with Cons.IH [of s3] Cons.prems(2,3) p ci_call show ?case by fastforce
qed

text \<open>A world in which every transfer succeeds, and a circle of two members and two rounds.\<close>

definition cw_env :: "unit circle_env" where
  "cw_env = \<lparr>ce_token = \<lparr>tk_balance = \<lambda>_ _ _. 1000, tk_transfer = \<lambda>_ _ _ _ _. Some ()\<rparr>,
     ce_deposit_fee = \<lambda>_ _ _ _ _. Some (), ce_max_size = \<lambda>_ _ _. None, ce_max_contrib = \<lambda>_ _ _. None,
     ce_yield_rate = \<lambda>_ _ _. None, ce_sha = \<lambda>b. b, ce_xdr = \<lambda>_. []\<rparr>"

definition cw_host :: "nat \<Rightarrow> host" where
  "cw_host t = \<lparr>self = 100, now = t, seq = t, authorized = \<lambda>a. a \<noteq> 100\<rparr>"

definition cw_config :: circle_config where
  "cw_config = \<lparr>cc_organizer = 2, cc_token = 9, cc_name = ''circle'', cc_contribution_amount = 50,
     cc_max_members = 2, cc_payout_type = PAYOUT_FIXED, cc_total_rounds = 2,
     cc_contribution_deadline_seconds = 100, cc_min_moi_score = 0, cc_collateral_amount = 0,
     cc_penalty_bps = 0, cc_grace_period_seconds = 0, cc_max_strikes = 3, cc_slug = ''c'',
     cc_max_withdrawal_per_tx = 0, cc_daily_withdrawal_limit = 0, cc_min_duration_seconds = 0\<rparr>"

definition cw_first_round :: "(host \<times> circle_op) list" where
  "cw_first_round = [(cw_host 10, CiJoin 5), (cw_host 11, CiJoin 6), (cw_host 12, CiContribute 5 50 0),
     (cw_host 13, CiContribute 6 50 0)]"

definition cw_second_round :: "(host \<times> circle_op) list" where
  "cw_second_round = [(cw_host 15, CiContribute 5 50 1), (cw_host 16, CiContribute 6 50 1)]"

lemmas cw_eval = circle_init_def cw_env_def cw_config_def cw_host_def check_tier_limits_def
  circle_empty_def rp_empty_def new_circle_def init_vrf_def Let_def rep_of_def storage_get_score_def
  circle_join_def guard_new_def guard_leave_def when_not_paused_def is_paused_def require_auth_def
  publish_def new_member_def u_checked_add_def token_transfer_def circle_contribute_def
  struck_in_round_def is_payout_scheduled_def check_member_status_def contribution_on_time_def
  store_contribution_def update_streak_internal_def rep_call_def i128_saturating_add_def i128_max_def
  i128_min_def trigger_payout_def trigger_payout_internal_def resolve_recipient_def resolve_fixed_def
  pos_to_addr_def position_paid_bit active_members_awaiting_def round_contributors_def
  contributed_in_def contribution_window_closed_def round_forfeit_time_def
  round_contribution_deadline_def round_contributed_total_def apply_fee_def
  calculate_percentage_def safe_add_def safe_sub_def safe_mul_def safe_div_def
  i128_checked_add_def i128_checked_sub_def i128_checked_mul_def i128_checked_div_def chk_i128_def
  in_i128_def sdiv_nonneg settle_round_def get_yield_rate_def mark_recipient_def find_member_def
  pay_round_fee_def pay_dust_def advance_round_def complete_circle_def payout_entry_def
  mark_paid_def bump_streak_def

text \<open>The circle after its construction, before the payout of its first round, and at the end.\<close>

lemma cw_start:
  "\<exists>s. circle_init cw_env (cw_host 5) [] 1 3 cw_config (circle_empty ()) = Inr s
    \<and> ci_circle s = Some (new_circle (cw_host 5) 3 cw_config)"
  by (simp add: cw_eval)

lemma cw_run_payout:
  "\<exists>s1 s2 s3 c2. circle_init cw_env (cw_host 5) [] 1 3 cw_config (circle_empty ()) = Inr s1
    \<and> ci_execs cw_env cw_first_round s1 = Inr s2 \<and> ci_circle s2 = Some c2
    \<and> cl_status c2 = STATUS_ACTIVE \<and> contribution_window_closed (cw_host 200) c2
    \<and> trigger_payout cw_env (cw_host 14) 2 0 s2 = Inr s3"
  by (simp add: cw_first_round_def cw_eval)

lemma cw_run_completed:
  "\<exists>s1 s2 c2. circle_init cw_env (cw_host 5) [] 1 3 cw_config (circle_empty ()) = Inr s1
    \<and> ci_execs cw_env (cw_first_round @ [(cw_host 14, CiTriggerPayout 2 0)] @ cw_second_round
         @ [(cw_host 17, CiTriggerPayout 2 1)]) s1 = Inr s2
    \<and> ci_circle s2 = Some c2 \<and> cl_status c2 = STATUS_COMPLETED"
  by (simp add: cw_first_round_def cw_second_round_def cw_eval)

lemma cw_hosts:
  "\<forall>(h, _)\<in>set cw_first_round. self h = 100"
  "\<forall>(h, _)\<in>set (cw_first_round @ [(cw_host 14, CiTriggerPayout 2 0)] @ cw_second_round
      @ [(cw_host 17, CiTriggerPayout 2 1)]). self h = 100"
  by (simp_all add: cw_first_round_def cw_second_round_def cw_host_def)

theorem rounds_need_distinct_members_witness:
  "\<exists>(s :: unit circle_state) c. ci_circle s = Some c \<and> cl_status c = STATUS_COMPLETED
    \<and> 2 \<le> card {p. bit (cl_payout_bitmap c) p}"
proof -
  obtain s1 s2 c2 where i: "circle_init cw_env (cw_host 5) [] 1 3 cw_config (circle_empty ()) = Inr s1"
    and e: "ci_execs cw_env (cw_first_round @ [(cw_host 14, CiTriggerPayout 2 0)] @ cw_second_round
         @ [(cw_host 17, CiTriggerPayout 2 1)]) s1 = Inr s2"
    and c2: "ci_circle s2 = Some c2" "cl_status c2 = STATUS_COMPLETED"
    using cw_run_completed by blast
  from rounds_need_distinct_members [OF i ci_execs_run [OF e cw_hosts(2) ci_refl] c2(1)] c2
  show ?thesis by (auto simp: cw_config_def)
qed

theorem circle_terms_and_progress_witness:
  "\<exists>(s :: unit circle_state) c. ci_circle s = Some c \<and> (config_of c)\<lparr>cc_token := 9\<rparr> = cw_config"
proof -
  obtain s1 s2 s3 c2 where i: "circle_init cw_env (cw_host 5) [] 1 3 cw_config (circle_empty ()) = Inr s1"
    and e: "ci_execs cw_env cw_first_round s1 = Inr s2" and c2: "ci_circle s2 = Some c2"
    using cw_run_payout by blast
  have r: "ci_run cw_env 100 s1 s2" by (rule ci_execs_run [OF e cw_hosts(1) ci_refl])
  obtain c1 where "ci_circle s1 = Some c1" using cw_start i by auto
  from circle_terms_and_progress [OF i ci_refl r this] show ?thesis by (auto simp: cw_config_def)
qed

theorem trigger_payout_settles_round_witness:
  "\<exists>(s :: unit circle_state) s'. trigger_payout cw_env (cw_host 14) 2 0 s = Inr s'
    \<and> (\<exists>c'. ci_circle s' = Some c' \<and> cl_current_round c' = 1)"
proof -
  obtain s1 s2 s3 where i: "circle_init cw_env (cw_host 5) [] 1 3 cw_config (circle_empty ()) = Inr s1"
    and e: "ci_execs cw_env cw_first_round s1 = Inr s2"
    and t: "trigger_payout cw_env (cw_host 14) 2 0 s2 = Inr s3"
    using cw_run_payout by blast
  from trigger_payout_settles_round [OF i ci_execs_run [OF e cw_hosts(1) ci_refl] t] t
  show ?thesis by force
qed

theorem closed_window_is_final_witness:
  "\<exists>s :: unit circle_state. \<forall>s''. circle_contribute cw_env (cw_host 201) 5 50 0 s \<noteq> Inr s''"
proof -
  obtain s1 s2 c2 where i: "circle_init cw_env (cw_host 5) [] 1 3 cw_config (circle_empty ()) = Inr s1"
    and e: "ci_execs cw_env cw_first_round s1 = Inr s2"
    and c2: "ci_circle s2 = Some c2" "cl_status c2 = STATUS_ACTIVE" "contribution_window_closed (cw_host 200) c2"
    using cw_run_payout by blast
  have p: "cl_status c2 \<noteq> STATUS_PENDING" "now (cw_host 200) \<le> now (cw_host 201)"
    using c2(2) by (simp_all add: cw_host_def)
  from closed_window_is_final [OF i ci_execs_run [OF e cw_hosts(1) ci_refl] c2(1) p(1) c2(3) ci_refl p(2)]
  show ?thesis by blast
qed

end
