(* ===== verification/Circle_Books.thy ===== *)
theory Circle_Books
  imports Circle_Invariant
begin

text \<open>
  The books of the savings circle: the log of contributions, the total and the contributors kept per
  round, and the marks that keep a member from paying twice. Only \<open>contribute\<close> writes them; the other
  operations leave them alone and only ever add members. The invariant that follows says the three
  views agree in every reachable state.
\<close>

section \<open>Who writes the books\<close>

definition books_same :: "'l circle_state \<Rightarrow> 'l circle_state \<Rightarrow> bool" where
  "books_same s s' \<longleftrightarrow> ci_contributions s' = ci_contributions s \<and> ci_round_total s' = ci_round_total s
     \<and> ci_round_contributors s' = ci_round_contributors s
     \<and> ci_member_contributed s' = ci_member_contributed s"

text \<open>
  \<open>joined\<close> are the addresses of the members; \<open>books_step\<close> leaves the books alone, loses no member, and
  grants the status of an active member to members only.
\<close>

definition joined :: "'l circle_state \<Rightarrow> addr set" where
  "joined s = mb_address ` set (get_members s)"

definition books_step :: "'l circle_state \<Rightarrow> 'l circle_state \<Rightarrow> bool" where
  "books_step s s' \<longleftrightarrow> books_same s s' \<and> joined s \<subseteq> joined s'
     \<and> (\<forall>a. ci_member_status s' a = Some MEMBER_ACTIVE \<longrightarrow>
          ci_member_status s a = Some MEMBER_ACTIVE \<or> a \<in> joined s')"

lemma books_step_trans: "books_step s t \<Longrightarrow> books_step t u \<Longrightarrow> books_step s u"
  unfolding books_step_def books_same_def by (metis subset_iff)

lemma books_step_core: "core_same s t \<Longrightarrow> books_step s t"
  by (simp add: core_same_def books_step_def books_same_def joined_def get_members_def)

lemma joined_people: "same_people ms ms' \<Longrightarrow> mb_address ` set ms' = mb_address ` set ms"
  unfolding same_people_def by (metis list.set_map)

text \<open>A step that replaces the circle and writes back the same people.\<close>

lemma books_step_people:
  assumes "ci_members s = Some ms" "ci_members s' = Some ms'" "same_people ms ms'" "books_same s s'"
    and "\<And>a. ci_member_status s' a = Some MEMBER_ACTIVE \<Longrightarrow> ci_member_status s a = Some MEMBER_ACTIVE"
  shows "books_step s s'"
  using assms joined_people [OF assms(3)] by (simp add: books_step_def joined_def get_members_def)

section \<open>Steps of the operations\<close>

lemma strike_member_books:
  assumes "strike_member h c round m s = (m', s')"
  shows "books_same s s' \<and> (\<forall>a. ci_member_status s' a = Some MEMBER_ACTIVE \<longrightarrow>
    ci_member_status s a = Some MEMBER_ACTIVE)"
  using assms
  by (auto simp: strike_member_def Let_def record_round_strike_def rep_call_def books_same_def
      split: if_splits)

lemma books_same_trans: "books_same s t \<Longrightarrow> books_same t u \<Longrightarrow> books_same s u"
  by (simp add: books_same_def)

lemma strike_loop_books:
  assumes "strike_loop h c round cs ms s = (ms', ch, s')"
  shows "books_same s s' \<and> (\<forall>a. ci_member_status s' a = Some MEMBER_ACTIVE \<longrightarrow>
    ci_member_status s a = Some MEMBER_ACTIVE)"
  using assms
proof (induction ms arbitrary: ms' ch s)
  case Nil
  then show ?case by (simp add: books_same_def)
next
  case (Cons m ms)
  show ?case
  proof (cases "mb_status m \<noteq> MEMBER_ACTIVE \<or> contributed_in cs (mb_address m)")
    case True
    with Cons.prems obtain ns where "strike_loop h c round cs ms s = (ns, ch, s')"
      by (auto split: prod.splits)
    with Cons.IH show ?thesis by blast
  next
    case False
    with Cons.prems obtain m1 s1 ns ch1 where m: "strike_member h c round m s = (m1, s1)"
      and l: "strike_loop h c round cs ms s1 = (ns, ch1, s')"
      by (auto split: prod.splits)
    from strike_member_books [OF m] Cons.IH [OF l] show ?thesis using books_same_trans by blast
  qed
qed

lemma strike_non_contributors_books:
  assumes "ci_members s = Some ms"
  shows "books_step s (strike_non_contributors h c round cs ms s)"
proof -
  obtain ms' ch s' where l: "strike_loop h c round cs ms s = (ms', ch, s')"
    by (cases "strike_loop h c round cs ms s")
  note f = strike_loop_frame [OF l] and b = strike_loop_books [OF l]
  have sp: "same_people ms ms'" and m: "ci_members s' = Some ms" using f assms by simp_all
  show ?thesis
  proof (cases ch)
    case True
    then have e: "strike_non_contributors h c round cs ms s = s'\<lparr>ci_members := Some ms'\<rparr>"
      by (simp add: strike_non_contributors_def l)
    show ?thesis unfolding e
      by (rule books_step_people [OF assms _ sp]) (use b in \<open>simp_all add: books_same_def\<close>)
  next
    case False
    then have e: "strike_non_contributors h c round cs ms s = s'" by (simp add: strike_non_contributors_def l)
    show ?thesis unfolding e
      by (rule books_step_people [OF assms m same_people_refl]) (use b in simp_all)
  qed
qed

lemma settle_empty_round_books:
  assumes "settle_empty_round E h c r pt round s = Inr s'" "ci_members s = Some ms"
  shows "books_step s s'"
proof -
  let ?s = "s\<lparr>ci_payouts := Some (unwrap_or (ci_payouts s) [] @ [payout_entry h r round 0 0 pt]),
    ci_members := Some ms\<rparr>"
  let ?c = "(mark_recipient r ms c)\<lparr>cl_current_round := Suc (cl_current_round c)\<rparr>"
  obtain c1 s1 where adv: "advance_round E ?c ?s = (c1, s1)" by (cases "advance_round E ?c ?s")
  from assms adv have s': "\<exists>ev ev' hs. s' = publish ev (publish ev' (s1\<lparr>ci_circle := Some (c1\<lparr>cl_health_score := hs\<rparr>)\<rparr>))"
    by (auto simp: settle_empty_round_def res_simps int_simps Let_def)
  from advance_round_frame [OF adv] have "core_same ?s s1" by blast
  then have "ci_members s' = Some ms" "books_same s s'" "ci_member_status s' = ci_member_status s"
    using s' by (auto simp: core_same_def books_same_def)
  then show ?thesis by (intro books_step_people [OF assms(2) _ same_people_refl]) simp_all
qed

lemma settle_round_books:
  assumes "settle_round E h c r pt round net fee s = Inr s'" "ci_members s = Some ms"
  shows "books_step s s'"
proof (rule settle_round_pieces [OF assms])
  fix y s0 tw mw ms1 ps1 d1 s1 s2 ms2 ps2 d2 s3 tp tf c4 s4 ev ev'
  let ?c = "mark_recipient r ms c"
  assume y: "get_yield_rate E h round s = Inr (y, s0)"
    and sh: "(if pt = PAYOUT_RANDOM
      then share_loop E h ?c round pt net tw mw (map mb_address ms) ms
        (unwrap_or (ci_payouts s0) [] @ [payout_entry h r round net fee pt]) 0 s0
      else Inr (ms, unwrap_or (ci_payouts s0) [] @ [payout_entry h r round net fee pt], 0, s0))
      = (Inr (ms1, ps1, d1, s1) :: (circle_error, _) res)"
    and fe: "pay_round_fee E ?c round fee s1 = Inr s2"
    and du: "pay_dust E h ?c round pt net r ms1 ps1 d1 s2 = Inr (ms2, ps2, d2, s3)"
    and adv: "advance_round E (?c\<lparr>cl_current_round := Suc (cl_current_round c),
       cl_total_payouts := tp, cl_total_fees := tf\<rparr>) s3 = (c4, s4)"
    and fin: "s' = publish ev (publish ev' (s4\<lparr>ci_circle := Some (c4\<lparr>cl_health_score :=
        hs_score (calculate_health_score ms2 (unwrap_or (ci_contributions s) []))\<rparr>),
        ci_payouts := Some ps2, ci_members := Some ms2\<rparr>)) \<and> cl_status c4 \<noteq> STATUS_COMPLETED
     \<or> complete_circle E h (c4\<lparr>cl_health_score :=
        hs_score (calculate_health_score ms2 (unwrap_or (ci_contributions s) []))\<rparr>) ms2
       (publish ev (publish ev' (s4\<lparr>ci_circle := Some (c4\<lparr>cl_health_score :=
        hs_score (calculate_health_score ms2 (unwrap_or (ci_contributions s) []))\<rparr>),
        ci_payouts := Some ps2, ci_members := Some ms2\<rparr>))) = Inr s' \<and> cl_status c4 = STATUS_COMPLETED"
  from sh have 1: "same_people ms ms1 \<and> core_same s0 s1"
    using share_loop_frame by (fastforce split: if_splits)
  from pay_dust_frame [OF du] 1 have 2: "same_people ms ms2" using same_people_trans by blast
  from get_yield_rate_core [OF y] 1 pay_round_fee_core [OF fe] pay_dust_frame [OF du]
    advance_round_frame [OF adv] have core: "core_same s s4"
    using core_same_trans by blast
  from fin core have "ci_members s' = Some ms2 \<and> books_same s s' \<and> ci_member_status s' = ci_member_status s"
    by (auto simp: core_same_def books_same_def dest!: complete_circle_core)
  then show ?thesis by (intro books_step_people [OF assms(2) _ 2]) simp_all
qed

lemma trigger_internal_books:
  assumes "trigger_payout_internal E h round s = Inr s'"
  shows "books_step s s'"
proof -
  from assms obtain c r pt s1 ms net fee where
    r: "resolve_recipient E c round s = Inr ((r, pt), s1)" and ms: "ci_members s1 = Some ms"
    and fin: "if net \<le> 0 then settle_empty_round E h c r pt round s1 = Inr s'
      else settle_round E h c r pt round net fee s1 = Inr s'"
    by (fastforce simp: trigger_payout_internal_def res_simps Let_def split: if_splits)
  from resolve_recipient_Inr [OF r] have "books_step s s1" by (intro books_step_core) blast
  moreover from fin have "books_step s1 s'"
    using settle_empty_round_books [OF _ ms] settle_round_books [OF _ ms] by (meson order_refl)
  ultimately show ?thesis by (rule books_step_trans)
qed

lemma trigger_payout_books:
  assumes "trigger_payout E h a round s = Inr s'"
  shows "books_step s s'"
proof (rule trigger_payout_Inr [OF assms])
  fix s1
  assume "trigger_payout_internal E h round (s\<lparr>cb_reent := Some True\<rparr>) = Inr s1" "s' = guard_leave s1"
  with trigger_internal_books have "books_step (s\<lparr>cb_reent := Some True\<rparr>) s1" "s' = guard_leave s1" by blast+
  then show ?thesis
    using books_step_trans [OF books_step_core books_step_trans [OF _ books_step_core]] core_same_upd by blast
qed

lemma check_deadline_books:
  assumes "check_contribution_deadline E h s = Inr s'"
  shows "books_step s s'"
proof (rule check_deadline_Inr [OF assms])
  fix c :: circle and ms s1
  let ?s = "s\<lparr>cb_reent := Some True\<rparr>"
  let ?t = "strike_non_contributors h c (cl_current_round c) (round_contributors ?s (cl_current_round c)) ms ?s"
  assume ms: "ci_members s = Some ms"
    and tr: "trigger_payout_internal E h (cl_current_round c) ?t = Inr s1" and s': "s' = guard_leave s1"
  have "books_step ?s ?t" by (rule strike_non_contributors_books) (simp add: ms)
  from books_step_trans [OF this trigger_internal_books [OF tr]] have "books_step ?s s1" .
  then show ?thesis unfolding s'
    using books_step_trans [OF books_step_core books_step_trans [OF _ books_step_core]] core_same_upd by blast
qed


lemma circle_join_books:
  assumes "circle_join E h a s = Inr s'"
  shows "books_step s s'"
proof (rule circle_join_Inr [OF assms])
  fix c :: circle and s1 ev
  let ?ms = "unwrap_or (ci_members s) []"
  let ?c = "if cl_max_members c \<le> Suc (cl_member_count c)
        then c\<lparr>cl_member_count := Suc (cl_member_count c), cl_status := STATUS_ACTIVE, cl_started_at := now h\<rparr>
        else c\<lparr>cl_member_count := Suc (cl_member_count c)\<rparr>"
  assume t: "(if cl_collateral_amount c > 0
      then token_transfer (ce_token E) (cl_token c) a (cl_id c) (cl_collateral_amount c) (s\<lparr>cb_reent := Some True\<rparr>)
      else Inr (s\<lparr>cb_reent := Some True\<rparr>)) = (Inr s1 :: (circle_error, _) res)"
    and s': "s' = guard_leave (publish ev (s1\<lparr>ci_circle := Some ?c,
      ci_members := Some (?ms @ [new_member a (length ?ms) (now h)]),
      ci_member_status := (ci_member_status s1)(a \<mapsto> MEMBER_ACTIVE)\<rparr>))"
  from maybe_transfer_core [OF t] show ?thesis
    unfolding s' books_step_def joined_def get_members_def
    by (auto simp: core_same_def books_same_def new_member_def guard_leave_def split: if_splits)
qed

lemma circle_exit_books:
  assumes "circle_exit E h a s = Inr s'"
  shows "books_step s s'"
proof (rule circle_exit_Inr [OF assms])
  fix c :: circle and ms ms' pen s1 ev
  let ?s = "s\<lparr>cb_reent := Some True, ci_members := Some ms',
           ci_member_status := (ci_member_status (s\<lparr>cb_reent := Some True\<rparr>))(a \<mapsto> MEMBER_EXITED)\<rparr>"
  assume ms: "ci_members s = Some ms"
    and ex: "exit_loop h a (unwrap_or (ci_contributions s) []) ms 0 = Inr (ms', pen)"
    and t: "(if cl_collateral_amount c > 0
      then token_transfer (ce_token E) (cl_token c) (cl_id c) a (cl_collateral_amount c) ?s
      else Inr ?s) = (Inr s1 :: (circle_error, _) res)"
    and s': "s' = guard_leave (publish ev s1)"
  from maybe_transfer_core [OF t] show ?thesis
    by (intro books_step_people [OF ms _ exit_loop_same [OF ex]])
      (auto simp: s' core_same_def books_same_def split: if_splits)
qed

lemma report_loop_books:
  "report_loop h c round a ms s = Inr (ms', s') \<Longrightarrow>
    books_same s s' \<and> (\<forall>b. ci_member_status s' b = Some MEMBER_ACTIVE \<longrightarrow> ci_member_status s b = Some MEMBER_ACTIVE)"
proof (induction ms arbitrary: ms' s)
  case Nil
  then show ?case by (simp add: books_same_def)
next
  case (Cons m ms)
  show ?case
  proof (cases "mb_address m = a")
    case False
    with Cons.prems obtain ns where "report_loop h c round a ms s = Inr (ns, s')" "ms' = m # ns"
      by (auto simp: res_simps)
    with Cons.IH show ?thesis by fastforce
  next
    case True
    with Cons.prems obtain m1 s1 ns where l: "report_loop h c round a ms s1 = Inr (ns, s')"
      and 1: "books_same s s1" "\<forall>b. ci_member_status s1 b = Some MEMBER_ACTIVE \<longrightarrow> ci_member_status s b = Some MEMBER_ACTIVE"
      by (fastforce simp: res_simps Let_def record_round_strike_def rep_call_def books_same_def split: if_splits)
    from Cons.IH [OF l] 1 show ?thesis using books_same_trans by blast
  qed
qed

lemma report_late_books:
  assumes "report_late h u a round s = Inr s'"
  shows "books_step s s'"
proof -
  from assms obtain c ms ms' s1 where ms: "ci_members s = Some ms"
    and l: "report_loop h c round a ms (s\<lparr>cb_reent := Some True\<rparr>) = Inr (ms', s1)"
    and s': "s' = guard_leave (s1\<lparr>ci_members := Some ms'\<rparr>)"
    by (auto simp: report_late_def seq_simps)
  from report_loop_frame [OF l] report_loop_books [OF l] show ?thesis
    by (intro books_step_people [OF ms, of _ ms']) (auto simp: s' books_same_def)
qed

lemma cancel_circle_books:
  assumes "cancel_circle E h a s = Inr s'"
  shows "books_step s s'"
proof -
  from assms obtain c ms s1 ev where ms: "ci_members s = Some ms"
    and r: "(if cl_collateral_amount c > 0 then refund_collateral E c ms (s\<lparr>cb_reent := Some True\<rparr>)
        else Inr (s\<lparr>cb_reent := Some True\<rparr>)) = (Inr s1 :: (circle_error, _) res)"
    and s': "s' = guard_leave (publish ev (s1\<lparr>ci_circle := Some (c\<lparr>cl_status := STATUS_CANCELLED\<rparr>)\<rparr>))"
    by (clarsimp simp: cancel_circle_def seq_simps simp del: STATUS_CANCELLED_def)
  from r have "core_same (s\<lparr>cb_reent := Some True\<rparr>) s1"
    by (auto split: if_splits dest: refund_collateral_core)
  with ms show ?thesis
    by (intro books_step_people [OF ms _ same_people_refl]) (simp_all add: s' core_same_def books_same_def)
qed

lemma raise_dispute_books: "raise_dispute h a e s = Inr s' \<Longrightarrow> books_step s s'"
  by (auto simp: raise_dispute_def seq_simps books_step_def books_same_def joined_def get_members_def)

lemma set_token_books: "set_token h a x s = Inr s' \<Longrightarrow> books_step s s'"
  by (auto simp: set_token_def res_simps books_step_def books_same_def joined_def get_members_def)

lemma refund_loop_members_books:
  "refund_loop_members E h t ms s = Inr (ms', s') \<Longrightarrow> core_same s s'"
proof (induction ms arbitrary: ms' s)
  case Nil
  then show ?case by simp
next
  case (Cons m ms)
  then show ?case by (fastforce simp: res_simps core_same_def split: if_splits)
qed

lemma resolve_dispute_books:
  assumes "resolve_dispute E h a r s = Inr s'"
  shows "books_step s s'"
proof -
  have sp: "joined s \<subseteq> joined s'"
    using resolve_dispute_circle [OF assms] joined_people
    by (fastforce simp: joined_def get_members_def unwrap_or_def)
  from assms obtain c d where c: "ci_circle s = Some c" "ci_dispute s = Some d"
    and r: "r = 1 \<or> r = 2 \<or> r = 3 \<or> r = 4"
    by (auto simp: resolve_dispute_def seq_simps Let_def split: if_splits)
  have "books_same s s' \<and> ci_member_status s' = ci_member_status s"
  proof (cases "r = 4")
    case True
    with assms c obtain ms' s1 where "refund_loop_members E h (cl_token c) (unwrap_or (ci_members s) []) s = Inr (ms', s1)"
      and s': "books_same s1 s'" "ci_member_status s' = ci_member_status s1"
      by (auto simp: resolve_dispute_def seq_simps Let_def books_same_def)
    from refund_loop_members_books [OF this(1)] s' show ?thesis by (simp add: core_same_def books_same_def)
  next
    case False
    with assms c r show ?thesis
      by (auto simp: resolve_dispute_def seq_simps Let_def books_same_def res_simps split: option.splits if_splits)
  qed
  with sp show ?thesis by (simp add: books_step_def)
qed

lemma fold_status:
  "fold (\<lambda>m st. st(m \<mapsto> v)) as f a = (if a \<in> set as then Some v else f a)"
  by (induction "as" arbitrary: f) auto

lemma invite_loop_addresses:
  "invite_loop h c score as ms = Inr ms' \<Longrightarrow> map mb_address ms' = map mb_address ms @ as"
proof (induction "as" arbitrary: ms)
  case Nil
  then show ?case by simp
next
  case (Cons a "as")
  then show ?case by (auto simp: new_member_def split: if_splits)
qed

lemma batch_invite_books:
  assumes "batch_invite h a as s = Inr s'"
  shows "books_step s s'"
proof (rule batch_invite_Inr [OF assms])
  fix c :: circle and ms' :: "circle_member list" and ev
  let ?c = "if length ms' \<ge> cl_max_members c \<and> cl_status c = STATUS_PENDING
            then c\<lparr>cl_member_count := length ms', cl_status := STATUS_ACTIVE, cl_started_at := now h\<rparr>
            else c\<lparr>cl_member_count := length ms'\<rparr>"
  let ?s = "s\<lparr>cb_reent := Some True, ci_members := Some ms',
          ci_member_status := fold (\<lambda>m status. status(m \<mapsto> MEMBER_ACTIVE)) as (ci_member_status s),
          ci_circle := Some ?c\<rparr>"
  assume l: "invite_loop h c (storage_get_score (rep_of (s\<lparr>cb_reent := Some True\<rparr>))) as (unwrap_or (ci_members s) []) = Inr ms'"
    and s': "s' = guard_leave (fold (\<lambda>m. publish (ev m)) ms' ?s)"
  from invite_loop_addresses [OF l] have "mb_address ` set ms' = joined s \<union> set as"
    unfolding joined_def get_members_def by (metis list.set_map set_append)
  then have "books_step s ?s"
    by (simp add: books_step_def books_same_def joined_def get_members_def fold_status)
  from books_step_trans [OF this books_step_core [OF fold_publish_core]] show ?thesis
    unfolding s' using books_step_trans [OF _ books_step_core [OF core_same_upd(5)]] by blast
qed

lemma batch_payout_books:
  assumes "batch_payout E h a rs xs round s = Inr s'" "mem_inv s"
  shows "books_step s s'"
proof (rule batch_payout_Inr [OF assms(1)])
  fix c c' :: circle and ms ms' ps' s1
  assume c: "ci_circle s = Some c" "ci_members s = Some ms"
    and l: "batch_loop E h round (unwrap_or (ci_fee_bps s) 0) (zip rs xs) c ms (unwrap_or (ci_payouts s) [])
      (s\<lparr>cb_reent := Some True\<rparr>) = Inr (c', ms', ps', s1)"
    and s': "s' = guard_leave (s1\<lparr>ci_circle := Some c', ci_payouts := Some ps', ci_members := Some ms'\<rparr>)"
  from assms(2) c have "circle_ok c ms" by (auto simp: mem_inv_def)
  from batch_loop_frame [OF l this] show ?thesis
    by (intro books_step_people [OF c(2), of _ ms']) (simp_all add: s' core_same_def books_same_def)
qed

lemma ci_exec_books:
  assumes "ci_exec E h op s = Inr s'" "mem_inv s" "\<nexists>a x r. op = CiContribute a x r"
  shows "books_step s s'"
proof (cases "touches_core op")
  case False
  with circle_side_core [OF assms(1)] books_step_core show ?thesis by blast
next
  case True
  with assms show ?thesis
    by (cases op) (simp_all add: circle_join_books check_deadline_books trigger_payout_books
        circle_exit_books cancel_circle_books report_late_books raise_dispute_books
        resolve_dispute_books batch_invite_books batch_payout_books set_token_books)
qed

section \<open>The three views of the contributions\<close>

definition contrib_key :: "contribution \<Rightarrow> addr \<times> nat" where
  "contrib_key x = (co_member x, co_round x)"

definition round_entries :: "nat \<Rightarrow> contribution list \<Rightarrow> contribution list" where
  "round_entries r cs = filter (\<lambda>x. co_round x = r) cs"

definition books_ok :: "circle \<Rightarrow> 'l circle_state \<Rightarrow> bool" where
  "books_ok c s \<longleftrightarrow> 0 \<le> cl_contribution_amount c
     \<and> (\<forall>a. ci_member_status s a = Some MEMBER_ACTIVE \<longrightarrow> a \<in> joined s)
     \<and> (\<exists>cs. ci_contributions s = Some cs \<and> distinct (map contrib_key cs)
        \<and> (\<forall>x\<in>set cs. ci_member_contributed s (contrib_key x) \<noteq> None
             \<and> co_amount x = cl_contribution_amount c \<and> co_round x \<le> cl_current_round c
             \<and> co_member x \<in> joined s)
        \<and> (\<forall>r. unwrap_or (ci_round_contributors s r) [] = map co_member (round_entries r cs))
        \<and> (\<forall>r. unwrap_or (ci_round_total s r) 0 =
             min i128_max (cl_contribution_amount c * int (length (round_entries r cs)))))"

definition books_inv :: "'l circle_state \<Rightarrow> bool" where
  "books_inv s \<longleftrightarrow> mem_inv s \<and> (\<exists>c. ci_circle s = Some c \<and> books_ok c s)"

lemma books_ok_step:
  assumes "books_ok c s" "books_step s s'" "cl_contribution_amount c' = cl_contribution_amount c"
    and "cl_current_round c \<le> cl_current_round c'"
  shows "books_ok c' s'"
proof -
  from assms(1) obtain cs where cs: "ci_contributions s = Some cs" "distinct (map contrib_key cs)"
    "\<forall>x\<in>set cs. ci_member_contributed s (contrib_key x) \<noteq> None \<and> co_amount x = cl_contribution_amount c
       \<and> co_round x \<le> cl_current_round c \<and> co_member x \<in> joined s"
    "\<forall>r. unwrap_or (ci_round_contributors s r) [] = map co_member (round_entries r cs)"
    "\<forall>r. unwrap_or (ci_round_total s r) 0 =
       min i128_max (cl_contribution_amount c * int (length (round_entries r cs)))"
    and st: "0 \<le> cl_contribution_amount c" "\<forall>a. ci_member_status s a = Some MEMBER_ACTIVE \<longrightarrow> a \<in> joined s"
    unfolding books_ok_def by blast
  from assms(2) have b: "books_same s s'" "joined s \<subseteq> joined s'"
    "\<forall>a. ci_member_status s' a = Some MEMBER_ACTIVE \<longrightarrow> ci_member_status s a = Some MEMBER_ACTIVE \<or> a \<in> joined s'"
    unfolding books_step_def by blast+
  have "\<forall>x\<in>set cs. ci_member_contributed s' (contrib_key x) \<noteq> None \<and> co_amount x = cl_contribution_amount c'
       \<and> co_round x \<le> cl_current_round c' \<and> co_member x \<in> joined s'"
    using cs(3) b(1,2) assms(3,4) unfolding books_same_def by (metis order_trans subsetD)
  moreover have "\<forall>a. ci_member_status s' a = Some MEMBER_ACTIVE \<longrightarrow> a \<in> joined s'"
    using st(2) b(2,3) by blast
  ultimately show ?thesis
    using cs(1,2,4,5) st(1) b(1) assms(3) unfolding books_ok_def books_same_def by auto
qed

lemma saturating_add_min:
  assumes "0 \<le> a" "0 \<le> b"
  shows "i128_saturating_add (min i128_max a) b = min i128_max (a + b)"
  using assms by (simp add: i128_saturating_add_def i128_min_def i128_max_def)

lemma circle_contribute_effect:
  assumes "circle_contribute E h a x round s = Inr s'"
  shows "\<exists>c fees on_time. ci_circle s = Some c \<and> round = cl_current_round c \<and> x = cl_contribution_amount c
    \<and> ci_circle s' = Some (c\<lparr>cl_total_fees := fees\<rparr>) \<and> ci_members s' = ci_members s
    \<and> (ci_member_status s a = Some MEMBER_ACTIVE \<or> a \<in> joined s)
    \<and> (\<forall>b. ci_member_status s' b = Some MEMBER_ACTIVE \<longrightarrow>
         ci_member_status s b = Some MEMBER_ACTIVE \<or> b \<in> joined s)
    \<and> ci_member_contributed s (a, round) = None
    \<and> ci_member_contributed s' = (ci_member_contributed s)((a, round) \<mapsto> True)
    \<and> ci_contributions s' = Some (unwrap_or (ci_contributions s) [] @
         [\<lparr>co_member = a, co_round = round, co_amount = x, co_timestamp = now h, co_on_time = on_time,
           co_time_weight = now h\<rparr>])
    \<and> ci_round_contributors s' = (ci_round_contributors s)(round \<mapsto>
         unwrap_or (ci_round_contributors s round) [] @ [a])
    \<and> ci_round_total s' = (ci_round_total s)(round \<mapsto>
         i128_saturating_add (unwrap_or (ci_round_total s round) 0) x)"
proof (rule circle_contribute_pieces [OF assms])
  fix c :: circle and s1 s2 s3 on_time ev
  assume c: "ci_circle s = Some c" and cur: "round = cl_current_round c" "x = cl_contribution_amount c"
    and chk: "check_member_status a (s\<lparr>cb_reent := Some True\<rparr>) = Inr s1"
    and new: "ci_member_contributed s1 (a, round) = None"
    and tr: "token_transfer (ce_token E) (cl_token c) a (cl_id c) x s1 = (Inr s2 :: (circle_error, _) res)"
    and pen: "(if \<not> on_time \<and> cl_penalty_bps c > 0 then late_penalty E h a x round c s2 else Inr s2) = Inr s3"
    and s': "s' = guard_leave (if on_time
        then update_streak_internal a round (rep_call (record_on_time_payment h a (cl_id c) x round)
          (publish ev (store_contribution h a x round on_time (unwrap_or (ci_contributions s1) []) s3)))
        else publish ev (store_contribution h a x round on_time (unwrap_or (ci_contributions s1) []) s3))"
  have mem: "find_member a ms = Some m \<Longrightarrow> ci_members s = Some ms \<Longrightarrow> a \<in> joined s" for ms m
    using find_member_Some [of a ms m] by (auto simp: joined_def get_members_def)
  from check_member_status_Inr [OF chk] have
    1: "ci_circle s1 = Some c" "ci_members s1 = ci_members s" "books_same s s1"
      "ci_member_status s a = Some MEMBER_ACTIVE \<or> a \<in> joined s"
      "\<forall>b. ci_member_status s1 b = Some MEMBER_ACTIVE \<longrightarrow> ci_member_status s b = Some MEMBER_ACTIVE \<or> b \<in> joined s"
    using c by (auto simp: books_same_def dest: mem split: if_splits)
  from token_transfer_core [OF tr] 1 have 2: "ci_circle s2 = Some c" "ci_members s2 = ci_members s"
    "books_same s s2" "ci_member_status s2 = ci_member_status s1"
    by (simp_all add: core_same_def books_same_def)
  have "\<exists>f. ci_circle s3 = Some (c\<lparr>cl_total_fees := f\<rparr>) \<and> ci_members s3 = ci_members s
    \<and> books_same s s3 \<and> ci_member_status s3 = ci_member_status s1"
  proof (cases "\<not> on_time \<and> cl_penalty_bps c > 0")
    case True
    with pen late_penalty_circle [OF _ 2(1)] 2 show ?thesis by (fastforce simp: books_same_def)
  next
    case False
    have "c = c\<lparr>cl_total_fees := cl_total_fees c\<rparr>" by simp
    with False pen 2 show ?thesis by (metis Inr_inject)
  qed
  then obtain f where 3: "ci_circle s3 = Some (c\<lparr>cl_total_fees := f\<rparr>)" "ci_members s3 = ci_members s"
    "books_same s s3" "ci_member_status s3 = ci_member_status s1" by blast
  from 1(3) new have new': "ci_member_contributed s (a, round) = None" by (simp add: books_same_def)
  have eff: "ci_circle s' = ci_circle s3" "ci_members s' = ci_members s3" "ci_member_status s' = ci_member_status s3"
    "ci_contributions s' = Some (unwrap_or (ci_contributions s1) [] @
         [\<lparr>co_member = a, co_round = round, co_amount = x, co_timestamp = now h, co_on_time = on_time,
           co_time_weight = now h\<rparr>])"
    "ci_member_contributed s' = (ci_member_contributed s3)((a, round) \<mapsto> True)"
    "ci_round_contributors s' = (ci_round_contributors s3)(round \<mapsto>
         unwrap_or (ci_round_contributors s3 round) [] @ [a])"
    "ci_round_total s' = (ci_round_total s3)(round \<mapsto>
         i128_saturating_add (unwrap_or (ci_round_total s3 round) 0) x)"
    unfolding s' by (cases on_time; simp)+
  show ?thesis
    by (rule exI [of _ c], rule exI [of _ f], rule exI [of _ on_time])
      (use c cur 1(3-5) 3 new' eff in \<open>simp add: books_same_def\<close>)
qed

lemma circle_contribute_books:
  assumes "circle_contribute E h a x round s = Inr s'" "books_inv s"
  shows "books_inv s'"
proof -
  have m': "mem_inv s'" by (rule circle_contribute_mem_inv [OF assms(1)]) (use assms(2) in \<open>simp add: books_inv_def\<close>)
  from circle_contribute_effect [OF assms(1)] obtain c fees on_time where
    c: "ci_circle s = Some c" "round = cl_current_round c" "x = cl_contribution_amount c"
      "ci_circle s' = Some (c\<lparr>cl_total_fees := fees\<rparr>)" "ci_members s' = ci_members s"
    and st: "ci_member_status s a = Some MEMBER_ACTIVE \<or> a \<in> joined s"
      "\<forall>b. ci_member_status s' b = Some MEMBER_ACTIVE \<longrightarrow> ci_member_status s b = Some MEMBER_ACTIVE \<or> b \<in> joined s"
    and new: "ci_member_contributed s (a, round) = None"
      "ci_member_contributed s' = (ci_member_contributed s)((a, round) \<mapsto> True)"
    and upd: "ci_contributions s' = Some (unwrap_or (ci_contributions s) [] @
         [\<lparr>co_member = a, co_round = round, co_amount = x, co_timestamp = now h, co_on_time = on_time,
           co_time_weight = now h\<rparr>])"
      "ci_round_contributors s' = (ci_round_contributors s)(round \<mapsto>
         unwrap_or (ci_round_contributors s round) [] @ [a])"
      "ci_round_total s' = (ci_round_total s)(round \<mapsto>
         i128_saturating_add (unwrap_or (ci_round_total s round) 0) x)"
    by blast
  let ?e = "\<lparr>co_member = a, co_round = round, co_amount = x, co_timestamp = now h, co_on_time = on_time,
           co_time_weight = now h\<rparr>"
  from assms(2) c(1) have "books_ok c s" by (simp add: books_inv_def)
  then obtain cs where cs: "ci_contributions s = Some cs" "distinct (map contrib_key cs)"
    "\<forall>x\<in>set cs. ci_member_contributed s (contrib_key x) \<noteq> None \<and> co_amount x = cl_contribution_amount c
       \<and> co_round x \<le> cl_current_round c \<and> co_member x \<in> joined s"
    "\<forall>r. unwrap_or (ci_round_contributors s r) [] = map co_member (round_entries r cs)"
    "\<forall>r. unwrap_or (ci_round_total s r) 0 =
       min i128_max (cl_contribution_amount c * int (length (round_entries r cs)))"
    and pos: "0 \<le> cl_contribution_amount c" "\<forall>a. ci_member_status s a = Some MEMBER_ACTIVE \<longrightarrow> a \<in> joined s"
    unfolding books_ok_def by blast
  have j: "joined s' = joined s" by (simp add: joined_def get_members_def c(5))
  have a: "a \<in> joined s" using st(1) pos(2) by blast
  have key: "contrib_key ?e \<notin> contrib_key ` set cs" using cs(3) new(1) by (auto simp: contrib_key_def)
  have "books_ok (c\<lparr>cl_total_fees := fees\<rparr>) s'"
    unfolding books_ok_def
  proof (intro conjI exI [of _ "cs @ [?e]"] ballI allI)
    show "distinct (map contrib_key (cs @ [?e]))" using cs(2) key by simp
    show "unwrap_or (ci_round_contributors s' r) [] = map co_member (round_entries r (cs @ [?e]))" for r
      using cs(4) upd(2) by (simp add: round_entries_def)
    show "unwrap_or (ci_round_total s' r) 0 =
       min i128_max (cl_contribution_amount (c\<lparr>cl_total_fees := fees\<rparr>) * int (length (round_entries r (cs @ [?e]))))" for r
      using cs(5) upd(3) pos(1) saturating_add_min [of "cl_contribution_amount c * int (length (round_entries r cs))" x] c(3)
      by (cases "r = round") (simp_all add: round_entries_def distrib_left add.commute)
    show "ci_member_status s' b = Some MEMBER_ACTIVE \<longrightarrow> b \<in> joined s'" for b
      using st(2) pos(2) j by blast
  qed (use cs(1,3) upd(1) new(2) pos(1) a j c(2,3) in \<open>auto simp: contrib_key_def\<close>)
  with m' c(4) show ?thesis by (simp add: books_inv_def)
qed

lemma ci_exec_books_inv:
  assumes "ci_exec E h op s = Inr s'" "books_inv s"
  shows "books_inv s'"
proof (cases "\<exists>a x r. op = CiContribute a x r")
  case True
  with assms circle_contribute_books show ?thesis by fastforce
next
  case False
  from assms(2) have m: "mem_inv s" by (simp add: books_inv_def)
  note m' = ci_exec_mem_inv [OF assms(1) m] and b = ci_exec_books [OF assms(1) m False]
  from assms(2) obtain c where c: "ci_circle s = Some c" "books_ok c s" by (auto simp: books_inv_def)
  from ci_exec_evolves [OF assms(1) c(1) m] obtain c' where c': "ci_circle s' = Some c'" "circle_evolves c c'" by blast
  from books_ok_step [OF c(2) b] c'(2) have "books_ok c' s'" by (simp add: circle_evolves_def config_of_def)
  with m' c'(1) show ?thesis by (simp add: books_inv_def)
qed

lemma ci_run_books_inv:
  assumes "ci_run E me s s'" "books_inv s"
  shows "books_inv s'"
proof (rule ci_run_invariant [where I = books_inv, OF assms])
  fix s1 :: "'a circle_state" and l
  assume "books_inv s1"
  then show "books_inv (s1\<lparr>cb_ledger := l\<rparr>)"
    by (simp add: books_inv_def mem_inv_def books_ok_def joined_def get_members_def)
qed (blast intro: ci_exec_books_inv)

lemma circle_init_books_inv:
  assumes "circle_init E h salt admin factory config s = Inr s'" "s = circle_empty l"
  shows "books_inv s'"
proof -
  have m: "mem_inv s'" by (rule circle_init_mem_inv [OF assms(1)])
  from assms have "ci_round_total s' = Map.empty" "ci_round_contributors s' = Map.empty"
    "ci_member_status s' = Map.empty"
    by (auto simp: circle_init_def seq_simps Let_def init_vrf_def circle_empty_def)
  with circle_init_Inr [OF assms(1)]
  have "books_ok (new_circle h factory config) s'"
    by (simp add: books_ok_def round_entries_def new_circle_def i128_max_def)
  with m circle_init_Inr [OF assms(1)] show ?thesis by (simp add: books_inv_def)
qed

text \<open>The total and the contributors of a round as the payout reads them.\<close>

lemma books_ok_round:
  assumes "books_ok c s" "ci_contributions s = Some cs"
  shows "round_contributors s r = map co_member (round_entries r cs)"
    and "round_contributed_total s r = min i128_max (cl_contribution_amount c * int (length (round_entries r cs)))"
proof -
  from assms have b: "unwrap_or (ci_round_contributors s r) [] = map co_member (round_entries r cs)"
    "unwrap_or (ci_round_total s r) 0 = min i128_max (cl_contribution_amount c * int (length (round_entries r cs)))"
    by (auto simp: books_ok_def)
  show "round_contributors s r = map co_member (round_entries r cs)"
    using b(1) assms(2) by (cases "ci_round_contributors s r") (simp_all add: round_contributors_def round_entries_def)
  show "round_contributed_total s r = min i128_max (cl_contribution_amount c * int (length (round_entries r cs)))"
  proof (cases "ci_round_total s r")
    case (Some x)
    with b(2) show ?thesis by (simp add: round_contributed_total_def)
  next
    case None
    have keep: "fold (\<lambda>x tot. if co_round x = r then i128_saturating_add tot (co_amount x) else tot) xs
        (min i128_max k) = min i128_max (k + cl_contribution_amount c * int (length (round_entries r xs)))"
      if "\<forall>x\<in>set xs. co_amount x = cl_contribution_amount c" "0 \<le> k" for xs k
      using that
    proof (induction xs arbitrary: k)
      case Nil
      then show ?case by (simp add: round_entries_def)
    next
      case (Cons x xs)
      have a: "0 \<le> cl_contribution_amount c" using assms(1) by (simp add: books_ok_def)
      with Cons.prems have "0 \<le> k + cl_contribution_amount c" by simp
      with Cons.IH [of k] Cons.IH [of "k + cl_contribution_amount c"] Cons.prems a show ?case
        by (auto simp: saturating_add_min round_entries_def algebra_simps)
    qed
    from assms have "\<forall>x\<in>set cs. co_amount x = cl_contribution_amount c" by (auto simp: books_ok_def)
    from keep [OF this, of 0] None assms(2) show ?thesis
      by (simp add: round_contributed_total_def i128_max_def)
  qed
qed

section \<open>Properties\<close>

text \<open>
  C6: every contribution is recorded once, and the pool of a round is what was paid in. In every state
  reachable from construction nobody has two contributions for a round; every contribution has exactly
  the configured amount, is of a round not later than the current one and comes from a member; the
  contributors a payout reads are exactly those who paid for the round, each once; and the pool it
  distributes is the sum of their contributions (capped at the greatest \<open>i128\<close>).
\<close>

theorem contributions_recorded_once:
  assumes "circle_init E h0 salt admin factory config (circle_empty l) = Inr s1" "ci_run E me s1 s"
  shows "\<exists>c cs. ci_circle s = Some c \<and> ci_contributions s = Some cs
    \<and> distinct (map (\<lambda>x. (co_member x, co_round x)) cs)
    \<and> (\<forall>x\<in>set cs. co_amount x = cc_contribution_amount config \<and> co_round x \<le> cl_current_round c
         \<and> co_member x \<in> mb_address ` set (get_members s))
    \<and> (\<forall>r. distinct (round_contributors s r)
         \<and> set (round_contributors s r) = {co_member x | x. x \<in> set cs \<and> co_round x = r}
         \<and> round_contributed_total s r =
             min i128_max (\<Sum>x\<leftarrow>filter (\<lambda>x. co_round x = r) cs. co_amount x)
         \<and> round_contributed_total s r =
             min i128_max (cc_contribution_amount config * int (length (round_contributors s r))))"
proof -
  from ci_run_books_inv [OF assms(2) circle_init_books_inv [OF assms(1) refl]]
  obtain c where c: "ci_circle s = Some c" "books_ok c s" by (auto simp: books_inv_def)
  note init = circle_init_Inr [OF assms(1)]
  from ci_run_evolves [OF assms(2) _ circle_init_mem_inv [OF assms(1)]] init c(1)
  have "circle_evolves (new_circle h0 factory config) c" by auto
  then have amt: "cl_contribution_amount c = cc_contribution_amount config"
    by (simp add: circle_evolves_def config_of_def new_circle_def)
  from c(2) obtain cs where cs: "ci_contributions s = Some cs" "distinct (map contrib_key cs)"
    "\<forall>x\<in>set cs. co_amount x = cl_contribution_amount c \<and> co_round x \<le> cl_current_round c \<and> co_member x \<in> joined s"
    unfolding books_ok_def by blast
  note rd = books_ok_round [OF c(2) cs(1)]
  have one: "distinct (round_contributors s r)" for r
  proof -
    have "distinct (map contrib_key (round_entries r cs))"
      using cs(2) by (simp add: round_entries_def distinct_map_filter)
    moreover have "map contrib_key (round_entries r cs) = map (\<lambda>a. (a, r)) (map co_member (round_entries r cs))"
      by (simp add: round_entries_def contrib_key_def)
    ultimately show ?thesis unfolding rd(1) by (metis distinct_map)
  qed
  have sum: "(\<Sum>x\<leftarrow>filter (\<lambda>x. co_round x = r) cs. co_amount x)
      = cl_contribution_amount c * int (length (round_entries r cs))" for r
  proof -
    have "map co_amount (round_entries r cs) = replicate (length (round_entries r cs)) (cl_contribution_amount c)"
      using cs(3) by (intro replicate_eqI) (auto simp: round_entries_def)
    then show ?thesis by (simp add: round_entries_def sum_list_replicate)
  qed
  have len: "length (round_contributors s r) = length (round_entries r cs)" for r by (simp add: rd(1))
  have set: "set (round_contributors s r) = {co_member x | x. x \<in> set cs \<and> co_round x = r}" for r
    by (auto simp: rd(1) round_entries_def)
  have tot: "round_contributed_total s r = min i128_max (\<Sum>x\<leftarrow>filter (\<lambda>x. co_round x = r) cs. co_amount x)"
    "round_contributed_total s r = min i128_max (cc_contribution_amount config * int (length (round_contributors s r)))" for r
    by (simp_all only: sum rd(2) len amt)
  have keys: "distinct (map (\<lambda>x. (co_member x, co_round x)) cs)"
    using cs(2) by (simp add: contrib_key_def [abs_def])
  show ?thesis
    using c(1) cs(1) keys cs(3) amt one set tot by (auto simp: joined_def)
qed

theorem contributions_recorded_once_witness:
  "\<exists>s :: unit circle_state. round_contributors s 0 = [5, 6] \<and> round_contributed_total s 0 = 100
    \<and> distinct (round_contributors s 0)"
proof -
  obtain s1 s2 where i: "circle_init cw_env (cw_host 5) [] 1 3 cw_config (circle_empty ()) = Inr s1"
    and e: "ci_execs cw_env cw_first_round s1 = Inr s2"
    and r: "round_contributors s2 0 = [5, 6]" "round_contributed_total s2 0 = 100"
    by (simp add: cw_first_round_def cw_eval)
  from contributions_recorded_once [OF i ci_execs_run [OF e cw_hosts(1) ci_refl]] r show ?thesis by blast
qed

end
