(* ===== verification/Circle_Funds.thy ===== *)
theory Circle_Funds
  imports Circle_Books Treasury
begin

text \<open>
  The money of the savings circle: what a settled round credits to the members and takes from the
  circle's account. The contracts around the circle are the locale \<open>circle_world\<close>; the governance
  token together with treasuries that are instances of the model of \<open>Treasury\<close> is such a world.
\<close>

section \<open>What the members are credited\<close>

definition received :: "circle_member list \<Rightarrow> int" where
  "received ms = (\<Sum>m\<leftarrow>ms. mb_total_received m)"

lemma credit_members_absent:
  "credit_members a x ms = Inr ms' \<Longrightarrow> a \<notin> mb_address ` set ms \<Longrightarrow> ms' = ms"
proof (induction ms arbitrary: ms')
  case Nil
  then show ?case by simp
next
  case (Cons m ms)
  then show ?case by (auto simp: bind_res_Inr)
qed

lemma credit_members_received:
  "credit_members a x ms = Inr ms' \<Longrightarrow> distinct (map mb_address ms) \<Longrightarrow> a \<in> mb_address ` set ms \<Longrightarrow>
    received ms' = received ms + x"
proof (induction ms arbitrary: ms')
  case Nil
  then show ?case by simp
next
  case (Cons m ms)
  show ?case
  proof (cases "mb_address m = a")
    case True
    with Cons.prems obtain ns where "ms' = m\<lparr>mb_total_received := mb_total_received m + x\<rparr> # ns"
      "credit_members a x ms = Inr ns" by (auto simp: res_simps int_simps safe_add_def)
    with credit_members_absent [of a x ms ns] Cons.prems True show ?thesis by (auto simp: received_def)
  next
    case False
    with Cons.prems obtain ns where "ms' = m # ns" "credit_members a x ms = Inr ns"
      by (auto simp: bind_res_Inr)
    with Cons False show ?thesis by (auto simp: received_def)
  qed
qed

text \<open>Collateral of the active members, paid back by the completion of the circle.\<close>

definition owed_collateral :: "circle \<Rightarrow> circle_member list \<Rightarrow> int" where
  "owed_collateral c ms = max 0 (cl_collateral_amount c) * int (active_members ms)"

lemma pay_dust_paid:
  assumes "pay_dust E h c r pt net a ms ps d s = Inr (ms', ps', d', s')" "d < net"
  shows "token_transfer (ce_token E) (cl_token c) (cl_id c) a (net - d) s = (Inr s' :: (circle_error, _) res)
    \<and> credit_members a (net - d) ms = Inr ms' \<and> d' = net"
proof -
  from assms obtain dust s1 ms1 d1 where "safe_sub net d = Inr dust"
    "token_transfer (ce_token E) (cl_token c) (cl_id c) a dust s = (Inr s1 :: (circle_error, _) res)"
    "credit_members a dust ms = Inr ms1" "safe_add d dust = Inr d1" "s' = s1" "ms' = ms1" "d' = d1"
    by (simp add: pay_dust_def bind_res_Inr map_err_Inr) blast
  moreover from this have "dust = net - d" "d1 = d + dust" by (simp_all add: safe_sub_Inr safe_add_Inr)
  ultimately show ?thesis by simp
qed

lemma dust_received:
  assumes "pay_dust E h c r pt net a ms ps d s = Inr (ms', ps', d', s')"
    and "distinct (map mb_address ms)" "a \<in> mb_address ` set ms"
  shows "received ms' = received ms + (d' - d)"
proof (cases "d < net")
  case False
  with assms(1) show ?thesis by (simp add: pay_dust_def)
next
  case True
  with pay_dust_paid [OF assms(1)] have "credit_members a (net - d) ms = Inr ms'" "d' = net" by blast+
  with credit_members_received [OF _ assms(2,3)] show ?thesis by simp
qed

section \<open>The weights of a random round\<close>

definition weight_at :: "nat \<Rightarrow> contribution \<Rightarrow> nat" where
  "weight_at t x = u_saturating_mul 128 (wrap_u 128 (co_amount x)) (u_saturating_sub t (co_timestamp x))"

definition weight_sum :: "(addr \<Rightarrow> nat option) \<Rightarrow> addr list \<Rightarrow> nat" where
  "weight_sum mw as = (\<Sum>a\<leftarrow>as. unwrap_or (mw a) 0)"

lemma weight_sum_upd:
  assumes "distinct as" "v \<le> unwrap_or (mw a) 0 + w"
  shows "weight_sum (mw(a \<mapsto> v)) as \<le> weight_sum mw as + w"
  using assms
proof (induction "as")
  case Nil
  then show ?case by (simp add: weight_sum_def)
next
  case (Cons b bs)
  have "weight_sum (mw(a \<mapsto> v)) bs = weight_sum mw bs" if "a \<notin> set bs"
    using that by (auto simp: weight_sum_def intro!: arg_cong [where f = sum_list])
  with Cons show ?case by (auto simp: weight_sum_def)
qed

text \<open>Unless the sum of the weights saturates, the members' weights add up to at most the total.\<close>

lemma weigh_contributions_bound:
  assumes "weigh_contributions t r xs tw mw = (tw', mw')" "distinct as" "weight_sum mw as \<le> tw"
    and "tw + (\<Sum>x\<leftarrow>round_entries r xs. weight_at t x) < 2 ^ 128"
  shows "weight_sum mw' as \<le> tw'"
  using assms
proof (induction xs arbitrary: tw mw)
  case Nil
  then show ?case by simp
next
  case (Cons x xs)
  show ?case
  proof (cases "co_round x = r")
    case False
    with Cons show ?thesis by (simp add: round_entries_def)
  next
    case True
    let ?w = "weight_at t x"
    from Cons.prems(4) True have lim: "tw + ?w + (\<Sum>x\<leftarrow>round_entries r xs. weight_at t x) < 2 ^ 128"
      by (simp add: round_entries_def)
    then have add: "u_saturating_add 128 tw ?w = tw + ?w" by (simp add: u_saturating_add_def)
    let ?v = "u_saturating_add 128 (unwrap_or (mw (co_member x)) 0) ?w"
    have "?v \<le> unwrap_or (mw (co_member x)) 0 + ?w" by (simp add: u_saturating_add_def)
    from weight_sum_upd [where mw = mw and a = "co_member x", OF Cons.prems(2) this] Cons.prems(3)
    have "weight_sum (mw(co_member x \<mapsto> ?v)) as \<le> tw + ?w" by simp
    moreover from Cons.prems(1) True
    have "weigh_contributions t r xs (tw + ?w) (mw(co_member x \<mapsto> ?v)) = (tw', mw')"
      by (simp add: Let_def weight_at_def [symmetric] add)
    ultimately show ?thesis using Cons.IH Cons.prems(2) lim by blast
  qed
qed

text \<open>With amounts and times of the usual size the sum does not saturate.\<close>

lemma weights_in_range:
  assumes "\<forall>x\<in>set xs. co_amount x = k" "0 \<le> k" "length xs \<le> n" "k * int t * int n < 2 ^ 128"
  shows "(\<Sum>x\<leftarrow>xs. weight_at t x) < 2 ^ 128"
proof -
  have "weight_at t x \<le> nat k * t" if "x \<in> set xs" for x
  proof -
    have "wrap_u 128 (co_amount x) \<le> nat k" using assms(1,2) that by (simp add: wrap_u_def nat_le_iff zmod_le_nonneg_dividend)
    moreover have "u_saturating_sub t (co_timestamp x) \<le> t" by simp
    ultimately have "wrap_u 128 (co_amount x) * u_saturating_sub t (co_timestamp x) \<le> nat k * t"
      by (rule mult_le_mono)
    then show ?thesis by (simp add: weight_at_def u_saturating_mul_def)
  qed
  then have "(\<Sum>x\<leftarrow>xs. weight_at t x) \<le> length xs * (nat k * t)"
    using sum_list_mono [of xs "weight_at t" "\<lambda>_. nat k * t"] by (simp add: sum_list_triv)
  also have "\<dots> \<le> n * (nat k * t)" using assms(3) by simp
  also have "\<dots> < 2 ^ 128"
  proof -
    have "int (n * (nat k * t)) = k * int t * int n" using assms(2) by simp
    then have "int (n * (nat k * t)) < int (2 ^ 128)" using assms(4) by (simp only: of_nat_power of_nat_numeral)
    then show ?thesis by (simp only: of_nat_less_iff)
  qed
  finally show ?thesis .
qed

section \<open>The world around a circle\<close>

text \<open>
  The token keeps the SEP-41 standard. Paying a fee into a treasury costs the circle at most the fee,
  since that is what the circle authorizes, and asking an oracle costs it nothing.
\<close>

locale circle_world = sep41 "ce_token E" ok for E :: "'l circle_env" and ok :: "'l \<Rightarrow> bool" +
  fixes me :: addr
  assumes fee_ok: "ok l \<Longrightarrow> ce_deposit_fee E l tr me x me = Some l' \<Longrightarrow> ok l'"
    and fee_balance: "ok l \<Longrightarrow> ce_deposit_fee E l tr me x me = Some l' \<Longrightarrow>
      tk_balance (ce_token E) l t me - x \<le> tk_balance (ce_token E) l' t me"
    and oracle_ok: "ok l \<Longrightarrow> ce_yield_rate E l a r = Some (y, l') \<Longrightarrow> ok l'"
    and oracle_balance: "ok l \<Longrightarrow> ce_yield_rate E l a r = Some (y, l') \<Longrightarrow>
      tk_balance (ce_token E) l t me \<le> tk_balance (ce_token E) l' t me"
begin

text \<open>\<open>costs t x s s'\<close>: the step costs the circle at most \<open>x\<close> of the token \<open>t\<close>.\<close>

definition costs :: "addr \<Rightarrow> int \<Rightarrow> 'l circle_state \<Rightarrow> 'l circle_state \<Rightarrow> bool" where
  "costs t x s s' \<longleftrightarrow> (ok (cb_ledger s) \<longrightarrow> ok (cb_ledger s') \<and>
     tk_balance (ce_token E) (cb_ledger s) t me - x \<le> tk_balance (ce_token E) (cb_ledger s') t me)"

lemma costs_refl: "cb_ledger s' = cb_ledger s \<Longrightarrow> costs t 0 s s'"
  by (simp add: costs_def)

lemma costs_trans: "costs t x s s1 \<Longrightarrow> costs t y s1 s2 \<Longrightarrow> costs t (x + y) s s2"
  by (auto simp: costs_def)

lemma costs_transfer: "token_transfer (ce_token E) t me a x s = (Inr s' :: ('e, _) res) \<Longrightarrow> costs t x s s'"
  using transfer_ok payout_balance_ge by (auto simp: token_transfer_Inr costs_def)

lemma costs_yield_rate: "get_yield_rate E h r s = Inr (y, s') \<Longrightarrow> costs t 0 s s'"
  using oracle_ok oracle_balance
  by (fastforce simp: get_yield_rate_def call_oracle_def costs_def publish_def split: option.splits)

lemma costs_round_fee:
  assumes "pay_round_fee E c r fee s = Inr s'" "cl_id c = me" "0 \<le> fee"
  shows "costs t fee s s'"
  using assms fee_ok fee_balance
  by (auto simp: pay_round_fee_def deposit_protocol_fee_def record_round_fee_def res_simps Let_def
      costs_def split: if_splits option.splits)

lemma costs_dust:
  assumes "pay_dust E h c r pt net a ms ps d s = Inr (ms', ps', d', s')" "cl_id c = me"
  shows "costs (cl_token c) (d' - d) s s' \<and> d' = max d net"
proof (cases "d < net")
  case False
  with assms(1) show ?thesis by (auto simp: pay_dust_def intro: costs_refl)
next
  case True
  from pay_dust_paid [OF assms(1) True]
  have t: "token_transfer (ce_token E) (cl_token c) me a (net - d) s = (Inr s' :: (circle_error, _) res)"
    and d: "d' = net" unfolding assms(2) by blast+
  from costs_transfer [OF t] d True show ?thesis by simp
qed

text \<open>One share of a random round: the exact proportion, rounded down, and never more.\<close>

lemma share_le:
  assumes "0 < net" "net \<le> i128_max" "0 < tw" "share = (if d = 0 \<and> w = tw then net
      else wrap_i128 (int (u_saturating_mul 128 (nat net) w div tw)))" "0 < share"
  shows "share * int tw \<le> net * int w"
proof (cases "d = 0 \<and> w = tw")
  case True
  with assms(4) show ?thesis by simp
next
  case False
  let ?q = "u_saturating_mul 128 (nat net) w div tw"
  have "wrap_i128 (int ?q) \<le> int ?q"
    unfolding wrap_i128_def using zmod_le_nonneg_dividend [of "int ?q + 2 ^ 127" "2 ^ 128"] by simp
  then have "share * int tw \<le> int (?q * tw)" using assms(3,4) False by (simp add: mult_right_mono)
  also have "\<dots> \<le> int (u_saturating_mul 128 (nat net) w)" by (simp only: of_nat_le_iff) (rule div_times_less_eq_dividend)
  also have "\<dots> \<le> int (nat net * w)" by (simp only: of_nat_le_iff) (simp add: u_saturating_mul_def)
  also have "\<dots> = net * int w" using assms(1) by simp
  finally show ?thesis .
qed

lemma share_loop_cost:
  assumes "share_loop E h c r pt net tw mw as ms ps d s = Inr (ms', ps', d', s')"
    and "cl_id c = me" "0 < net" "net \<le> i128_max" "distinct (map mb_address ms)" "set as \<subseteq> mb_address ` set ms"
  shows "costs (cl_token c) (d' - d) s s' \<and> received ms' = received ms + (d' - d)
    \<and> d \<le> d' \<and> (d' - d) * int tw \<le> net * int (weight_sum mw as)"
  using assms
proof (induction "as" arbitrary: ms ps d s)
  case Nil
  then have "ms' = ms" "d' = d" "s' = s" by simp_all
  then show ?case by (simp add: costs_refl weight_sum_def)
next
  case (Cons a "as")
  let ?P = "\<lambda>w. 0 < tw \<and> 0 < (if d = 0 \<and> w = tw then net else wrap_i128 (int (u_saturating_mul 128 (nat net) w div tw)))"
  have ws: "weight_sum mw (a # as) = unwrap_or (mw a) 0 + weight_sum mw as" by (simp add: weight_sum_def)
  show ?case
  proof (cases "\<exists>w. mw a = Some w \<and> ?P w")
    case False
    with Cons.prems(1) have l: "share_loop E h c r pt net tw mw as ms ps d s = Inr (ms', ps', d', s')"
      by (auto simp: Let_def split: option.splits if_splits)
    have "net * int (weight_sum mw as) \<le> net * int (weight_sum mw (a # as))"
      using Cons.prems(3) by (simp add: ws)
    with Cons.IH [OF l Cons.prems(2-5)] Cons.prems(6) show ?thesis by auto
  next
    case True
    then obtain w where w: "mw a = Some w" "?P w" by blast
    let ?share = "if d = 0 \<and> w = tw then net else wrap_i128 (int (u_saturating_mul 128 (nat net) w div tw))"
    obtain share where share: "share = ?share" by blast
    from Cons.prems(1) w obtain s1 ms1 ps1 where
      t: "token_transfer (ce_token E) (cl_token c) (cl_id c) a share s = (Inr s1 :: (circle_error, _) res)"
      and m: "credit_members a share ms = Inr ms1"
      and l: "share_loop E h c r pt net tw mw as ms1 ps1 (d + share) s1 = Inr (ms', ps', d', s')"
      unfolding share
      by (simp add: bind_res_Inr Let_def safe_add_def int_simps res_simps del: token_transfer_Inr) blast
    from credit_members_same [OF m] have sp: "same_people ms ms1" by blast
    then have p1: "distinct (map mb_address ms1)" "set as \<subseteq> mb_address ` set ms1"
      using Cons.prems(5,6) joined_people [OF sp] by (simp_all add: same_people_def)
    note IH = Cons.IH [OF l Cons.prems(2-4) p1]
    have c1: "costs (cl_token c) share s s1" using costs_transfer t Cons.prems(2) by blast
    have r1: "received ms1 = received ms + share"
      by (rule credit_members_received [OF m Cons.prems(5)]) (use Cons.prems(6) in simp)
    have sh: "0 < share" "share * int tw \<le> net * int w"
      using w(2) share share_le [OF Cons.prems(3,4) _ share] by auto
    have eq: "share + (d' - (d + share)) = d' - d" by simp
    have "costs (cl_token c) (d' - d) s s'"
      using costs_trans [OF c1, of "d' - (d + share)" s'] IH unfolding eq by blast
    moreover have "(d' - d) * int tw \<le> net * int (weight_sum mw (a # as))"
      using IH sh(2) w(1) by (simp add: ws algebra_simps)
    ultimately show ?thesis using IH r1 sh(1) by simp
  qed
qed

lemma costs_collateral:
  "refund_collateral E c ms s = Inr s' \<Longrightarrow> cl_id c = me \<Longrightarrow> 0 < cl_collateral_amount c \<Longrightarrow>
    costs (cl_token c) (owed_collateral c ms) s s'"
proof (induction ms arbitrary: s)
  case Nil
  then have "s' = s" by simp
  then show ?case by (simp add: costs_refl owed_collateral_def active_members_def)
next
  case (Cons m ms)
  show ?case
  proof (cases "mb_status m = MEMBER_ACTIVE")
    case False
    with Cons show ?thesis by (simp add: owed_collateral_def active_members_def)
  next
    case True
    with Cons.prems(1) obtain s1 where t: "token_transfer (ce_token E) (cl_token c) (cl_id c) (mb_address m)
        (cl_collateral_amount c) s = (Inr s1 :: (circle_error, _) res)" and l: "refund_collateral E c ms s1 = Inr s'"
      by (auto simp: bind_res_Inr)
    from costs_transfer t Cons.prems(2) have "costs (cl_token c) (cl_collateral_amount c) s s1" by simp
    from costs_trans [OF this Cons.IH [OF l Cons.prems(2,3)]] True Cons.prems(3) show ?thesis
      by (simp add: owed_collateral_def active_members_def algebra_simps)
  qed
qed

lemma costs_complete:
  assumes "complete_circle E h c ms s = Inr s'" "cl_id c = me"
  shows "costs (cl_token c) (owed_collateral c ms) s s'"
proof -
  let ?s = "publish (Event ''complete'' [AddrV (self h)] [IntV (cl_total_payouts c)]) s"
  from assms(1) obtain s1 fm where
    r: "(if cl_collateral_amount c > 0 then refund_collateral E c ms ?s else Inr ?s) = (Inr s1 :: (circle_error, _) res)"
    and s': "s' = score_completions h fm s1"
    by (clarsimp simp: complete_circle_def bind_res_Inr Let_def)
  have l: "cb_ledger (score_completions h fm s1) = cb_ledger s1"
    by (induction fm arbitrary: s1) (simp_all add: rep_call_def)
  have "costs (cl_token c) (owed_collateral c ms) ?s s1"
  proof (cases "0 < cl_collateral_amount c")
    case True
    with r costs_collateral [OF _ assms(2)] show ?thesis by simp
  next
    case False
    with r show ?thesis by (simp add: owed_collateral_def costs_refl)
  qed
  then show ?thesis by (simp add: costs_def s' l)
qed

text \<open>The shares of a round in random order: they cost what the members are credited, at most the net amount.\<close>

lemma round_shares_cost:
  assumes sh: "(if pt = PAYOUT_RANDOM
      then share_loop E h c round pt net tw mw (map mb_address ms) ms ps 0 s0
      else Inr (ms, ps, 0, s0)) = (Inr (ms1, ps1, d1, s1) :: (circle_error, _) res)"
    and id: "cl_id c = me" and net: "0 < net" "net \<le> i128_max" and ms: "distinct (map mb_address ms)"
    and w: "weight_sum mw (map mb_address ms) \<le> tw"
  shows "costs (cl_token c) d1 s0 s1 \<and> received ms1 = received ms + d1 \<and> 0 \<le> d1 \<and> d1 \<le> net
      \<and> same_people ms ms1 \<and> map mb_status ms1 = map mb_status ms"
proof (cases "pt = PAYOUT_RANDOM")
  case False
  with sh have "ms1 = ms" "d1 = 0" "s1 = s0" by simp_all
  with net(1) show ?thesis by (simp add: costs_refl)
next
  case True
  with sh have l: "share_loop E h c round pt net tw mw (map mb_address ms) ms ps 0 s0 = Inr (ms1, ps1, d1, s1)"
    by simp
  have sl: "costs (cl_token c) (d1 - 0) s0 s1 \<and> received ms1 = received ms + (d1 - 0) \<and> 0 \<le> d1
      \<and> (d1 - 0) * int tw \<le> net * int (weight_sum mw (map mb_address ms))"
    by (rule share_loop_cost [OF l id net ms]) simp
  have "d1 \<le> net"
  proof (cases "tw = 0")
    case True
    have "share_loop E h c round pt net 0 mw as ms ps 0 s0 = Inr (ms, ps, 0, s0)" for "as" ps
      by (induction "as") (auto split: option.split)
    with l True net(1) show ?thesis by simp
  next
    case False
    from sl have "d1 * int tw \<le> net * int (weight_sum mw (map mb_address ms))" by simp
    moreover have "net * int (weight_sum mw (map mb_address ms)) \<le> net * int tw" using w net(1) by simp
    ultimately have "d1 * int tw \<le> net * int tw" by (rule order_trans)
    with False show ?thesis by simp
  qed
  with sl share_loop_frame [OF l] show ?thesis by simp
qed

lemma settle_round_cost:
  assumes "settle_round E h c r pt round net fee s = Inr s'" "ci_members s = Some ms" "cl_id c = me"
    and net: "0 < net" "net \<le> i128_max" "0 \<le> fee"
    and ms: "distinct (map mb_address ms)" "r \<in> mb_address ` set ms"
    and lim: "(\<Sum>x\<leftarrow>round_entries round (unwrap_or (ci_contributions s) []). weight_at (now h) x) < 2 ^ 128"
  shows "\<exists>ms' c'. ci_members s' = Some ms' \<and> ci_circle s' = Some c' \<and> received ms' = received ms + net
    \<and> cl_total_payouts c' = cl_total_payouts c + net \<and> cl_total_fees c' = cl_total_fees c + fee
    \<and> costs (cl_token c) (net + fee
        + (if cl_status c' = STATUS_COMPLETED then owed_collateral c ms else 0)) s s'"
proof (rule settle_round_pieces [OF assms(1,2)])
  fix y tw mw ms1 ps1 d1 ms2 ps2 d2 tp tf ev ev' and c4 :: circle and s0 s1 s2 s3 s4 :: "'l circle_state"
  let ?c = "mark_recipient r ms c"
  let ?ps = "unwrap_or (ci_payouts s0) [] @ [payout_entry h r round net fee pt]"
  let ?c4 = "c4\<lparr>cl_health_score := hs_score (calculate_health_score ms2 (unwrap_or (ci_contributions s) []))\<rparr>"
  let ?s4 = "publish ev (publish ev' (s4\<lparr>ci_circle := Some ?c4, ci_payouts := Some ps2, ci_members := Some ms2\<rparr>))"
  assume y: "get_yield_rate E h round s = Inr (y, s0)"
    and w: "weigh_contributions (now h) round (unwrap_or (ci_contributions s) []) 0 Map.empty = (tw, mw)"
    and sh: "(if pt = PAYOUT_RANDOM
      then share_loop E h ?c round pt net tw mw (map mb_address ms) ms ?ps 0 s0
      else Inr (ms, ?ps, 0, s0)) = (Inr (ms1, ps1, d1, s1) :: (circle_error, _) res)"
    and fe: "pay_round_fee E ?c round fee s1 = Inr s2"
    and du: "pay_dust E h ?c round pt net r ms1 ps1 d1 s2 = Inr (ms2, ps2, d2, s3)"
    and tp: "tp = cl_total_payouts c + d2" and tf: "tf = cl_total_fees c + fee"
    and adv: "advance_round E (?c\<lparr>cl_current_round := Suc (cl_current_round c),
       cl_total_payouts := tp, cl_total_fees := tf\<rparr>) s3 = (c4, s4)"
    and fin: "s' = ?s4 \<and> cl_status c4 \<noteq> STATUS_COMPLETED
     \<or> complete_circle E h ?c4 ms2 ?s4 = Inr s' \<and> cl_status c4 = STATUS_COMPLETED"
  have id: "cl_id ?c = me" using assms(3) by simp
  have wt: "weight_sum mw (map mb_address ms) \<le> tw"
    by (rule weigh_contributions_bound [OF w ms(1)]) (use lim in \<open>simp_all add: weight_sum_def\<close>)
  have 1: "costs (cl_token c) d1 s0 s1 \<and> received ms1 = received ms + d1 \<and> 0 \<le> d1 \<and> d1 \<le> net
      \<and> same_people ms ms1 \<and> map mb_status ms1 = map mb_status ms"
    using round_shares_cost [OF sh id net(1,2) ms(1) wt] by simp
  have a2: "distinct (map mb_address ms1)" "r \<in> mb_address ` set ms1"
    using 1 ms joined_people [of ms ms1] by (simp_all add: same_people_def)
  from costs_dust [OF du id] 1 have d2: "d2 = net" by simp
  from costs_dust [OF du id] have 2: "costs (cl_token c) (net - d1) s2 s3" "d2 = net" by (simp_all add: d2)
  from dust_received [OF du a2] 1 2(2) have r2: "received ms2 = received ms + net" by simp
  from pay_dust_frame [OF du] 1 have st2: "map mb_status ms2 = map mb_status ms" by simp
  have "active_members ms2 = active_members ms"
    using arg_cong [OF st2, of "\<lambda>xs. length (filter (\<lambda>x. x = MEMBER_ACTIVE) xs)"]
    by (simp add: active_members_def filter_map o_def)
  note act = this
  have f: "costs (cl_token c) fee s1 s2" by (rule costs_round_fee [OF fe id net(3)])
  have "costs (cl_token c) (0 + d1 + fee + (net - d1)) s s3"
    by (rule costs_trans [OF costs_trans [OF costs_trans [OF costs_yield_rate [OF y]]] 2(1)])
      (use 1 f in simp_all)
  then have c3: "costs (cl_token c) (net + fee) s s3" by (simp add: algebra_simps)
  from advance_round_frame [OF adv] have l4: "cb_ledger s4 = cb_ledger s3"
    and c4: "cl_token c4 = cl_token c" "cl_id c4 = me" "cl_total_payouts c4 = tp" "cl_total_fees c4 = tf"
      "cl_collateral_amount c4 = cl_collateral_amount c"
    using id by auto
  have "costs (cl_token c) (net + fee) s ?s4" using c3 by (simp add: costs_def l4)
  note s4 = this
  have "ci_members s' = Some ms2 \<and> ci_circle s' = Some ?c4"
    using fin by (auto simp: core_same_def dest!: complete_circle_core)
  moreover have "costs (cl_token c) (net + fee + (if cl_status ?c4 = STATUS_COMPLETED then owed_collateral c ms else 0)) s s'"
  proof (cases "cl_status c4 = STATUS_COMPLETED")
    case False
    with fin s4 show ?thesis by simp
  next
    case True
    with fin have cc: "complete_circle E h ?c4 ms2 ?s4 = Inr s'" by blast
    from costs_complete [OF cc] c4 have "costs (cl_token c) (owed_collateral ?c4 ms2) ?s4 s'" by simp
    moreover have "owed_collateral ?c4 ms2 = owed_collateral c ms" by (simp add: owed_collateral_def c4 act)
    ultimately show ?thesis using costs_trans [OF s4] True by simp
  qed
  ultimately show ?thesis using r2 c4 tp tf 2(2) by auto
qed

end

lemma settle_empty_round_totals:
  assumes "settle_empty_round E h c r pt round s = Inr s'" "ci_members s = Some ms" "ci_circle s' = Some c'"
  shows "cl_total_payouts c' = cl_total_payouts c \<and> cl_total_fees c' = cl_total_fees c"
proof -
  let ?c = "(mark_recipient r ms c)\<lparr>cl_current_round := Suc (cl_current_round c)\<rparr>"
  let ?s = "s\<lparr>ci_payouts := Some (unwrap_or (ci_payouts s) [] @ [payout_entry h r round 0 0 pt]),
    ci_members := Some ms\<rparr>"
  obtain c1 s1 where adv: "advance_round E ?c ?s = (c1, s1)" by (cases "advance_round E ?c ?s")
  from assms(1,2) adv have "\<exists>ev ev' hs. s' = publish ev (publish ev' (s1\<lparr>ci_circle := Some (c1\<lparr>cl_health_score := hs\<rparr>)\<rparr>))"
    by (auto simp: settle_empty_round_def res_simps int_simps Let_def)
  with assms(3) have "\<exists>hs. c' = c1\<lparr>cl_health_score := hs\<rparr>" by auto
  with advance_round_frame [OF adv] show ?thesis by auto
qed

context circle_world
begin

lemma trigger_internal_cost:
  assumes "trigger_payout_internal E h round s = Inr s'" "ci_circle s = Some c" "ci_members s = Some ms"
    and "cl_id c = me" "distinct (map mb_address ms)" "0 \<le> round_contributed_total s round"
    and lim: "(\<Sum>x\<leftarrow>round_entries round (unwrap_or (ci_contributions s) []). weight_at (now h) x) < 2 ^ 128"
  shows "\<exists>net fee ms' c'. apply_fee (round_contributed_total s round) (int (unwrap_or (ci_fee_bps s) 0)) = Inr (net, fee)
    \<and> ci_members s' = Some ms' \<and> ci_circle s' = Some c' \<and> received ms' = received ms + net
    \<and> cl_total_payouts c' = cl_total_payouts c + net
    \<and> cl_total_fees c' = cl_total_fees c + (if net = 0 then 0 else fee)
    \<and> costs (cl_token c) (round_contributed_total s round
        + (if cl_status c' = STATUS_COMPLETED then owed_collateral c ms else 0)) s s'"
proof -
  from assms(1,2) obtain r pt s1 ms1 net fee where
    r: "resolve_recipient E c round s = Inr ((r, pt), s1)" and ms1: "ci_members s1 = Some ms1"
    and ap: "apply_fee (round_contributed_total s1 round) (int (unwrap_or (ci_fee_bps s1) 0)) = Inr (net, fee)"
    and fin: "if net \<le> 0 then settle_empty_round E h c r pt round s1 = Inr s'
      else settle_round E h c r pt round net fee s1 = Inr s'"
    by (fastforce simp: trigger_payout_internal_def res_simps Let_def split: if_splits)
  from resolve_recipient_Inr [OF r] have core: "core_same s s1" and un: "active_unpaid c ms r"
    using assms(3) by auto
  from resolve_recipient_ledger [OF r] have l: "cb_ledger s1 = cb_ledger s" "ci_fee_bps s1 = ci_fee_bps s" by simp_all
  from core have cs: "ci_contributions s1 = ci_contributions s" and rt: "ci_round_total s1 = ci_round_total s"
    and m: "ms1 = ms" using ms1 assms(3) by (simp_all add: core_same_def)
  have tot: "round_contributed_total s1 round = round_contributed_total s round"
    by (simp only: round_contributed_total_def cs rt)
  have ap: "apply_fee (round_contributed_total s round) (int (unwrap_or (ci_fee_bps s) 0)) = Inr (net, fee)"
    using ap by (simp add: tot l)
  from apply_fee_split [OF assms(6) ap] have nf: "net + fee = round_contributed_total s round" "0 \<le> fee" "0 \<le> net"
    by simp_all
  from ap have rng: "net \<le> i128_max" by (auto simp: apply_fee_def bind_res_Inr safe_sub_Inr in_i128_def)
  from un have r_in: "r \<in> mb_address ` set ms" by (auto simp: active_unpaid_def)
  show ?thesis
  proof (cases "net \<le> 0")
    case True
    then have n0: "net = 0" using nf(3) by simp
    from True fin have "settle_empty_round E h c r pt round s1 = Inr s'" by simp
    note se = this
    from settle_empty_round_Inr [OF se ms1] obtain c' where c': "ci_members s' = Some ms" "ci_circle s' = Some c'"
      "cb_ledger s' = cb_ledger s" by (auto simp: l m)
    have "cl_total_payouts c' = cl_total_payouts c \<and> cl_total_fees c' = cl_total_fees c"
      by (rule settle_empty_round_totals [OF se ms1 c'(2)])
    moreover have "0 \<le> owed_collateral c ms" by (simp add: owed_collateral_def)
    ultimately show ?thesis
      using ap n0 c' assms(6) by (auto simp: costs_def)
  next
    case False
    with fin have sr: "settle_round E h c r pt round net fee s1 = Inr s'" by simp
    have "(\<Sum>x\<leftarrow>round_entries round (unwrap_or (ci_contributions s1) []). weight_at (now h) x) < 2 ^ 128"
      using lim by (simp add: cs)
    from settle_round_cost [OF sr ms1 assms(4) _ rng nf(2) _ _ this] False assms(5) r_in m
    obtain ms' c' where s': "ci_members s' = Some ms'" "ci_circle s' = Some c'" "received ms' = received ms + net"
      "cl_total_payouts c' = cl_total_payouts c + net" "cl_total_fees c' = cl_total_fees c + fee"
      "costs (cl_token c) (net + fee + (if cl_status c' = STATUS_COMPLETED then owed_collateral c ms else 0)) s1 s'"
      by auto
    from s'(6) have "costs (cl_token c) (round_contributed_total s round
        + (if cl_status c' = STATUS_COMPLETED then owed_collateral c ms else 0)) s s'"
      by (simp add: costs_def l nf(1))
    with ap s' False show ?thesis by auto
  qed
qed

end

section \<open>The governance token and the treasuries as the world of a circle\<close>

text \<open>
  A state of all tokens and a state of every treasury. A fee payment is the call of \<open>deposit\<close> on the
  treasury at the address, in its own frame and on the common ledger.
\<close>

type_synonym fee_world = "(addr \<Rightarrow> gov_token) \<times> (addr \<Rightarrow> (addr \<Rightarrow> gov_token) treasury)"

definition fee_env :: "host \<Rightarrow> fee_world circle_env" where
  "fee_env h =
     \<lparr>ce_token = \<lparr>tk_balance = \<lambda>w t a. tk_balance (gt_api h) (fst w) t a,
        tk_transfer = \<lambda>w t a b x. map_option (\<lambda>l. (l, snd w)) (tk_transfer (gt_api h) (fst w) t a b x)\<rparr>,
      ce_deposit_fee = \<lambda>w tr a x c.
        (case treasury_deposit (gt_api h) (h\<lparr>self := tr\<rparr>) a x c ((snd w tr)\<lparr>cb_ledger := fst w\<rparr>) of
           Inl e \<Rightarrow> None | Inr s \<Rightarrow> Some (cb_ledger s, (snd w)(tr := s))),
      ce_max_size = \<lambda>_ _ _. None, ce_max_contrib = \<lambda>_ _ _. None, ce_yield_rate = \<lambda>_ _ _. None,
      ce_sha = \<lambda>b. b, ce_xdr = \<lambda>_. []\<rparr>"

lemma treasury_deposit_ledger:
  assumes "treasury_deposit T h a x c s = Inr s'"
  shows "\<exists>t. tk_transfer T (cb_ledger s) t a (self h) x = Some (cb_ledger s')"
  using assms by (auto simp: treasury_deposit_def res_simps Let_def)

interpretation funded: circle_world "fee_env h" "\<lambda>w. gt_ok (fst w)" me for h me
proof
  fix w w' :: fee_world and tr x
  assume ok: "gt_ok (fst w)" and d: "ce_deposit_fee (fee_env h) w tr me x me = Some w'"
  then obtain s where "treasury_deposit (gt_api h) (h\<lparr>self := tr\<rparr>) me x me ((snd w tr)\<lparr>cb_ledger := fst w\<rparr>) = Inr s"
    and w': "fst w' = cb_ledger s" by (auto simp: fee_env_def split: sum.splits)
  from treasury_deposit_ledger [OF this(1)] obtain u where
    t: "tk_transfer (gt_api h) (fst w) u me tr x = Some (fst w')" by (auto simp: w')
  from gov.transfer_ok [OF ok t] show "gt_ok (fst w')" .
  fix t
  have "tk_balance (gt_api h) (fst w) t me - x \<le> tk_balance (gt_api h) (fst w') t me"
  proof (cases "t = u")
    case True
    with gov.payout_balance_ge [OF ok] t show ?thesis by blast
  next
    case False
    from gov.transfer_other_token [OF ok t False] gov.transfer_amount [OF ok t] show ?thesis by simp
  qed
  then show "tk_balance (ce_token (fee_env h)) w t me - x \<le> tk_balance (ce_token (fee_env h)) w' t me"
    by (simp add: fee_env_def)
next
  fix w w' :: fee_world and t a b x
  assume ok: "gt_ok (fst w)" and "tk_transfer (ce_token (fee_env h)) w t a b x = Some w'"
  then have t: "tk_transfer (gt_api h) (fst w) t a b x = Some (fst w')" by (auto simp: fee_env_def)
  from gov.transfer_ok [OF ok t] show "gt_ok (fst w')" .
  from gov.transfer_amount [OF ok t]
  show "0 \<le> x \<and> x \<le> tk_balance (ce_token (fee_env h)) w t a" by (simp add: fee_env_def)
  from gov.transfer_balance [OF ok t]
  show "tk_balance (ce_token (fee_env h)) w' t c = tk_balance (ce_token (fee_env h)) w t c
      - (if c = a then x else 0) + (if c = b then x else 0)" for c
    by (simp add: fee_env_def)
  from gov.transfer_other_token [OF ok t]
  show "tk_balance (ce_token (fee_env h)) w' u c = tk_balance (ce_token (fee_env h)) w u c" if "u \<noteq> t" for u c
    using that by (simp add: fee_env_def)
next
  fix w :: fee_world and t c
  assume "gt_ok (fst w)"
  from gov.balance_range [OF this]
  show "0 \<le> tk_balance (ce_token (fee_env h)) w t c \<and> tk_balance (ce_token (fee_env h)) w t c \<le> i128_max"
    by (simp add: fee_env_def)
qed (simp_all add: fee_env_def)

section \<open>Properties\<close>

lemma round_contributors_few:
  assumes "books_ok c s" "circle_ok c ms" "ci_members s = Some ms" "ci_contributions s = Some cs"
  shows "length (round_entries r cs) \<le> MAX_CIRCLE_MEMBERS"
proof -
  from assms(1,4) have d: "distinct (map contrib_key cs)" and j: "\<forall>x\<in>set cs. co_member x \<in> joined s"
    by (auto simp: books_ok_def)
  have "inj_on co_member (set (round_entries r cs))"
    using d by (auto simp: round_entries_def distinct_map contrib_key_def inj_on_def)
  moreover have "distinct (round_entries r cs)"
    using d by (simp add: round_entries_def distinct_map)
  ultimately have "length (round_entries r cs) = card (co_member ` set (round_entries r cs))"
    by (simp add: card_image distinct_card)
  also have "\<dots> \<le> card (mb_address ` set ms)"
    by (rule card_mono) (use j assms(3) in \<open>auto simp: round_entries_def joined_def get_members_def\<close>)
  also have "\<dots> \<le> length ms" using card_image_le [of "set ms" mb_address] card_length [of ms] by simp
  also have "\<dots> \<le> MAX_CIRCLE_MEMBERS" using circle_okD(4,6) [OF assms(2)] by simp
  finally show ?thesis .
qed

text \<open>
  C5: a payout distributes the pool of the round and nothing else. In a world of standard tokens, where
  contributions and times are small enough that a weighted sum of a round fits 128 bits, a successful
  \<open>trigger_payout\<close> splits the pool that was contributed for the round into net and fee without a rest;
  what the members have received rises by exactly the net amount, the circle's totals rise by net and
  (when anything is paid out) fee, and the circle's own balance falls by at most the pool, plus the
  collateral of its active members when the circle is completed.
\<close>

theorem payout_conserves_pool:
  assumes "circle_world E ok me"
    and "circle_init E h0 salt admin factory config (circle_empty l0) = Inr s1" "self h0 = me"
    and "ci_run E me s1 s" "ok (cb_ledger s)"
    and trig: "trigger_payout E h caller round s = Inr s'"
    and lim: "cc_contribution_amount config * int (now h) * int MAX_CIRCLE_MEMBERS < 2 ^ 128"
  shows "\<exists>c c' net fee. ci_circle s = Some c \<and> ci_circle s' = Some c'
    \<and> net + fee = round_contributed_total s round \<and> 0 \<le> net \<and> 0 \<le> fee
    \<and> fee = round_contributed_total s round * int (get_fee_bps s) div 10000
    \<and> (\<Sum>m\<leftarrow>get_members s'. mb_total_received m) = (\<Sum>m\<leftarrow>get_members s. mb_total_received m) + net
    \<and> cl_total_payouts c' = cl_total_payouts c + net
    \<and> cl_total_fees c' = cl_total_fees c + (if net = 0 then 0 else fee)
    \<and> tk_balance (ce_token E) (cb_ledger s) (cl_token c) me - round_contributed_total s round
        - (if cl_status c' = STATUS_COMPLETED
           then max 0 (cl_collateral_amount c) * int (active_members (get_members s)) else 0)
      \<le> tk_balance (ce_token E) (cb_ledger s') (cl_token c) me"
proof -
  note init = circle_init_Inr [OF assms(2)] circle_init_mem_inv [OF assms(2)]
  from ci_run_books_inv [OF assms(4) circle_init_books_inv [OF assms(2) refl]]
  obtain c where c: "ci_circle s = Some c" "books_ok c s" and mi: "mem_inv s" by (auto simp: books_inv_def)
  from mi c(1) obtain ms where ms: "ci_members s = Some ms" "circle_ok c ms" by (auto simp: mem_inv_def)
  from ci_run_evolves [OF assms(4) _ init(2)] init(1) c(1)
  have ev: "circle_evolves (new_circle h0 factory config) c" by auto
  then have id: "cl_id c = me" and amt: "cl_contribution_amount c = cc_contribution_amount config"
    using assms(3) by (simp_all add: circle_evolves_def config_of_def new_circle_def)
  from c(2) obtain cs where cs: "ci_contributions s = Some cs" "\<forall>x\<in>set cs. co_amount x = cl_contribution_amount c"
    unfolding books_ok_def by blast
  have a0: "0 \<le> cl_contribution_amount c" using c(2) by (simp add: books_ok_def)
  have pool: "0 \<le> round_contributed_total s round"
    using a0 by (simp add: books_ok_round(2) [OF c(2) cs(1)] i128_max_def)
  have few: "(\<Sum>x\<leftarrow>round_entries round (unwrap_or (ci_contributions s) []). weight_at (now h) x) < 2 ^ 128"
    using weights_in_range [OF _ a0 round_contributors_few [OF c(2) ms(2,1) cs(1)] lim [folded amt], of round] cs
    by (simp add: round_entries_def)
  let ?s = "s\<lparr>cb_reent := Some True\<rparr>"
  from trig obtain s2 where t: "trigger_payout_internal E h round ?s = Inr s2" and s': "s' = guard_leave s2"
    by (rule trigger_payout_Inr)
  have same: "round_contributed_total ?s round = round_contributed_total s round"
    by (simp add: round_contributed_total_def cong: option.case_cong)
  from circle_world.trigger_internal_cost [OF assms(1) t, of c ms] c(1) ms id circle_okD(1) [OF ms(2)] pool few
  obtain net fee ms' c' where r: "apply_fee (round_contributed_total s round) (int (unwrap_or (ci_fee_bps s) 0)) = Inr (net, fee)"
    "ci_members s2 = Some ms'" "ci_circle s2 = Some c'" "received ms' = received ms + net"
    "cl_total_payouts c' = cl_total_payouts c + net" "cl_total_fees c' = cl_total_fees c + (if net = 0 then 0 else fee)"
    "circle_world.costs E ok me (cl_token c) (round_contributed_total s round
        + (if cl_status c' = STATUS_COMPLETED then owed_collateral c ms else 0)) ?s s2"
    by (auto simp: same)
  note b = r(7) [unfolded circle_world.costs_def [OF assms(1)]]
  from apply_fee_split [OF pool r(1)] r(2-6) b s' c(1) ms(1) assms(5)
  show ?thesis
    by (intro exI [of _ c] exI [of _ c'] exI [of _ net] exI [of _ fee])
      (auto simp: get_fee_bps_def get_members_def received_def owed_collateral_def)
qed

section \<open>A funded circle\<close>

definition fw_host :: host where
  "fw_host = \<lparr>self = 100, now = 0, seq = 0, authorized = \<lambda>_. True\<rparr>"

definition fw_start :: fee_world where
  "fw_start = (gov_ledger [(5, 1000), (6, 1000)],
     \<lambda>_. (treasury_empty (gov_ledger []))\<lparr>tr_token := Some 9\<rparr>)"

definition fw_round :: "(host \<times> circle_op) list" where
  "fw_round = [(cw_host 6, CiSetTreasury 1 50), (cw_host 6, CiSetFee 1 100)] @ cw_first_round"

lemmas fw_eval = fee_env_def fw_host_def fw_start_def gt_api_def gov_ledger_def transfer_def
  treasury_empty_def gt_empty_def set_treasury_def set_fee_bps_def admin_only_def
  validate_non_frozen_def validate_allowlisted_def move_balance_def publish_transfer_def is_frozen_def
  is_allowlist_mode_enabled_def get_fee_bps_def deposit_protocol_fee_def treasury_deposit_def
  treasury_token_client_def record_round_fee_def empty_round_fee_ledger_def balance_def

lemma fw_run:
  "\<exists>s1 s2 s3. circle_init (fee_env fw_host) (cw_host 5) [] 1 3 cw_config (circle_empty fw_start) = Inr s1
    \<and> ci_execs (fee_env fw_host) fw_round s1 = Inr s2 \<and> get_fee_bps s2 = 100 \<and> round_contributed_total s2 0 = 100
    \<and> trigger_payout (fee_env fw_host) (cw_host 14) 2 0 s2 = Inr s3 \<and> gt_ok (fst (cb_ledger s2))"
  by (simp add: fw_round_def cw_first_round_def cw_eval fw_eval)
    (auto simp: gt_ok_def gt_inv_def msum_upd opt_val_def i128_max_def split: if_splits)

lemma fw_hosts: "\<forall>(h, _)\<in>set fw_round. self h = 100"
  by (simp add: fw_round_def cw_first_round_def cw_host_def)

theorem payout_conserves_pool_witness:
  "\<exists>s s'. trigger_payout (fee_env fw_host) (cw_host 14) 2 0 s = Inr s'
    \<and> (\<Sum>m\<leftarrow>get_members s'. mb_total_received m) = (\<Sum>m\<leftarrow>get_members s. mb_total_received m) + 99"
proof -
  obtain s1 s2 s3 where i: "circle_init (fee_env fw_host) (cw_host 5) [] 1 3 cw_config (circle_empty fw_start) = Inr s1"
    and e: "ci_execs (fee_env fw_host) fw_round s1 = Inr s2"
    and t: "trigger_payout (fee_env fw_host) (cw_host 14) 2 0 s2 = Inr s3"
    and ok: "gt_ok (fst (cb_ledger s2))" and r: "get_fee_bps s2 = 100" "round_contributed_total s2 0 = 100"
    using fw_run by blast
  have l: "cc_contribution_amount cw_config * int (now (cw_host 14)) * int MAX_CIRCLE_MEMBERS < 2 ^ 128"
    "self (cw_host 5) = 100"
    by (simp_all add: cw_config_def cw_host_def)
  from payout_conserves_pool [OF funded.circle_world_axioms i l(2) ci_execs_run [OF e fw_hosts ci_refl] ok t l(1)] t r
  show ?thesis by force
qed

end
