(* ===== verification/Circle_Leaderboard.thy ===== *)
theory Circle_Leaderboard
  imports Circle_Funds "HOL-Library.Multiset" "HOL-Library.Product_Lexorder"
begin

text \<open>
  The leaderboard of contributors (\<open>query_top_contributors\<close>): the incremental bounded insertion of the
  code computes the first entries of a sort by total, time and address; and what the totals are.
\<close>

section \<open>Bounded insertion is sorting\<close>

text \<open>The rank of an entry: larger totals first, then earlier times, then smaller addresses.\<close>

definition rank :: "addr \<times> int \<times> nat \<Rightarrow> int \<times> nat \<times> addr" where
  "rank x = (case x of (a, tot, ts) \<Rightarrow> (- tot, ts, a))"

lemma beats_rank: "beats x y \<longleftrightarrow> rank x < rank y"
  by (auto simp: beats_def rank_def split: prod.splits)

lemma inj_rank: "inj rank"
  by (auto simp: inj_def rank_def)

lemma length_insert_beats [simp]: "length (insert_beats x ys) = Suc (length ys)"
  by (induction ys) auto

lemma beats_position_le: "beats_position x ys \<le> length ys"
  by (induction ys) auto

lemma insert_beats_last: "beats_position x ys = length ys \<Longrightarrow> insert_beats x ys = ys @ [x]"
  by (induction ys) (auto split: if_splits)

lemma offer_entry_take:
  assumes "length board \<le> limit"
  shows "offer_entry limit x board = take limit (insert_beats x board)"
proof (cases "beats_position x board < limit")
  case True
  moreover from assms have "limit = length board" if "limit < Suc (length board)" using that by simp
  ultimately show ?thesis by (auto simp: offer_entry_def Let_def butlast_conv_take)
next
  case False
  with assms beats_position_le [of x board] have "length board = limit" "beats_position x board = length board"
    by simp_all
  with False insert_beats_last [of x board] show ?thesis by (simp add: offer_entry_def)
qed

lemma take_insert_take: "take n (insert_beats x (take n ys)) = take n (insert_beats x ys)"
proof (induction ys arbitrary: n)
  case (Cons y ys)
  show ?case
  proof (cases n)
    case (Suc k)
    then show ?thesis using Cons [of k] by (cases k) (auto simp: take_Suc_conv_app_nth min_def)
  qed simp
qed simp

lemma fold_offer_take:
  "fold (offer_entry limit) xs (take limit board) = take limit (fold insert_beats xs board)"
proof (induction xs arbitrary: board)
  case (Cons x xs)
  then show ?case by (simp add: offer_entry_take take_insert_take)
qed simp

text \<open>Without equal ranks, insertion before the first entry that is beaten is \<open>insort_key\<close>.\<close>

lemma insert_beats_insort: "rank x \<notin> rank ` set ys \<Longrightarrow> insert_beats x ys = insort_key rank x ys"
  by (induction ys) (auto simp: beats_rank less_le)

lemma fold_insert_sorted:
  "distinct (xs @ ys) \<Longrightarrow> sorted (map rank ys) \<Longrightarrow>
    sorted (map rank (fold insert_beats xs ys)) \<and> mset (fold insert_beats xs ys) = mset (xs @ ys)"
proof (induction xs arbitrary: ys)
  case (Cons x xs)
  have "rank x \<notin> rank ` set ys" using Cons.prems(1) inj_rank by (auto dest: injD)
  then have i: "insert_beats x ys = insort_key rank x ys" by (rule insert_beats_insort)
  have "sorted (map rank (fold insert_beats xs (insort_key rank x ys)))
      \<and> mset (fold insert_beats xs (insort_key rank x ys)) = mset (xs @ insort_key rank x ys)"
    using Cons.prems by (intro Cons.IH) (auto simp: distinct_insort set_insort_key sorted_insort_key)
  then show ?case by (simp add: i)
qed simp

lemma fold_insert_sort: "distinct xs \<Longrightarrow> fold insert_beats xs [] = sort_key rank xs"
  using fold_insert_sorted [of xs "[]"]
  by (intro sort_key_inj_key_eq [symmetric]) (auto intro: inj_on_subset [OF inj_rank])

section \<open>The totals\<close>

lemma set_om_set: "set (om_set k v m) \<subseteq> insert (k, v) (set m)"
  by (induction k v m rule: om_set.induct) auto

lemma fold_om_sorted:
  assumes "\<And>x m. om_sorted m \<Longrightarrow> om_sorted (f x m)" "om_sorted m"
  shows "om_sorted (fold f xs m)"
  using assms(2) by (induction xs arbitrary: m) (simp_all add: assms(1))

lemma contributor_totals_sorted: "om_sorted (contributor_totals ms cs)"
  unfolding contributor_totals_def by (intro fold_om_sorted) (auto simp: Let_def split: prod.split)

lemma contributor_totals_distinct: "distinct (contributor_totals ms cs)"
  using om_sorted_distinct [OF contributor_totals_sorted [of ms cs]] by (simp add: distinct_map)

definition all_zero :: "(addr \<times> int \<times> nat) list \<Rightarrow> bool" where
  "all_zero totals \<longleftrightarrow> (\<forall>x\<in>set totals. fst (snd x) = 0)"

lemma all_zero_set: "all_zero m \<Longrightarrow> all_zero (om_set a (0, t) m)"
  using set_om_set [of a "(0, t)" m] by (auto simp: all_zero_def)

lemma all_zero_members:
  "\<forall>m\<in>set ms. mb_total_contributions m = 0 \<Longrightarrow> all_zero totals \<Longrightarrow>
    all_zero (fold (\<lambda>m totals. om_set (mb_address m) (mb_total_contributions m, mb_joined_at m) totals) ms totals)"
  by (induction ms arbitrary: totals) (simp_all add: all_zero_set)

lemma all_zero_contribution:
  assumes "all_zero totals"
  shows "all_zero (case unwrap_or (map_of totals a) (0, t) of (prev_total, earliest_ts) \<Rightarrow>
         om_set a (prev_total, f earliest_ts) totals)"
proof (cases "map_of totals a")
  case None
  with assms show ?thesis by (simp add: all_zero_set)
next
  case (Some v)
  from map_of_SomeD [OF Some] assms have "fst v = 0" by (force simp: all_zero_def)
  with Some assms show ?thesis by (cases v) (simp add: all_zero_set)
qed

lemma contributor_totals_zero:
  assumes "\<forall>m\<in>set ms. mb_total_contributions m = 0" "ms \<noteq> []"
  shows "all_zero (contributor_totals ms cs)"
proof -
  have "all_zero (fold (\<lambda>c totals.
         case unwrap_or (map_of totals (co_member c)) (0, co_timestamp c) of (prev_total, earliest_ts) \<Rightarrow>
         om_set (co_member c) (prev_total,
           if earliest_ts = 0 \<or> co_timestamp c < earliest_ts then co_timestamp c else earliest_ts) totals) cs totals)"
    if "all_zero totals" for totals
    using that
  proof (induction cs arbitrary: totals)
    case (Cons c cs)
    then show ?case
      using all_zero_contribution [where totals = totals and a = "co_member c" and t = "co_timestamp c"
          and f = "\<lambda>ts. if ts = 0 \<or> co_timestamp c < ts then co_timestamp c else ts"] by simp
  qed simp
  with all_zero_members [OF assms(1), of "[]"] assms(2) show ?thesis
    by (simp add: contributor_totals_def Let_def all_zero_def [of "[]"])
qed

lemma reachable_totals_zero:
  assumes "circle_init E h0 salt admin factory config s0 = Inr s1" "ci_run E me s1 s" "ci_circle s = Some c"
  shows "\<forall>m\<in>set (get_members s). mb_total_contributions m = 0"
proof -
  have "mem_inv s" by (rule ci_run_mem_inv [OF assms(2) circle_init_mem_inv [OF assms(1)]])
  with assms(3) show ?thesis by (auto simp: mem_inv_def get_members_def dest!: circle_okD(10))
qed

lemma refund_loop_members_zero:
  "\<forall>m\<in>set ms. mb_total_contributions m = 0 \<Longrightarrow> refund_loop_members E h t ms s = Inr (ms, s)"
  by (induction ms) simp_all

lemma resolve_refund_Inr:
  assumes "resolve_dispute E h who RESOLVE_REFUND s = Inr s'"
    and "\<forall>m\<in>set (get_members s). mb_total_contributions m = 0"
  shows "\<exists>c. ci_circle s = Some c \<and> ci_circle s' = Some (c\<lparr>cl_status := STATUS_CANCELLED\<rparr>)
    \<and> cb_ledger s' = cb_ledger s \<and> ci_members s' = Some (get_members s) \<and> ci_round_total s' = ci_round_total s
    \<and> ci_contributions s' = ci_contributions s"
  using assms(1)
  by (auto simp: resolve_dispute_def seq_simps Let_def get_members_def [symmetric]
      refund_loop_members_zero [OF assms(2)])

section \<open>Properties\<close>

text \<open>
  C19: The leaderboard is a sorted prefix. In every state and for every \<open>n\<close>, the bounded insertion of
  \<open>query_top_contributors\<close> returns the first \<open>min n 50\<close> entries of the contributors sorted by
  descending total of contributions, ascending time of the first contribution and ascending address
  (and not, as the documents say, by the total received). Whatever has been called since its
  construction, the total of contributions of every member is zero, because no operation updates it,
  and as soon as the circle has members every listed total is zero.
\<close>

theorem leaderboard_is_sorted_prefix:
  "query_top_contributors n s =
      map (\<lambda>x. (fst x, fst (snd x))) (take (min n MAX_LEADERBOARD_LIMIT)
        (sort_key (\<lambda>(a, tot, ts). (- tot, ts, a))
          (contributor_totals (get_members s) (unwrap_or (ci_contributions s) []))))
    \<and> (circle_init E h0 salt admin factory config s0 = Inr s1 \<longrightarrow> ci_run E me s1 s \<longrightarrow>
        (\<forall>m\<in>set (get_members s). mb_total_contributions m = 0)
      \<and> (get_members s \<noteq> [] \<longrightarrow> (a, x) \<in> set (query_top_contributors n s) \<longrightarrow> x = 0))"
proof (intro conjI impI)
  let ?t = "contributor_totals (get_members s) (unwrap_or (ci_contributions s) [])"
  let ?l = "min n MAX_LEADERBOARD_LIMIT"
  have r: "rank = (\<lambda>(a, tot, ts). (- tot, ts, a))" by (simp add: rank_def fun_eq_iff)
  have "fold (offer_entry ?l) ?t [] = take ?l (sort_key rank ?t)"
    using fold_offer_take [of ?l ?t "[]"] fold_insert_sort [OF contributor_totals_distinct] by simp
  then show board: "query_top_contributors n s =
      map (\<lambda>x. (fst x, fst (snd x))) (take ?l (sort_key (\<lambda>(a, tot, ts). (- tot, ts, a)) ?t))"
    unfolding r [symmetric]
    by (auto simp: query_top_contributors_def Let_def get_members_def min_def not_le split_beta)
  have ex: "\<exists>c. ci_circle s = Some c"
    if i: "circle_init E h0 salt admin factory config s0 = Inr s1" "ci_run E me s1 s"
    using ci_run_evolves [OF i(2) _ circle_init_mem_inv [OF i(1)]] circle_init_Inr [OF i(1)] by blast
  then show "\<forall>m\<in>set (get_members s). mb_total_contributions m = 0"
    if i: "circle_init E h0 salt admin factory config s0 = Inr s1" "ci_run E me s1 s"
    using reachable_totals_zero [OF i] i by blast
  show "x = 0" if i: "circle_init E h0 salt admin factory config s0 = Inr s1" "ci_run E me s1 s"
    and ms: "get_members s \<noteq> []" and x: "(a, x) \<in> set (query_top_contributors n s)"
  proof -
    obtain c where "ci_circle s = Some c" using ex [OF i] by blast
    from contributor_totals_zero [OF reachable_totals_zero [OF i this] ms] have "all_zero ?t" .
    moreover from x obtain y where "y \<in> set ?t" "x = fst (snd y)"
      unfolding board by (auto dest!: in_set_takeD)
    ultimately show ?thesis by (simp add: all_zero_def)
  qed
qed

lemma cw_leaderboard:
  "\<exists>s1 s2 x. circle_init cw_env (cw_host 5) [] 1 3 cw_config (circle_empty ()) = Inr s1
    \<and> ci_execs cw_env cw_first_round s1 = Inr s2 \<and> get_members s2 \<noteq> []
    \<and> (5, x) \<in> set (query_top_contributors 10 s2)"
  by (simp add: cw_first_round_def cw_eval query_top_contributors_def contributor_totals_def
      MAX_LEADERBOARD_LIMIT_def offer_entry_def beats_def get_members_def)

theorem leaderboard_is_sorted_prefix_witness:
  "\<exists>s :: unit circle_state. (5, 0) \<in> set (query_top_contributors 10 s) \<and> get_members s \<noteq> []"
proof -
  obtain s1 s2 x where i: "circle_init cw_env (cw_host 5) [] 1 3 cw_config (circle_empty ()) = Inr s1"
    and e: "ci_execs cw_env cw_first_round s1 = Inr s2" and m: "get_members s2 \<noteq> []"
    and x: "(5, x) \<in> set (query_top_contributors 10 s2)" using cw_leaderboard by blast
  have "x = 0" by (rule leaderboard_is_sorted_prefix [THEN conjunct2, rule_format, OF i ci_execs_run [OF e cw_hosts(1) ci_refl], THEN conjunct2, rule_format, OF m x])
  with x m show ?thesis by blast
qed

text \<open>
  C22: A refund resolution refunds nothing. Whatever has been called since its construction, when the
  administrator resolves a dispute by \<open>RESOLVE_REFUND\<close>, the circle is cancelled and not one token moves,
  although the contributions are still in the books: the loop pays every member the total recorded for
  it, and that total is always zero. Of the circle nothing changes but the status, which is \<open>CANCELLED\<close>
  afterwards, and in that state no contribution, payout or cancellation of the circle succeeds (a later
  resolution of the dispute can make it active again).
\<close>

theorem refund_resolution_pays_nothing:
  assumes "circle_init E h0 salt admin factory config s0 = Inr s1" "ci_run E me s1 s"
    and "resolve_dispute E h who RESOLVE_REFUND s = Inr s'"
  shows "(\<exists>c. ci_circle s = Some c \<and> ci_circle s' = Some (c\<lparr>cl_status := STATUS_CANCELLED\<rparr>))
    \<and> cb_ledger s' = cb_ledger s \<and> get_members s' = get_members s
    \<and> round_contributed_total s' round = round_contributed_total s round
    \<and> circle_contribute E h' a x round s' \<noteq> Inr s2 \<and> trigger_payout E h' a round s' \<noteq> Inr s2
    \<and> cancel_circle E h' a s' \<noteq> Inr s2"
proof (intro conjI)
  have c0: "ci_circle s1 = Some (new_circle h0 factory config)" using circle_init_Inr [OF assms(1)] by blast
  obtain c1 where "ci_circle s = Some c1"
    using ci_run_evolves [OF assms(2) c0 circle_init_mem_inv [OF assms(1)]] by blast
  from resolve_refund_Inr [OF assms(3) reachable_totals_zero [OF assms(1,2) this]] obtain c where
    c: "ci_circle s' = Some (c\<lparr>cl_status := STATUS_CANCELLED\<rparr>)" "cb_ledger s' = cb_ledger s"
      "ci_members s' = Some (get_members s)" "ci_round_total s' = ci_round_total s"
      "ci_contributions s' = ci_contributions s" and cs: "ci_circle s = Some c" by blast
  from c(1) cs show "\<exists>c. ci_circle s = Some c \<and> ci_circle s' = Some (c\<lparr>cl_status := STATUS_CANCELLED\<rparr>)" by blast
  from c show "cb_ledger s' = cb_ledger s" "get_members s' = get_members s"
    "round_contributed_total s' round = round_contributed_total s round"
    by (simp_all add: get_members_def round_contributed_total_def cong: option.case_cong)
  show "circle_contribute E h' a x round s' \<noteq> Inr s2"
    using c(1) by (auto elim!: circle_contribute_pieces)
  show "trigger_payout E h' a round s' \<noteq> Inr s2"
  proof
    assume "trigger_payout E h' a round s' = Inr s2"
    from trigger_payout_Inr [OF this] obtain t where
      "trigger_payout_internal E h' round (s'\<lparr>cb_reent := Some True\<rparr>) = Inr t" by blast
    from trigger_payout_internal_Inr [OF this] c(1) show False by auto
  qed
  show "cancel_circle E h' a s' \<noteq> Inr s2" using c(1) by (auto simp: cancel_circle_def seq_simps)
qed

lemma cw_run_refund:
  "\<exists>s1 s2 s3. circle_init cw_env (cw_host 5) [] 1 3 cw_config (circle_empty ()) = Inr s1
    \<and> ci_execs cw_env (cw_first_round @ [(cw_host 14, CiRaiseDispute 5 [])]) s1 = Inr s2
    \<and> resolve_dispute cw_env (cw_host 15) 1 RESOLVE_REFUND s2 = Inr s3 \<and> round_contributed_total s2 0 = 100"
  by (simp add: cw_first_round_def cw_eval raise_dispute_def resolve_dispute_def round_contributed_total_def)

theorem refund_resolution_pays_nothing_witness:
  "\<exists>(s :: unit circle_state) s'. resolve_dispute cw_env (cw_host 15) 1 RESOLVE_REFUND s = Inr s'
    \<and> round_contributed_total s' 0 = 100 \<and> cb_ledger s' = cb_ledger s"
proof -
  obtain s1 s2 s3 where i: "circle_init cw_env (cw_host 5) [] 1 3 cw_config (circle_empty ()) = Inr s1"
    and e: "ci_execs cw_env (cw_first_round @ [(cw_host 14, CiRaiseDispute 5 [])]) s1 = Inr s2"
    and r: "resolve_dispute cw_env (cw_host 15) 1 RESOLVE_REFUND s2 = Inr s3" "round_contributed_total s2 0 = 100"
    using cw_run_refund by blast
  have "\<forall>(h, _)\<in>set (cw_first_round @ [(cw_host 14, CiRaiseDispute 5 [])]). self h = 100"
    using cw_hosts(1) by (auto simp: cw_host_def)
  from ci_execs_run [OF e this ci_refl] have run: "ci_run cw_env 100 s1 s2" .
  from refund_resolution_pays_nothing [OF i run r(1)] r show ?thesis by (intro exI [of _ s2] exI [of _ s3]) simp
qed

end
