(* ===== verification/Circle_Frame.thy ===== *)
theory Circle_Frame
  imports Circle_Books
begin

text \<open>
  What most operations of the circle leave alone, proved once for any part \<open>f\<close> of the storage: the locale
  \<open>circle_frame\<close> assumes that \<open>f\<close> does not read the entries of the rounds, members, auctions and books, and
  shows that no operation of members, organizer or deadline sweep changes it, the draw of a random
  recipient excepted; \<open>quiet_frame\<close> adds that \<open>f\<close> does not read the entries of the draw either.
\<close>

locale circle_frame =
  fixes f :: "'l circle_state \<Rightarrow> 'b"
  assumes upd [simp]:
    "f (s\<lparr>cb_ledger := l\<rparr>) = f s"
    "f (s\<lparr>cb_reent := r\<rparr>) = f s"
    "f (s\<lparr>ci_circle := c\<rparr>) = f s"
    "f (s\<lparr>ci_members := ms\<rparr>) = f s"
    "f (s\<lparr>ci_contributions := cs\<rparr>) = f s"
    "f (s\<lparr>ci_payouts := ps\<rparr>) = f s"
    "f (s\<lparr>ci_bids := bs\<rparr>) = f s"
    "f (s\<lparr>ci_votes := vs\<rparr>) = f s"
    "f (s\<lparr>ci_dispute := d\<rparr>) = f s"
    "f (s\<lparr>ci_dispute_resolution := dr\<rparr>) = f s"
    "f (s\<lparr>ci_referrals := rs\<rparr>) = f s"
    "f (s\<lparr>ci_streaks := ss\<rparr>) = f s"
    "f (s\<lparr>ci_config_snapshot := g1\<rparr>) = f s"
    "f (s\<lparr>ci_payout_scheduled := g2\<rparr>) = f s"
    "f (s\<lparr>ci_dutch_auction := g3\<rparr>) = f s"
    "f (s\<lparr>ci_round_fee_ledger := g4\<rparr>) = f s"
    "f (s\<lparr>ci_auction_winner := g5\<rparr>) = f s"
    "f (s\<lparr>ci_round_strikes := g6\<rparr>) = f s"
    "f (s\<lparr>ci_round_total := g7\<rparr>) = f s"
    "f (s\<lparr>ci_round_contributors := g8\<rparr>) = f s"
    "f (s\<lparr>ci_member_contributed := g9\<rparr>) = f s"
    "f (s\<lparr>ci_member_status := g10\<rparr>) = f s"
    "f (s\<lparr>ci_contribs := g11\<rparr>) = f s"
    "f (s\<lparr>ci_rep := g12\<rparr>) = f s"
    and published [simp]: "f (publish ev s) = f s"
begin

lemma frame_leave [simp]: "f (guard_leave s) = f s"
  by (simp add: guard_leave_def)

lemma frame_rep [simp]: "f (rep_call g s) = f s"
  by (simp add: rep_call_def)

section \<open>Loops\<close>

lemma token_transfer_leaves:
  "token_transfer T t a b x s = Inr s' \<Longrightarrow> f s' = f s"
  by (auto simp: res_simps)

lemma refund_collateral_leaves:
  "refund_collateral E c ms s = Inr s' \<Longrightarrow> f s' = f s"
  by (induction ms arbitrary: s) (auto simp: res_simps split: if_splits)

lemma score_completions_leaves [simp]: "f (score_completions h ms s) = f s"
  by (induction ms arbitrary: s) simp_all

lemma refund_loop_leaves:
  "refund_loop E h c r w cap bs kept n m s = Inr (k, q, s') \<Longrightarrow> f s' = f s"
proof (induction bs arbitrary: kept n m s)
  case (Cons b bs)
  show ?case
  proof (cases "bd_round b = r \<and> bd_bidder b \<noteq> w \<and> n < cap")
    case True
    with Cons.prems obtain s1 rf ev where
      "(if bd_deposit b > 0 then token_transfer (ce_token E) (cl_token c) (cl_id c)
          (bd_bidder b) (bd_deposit b) s else Inr s) = (Inr s1 :: (circle_error, _) res)"
      and "refund_loop E h c r w cap bs kept rf m (publish ev s1) = Inr (k, q, s')"
      by (clarsimp simp: bind_res_Inr Let_def)
    with Cons.IH show ?thesis by (metis Inr_inject published token_transfer_leaves)
  next
    case False
    with Cons.prems show ?thesis
      by (auto simp: res_simps Let_def split: if_splits intro: Cons.IH)
  qed
qed simp

lemma strike_member_leaves: "strike_member h c r m s = (m', s') \<Longrightarrow> f s' = f s"
  by (auto simp: strike_member_def Let_def record_round_strike_def split: if_splits)

lemma strike_loop_leaves: "strike_loop h c r cs ms s = (ms', b, s') \<Longrightarrow> f s' = f s"
  by (induction ms arbitrary: s ms' b s') (auto split: prod.splits if_splits dest!: strike_member_leaves)

lemma strike_non_contributors_leaves [simp]:
  "f (strike_non_contributors h c r cs ms s) = f s"
  by (auto simp: strike_non_contributors_def split: prod.splits dest!: strike_loop_leaves)

lemma share_loop_leaves:
  "share_loop E h c r pt net tw mw as ms ps d s = Inr (ms', ps', d', s') \<Longrightarrow> f s' = f s"
proof (induction "as" arbitrary: ms ps d s)
  case (Cons a "as")
  show ?case
  proof (cases "share_loop E h c r pt net tw mw as ms ps d s = Inr (ms', ps', d', s')")
    case True
    with Cons.IH show ?thesis by blast
  next
    case False
    with Cons.prems obtain share s1 d1 ms1 ps1 where
      "token_transfer (ce_token E) (cl_token c) (cl_id c) a share s = (Inr s1 :: (circle_error, _) res)"
      and "share_loop E h c r pt net tw mw as ms1 ps1 d1 s1 = Inr (ms', ps', d', s')"
      by (auto simp: bind_res_Inr Let_def split: option.splits if_splits)
    with Cons.IH token_transfer_leaves show ?thesis by metis
  qed
qed simp

lemma report_loop_leaves:
  "report_loop h c r a ms s = Inr (ms', s') \<Longrightarrow> f s' = f s"
  by (induction ms arbitrary: s ms')
    (auto simp: res_simps Let_def record_round_strike_def split: if_splits)

lemma refund_loop_members_leaves:
  "refund_loop_members E h t ms s = Inr (ms', s') \<Longrightarrow> f s' = f s"
  by (induction ms arbitrary: s ms') (auto simp: res_simps split: if_splits)

lemma batch_loop_leaves:
  "batch_loop E h r bps xs c ms ps s = Inr (c', ms', ps', s') \<Longrightarrow> f s' = f s"
proof (induction xs arbitrary: c ms ps s)
  case (Cons x xs)
  then show ?case
    by (cases x) (auto simp: bind_res_Inr Let_def if_Inl_Inr dest!: Cons.IH token_transfer_leaves split: if_splits)
qed simp

lemma fold_publish_leaves [simp]: "f (fold (\<lambda>m. publish (ev m)) ms s) = f s"
  by (induction ms arbitrary: s) simp_all

section \<open>Settling a round\<close>

lemma advance_round_leaves: "advance_round E c s = (c', s') \<Longrightarrow> f s' = f s"
  by (auto simp: advance_round_def split: if_splits)

lemma get_yield_rate_leaves: "get_yield_rate E h r s = Inr (y, s') \<Longrightarrow> f s' = f s"
  by (auto simp: get_yield_rate_def call_oracle_def split: option.splits)

lemma pay_round_fee_leaves: "pay_round_fee E c r fee s = Inr s' \<Longrightarrow> f s' = f s"
  by (auto simp: pay_round_fee_def deposit_protocol_fee_def record_round_fee_def res_simps Let_def
      split: if_splits option.splits)

lemma pay_dust_leaves:
  "pay_dust E h c r pt net a ms ps d s = Inr (ms', ps', d', s') \<Longrightarrow> f s' = f s"
  by (auto simp: pay_dust_def res_simps split: if_splits)

lemma complete_circle_leaves:
  assumes "complete_circle E h c ms s = Inr s'"
  shows "f s' = f s"
  using assms
  by (auto simp: complete_circle_def bind_res_Inr Let_def split: if_splits dest!: refund_collateral_leaves)

lemma settle_empty_round_leaves:
  assumes "settle_empty_round E h c r pt round s = Inr s'"
  shows "f s' = f s"
proof -
  from assms obtain c0 ms c1 s1 ev ev' hs where
    "advance_round E c0 (s\<lparr>ci_payouts := Some (unwrap_or (ci_payouts s) [] @ [payout_entry h r round 0 0 pt]),
       ci_members := Some ms\<rparr>) = (c1, s1)"
    and "s' = publish ev (publish ev' (s1\<lparr>ci_circle := Some (c1\<lparr>cl_health_score := hs\<rparr>)\<rparr>))"
    unfolding settle_empty_round_def bind_res_Inr Let_def by (fastforce split: prod.splits)
  with advance_round_leaves show ?thesis by fastforce
qed

lemma settle_round_leaves:
  assumes "settle_round E h c r pt round net fee s = Inr s'" "ci_members s = Some ms"
  shows "f s' = f s"
proof (rule settle_round_pieces [OF assms])
  fix y s0 tw mw ms1 ps1 d1 s1 s2 ms2 ps2 d2 s3 tp tf ev ev' and c4 :: circle and s4 :: "'l circle_state"
  let ?c = "c4\<lparr>cl_health_score := hs_score (calculate_health_score ms2 (unwrap_or (ci_contributions s) []))\<rparr>"
  let ?s = "publish ev (publish ev' (s4\<lparr>ci_circle := Some ?c, ci_payouts := Some ps2, ci_members := Some ms2\<rparr>))"
  assume y: "get_yield_rate E h round s = Inr (y, s0)"
    and sh: "(if pt = PAYOUT_RANDOM
      then share_loop E h (mark_recipient r ms c) round pt net tw mw (map mb_address ms) ms
        (unwrap_or (ci_payouts s0) [] @ [payout_entry h r round net fee pt]) 0 s0
      else Inr (ms, unwrap_or (ci_payouts s0) [] @ [payout_entry h r round net fee pt], 0, s0))
      = (Inr (ms1, ps1, d1, s1) :: (circle_error, _) res)"
    and fee: "pay_round_fee E (mark_recipient r ms c) round fee s1 = Inr s2"
    and du: "pay_dust E h (mark_recipient r ms c) round pt net r ms1 ps1 d1 s2 = Inr (ms2, ps2, d2, s3)"
    and adv: "advance_round E ((mark_recipient r ms c)\<lparr>cl_current_round := Suc (cl_current_round c),
       cl_total_payouts := tp, cl_total_fees := tf\<rparr>) s3 = (c4, s4)"
    and fin: "s' = ?s \<and> cl_status c4 \<noteq> STATUS_COMPLETED
     \<or> complete_circle E h ?c ms2 ?s = Inr s' \<and> cl_status c4 = STATUS_COMPLETED"
  from sh have "f s1 = f s0" by (auto split: if_splits dest: share_loop_leaves)
  with get_yield_rate_leaves [OF y] pay_round_fee_leaves [OF fee] pay_dust_leaves [OF du]
    advance_round_leaves [OF adv] have "f ?s = f s" by simp
  moreover from fin have "f s' = f ?s" using complete_circle_leaves by blast
  ultimately show ?thesis by simp
qed

section \<open>The operations\<close>

lemma maybe_transfer_leaves:
  "(if b then token_transfer T t x y z s else Inr s) = Inr s' \<Longrightarrow> f s' = f s"
  by (auto split: if_splits dest: token_transfer_leaves)

lemma member_ops_leaves:
  "circle_join E h a s = Inr s' \<Longrightarrow> f s' = f s"
  "circle_exit E h a s = Inr s' \<Longrightarrow> f s' = f s"
  "raise_dispute h a e s = Inr s' \<Longrightarrow> f s' = f s"
  "report_late h a b r s = Inr s' \<Longrightarrow> f s' = f s"
  "update_streak h a r s = Inr s' \<Longrightarrow> f s' = f s"
  "register_referral h a b pc s = Inr s' \<Longrightarrow> f s' = f s"
  "claim_bonus E h a s = Inr s' \<Longrightarrow> f s' = f s"
  subgoal by (erule circle_join_Inr) (auto dest!: maybe_transfer_leaves)
  subgoal by (erule circle_exit_Inr) (auto dest!: maybe_transfer_leaves)
  subgoal by (auto simp: raise_dispute_def seq_simps)
  subgoal by (auto simp: report_late_def seq_simps dest!: report_loop_leaves)
  subgoal by (auto simp: update_streak_def update_streak_internal_def seq_simps)
  subgoal by (auto simp: register_referral_def seq_simps Let_def)
  subgoal by (auto simp: claim_bonus_def seq_simps Let_def dest!: token_transfer_leaves split: option.splits)
  done

lemma late_penalty_leaves: "late_penalty E h a x r c s = Inr s' \<Longrightarrow> f s' = f s"
  by (auto simp: late_penalty_def record_round_fee_def seq_simps Let_def split: if_splits option.splits
      dest!: token_transfer_leaves)

lemma store_contribution_leaves [simp]:
  "f (store_contribution h a x r on_time cs s) = f s"
  by (simp add: store_contribution_def Let_def split: option.split)

lemma contribute_leaves:
  assumes "circle_contribute E h a x r s = Inr s'"
  shows "f s' = f s"
proof (rule circle_contribute_pieces [OF assms])
  fix c1 :: circle and s1 s2 s3 :: "'l circle_state" and on_time ev
  let ?t = "store_contribution h a x r on_time (unwrap_or (ci_contributions s1) []) s3"
  assume chk: "check_member_status a (s\<lparr>cb_reent := Some True\<rparr>) = Inr s1"
    and tr: "token_transfer (ce_token E) (cl_token c1) a (cl_id c1) x s1 = (Inr s2 :: (circle_error, _) res)"
    and pen: "(if \<not> on_time \<and> cl_penalty_bps c1 > 0 then late_penalty E h a x r c1 s2 else Inr s2) = Inr s3"
    and s': "s' = guard_leave (if on_time
        then update_streak_internal a r (rep_call (record_on_time_payment h a (cl_id c1) x r) (publish ev ?t))
        else publish ev ?t)"
  have "f s1 = f s"
    using chk by (auto simp: check_member_status_def seq_simps split: option.splits if_splits)
  moreover have "f s3 = f s2" using pen by (auto split: if_splits dest: late_penalty_leaves)
  ultimately show ?thesis using token_transfer_leaves [OF tr] by (simp add: s' update_streak_internal_def)
qed

lemma payout_plans_leave:
  "schedule_payout h a r s = Inr s' \<Longrightarrow> f s' = f s"
  "vote_payout h a b r s = Inr s' \<Longrightarrow> f s' = f s"
  subgoal by (auto simp: schedule_payout_def seq_simps Let_def)
  subgoal by (auto simp: vote_payout_def seq_simps Let_def)
  done

lemma auction_ops_leaves:
  "circle_auction_bid E h a d r s = Inr s' \<Longrightarrow> f s' = f s"
  "refund_losing_bids E h a r n s = Inr (k, s') \<Longrightarrow> f s' = f s"
  "init_dutch_auction h a r st fl de ex s = Inr s' \<Longrightarrow> f s' = f s"
  "dutch_auction_bid h a r s = Inr (m, s') \<Longrightarrow> f s' = f s"
  "cancel_auction E h a s = Inr s' \<Longrightarrow> f s' = f s"
  subgoal by (auto simp: circle_auction_bid_def seq_simps Let_def dest!: maybe_transfer_leaves token_transfer_leaves
        split: if_splits)
  subgoal by (auto simp: refund_losing_bids_def seq_simps Let_def dest!: refund_loop_leaves)
  subgoal by (auto simp: init_dutch_auction_def seq_simps Let_def)
  subgoal by (auto simp: dutch_auction_bid_def seq_simps Let_def)
  subgoal by (cases "best_bid (cl_current_round (the (ci_circle s))) 0 None (unwrap_or (ci_bids s) [])")
      (auto simp: cancel_auction_def seq_simps Let_def dest!: maybe_transfer_leaves token_transfer_leaves
        split: if_splits)
  done

lemma organizer_ops_leaves:
  "cancel_circle E h a s = Inr s' \<Longrightarrow> f s' = f s"
  "batch_invite h a as s = Inr s' \<Longrightarrow> f s' = f s"
  "batch_payout E h a as xs r s = Inr s' \<Longrightarrow> f s' = f s"
  "set_token h a t s = Inr s' \<Longrightarrow> f s' = f s"
  subgoal by (auto simp: cancel_circle_def seq_simps dest!: refund_collateral_leaves split: if_splits)
  subgoal by (erule batch_invite_Inr) simp
  subgoal by (erule batch_payout_Inr) (auto dest!: batch_loop_leaves)
  subgoal by (auto simp: set_token_def res_simps)
  done

lemma resolve_dispute_leaves:
  assumes "resolve_dispute E h a r s = Inr s'"
  shows "f s' = f s"
proof -
  from assms obtain c d where c: "ci_circle s = Some c" "ci_dispute s = Some d"
    and r: "r = 1 \<or> r = 2 \<or> r = 3 \<or> r = 4"
    by (auto simp: resolve_dispute_def seq_simps Let_def split: if_splits)
  show ?thesis
  proof (cases "r = 4")
    case True
    with assms c show ?thesis
      by (auto simp: resolve_dispute_def seq_simps Let_def dest!: refund_loop_members_leaves)
  next
    case False
    with assms c r show ?thesis
      by (auto simp: resolve_dispute_def seq_simps Let_def split: option.splits if_splits
          dest!: token_transfer_leaves)
  qed
qed

end

text \<open>The operations that may settle a round, and those that may change a setting.\<close>

fun settles :: "circle_op \<Rightarrow> bool" where
  "settles CiCheckDeadline = True"
| "settles (CiTriggerPayout a r) = True"
| "settles _ = False"

fun governs :: "circle_op \<Rightarrow> bool" where
  "governs (CiWithdrawTreasury c a) = True"
| "governs (CiPause a) = True"
| "governs (CiUnpause a) = True"
| "governs (CiSetRegistry a r) = True"
| "governs (CiSetTreasury a t) = True"
| "governs (CiSetFee a f) = True"
| "governs (CiSetAllowlist a l) = True"
| "governs (CiSetOracle a x) = True"
| "governs (CiSetFallbackOracle a x) = True"
| "governs (CiConfigure f t r n) = True"
| "governs _ = False"

context circle_frame
begin

lemmas operations_leave = member_ops_leaves contribute_leaves payout_plans_leave
  auction_ops_leaves organizer_ops_leaves resolve_dispute_leaves

lemma ci_exec_leaves:
  assumes "ci_exec E h op s = Inr s'" "\<not> governs op" "\<not> settles op"
  shows "f s' = f s"
  using assms
  by (cases op) (auto simp: bind_res_Inr claim_referral_bonus_def claim_streak_bonus_def
      dest: operations_leave)

end

section \<open>Parts that the draw does not touch either\<close>

locale quiet_frame = circle_frame f for f :: "'l circle_state \<Rightarrow> 'b" +
  assumes drawn: "vrf_frame s s' \<Longrightarrow> f s' = f s"
begin

lemma resolve_recipient_leaves:
  assumes "resolve_recipient E c round s = Inr (rp, s')"
  shows "f s' = f s"
  using assms by (auto simp: resolve_recipient_def bind_res_Inr dest!: resolve_random_Inr dest: drawn split: if_splits)

lemma trigger_payout_internal_leaves:
  assumes "trigger_payout_internal E h round s = Inr s'"
  shows "f s' = f s"
proof -
  from assms obtain c r pt s1 ms net fee where
    r: "resolve_recipient E c round s = Inr ((r, pt), s1)" and ms: "ci_members s1 = Some ms"
    and fin: "if net \<le> 0 then settle_empty_round E h c r pt round s1 = Inr s'
      else settle_round E h c r pt round net fee s1 = Inr s'"
    by (fastforce simp: trigger_payout_internal_def res_simps Let_def split: if_splits)
  from fin have "f s' = f s1"
    using settle_empty_round_leaves settle_round_leaves [OF _ ms] by (metis (full_types))
  with resolve_recipient_leaves [OF r] show ?thesis by simp
qed


lemma settling_leaves:
  "trigger_payout E h a r s = Inr s' \<Longrightarrow> f s' = f s"
  "check_contribution_deadline E h s = Inr s' \<Longrightarrow> f s' = f s"
  subgoal by (auto simp: trigger_payout_def seq_simps dest!: trigger_payout_internal_leaves)
  subgoal by (auto simp: check_contribution_deadline_def seq_simps Let_def dest!: trigger_payout_internal_leaves)
  done

lemma ungoverned_leaves:
  assumes "ci_exec E h op s = Inr s'" "\<not> governs op"
  shows "f s' = f s"
  using assms ci_exec_leaves [OF assms(1)] settling_leaves
  by (cases "settles op"; cases op) auto

end

end
