(* ===== verification/Circle_Settings.thy ===== *)
theory Circle_Settings
  imports Circle_Frame
begin

text \<open>
  Who may change what a circle is governed by: the entries the administrator and the factory set, the
  pause flag, the token of the circle and the two entries that count the withdrawals of a day. Every other
  operation leaves all of them alone (they are a \<open>quiet_frame\<close>), and it follows that they change by
  authority only.
\<close>

section \<open>The settings of a circle\<close>

record circle_settings =
  se_admin :: "addr option"
  se_factory :: "addr option"
  se_treasury :: "addr option"
  se_fee_bps :: "nat option"
  se_allowlist :: "addr list option"
  se_token :: "addr option"
  se_registry :: "addr option"
  se_oracle :: "addr option"
  se_fallback_oracle :: "addr option"
  se_paused :: "bool option"

definition settings_of :: "'l circle_state \<Rightarrow> circle_settings" where
  "settings_of s = \<lparr>se_admin = ci_admin s, se_factory = ci_factory s, se_treasury = ci_treasury s,
     se_fee_bps = ci_fee_bps s, se_allowlist = ci_allowlist s, se_token = ci_token s,
     se_registry = ci_registry s, se_oracle = ci_oracle s, se_fallback_oracle = ci_fallback_oracle s,
     se_paused = cb_paused s\<rparr>"

text \<open>The day of the last withdrawal and what was withdrawn on it.\<close>

definition withdrawn_of :: "'l circle_state \<Rightarrow> nat option \<times> int option" where
  "withdrawn_of s = (ci_withdrawal_day s, ci_withdrawal_amount s)"

text \<open>Both together, which is what an operation without authority leaves as it was.\<close>

definition governed :: "'l circle_state \<Rightarrow> circle_settings \<times> (nat option \<times> int option)" where
  "governed s = (settings_of s, withdrawn_of s)"

lemma governed_vrf: "vrf_frame s s' \<Longrightarrow> governed s' = governed s"
  by (cases s, cases s') (simp add: vrf_frame_def governed_def settings_of_def withdrawn_of_def)

interpretation held: quiet_frame governed
  by unfold_locales (simp_all add: governed_vrf, simp_all add: governed_def settings_of_def withdrawn_of_def)

section \<open>Setters and withdrawals\<close>

text \<open>A withdrawal counts itself and changes no setting; the setters leave the count alone.\<close>

definition withdrawn_on :: "nat \<Rightarrow> 'l circle_state \<Rightarrow> int" where
  "withdrawn_on day s =
     (if unwrap_or (ci_withdrawal_day s) 0 = day then unwrap_or (ci_withdrawal_amount s) 0 else 0)"

lemma withdraw_treasury_Inr:
  assumes "withdraw_treasury E h a x s = Inr s'"
  shows "\<exists>c. ci_circle s = Some c \<and> 0 < x \<and> authorized h a \<and> (a = cl_organizer c \<or> ci_admin s = Some a)
    \<and> (0 < cl_max_withdrawal_per_tx c \<longrightarrow> x \<le> cl_max_withdrawal_per_tx c)
    \<and> (0 < cl_daily_withdrawal_limit c \<longrightarrow> withdrawn_on (now h div 86400) s + x \<le> cl_daily_withdrawal_limit c)
    \<and> ci_withdrawal_day s' = Some (now h div 86400)
    \<and> ci_withdrawal_amount s' = Some (withdrawn_on (now h div 86400) s + x)
    \<and> settings_of s' = settings_of s \<and> ci_circle s' = Some c"
proof -
  let ?d = "withdrawn_on (now h div 86400) s"
  from assms obtain c s1 ev where
    "ci_circle s = Some c" "0 < x" "authorized h a" "a = cl_organizer c \<or> ci_admin s = Some a"
    "0 < cl_max_withdrawal_per_tx c \<longrightarrow> x \<le> cl_max_withdrawal_per_tx c"
    and lim: "0 < cl_daily_withdrawal_limit c \<longrightarrow> i128_saturating_add ?d x \<le> cl_daily_withdrawal_limit c"
    and t: "token_transfer (ce_token E) (cl_token c) (cl_id c) a x (s\<lparr>cb_reent := Some True\<rparr>)
      = (Inr s1 :: (circle_error, _) res)"
    and sum: "in_i128 (?d + x)"
    and s': "s' = guard_leave (publish ev (s1\<lparr>ci_withdrawal_day := Some (now h div 86400),
      ci_withdrawal_amount := Some (?d + x)\<rparr>))"
    by (auto simp: withdraw_treasury_def seq_simps safe_add_Inr Let_def withdrawn_on_def
        split: if_splits)
  moreover from sum have "i128_saturating_add ?d x = ?d + x"
    by (simp add: i128_saturating_add_def in_i128_def)
  moreover from held.token_transfer_leaves [OF t] have "settings_of s' = settings_of s"
    by (simp add: governed_def settings_of_def guard_leave_def s')
  moreover from token_transfer_core [OF t] have "ci_circle s' = ci_circle s"
    by (simp add: core_same_def guard_leave_def s')
  ultimately show ?thesis by (simp add: guard_leave_def)
qed

text \<open>Every change of a setting is a call of a setter by the administrator, or of the factory.\<close>

definition setting_authority :: "host \<Rightarrow> 'l circle_state \<Rightarrow> bool" where
  "setting_authority h s \<longleftrightarrow> (\<exists>a. ci_admin s = Some a \<and> authorized h a) \<or> (\<exists>f. ci_factory s = Some f \<and> authorized h f)"

lemma setter_settings:
  assumes "ci_exec E h op s = Inr s'" "governs op" "\<nexists>a x. op = CiWithdrawTreasury a x"
  shows "setting_authority h s \<and> withdrawn_of s' = withdrawn_of s \<and> ci_admin s' = ci_admin s
    \<and> ci_factory s' = ci_factory s"
  using assms
  by (cases op) (auto simp: setting_authority_def withdrawn_of_def pause_circle_def unpause_circle_def
      common_pause_def common_unpause_def
      set_reputation_registry_def set_treasury_def set_fee_bps_def set_allowlist_def set_oracle_def
      set_fallback_oracle_def configure_from_factory_def set_primary_oracle_def
      store_fallback_oracle_def res_simps Let_def split: if_splits)

section \<open>Authority over a run\<close>

lemma ci_exec_officers:
  assumes "ci_exec E h op s = Inr s'"
  shows "ci_admin s' = ci_admin s \<and> ci_factory s' = ci_factory s"
proof (cases "governs op")
  case False
  with held.ungoverned_leaves [OF assms] show ?thesis by (simp add: governed_def settings_of_def)
next
  case True
  show ?thesis
  proof (cases "\<exists>a x. op = CiWithdrawTreasury a x")
    case True
    then obtain a x where "op = CiWithdrawTreasury a x" by blast
    with assms have "withdraw_treasury E h a x s = Inr s'" by simp
    with withdraw_treasury_Inr show ?thesis by (fastforce simp: settings_of_def)
  next
    case False
    with setter_settings [OF assms True] show ?thesis by blast
  qed
qed

text \<open>The entries the administrator alone may set: all but the three the factory configures.\<close>

definition admin_settings :: "circle_settings \<Rightarrow> circle_settings" where
  "admin_settings x = x\<lparr>se_treasury := None, se_registry := None, se_fee_bps := None\<rparr>"

lemma setting_step:
  assumes "ci_exec E h op s = Inr s'" "ci_admin s = Some a" "ci_factory s = Some f" "\<not> authorized h a"
  shows "admin_settings (settings_of s') = admin_settings (settings_of s)
    \<and> (\<not> authorized h f \<longrightarrow> settings_of s' = settings_of s)"
proof (cases "governs op")
  case False
  with held.ungoverned_leaves [OF assms(1)] show ?thesis by (simp add: governed_def)
next
  case True
  with assms show ?thesis
    by (cases op) (auto dest!: withdraw_treasury_Inr simp: configure_from_factory_def
      pause_circle_def unpause_circle_def common_pause_def common_unpause_def set_reputation_registry_def
      set_treasury_def set_fee_bps_def set_allowlist_def set_oracle_def set_fallback_oracle_def res_simps
      settings_of_def admin_settings_def split: if_splits)
qed

lemma fee_step:
  assumes "ci_exec E h op s = Inr s'" "get_fee_bps s \<le> 10000"
  shows "get_fee_bps s' \<le> 10000"
proof (cases "\<exists>a f. op = CiSetFee a f \<or> (\<exists>t r. op = CiConfigure a t r f)")
  case True
  with assms(1) show ?thesis
    by (auto simp: set_fee_bps_def configure_from_factory_def get_fee_bps_def res_simps split: if_splits)
next
  case False
  have "ci_fee_bps s' = ci_fee_bps s"
  proof (cases "governs op")
    case True
    with assms(1) False show ?thesis
      by (cases op) (auto dest!: withdraw_treasury_Inr simp: settings_of_def
        pause_circle_def unpause_circle_def common_pause_def common_unpause_def set_reputation_registry_def
        set_treasury_def set_allowlist_def set_oracle_def set_fallback_oracle_def set_primary_oracle_def
        store_fallback_oracle_def res_simps split: if_splits)
  qed (use held.ungoverned_leaves [OF assms(1)] in \<open>simp add: governed_def settings_of_def\<close>)
  with assms(2) show ?thesis by (simp add: get_fee_bps_def)
qed

lemma circle_init_settings:
  assumes "circle_init E h0 salt admin factory config (circle_empty l) = Inr s"
  shows "ci_admin s = Some admin \<and> ci_factory s = Some factory \<and> get_fee_bps s = 0
    \<and> ci_withdrawal_day s = None \<and> ci_withdrawal_amount s = None"
  using assms
  by (auto simp: circle_init_def seq_simps Let_def init_vrf_def circle_empty_def get_fee_bps_def)

lemma ci_run_officers:
  assumes "ci_run E me s s'"
  shows "ci_admin s' = ci_admin s \<and> ci_factory s' = ci_factory s \<and> (get_fee_bps s \<le> 10000 \<longrightarrow> get_fee_bps s' \<le> 10000)"
  by (rule ci_run_invariant [OF assms]) (auto dest: ci_exec_officers fee_step simp: get_fee_bps_def)

section \<open>Property\<close>

text \<open>
  C13: Settings change by authority only. In every state a circle reaches, the administrator and the factory
  are those of its construction and the fee is at most the whole amount. A successful call that the
  administrator did not authorize leaves the allowlist, both oracles, the pause flag and the token of the
  circle as they were; if the factory did not authorize it either, it leaves the treasury, the registry
  and the fee as they were as well.
\<close>

theorem settings_change_by_authority:
  assumes "circle_init E h0 salt admin factory config (circle_empty l) = Inr s1" "ci_run E me s1 s"
    and "ci_exec E h op s = Inr s'"
  shows "ci_admin s = Some admin \<and> ci_factory s = Some factory \<and> get_fee_bps s \<le> 10000
    \<and> (\<not> authorized h admin \<longrightarrow>
        admin_settings (settings_of s') = admin_settings (settings_of s)
        \<and> map_option cl_token (ci_circle s') = map_option cl_token (ci_circle s)
        \<and> (\<not> authorized h factory \<longrightarrow> settings_of s' = settings_of s))"
proof -
  from ci_run_officers [OF assms(2)] circle_init_settings [OF assms(1)]
  have o: "ci_admin s = Some admin" "ci_factory s = Some factory" "get_fee_bps s \<le> 10000" by simp_all
  have m: "mem_inv s" by (rule ci_run_mem_inv [OF assms(2) circle_init_mem_inv [OF assms(1)]])
  have "map_option cl_token (ci_circle s') = map_option cl_token (ci_circle s)" if "\<not> authorized h admin"
  proof (cases "\<exists>a t. op = CiSetToken a t")
    case True
    with assms(3) o(1) that show ?thesis by (auto simp: set_token_def res_simps)
  next
    case False
    obtain c where c: "ci_circle s = Some c"
      using ci_run_evolves [OF assms(2) _ circle_init_mem_inv [OF assms(1)]] circle_init_Inr [OF assms(1)] by blast
    from ci_exec_moves [OF assms(3) c m False] c show ?thesis by (auto simp: circle_moves_def)
  qed
  with o setting_step [OF assms(3) o(1,2)] show ?thesis by blast
qed

theorem settings_change_by_authority_witness:
  "\<exists>(s :: unit circle_state) s'. ci_exec cw_env ((cw_host 10)\<lparr>authorized := \<lambda>a. a = 5\<rparr>) (CiJoin 5) s = Inr s'
    \<and> settings_of s' = settings_of s \<and> ci_admin s' = Some 1"
proof -
  let ?h = "(cw_host 10)\<lparr>authorized := \<lambda>a. a = 5\<rparr>"
  have "\<exists>s1 s2. circle_init cw_env (cw_host 5) [] 1 3 cw_config (circle_empty ()) = Inr s1
      \<and> ci_exec cw_env ?h (CiJoin 5) s1 = Inr s2"
    by (simp add: cw_eval)
  then obtain s1 s2 where i: "circle_init cw_env (cw_host 5) [] 1 3 cw_config (circle_empty ()) = Inr s1"
    and j: "ci_exec cw_env ?h (CiJoin 5) s1 = Inr s2" by blast
  from settings_change_by_authority [OF i ci_refl j] have "settings_of s2 = settings_of s1" "ci_admin s1 = Some 1"
    by simp_all
  with j show ?thesis by (intro exI [of _ s1] exI [of _ s2]) (simp add: settings_of_def)
qed

end
