(* ===== verification/Circle_Refunds.thy ===== *)
theory Circle_Refunds
  imports Circle_Funds
begin

text \<open>
  The deposits of losing bids: what one call of \<open>refund_losing_bids\<close> does, and that enough calls pay every
  loser back. The token is the locale \<open>paying_token\<close>, a token that also accepts the payments; the
  governance token is its instance.
\<close>

section \<open>A token that pays\<close>

locale paying_token = sep41 T ok for T :: "'l token_api" and ok :: "'l \<Rightarrow> bool" +
  fixes tok :: addr and me :: addr and payees :: "addr set"
  assumes pays: "ok l \<Longrightarrow> b \<in> payees \<Longrightarrow> 0 < x \<Longrightarrow> x \<le> tk_balance T l tok me \<Longrightarrow>
      \<exists>l'. tk_transfer T l tok me b x = Some l'"
    and not_payee: "me \<notin> payees"
begin

lemma pay_effect:
  assumes "ok l" "b \<in> payees" "0 < x" "x \<le> tk_balance T l tok me"
  obtains l' where "tk_transfer T l tok me b x = Some l'" "ok l'"
    "tk_balance T l' tok me = tk_balance T l tok me - x"
    "\<And>a. a \<noteq> me \<Longrightarrow> tk_balance T l' tok a = tk_balance T l tok a + (if a = b then x else 0)"
proof -
  from pays [OF assms] obtain l' where t: "tk_transfer T l tok me b x = Some l'" ..
  from assms(2) not_payee have "b \<noteq> me" by blast
  with transfer_balance [OF assms(1) t] transfer_ok [OF assms(1) t] t show thesis by (intro that) auto
qed

end

section \<open>One pass over the bids\<close>

definition loses :: "nat \<Rightarrow> addr \<Rightarrow> auction_bid \<Rightarrow> bool" where
  "loses round winner b \<longleftrightarrow> bd_round b = round \<and> bd_bidder b \<noteq> winner"

text \<open>The bids without the first losing ones, and what the bids of a list owe to an account or in total.\<close>

fun drop_losers :: "('a \<Rightarrow> bool) \<Rightarrow> nat \<Rightarrow> 'a list \<Rightarrow> 'a list" where
  "drop_losers p n [] = []"
| "drop_losers p n (b # bs) = (if p b \<and> 0 < n then drop_losers p (n - 1) bs else b # drop_losers p n bs)"

definition owed_to :: "addr \<Rightarrow> auction_bid list \<Rightarrow> int" where
  "owed_to a bs = (\<Sum>b\<leftarrow>bs. if bd_bidder b = a then max 0 (bd_deposit b) else 0)"

definition owed_total :: "auction_bid list \<Rightarrow> int" where
  "owed_total bs = (\<Sum>b\<leftarrow>bs. max 0 (bd_deposit b))"

lemma owed_simps [simp]:
  "owed_to a [] = 0" "owed_total [] = 0"
  "owed_to a (b # bs) = (if bd_bidder b = a then max 0 (bd_deposit b) else 0) + owed_to a bs"
  "owed_total (b # bs) = max 0 (bd_deposit b) + owed_total bs"
  by (simp_all add: owed_to_def owed_total_def)

lemma owed_append [simp]:
  "owed_to a (xs @ ys) = owed_to a xs + owed_to a ys" "owed_total (xs @ ys) = owed_total xs + owed_total ys"
  by (simp_all add: owed_to_def owed_total_def)

lemma owed_total_nonneg: "0 \<le> owed_total bs"
  by (induction bs) auto

lemma owed_total_take_drop: "owed_total bs = owed_total (take n bs) + owed_total (drop n bs)"
  using owed_append(2) [of "take n bs" "drop n bs"] by simp

lemma owed_to_take_drop: "owed_to a bs = owed_to a (take n bs) + owed_to a (drop n bs)"
  using owed_append(1) [of a "take n bs" "drop n bs"] by simp

lemma filter_drop_losers:
  "filter p (drop_losers p n bs) = drop n (filter p bs)"
  "filter (\<lambda>b. \<not> p b) (drop_losers p n bs) = filter (\<lambda>b. \<not> p b) bs"
  by (induction bs arbitrary: n) (auto simp: drop_Suc drop_Cons')

lemma set_drop_losers: "set (drop_losers p n bs) \<subseteq> set bs" "length (drop_losers p n bs) \<le> length bs"
  by (induction bs arbitrary: n) (auto simp: le_SucI split: if_splits)

context paying_token
begin

text \<open>The deposit of one losing bid, paid when there is one.\<close>

lemma deposit_paid_back:
  assumes "ce_token E = T" "cl_token c = tok" "cl_id c = me" "ok (cb_ledger s)" "bd_bidder b \<in> payees"
    and "max 0 (bd_deposit b) \<le> tk_balance T (cb_ledger s) tok me"
  obtains l1 where "(if bd_deposit b > 0
      then token_transfer (ce_token E) (cl_token c) (cl_id c) (bd_bidder b) (bd_deposit b) s else Inr s)
      = (Inr (s\<lparr>cb_ledger := l1\<rparr>) :: (circle_error, _) res)"
    and "ok l1" "tk_balance T l1 tok me = tk_balance T (cb_ledger s) tok me - max 0 (bd_deposit b)"
    and "\<And>a. a \<noteq> me \<Longrightarrow> tk_balance T l1 tok a = tk_balance T (cb_ledger s) tok a
       + (if bd_bidder b = a then max 0 (bd_deposit b) else 0)"
proof (cases "bd_deposit b > 0")
  case pos: True
  with assms(6) have "bd_deposit b \<le> tk_balance T (cb_ledger s) tok me" by simp
  from pay_effect [OF assms(4,5) pos this] obtain l1 where
    "tk_transfer T (cb_ledger s) tok me (bd_bidder b) (bd_deposit b) = Some l1" "ok l1"
    "tk_balance T l1 tok me = tk_balance T (cb_ledger s) tok me - bd_deposit b"
    "\<And>a. a \<noteq> me \<Longrightarrow> tk_balance T l1 tok a = tk_balance T (cb_ledger s) tok a
       + (if a = bd_bidder b then bd_deposit b else 0)" by blast
  with pos show thesis by (intro that [of l1]) (auto simp: token_transfer_def assms(1-3))
next
  case False
  with assms(4) show thesis by (intro that [of "cb_ledger s"]) simp_all
qed

lemma refund_loop_keeps:
  assumes "\<not> (loses round w b \<and> refunded < cap)" "remaining + length (b # bs) < 2 ^ 32"
  shows "refund_loop E h c round w cap (b # bs) kept refunded remaining s
    = refund_loop E h c round w cap bs (kept @ [b]) refunded (if loses round w b then Suc remaining else remaining) s"
proof (cases "loses round w b")
  case lost: True
  have "u_checked_add 32 remaining (Suc 0) = Some (Suc remaining)"
    using assms(2) by (simp add: u_checked_add_def)
  with assms(1) lost show ?thesis by (simp add: loses_def)
next
  case kept: False
  then show ?thesis by (auto simp: loses_def)
qed

lemma refund_loop_pays:
  assumes "ce_token E = T" "cl_token c = tok" "cl_id c = me" "ok (cb_ledger s)"
    and "\<forall>b\<in>set bids. loses round w b \<longrightarrow> bd_bidder b \<in> payees"
    and "owed_total (take (cap - refunded) (filter (loses round w) bids)) \<le> tk_balance T (cb_ledger s) tok me"
    and "refunded + length bids < 2 ^ 32" "remaining + length bids < 2 ^ 32"
  shows "\<exists>ev l. refund_loop E h c round w cap bids kept refunded remaining s
      = Inr (kept @ drop_losers (loses round w) (cap - refunded) bids,
          remaining + (length (filter (loses round w) bids) - (cap - refunded)),
          s\<lparr>cb_events := ev, cb_ledger := l\<rparr>)
    \<and> ok l \<and> tk_balance T l tok me = tk_balance T (cb_ledger s) tok me
        - owed_total (take (cap - refunded) (filter (loses round w) bids))
    \<and> (\<forall>a. a \<noteq> me \<longrightarrow> tk_balance T l tok a = tk_balance T (cb_ledger s) tok a
        + owed_to a (take (cap - refunded) (filter (loses round w) bids)))"
  using assms(4-)
proof (induction bids arbitrary: kept refunded remaining s)
  case Nil
  then show ?case
    by (intro exI [of _ "cb_events s"] exI [of _ "cb_ledger s"]) simp
next
  case (Cons b bs)
  show ?case
  proof (cases "loses round w b \<and> refunded < cap")
    case True
    then obtain k where k: "cap - refunded = Suc k" "cap - Suc refunded = k" by (metis Suc_diff_Suc)
    have l: "bd_bidder b \<in> payees" using Cons.prems(2) True by simp
    have due: "max 0 (bd_deposit b) + owed_total (take k (filter (loses round w) bs))
        \<le> tk_balance T (cb_ledger s) tok me"
      using Cons.prems(3) True k by simp
    have rest: "0 \<le> owed_total (take k (filter (loses round w) bs))" by (rule owed_total_nonneg)
    have "max 0 (bd_deposit b) \<le> tk_balance T (cb_ledger s) tok me"
      using order_trans [OF _ due, of "max 0 (bd_deposit b)"] rest by simp
    from deposit_paid_back [OF assms(1-3) Cons.prems(1) l this] obtain l1 where
      p: "(if bd_deposit b > 0
          then token_transfer (ce_token E) (cl_token c) (cl_id c) (bd_bidder b) (bd_deposit b) s else Inr s)
          = (Inr (s\<lparr>cb_ledger := l1\<rparr>) :: (circle_error, _) res)"
      and l1: "ok l1" "tk_balance T l1 tok me = tk_balance T (cb_ledger s) tok me - max 0 (bd_deposit b)"
        "\<And>a. a \<noteq> me \<Longrightarrow> tk_balance T l1 tok a = tk_balance T (cb_ledger s) tok a
           + (if bd_bidder b = a then max 0 (bd_deposit b) else 0)" by blast
    let ?s = "publish (Event ''refund'' [AddrV (self h)] [AddrV (bd_bidder b), NatV round, IntV (bd_deposit b)])
      (s\<lparr>cb_ledger := l1\<rparr>)"
    have u: "u_checked_add 32 refunded (Suc 0) = Some (Suc refunded)"
      using Cons.prems(4) by (simp add: u_checked_add_def)
    have step: "refund_loop E h c round w cap (b # bs) kept refunded remaining s
        = refund_loop E h c round w cap bs kept (Suc refunded) remaining ?s"
      using True by (simp add: loses_def p u)
    from Cons.IH [of ?s "Suc refunded" remaining kept] Cons.prems l1 due obtain ev l where
      "refund_loop E h c round w cap bs kept (Suc refunded) remaining ?s
        = Inr (kept @ drop_losers (loses round w) k bs,
          remaining + (length (filter (loses round w) bs) - k), ?s\<lparr>cb_events := ev, cb_ledger := l\<rparr>)"
      "ok l" "tk_balance T l tok me = tk_balance T l1 tok me - owed_total (take k (filter (loses round w) bs))"
      "\<And>a. a \<noteq> me \<Longrightarrow> tk_balance T l tok a = tk_balance T l1 tok a
          + owed_to a (take k (filter (loses round w) bs))"
      by (auto simp: k(2))
    with True l1 k(1) show ?thesis unfolding step
      by (intro exI [of _ ev] exI [of _ l]) (auto simp: publish_def)
  next
    case False
    then have cap: "cap - refunded = 0" if "loses round w b" using that by simp
    let ?r = "if loses round w b then Suc remaining else remaining"
    note step = refund_loop_keeps [OF False Cons.prems(5)]
    have "?r + length bs < 2 ^ 32" using Cons.prems(5) by simp
    with Cons.IH [of s refunded ?r "kept @ [b]"] Cons.prems False cap show ?thesis
      unfolding step by (cases "loses round w b") auto
  qed
qed

end

section \<open>One call, and enough calls\<close>

text \<open>A series of calls: hosts and callers.\<close>

fun refund_calls ::
    "'l circle_env \<Rightarrow> nat \<Rightarrow> nat \<Rightarrow> (host \<times> addr) list \<Rightarrow> 'l circle_state
      \<Rightarrow> (circle_error, 'l circle_state) res" where
  "refund_calls E round limit [] s = Inr s"
| "refund_calls E round limit ((h, a) # calls) s =
     bind_res (refund_losing_bids E h a round limit s) (\<lambda>(_, s). refund_calls E round limit calls s)"

definition bids_of :: "'l circle_state \<Rightarrow> auction_bid list" where
  "bids_of s = unwrap_or (ci_bids s) []"

text \<open>A resolved round whose losers can be paid.\<close>

definition refundable ::
    "'l token_api \<Rightarrow> ('l \<Rightarrow> bool) \<Rightarrow> addr \<Rightarrow> addr \<Rightarrow> addr set \<Rightarrow> nat \<Rightarrow> addr \<Rightarrow> 'l circle_state \<Rightarrow> bool" where
  "refundable T ok tok me payees round w s \<longleftrightarrow> ok (cb_ledger s) \<and> \<not> is_paused s
     \<and> (\<exists>c. ci_circle s = Some c \<and> cl_token c = tok \<and> cl_id c = me) \<and> ci_auction_winner s round = Some w
     \<and> (\<forall>b\<in>set (bids_of s). loses round w b \<longrightarrow> bd_bidder b \<in> payees)
     \<and> owed_total (filter (loses round w) (bids_of s)) \<le> tk_balance T (cb_ledger s) tok me
     \<and> length (bids_of s) < 2 ^ 32"

context paying_token
begin

lemma refund_losing_bids_pays:
  assumes "ce_token E = T" "refundable T ok tok me payees round w s" "authorized h a" "0 < limit"
  shows "\<exists>s'. refund_losing_bids E h a round limit s
      = Inr (length (filter (loses round w) (bids_of s)) - min limit LOSER_REFUND_BATCH_CAP, s')
    \<and> refundable T ok tok me payees round w s'
    \<and> filter (loses round w) (bids_of s') = drop (min limit LOSER_REFUND_BATCH_CAP) (filter (loses round w) (bids_of s))
    \<and> filter (\<lambda>b. \<not> loses round w b) (bids_of s') = filter (\<lambda>b. \<not> loses round w b) (bids_of s)
    \<and> (\<forall>x. x \<noteq> me \<longrightarrow> tk_balance T (cb_ledger s') tok x = tk_balance T (cb_ledger s) tok x
        + owed_to x (take (min limit LOSER_REFUND_BATCH_CAP) (filter (loses round w) (bids_of s))))"
proof -
  let ?k = "min limit LOSER_REFUND_BATCH_CAP" and ?L = "filter (loses round w) (bids_of s)"
  from assms(2) obtain c where c: "ci_circle s = Some c" "cl_token c = tok" "cl_id c = me"
    and s: "ok (cb_ledger s)" "\<not> is_paused s" "ci_auction_winner s round = Some w"
      "\<forall>b\<in>set (bids_of s). loses round w b \<longrightarrow> bd_bidder b \<in> payees"
      "owed_total ?L \<le> tk_balance T (cb_ledger s) tok me" "length (bids_of s) < 2 ^ 32"
    unfolding refundable_def by blast
  have "owed_total (take ?k ?L) \<le> tk_balance T (cb_ledger s) tok me"
    using s(5) owed_total_take_drop [of ?L ?k] owed_total_nonneg [of "drop ?k ?L"] by simp
  with refund_loop_pays [OF assms(1) c(2,3) s(1,4), of ?k 0 0 h "[]"] s(6) obtain ev l where
    r: "refund_loop E h c round w ?k (bids_of s) [] 0 0 s
      = Inr (drop_losers (loses round w) ?k (bids_of s), length ?L - ?k, s\<lparr>cb_events := ev, cb_ledger := l\<rparr>)"
    and l: "ok l" "tk_balance T l tok me = tk_balance T (cb_ledger s) tok me - owed_total (take ?k ?L)"
      "\<And>x. x \<noteq> me \<Longrightarrow> tk_balance T l tok x = tk_balance T (cb_ledger s) tok x + owed_to x (take ?k ?L)"
    by auto
  let ?s = "s\<lparr>cb_events := ev, cb_ledger := l, ci_bids := Some (drop_losers (loses round w) ?k (bids_of s))\<rparr>"
  have cap: "(if LOSER_REFUND_BATCH_CAP < limit then LOSER_REFUND_BATCH_CAP else limit) = ?k" by simp
  have call: "refund_losing_bids E h a round limit s = Inr (length ?L - ?k, ?s)"
    using c(1) s(2,3) assms(3,4) r
    by (simp add: refund_losing_bids_def when_not_paused_def require_auth_def Let_def cap
        bids_of_def [symmetric] del: min_def)
  have bids: "bids_of ?s = drop_losers (loses round w) ?k (bids_of s)" by (simp add: bids_of_def)
  have "owed_total (drop ?k ?L) \<le> tk_balance T l tok me"
    using s(5) owed_total_take_drop [of ?L ?k] l(2) by simp
  then have "refundable T ok tok me payees round w ?s"
    using c s(2,3,4,6) l(1) set_drop_losers [of "loses round w" ?k "bids_of s"]
    unfolding refundable_def bids filter_drop_losers by (auto simp: is_paused_def)
  with call l(3) show ?thesis by (intro exI [of _ ?s]) (simp add: bids filter_drop_losers)
qed

lemma refund_calls_finish:
  assumes "ce_token E = T" "refundable T ok tok me payees round w s" "0 < limit"
    and "\<forall>(h, a)\<in>set calls. authorized h a"
    and "length (filter (loses round w) (bids_of s)) \<le> length calls * min limit LOSER_REFUND_BATCH_CAP"
  shows "\<exists>s'. refund_calls E round limit calls s = Inr s'
    \<and> bids_of s' = filter (\<lambda>b. \<not> loses round w b) (bids_of s)
    \<and> (\<forall>x. x \<noteq> me \<longrightarrow> tk_balance T (cb_ledger s') tok x = tk_balance T (cb_ledger s) tok x
        + owed_to x (filter (loses round w) (bids_of s)))"
  using assms(2,4,5)
proof (induction calls arbitrary: s)
  case Nil
  then have "filter (loses round w) (bids_of s) = []" by simp
  then have "filter (\<lambda>b. \<not> loses round w b) (bids_of s) = bids_of s"
    by (simp add: filter_empty_conv filter_id_conv)
  with Nil show ?case by simp
next
  case (Cons p calls)
  let ?k = "min limit LOSER_REFUND_BATCH_CAP" and ?L = "filter (loses round w) (bids_of s)"
  obtain h a where p: "p = (h, a)" by (cases p)
  from Cons.prems(2) p have "authorized h a" by simp
  from refund_losing_bids_pays [OF assms(1) Cons.prems(1) this assms(3)] obtain s1 where
    s1: "refund_losing_bids E h a round limit s = Inr (length ?L - ?k, s1)"
      "refundable T ok tok me payees round w s1" "filter (loses round w) (bids_of s1) = drop ?k ?L"
      "filter (\<lambda>b. \<not> loses round w b) (bids_of s1) = filter (\<lambda>b. \<not> loses round w b) (bids_of s)"
      "\<And>x. x \<noteq> me \<Longrightarrow> tk_balance T (cb_ledger s1) tok x = tk_balance T (cb_ledger s) tok x + owed_to x (take ?k ?L)"
    by blast
  have "length (filter (loses round w) (bids_of s1)) \<le> length calls * ?k"
    using Cons.prems(3) by (simp add: s1(3))
  with Cons.IH [OF s1(2)] Cons.prems(2) obtain s2 where s2: "refund_calls E round limit calls s1 = Inr s2"
    "bids_of s2 = filter (\<lambda>b. \<not> loses round w b) (bids_of s)"
    "\<And>x. x \<noteq> me \<Longrightarrow> tk_balance T (cb_ledger s2) tok x = tk_balance T (cb_ledger s1) tok x + owed_to x (drop ?k ?L)"
    by (auto simp: s1(3,4))
  with s1(1,5) owed_to_take_drop [of _ ?L ?k] p show ?case by (intro exI [of _ s2]) simp
qed

end

section \<open>The governance token pays\<close>

lemma gov_two_balances:
  assumes "gt_inv s" "a \<noteq> b"
  shows "balance s a + balance s b \<le> i128_max"
proof (cases "gt_balances s")
  case None
  then show ?thesis by (simp add: balance_def i128_max_def)
next
  case (Some m)
  with assms have m: "finite (dom m)" "\<And>c v. m c = Some v \<Longrightarrow> 0 \<le> v" "msum id m \<le> i128_max"
    by (auto simp: gt_inv_def)
  have "msum id m = opt_val id (m a) + msum id (m(a := None))" using m(1) by (simp add: msum_del)
  moreover have "opt_val id (m b) \<le> msum id (m(a := None))"
  proof (cases "m b")
    case None
    have "0 \<le> msum id (m(a := None))" by (rule msum_nonneg) (use m(2) in \<open>auto split: if_splits\<close>)
    with None show ?thesis by simp
  next
    case (Some v)
    have "finite (dom (m(a := None)))" using m(1) by (simp only: dom_fun_upd finite_Diff simp_thms if_True)
    then have "id v \<le> msum id (m(a := None))"
      by (rule msum_ge_entry) (use m(2) Some assms(2) in \<open>auto split: if_splits\<close>)
    with Some show ?thesis by simp
  qed
  ultimately show ?thesis using m(3) Some by (simp add: balance_def unwrap_or_opt_val)
qed

lemma gov_open_transfer:
  assumes "gov_open l" "tk_transfer (gt_api h) l t a b x = Some l'"
  shows "gov_open l'"
  using assms
  by (auto simp: gt_api_transfer transfer_Inr move_balance_Inr gov_open_def publish_transfer_def publish_def)

definition payer_host :: host where
  "payer_host = \<lparr>self = 100, now = 60, seq = 60, authorized = \<lambda>_. True\<rparr>"

lemma gov_open_sep41: "sep41 (gt_api h) (\<lambda>l. gt_ok l \<and> gov_open l)"
proof
  fix l l' :: "addr \<Rightarrow> gov_token" and t u a b c :: addr and x :: int
  assume ok: "gt_ok l \<and> gov_open l"
  then have gt: "gt_ok l" by simp
  show "0 \<le> tk_balance (gt_api h) l t c \<and> tk_balance (gt_api h) l t c \<le> i128_max" by (rule gov.balance_range [OF gt])
  assume t: "tk_transfer (gt_api h) l t a b x = Some l'"
  from gov.transfer_ok [OF gt t] gov_open_transfer [OF _ t] ok show "gt_ok l' \<and> gov_open l'" by blast
  show "tk_balance (gt_api h) l' t c =
      tk_balance (gt_api h) l t c - (if c = a then x else 0) + (if c = b then x else 0)"
    by (rule gov.transfer_balance [OF gt t])
  show "0 \<le> x \<and> x \<le> tk_balance (gt_api h) l t a" by (rule gov.transfer_amount [OF gt t])
  show "tk_balance (gt_api h) l' u c = tk_balance (gt_api h) l u c" if "u \<noteq> t"
    by (rule gov.transfer_other_token [OF gt t that])
qed

text \<open>Payments out of the account 100 in the token at 9, to anybody but these two.\<close>

interpretation payer: paying_token "gt_api payer_host" "\<lambda>l. gt_ok l \<and> gov_open l" 9 100 "UNIV - {9, 100}"
proof (rule paying_token.intro [OF gov_open_sep41], unfold_locales)
  fix l :: "addr \<Rightarrow> gov_token" and b :: addr and x :: int
  assume ok: "gt_ok l \<and> gov_open l" and b: "b \<in> UNIV - {9, 100}" and x: "0 < x"
    and le: "x \<le> tk_balance (gt_api payer_host) l 9 100"
  from ok have "gt_inv (l 9)" by (simp add: gt_ok_def)
  from gov_two_balances [OF this, of 100 b] b le
  have "tk_balance (gt_api payer_host) l 9 b + x \<le> i128_max" by (simp add: gt_api_def)
  with gov_pay [of l payer_host 100 x 9 b] ok x le b
  show "\<exists>l'. tk_transfer (gt_api payer_host) l 9 100 b x = Some l'" by (auto simp: payer_host_def)
qed simp

section \<open>Property\<close>

text \<open>
  C18: Enough calls refund every loser. Once the winner of a round is known, in a circle that is not
  paused and holds the deposits, at a token that accepts the payments: every authorized call of
  \<open>refund_losing_bids\<close> succeeds, each settles at least one batch of \<open>min limit 20\<close> losing bids, and
  after \<open>n\<close> calls with \<open>n * min limit 20\<close> at least the number of losing bids the round has none left,
  every other bid is still there in its order, and every account has received exactly the deposits of its
  losing bids, once.
\<close>

theorem refund_calls_terminate:
  assumes laws: "paying_token (ce_token E) ok (cl_token c) (cl_id c) payees"
    and s: "ok (cb_ledger s)" "\<not> is_paused s" "ci_circle s = Some c" "ci_auction_winner s round = Some w"
    and bids: "ci_bids s = Some bids" "length bids < 2 ^ 32"
    and losers: "\<And>b. b \<in> set bids \<Longrightarrow> bd_round b = round \<and> bd_bidder b \<noteq> w \<Longrightarrow> bd_bidder b \<in> payees"
      "(\<Sum>b\<leftarrow>filter (\<lambda>b. bd_round b = round \<and> bd_bidder b \<noteq> w) bids. max 0 (bd_deposit b))
        \<le> tk_balance (ce_token E) (cb_ledger s) (cl_token c) (cl_id c)"
    and calls: "\<forall>(h, a)\<in>set calls. authorized h a" "0 < limit"
      "length (filter (\<lambda>b. bd_round b = round \<and> bd_bidder b \<noteq> w) bids)
        \<le> length calls * min limit LOSER_REFUND_BATCH_CAP"
  shows "\<exists>s'. refund_calls E round limit calls s = Inr s'
    \<and> unwrap_or (ci_bids s') [] = filter (\<lambda>b. bd_round b \<noteq> round \<or> bd_bidder b = w) bids
    \<and> (\<forall>x. x \<noteq> cl_id c \<longrightarrow> tk_balance (ce_token E) (cb_ledger s') (cl_token c) x
        = tk_balance (ce_token E) (cb_ledger s) (cl_token c) x
          + (\<Sum>b\<leftarrow>filter (\<lambda>b. bd_round b = round \<and> bd_bidder b \<noteq> w \<and> bd_bidder b = x) bids. max 0 (bd_deposit b)))"
proof -
  have l: "loses round w = (\<lambda>b. bd_round b = round \<and> bd_bidder b \<noteq> w)" by (simp add: loses_def fun_eq_iff)
  have "refundable (ce_token E) ok (cl_token c) (cl_id c) payees round w s"
    using s bids losers by (auto simp: refundable_def bids_of_def l owed_total_def)
  from paying_token.refund_calls_finish [OF laws refl this calls(2,1)] calls(3) bids(1) obtain s' where
    s': "refund_calls E round limit calls s = Inr s'" "bids_of s' = filter (\<lambda>b. \<not> loses round w b) bids"
    "\<And>x. x \<noteq> cl_id c \<Longrightarrow> tk_balance (ce_token E) (cb_ledger s') (cl_token c) x
        = tk_balance (ce_token E) (cb_ledger s) (cl_token c) x + owed_to x (filter (loses round w) bids)"
    by (auto simp: bids_of_def l)
  have "owed_to x (filter (loses round w) bids)
      = (\<Sum>b\<leftarrow>filter (\<lambda>b. bd_round b = round \<and> bd_bidder b \<noteq> w \<and> bd_bidder b = x) bids. max 0 (bd_deposit b))" for x
    by (induction bids) (auto simp: l)
  with s' show ?thesis by (intro exI [of _ s']) (simp add: bids_of_def l)
qed

text \<open>A round of three bids, two of them losing, refunded one at a time.\<close>

definition rf_env :: "(addr \<Rightarrow> gov_token) circle_env" where
  "rf_env = \<lparr>ce_token = gt_api payer_host, ce_deposit_fee = \<lambda>_ _ _ _ _. None, ce_max_size = \<lambda>_ _ _. None,
     ce_max_contrib = \<lambda>_ _ _. None, ce_yield_rate = \<lambda>_ _ _. None, ce_sha = \<lambda>b. b, ce_xdr = \<lambda>_. []\<rparr>"

definition rf_bid :: "addr \<Rightarrow> int \<Rightarrow> auction_bid" where
  "rf_bid a x = \<lparr>bd_bidder = a, bd_discount_bips = 100, bd_round = 0, bd_timestamp = 1, bd_deposit = x\<rparr>"

definition rf_state :: "(addr \<Rightarrow> gov_token) circle_state" where
  "rf_state = (circle_empty (gov_ledger [(100, 80)]))\<lparr>
     ci_circle := Some (new_circle payer_host 3 cw_config),
     ci_bids := Some [rf_bid 6 50, rf_bid 5 50, rf_bid 7 30], ci_auction_winner := [0 \<mapsto> 5]\<rparr>"

theorem refund_calls_terminate_witness:
  "\<exists>s'. refund_calls rf_env 0 1 [(payer_host, 1), (payer_host, 1)] rf_state = Inr s'
    \<and> unwrap_or (ci_bids s') [] = [rf_bid 5 50]
    \<and> tk_balance (gt_api payer_host) (cb_ledger s') 9 6 = tk_balance (gt_api payer_host) (cb_ledger rf_state) 9 6 + 50"
proof -
  let ?c = "new_circle payer_host 3 cw_config" and ?B = "[rf_bid 6 50, rf_bid 5 50, rf_bid 7 30]"
  have c: "cl_token ?c = 9" "cl_id ?c = 100" by (simp_all add: new_circle_def cw_config_def payer_host_def)
  have e: "ce_token rf_env = gt_api payer_host" by (simp add: rf_env_def)
  have laws: "paying_token (ce_token rf_env) (\<lambda>l. gt_ok l \<and> gov_open l) (cl_token ?c) (cl_id ?c) (UNIV - {9, 100})"
    unfolding c e by (rule payer.paying_token_axioms)
  have l: "gt_ok (gov_ledger [(100, 80)]) \<and> gov_open (gov_ledger [(100, 80)])"
    using gov_ledger_ok [of "[(100, 80)]"] gov_ledger_open by (simp add: i128_max_def)
  have s: "ci_circle rf_state = Some ?c" "ci_auction_winner rf_state 0 = Some 5" "ci_bids rf_state = Some ?B"
    "cb_ledger rf_state = gov_ledger [(100, 80)]" "\<not> is_paused rf_state"
    by (simp_all add: rf_state_def circle_empty_def is_paused_def)
  have b: "tk_balance (ce_token rf_env) (cb_ledger rf_state) (cl_token ?c) (cl_id ?c) = 80"
    by (simp add: e s c gt_api_def gov_ledger_def balance_def)
  have lose: "bd_bidder b \<in> UNIV - {9, 100}" if "b \<in> set ?B" for b using that by (auto simp: rf_bid_def)
  have due: "(\<Sum>b\<leftarrow>filter (\<lambda>b. bd_round b = 0 \<and> bd_bidder b \<noteq> 5) ?B. max 0 (bd_deposit b))
      \<le> tk_balance (ce_token rf_env) (cb_ledger rf_state) (cl_token ?c) (cl_id ?c)"
    unfolding b by (simp add: rf_bid_def)
  have calls: "\<forall>(h, a)\<in>set [(payer_host, 1), (payer_host, 1)]. authorized h a" by (simp add: payer_host_def)
  have few: "length ?B < 2 ^ 32" "length (filter (\<lambda>b. bd_round b = 0 \<and> bd_bidder b \<noteq> 5) ?B)
      \<le> length [(payer_host, 1 :: addr), (payer_host, 1)] * min 1 LOSER_REFUND_BATCH_CAP"
    by (simp_all add: rf_bid_def LOSER_REFUND_BATCH_CAP_def)
  note fin = refund_calls_terminate [OF laws l [folded s(4)] s(5,1,2,3) few(1) lose due calls zero_less_one few(2)]
  then obtain s' where "refund_calls rf_env 0 1 [(payer_host, 1), (payer_host, 1)] rf_state = Inr s'"
    "unwrap_or (ci_bids s') [] = filter (\<lambda>b. bd_round b \<noteq> 0 \<or> bd_bidder b = 5) ?B"
    "\<forall>x. x \<noteq> cl_id ?c \<longrightarrow> tk_balance (ce_token rf_env) (cb_ledger s') (cl_token ?c) x
        = tk_balance (ce_token rf_env) (cb_ledger rf_state) (cl_token ?c) x
          + (\<Sum>b\<leftarrow>filter (\<lambda>b. bd_round b = 0 \<and> bd_bidder b \<noteq> 5 \<and> bd_bidder b = x) ?B. max 0 (bd_deposit b))"
    by blast
  then show ?thesis unfolding c e by (intro exI [of _ s']) (simp add: rf_bid_def)
qed

end
