(* ===== verification/Circle_Progress.thy ===== *)
theory Circle_Progress
  imports Circle_Settings Circle_Refunds
begin

text \<open>
  A circle does not get stuck: the random draw of a round never runs out of fresh nonces, and in a world
  that accepts its payments a round that is due can be settled by the organizer. The world is the locale
  \<open>settling_world\<close>, the governance token and a treasury of the model an instance of it.
\<close>

section \<open>The draw of every round is fresh\<close>

definition draw_state :: "'l circle_state \<Rightarrow> nat option \<times> nat option \<times> bytes option" where
  "draw_state s = (vrf_nonce s, vrf_counter s, vrf_salt s)"

interpretation drawing: circle_frame draw_state
  by unfold_locales (simp_all add: draw_state_def)

text \<open>Round \<open>r\<close> draws at most a hundred nonces, from \<open>1000 r\<close> on; the earlier ones lie below.\<close>

definition draw_ready :: "circle \<Rightarrow> 'l circle_state \<Rightarrow> bool" where
  "draw_ready c s \<longleftrightarrow> vrf_salt s \<noteq> None \<and> (\<exists>n. vrf_counter s = Some n \<and> n \<le> 100 * cl_current_round c)
     \<and> (\<forall>n. vrf_nonce s = Some n \<longrightarrow> n < 1000 * cl_current_round c)"

lemma draw_ready_mono:
  assumes "draw_ready c s" "draw_state s' = draw_state s" "cl_current_round c \<le> cl_current_round c'"
  shows "draw_ready c' s'"
proof -
  from assms(3) have "100 * cl_current_round c \<le> 100 * cl_current_round c'"
    "1000 * cl_current_round c \<le> 1000 * cl_current_round c'" by simp_all
  with assms(1,2) show ?thesis unfolding draw_ready_def draw_state_def prod.inject by (metis order_trans less_le_trans)
qed

lemma circle_ok_round:
  assumes "circle_ok c ms"
  shows "cl_current_round c \<le> 100"
proof -
  note ok = circle_okD [OF assms]
  have "card (paid_positions c) \<le> card {..<length ms}" by (rule card_mono [OF _ ok(7)]) simp
  with ok(4,6,8) show ?thesis by simp
qed

lemma shuffle_ready:
  assumes "draw_ready c s" "circle_ok c ms"
  shows "\<exists>ps s1. shuffle_positions sha (cl_max_members c) (wrap_u 32 (int (cl_current_round c) * 1000)) s = Inr (ps, s1)
    \<and> draw_ready (c\<lparr>cl_current_round := Suc (cl_current_round c)\<rparr>) s1"
proof -
  let ?r = "cl_current_round c" and ?n = "cl_max_members c"
  from assms(1) obtain k salt where v: "vrf_counter s = Some k" "k \<le> 100 * ?r" "vrf_salt s = Some salt"
    and fresh: "fresh_nonce (1000 * ?r) s"
    by (auto simp: draw_ready_def fresh_nonce_def split: option.split)
  note n = circle_okD(5,6) [OF assms(2)] and r = circle_ok_round [OF assms(2)]
  have w: "wrap_u 32 (int ?r * 1000) = 1000 * ?r" using r by (simp add: wrap_u_def)
  have m: "map (\<lambda>i. 1000 * ?r + i) [0..<?n] = [1000 * ?r..<1000 * ?r + length [0..<?n]]"
    using map_add_upt [of "1000 * ?r" ?n] by (simp add: add.commute)
  from shuffle_loop_spec [OF m _ fresh v(1,3), of sha ?n "[]"] n r v(2) obtain s1 ps where
    "shuffle_loop sha ?n (1000 * ?r) [0..<?n] [] s = Inr (ps, s1)"
    "vrf_counter s1 = Some (k + ?n)" "vrf_salt s1 = Some salt" "vrf_nonce s1 = Some (1000 * ?r + ?n - 1)"
    by auto
  with n v(2) show ?thesis by (auto simp: shuffle_positions_def w draw_ready_def)
qed

lemma resolve_recipient_ready:
  assumes "resolve_recipient E c (cl_current_round c) s = Inr (rp, s1)" "draw_ready c s" "circle_ok c ms"
  shows "draw_ready (c\<lparr>cl_current_round := Suc (cl_current_round c)\<rparr>) s1"
proof (cases "cl_payout_type c = PAYOUT_RANDOM")
  case True
  with assms(1) obtain a where "resolve_random E c (cl_current_round c) s = Inr (a, s1)"
    by (auto simp: resolve_recipient_def bind_res_Inr)
  then obtain ps where sh: "shuffle_positions (ce_sha E) (cl_max_members c)
      (wrap_u 32 (int (cl_current_round c) * 1000)) s = Inr (ps, s1)"
    by (auto simp: resolve_random_def seq_simps Let_def split: option.splits)
  from shuffle_ready [OF assms(2,3), of "ce_sha E"] show ?thesis unfolding sh by auto
next
  case False
  with assms(1) have "draw_state s1 = draw_state s"
    by (auto simp: resolve_recipient_def bind_res_Inr split: if_splits)
  with draw_ready_mono [OF assms(2) this] show ?thesis by simp
qed

lemma trigger_internal_ready:
  assumes "trigger_payout_internal E h round s = Inr s'" "ci_circle s = Some c" "draw_ready c s" "mem_inv s"
  shows "\<exists>c'. ci_circle s' = Some c' \<and> draw_ready c' s'"
proof -
  from assms(1,2) obtain r pt s1 ms net fee where rd: "round = cl_current_round c"
    and r: "resolve_recipient E c round s = Inr ((r, pt), s1)" and ms: "ci_members s1 = Some ms"
    and fin: "if net \<le> 0 then settle_empty_round E h c r pt round s1 = Inr s'
      else settle_round E h c r pt round net fee s1 = Inr s'"
    by (fastforce simp: trigger_payout_internal_def res_simps Let_def split: if_splits)
  from assms(2,4) obtain ms0 where "circle_ok c ms0" by (auto simp: mem_inv_def)
  from resolve_recipient_ready [OF r [unfolded rd] assms(3) this]
  have 1: "draw_ready (c\<lparr>cl_current_round := Suc (cl_current_round c)\<rparr>) s1" .
  from fin have 2: "draw_state s' = draw_state s1"
    using drawing.settle_empty_round_leaves drawing.settle_round_leaves [OF _ ms] by (metis (full_types))
  from trigger_payout_internal_Inr [OF assms(1)] assms(2) obtain c' where
    "ci_circle s' = Some c'" "cl_current_round c' = Suc (cl_current_round c)"
    by (auto simp: round_settled_def)
  with draw_ready_mono [OF 1 2, of c'] show ?thesis by simp
qed

definition draw_inv :: "'l circle_state \<Rightarrow> bool" where
  "draw_inv s \<longleftrightarrow> mem_inv s \<and> (\<exists>c. ci_circle s = Some c \<and> draw_ready c s)"

lemma setter_draw:
  assumes "ci_exec E h op s = Inr s'" "governs op"
  shows "draw_state s' = draw_state s"
  using assms
  by (cases op) (auto simp: draw_state_def withdraw_treasury_def guard_leave_def
      pause_circle_def unpause_circle_def common_pause_def common_unpause_def
      set_reputation_registry_def set_treasury_def set_fee_bps_def set_allowlist_def set_oracle_def
      set_fallback_oracle_def configure_from_factory_def set_primary_oracle_def
      store_fallback_oracle_def res_simps Let_def split: if_splits)

lemma ci_exec_draw_inv:
  assumes "ci_exec E h op s = Inr s'" "draw_inv s"
  shows "draw_inv s'"
proof -
  from assms(2) obtain c where c: "mem_inv s" "ci_circle s = Some c" "draw_ready c s" by (auto simp: draw_inv_def)
  have "\<exists>c'. ci_circle s' = Some c' \<and> draw_ready c' s'"
  proof (cases "settles op")
    case False
    with drawing.ci_exec_leaves [OF assms(1)] setter_draw [OF assms(1)] have "draw_state s' = draw_state s" by blast
    with ci_exec_evolves [OF assms(1) c(2,1)] draw_ready_mono [OF c(3)] show ?thesis
      by (auto simp: circle_evolves_def)
  next
    case True
    then consider a r where "op = CiTriggerPayout a r" | "op = CiCheckDeadline" by (cases op) auto
    then show ?thesis
    proof cases
      case 1
      with assms(1) have "trigger_payout E h a r s = Inr s'" by simp
      then show ?thesis
      proof (rule trigger_payout_Inr)
        fix s1
        assume t: "trigger_payout_internal E h r (s\<lparr>cb_reent := Some True\<rparr>) = Inr s1" and s': "s' = guard_leave s1"
        from trigger_internal_ready [OF t, of c] c show ?thesis
          by (auto simp: s' draw_ready_def guard_leave_def mem_inv_def)
      qed
    next
      case 2
      with assms(1) have "check_contribution_deadline E h s = Inr s'" by simp
      then show ?thesis
      proof (rule check_deadline_Inr)
        fix c1 :: circle and ms s1
        let ?s = "s\<lparr>cb_reent := Some True\<rparr>"
        let ?t = "strike_non_contributors h c1 (cl_current_round c1) (round_contributors ?s (cl_current_round c1)) ms ?s"
        assume m: "ci_circle s = Some c1" "ci_members s = Some ms"
          and tr: "trigger_payout_internal E h (cl_current_round c1) ?t = Inr s1" and s': "s' = guard_leave s1"
        from m c(2) have "c1 = c" by simp
        from strike_non_contributors_frame [of ?s ms h c1] m obtain ms' where
          ms': "ci_members ?t = Some ms'" "same_people ms ms'" "ci_circle ?t = Some c1" by fastforce
        have "ci_circle ?t = Some c" using ms'(3) \<open>c1 = c\<close> by simp
        moreover have "mem_inv ?t"
          by (rule mem_inv_people [OF c(1) m ms'(3) _ ms'(1,2)]) (simp add: circle_agrees_def)
        moreover have "draw_ready c ?t" by (rule draw_ready_mono [OF c(3)]) simp_all
        ultimately show ?thesis
          using trigger_internal_ready [OF tr] by (auto simp: s' draw_ready_def guard_leave_def)
      qed
    qed
  qed
  with ci_exec_mem_inv [OF assms(1) c(1)] show ?thesis by (simp add: draw_inv_def)
qed

lemma ci_run_draw_inv:
  assumes "ci_run E me s s'" "draw_inv s"
  shows "draw_inv s'"
  by (rule ci_run_invariant [where I = draw_inv, OF assms])
    (blast intro: ci_exec_draw_inv, simp add: draw_inv_def mem_inv_def draw_ready_def)

lemma circle_init_draw_inv:
  assumes "circle_init E h salt admin factory config (circle_empty l) = Inr s"
  shows "draw_inv s"
proof -
  from assms have "vrf_salt s \<noteq> None" "vrf_counter s = Some 0" "vrf_nonce s = None"
    by (auto simp: circle_init_def seq_simps Let_def init_vrf_def circle_empty_def)
  with circle_init_mem_inv [OF assms] circle_init_Inr [OF assms] show ?thesis
    by (auto simp: draw_inv_def draw_ready_def)
qed

section \<open>A world that accepts the payments of a round\<close>

definition room :: "int \<Rightarrow> circle_member list \<Rightarrow> bool" where
  "room x ms \<longleftrightarrow> (\<forall>m\<in>set ms. 0 \<le> mb_total_received m \<and> mb_total_received m + x \<le> i128_max)"

text \<open>The fee entry of the round can take the fee.\<close>

definition fee_room :: "nat \<Rightarrow> int \<Rightarrow> 'l circle_state \<Rightarrow> bool" where
  "fee_room round fee s \<longleftrightarrow>
     (let g = unwrap_or (ci_round_fee_ledger s round) (empty_round_fee_ledger round)
      in 0 \<le> rf_payout_fee g \<and> 0 \<le> rf_late_penalty_fee g
         \<and> rf_payout_fee g + fee + rf_late_penalty_fee g \<le> i128_max)"

text \<open>
  The token pays the members, and a treasury for which \<open>accepts\<close> holds takes a fee; paying a member does
  not change that.
\<close>

locale settling_world = circle_world E ok me + paying_token "ce_token E" ok tok me payees
  for E :: "'l circle_env" and ok :: "'l \<Rightarrow> bool" and me tok :: addr and payees :: "addr set" +
  fixes accepts :: "'l \<Rightarrow> addr \<Rightarrow> int \<Rightarrow> bool"
  assumes accepts_fee: "ok l \<Longrightarrow> accepts l tr x \<Longrightarrow> 0 < x \<Longrightarrow> x \<le> tk_balance (ce_token E) l tok me \<Longrightarrow>
      \<exists>l'. ce_deposit_fee E l tr me x me = Some l'"
    and accepts_pay: "ok l \<Longrightarrow> accepts l tr x \<Longrightarrow> b \<in> payees \<Longrightarrow> tk_transfer (ce_token E) l tok me b y = Some l' \<Longrightarrow>
      accepts l' tr x"
begin

definition funds :: "'l \<Rightarrow> int" where
  "funds l = tk_balance (ce_token E) l tok me"

text \<open>\<open>paid x l l'\<close>: the circle pays \<open>x\<close>, and the treasuries accept what they accepted.\<close>

definition paid :: "int \<Rightarrow> 'l \<Rightarrow> 'l \<Rightarrow> bool" where
  "paid x l l' \<longleftrightarrow> ok l' \<and> funds l' = funds l - x \<and> (\<forall>tr y. accepts l tr y \<longrightarrow> accepts l' tr y)"

lemma paid_refl: "ok l \<Longrightarrow> paid 0 l l"
  by (simp add: paid_def)

lemma paid_trans: "paid x l l1 \<Longrightarrow> paid y l1 l2 \<Longrightarrow> paid (x + y) l l2"
  by (simp add: paid_def)

lemma pay_total:
  assumes "ok (cb_ledger s)" "b \<in> payees" "0 < x" "x \<le> funds (cb_ledger s)"
  shows "\<exists>l. token_transfer (ce_token E) tok me b x s = (Inr (s\<lparr>cb_ledger := l\<rparr>) :: ('e, 'l circle_state) res)
    \<and> paid x (cb_ledger s) l"
proof -
  from pay_effect [OF assms(1-3)] assms(4) obtain l where
    t: "tk_transfer (ce_token E) (cb_ledger s) tok me b x = Some l" and l: "ok l"
      "tk_balance (ce_token E) l tok me = tk_balance (ce_token E) (cb_ledger s) tok me - x"
    unfolding funds_def by blast
  from accepts_pay [OF assms(1) _ assms(2) t] l have "paid x (cb_ledger s) l" by (simp add: paid_def funds_def)
  with t show ?thesis by (auto simp: token_transfer_Inr)
qed

lemma credit_total:
  assumes "room y ms" "0 \<le> x" "x \<le> y"
  shows "\<exists>ms'. credit_members a x ms = Inr ms' \<and> room (y - x) ms'"
  using assms(1)
proof (induction ms)
  case Nil
  then show ?case by (simp add: room_def)
next
  case (Cons m ms)
  then obtain ns where ns: "credit_members a x ms = Inr ns" "room (y - x) ns" by (auto simp: room_def)
  from Cons.prems have m: "0 \<le> mb_total_received m" "mb_total_received m + y \<le> i128_max" by (simp_all add: room_def)
  with assms(2,3) have "add_or_invalid (mb_total_received m) x = Inr (mb_total_received m + x)"
    by (simp add: map_err_Inr safe_add_Inr in_i128_def i128_min_def)
  with ns m assms(2,3) show ?case by (cases "mb_address m = a") (auto simp: room_def)
qed

text \<open>The shares of a random round fit: each is a part of the net amount that its weight allows.\<close>

lemma share_loop_total:
  assumes "cl_token c = tok" "cl_id c = me" "0 < net" "net \<le> i128_max"
    and "set as \<subseteq> payees" "ok (cb_ledger s)" "0 \<le> d" "d \<le> net" "net - d \<le> funds (cb_ledger s)"
    and "room (net - d) ms" "net * int (weight_sum mw as) \<le> (net - d) * int tw"
  shows "\<exists>ms' ps' d' l. share_loop E h c r pt net tw mw as ms ps d s = Inr (ms', ps', d', s\<lparr>cb_ledger := l\<rparr>)
    \<and> 0 \<le> d' \<and> d' \<le> net \<and> paid (d' - d) (cb_ledger s) l \<and> room (net - d') ms'"
  using assms(5-)
proof (induction "as" arbitrary: ms ps d s)
  case Nil
  have "s = s\<lparr>cb_ledger := cb_ledger s\<rparr>" by simp
  with Nil paid_refl show ?case
    by (intro exI [of _ ms] exI [of _ ps] exI [of _ d] exI [of _ "cb_ledger s"]) simp
next
  case (Cons a "as")
  let ?sh = "\<lambda>w. if d = 0 \<and> w = tw then net else wrap_i128 (int (u_saturating_mul 128 (nat net) w div tw))"
  have ws: "weight_sum mw (a # as) = unwrap_or (mw a) 0 + weight_sum mw as" by (simp add: weight_sum_def)
  have a: "a \<in> payees" "set as \<subseteq> payees" using Cons.prems(1) by simp_all
  show ?case
  proof (cases "\<exists>w. mw a = Some w \<and> 0 < tw \<and> 0 < ?sh w")
    case False
    then have skip: "share_loop E h c r pt net tw mw (a # as) ms ps d s = share_loop E h c r pt net tw mw as ms ps d s"
      by (auto simp: Let_def split: option.split)
    have "net * int (weight_sum mw as) \<le> net * int (weight_sum mw (a # as))" using assms(3) by (simp add: ws)
    with Cons.prems(7) have "net * int (weight_sum mw as) \<le> (net - d) * int tw" by simp
    from Cons.IH [OF a(2) Cons.prems(2-6) this] show ?thesis unfolding skip .
  next
    case True
    then obtain w where w: "mw a = Some w" "0 < tw" "0 < ?sh w" by blast
    let ?s = "?sh w"
    from share_le [OF assms(3,4) w(2) refl w(3)] have sl: "?s * int tw \<le> net * int w" .
    have le: "?s * int tw + net * int (weight_sum mw as) \<le> (net - d) * int tw"
      using sl Cons.prems(7) w(1) by (simp add: ws algebra_simps)
    moreover have "0 \<le> net * int (weight_sum mw as)" using assms(3) by simp
    ultimately have "?s * int tw \<le> (net - d) * int tw" by linarith
    with w(2) have s_le: "?s \<le> net - d" by simp
    with Cons.prems(5) have fu: "?s \<le> funds (cb_ledger s)" by linarith
    from pay_total [OF Cons.prems(2) a(1) w(3) fu] obtain l where
      t: "token_transfer (ce_token E) tok me a ?s s = (Inr (s\<lparr>cb_ledger := l\<rparr>) :: (circle_error, _) res)"
      and pd: "paid ?s (cb_ledger s) l" by blast
    from credit_total [OF Cons.prems(6) less_imp_le [OF w(3)] s_le] obtain ns where
      cr: "credit_members a ?s ms = Inr ns" and rm: "room (net - (d + ?s)) ns" by (auto simp: algebra_simps)
    have add: "add_or_invalid d ?s = Inr (d + ?s)"
      using Cons.prems(3) s_le w(3) assms(4) by (simp add: map_err_Inr safe_add_Inr in_i128_def i128_min_def)
    let ?ps = "ps @ [payout_entry h a r ?s 0 pt]" and ?s1 = "s\<lparr>cb_ledger := l\<rparr>"
    have step: "share_loop E h c r pt net tw mw (a # as) ms ps d s
        = share_loop E h c r pt net tw mw as ns ?ps (d + ?s) ?s1"
      unfolding share_loop.simps w(1) option.case Let_def assms(1,2) t bind_res_simps add cr
      by (simp only: w(2,3) if_True)
    have "\<exists>ms' ps' d' l'. share_loop E h c r pt net tw mw as ns ?ps (d + ?s) ?s1 = Inr (ms', ps', d', ?s1\<lparr>cb_ledger := l'\<rparr>)
        \<and> 0 \<le> d' \<and> d' \<le> net \<and> paid (d' - (d + ?s)) (cb_ledger ?s1) l' \<and> room (net - d') ms'"
      by (rule Cons.IH [OF a(2)])
        (use pd rm le s_le w(3) Cons.prems(3,5) in \<open>simp_all add: paid_def algebra_simps\<close>)
    then obtain ms' ps' d' l' where
      rest: "share_loop E h c r pt net tw mw as ns ?ps (d + ?s) ?s1 = Inr (ms', ps', d', ?s1\<lparr>cb_ledger := l'\<rparr>)"
      "0 \<le> d'" "d' \<le> net" "paid (d' - (d + ?s)) (cb_ledger ?s1) l'" "room (net - d') ms'" by blast
    from paid_trans [OF pd, of "d' - (d + ?s)" l'] rest(4) have "paid (d' - d) (cb_ledger s) l'" by simp
    with rest show ?thesis
      by (intro exI [of _ ms'] exI [of _ ps'] exI [of _ d'] exI [of _ l']) (simp only: step, simp)
  qed
qed

lemma collateral_total:
  assumes "cl_token c = tok" "cl_id c = me" "0 < cl_collateral_amount c"
    and "mb_address ` set ms \<subseteq> payees" "ok (cb_ledger s)" "owed_collateral c ms \<le> funds (cb_ledger s)"
  shows "\<exists>l. refund_collateral E c ms s = Inr (s\<lparr>cb_ledger := l\<rparr>)"
  using assms(4-)
proof (induction ms arbitrary: s)
  case Nil
  have "s = s\<lparr>cb_ledger := cb_ledger s\<rparr>" by simp
  then show ?case unfolding refund_collateral.simps by blast
next
  case (Cons m ms)
  show ?case
  proof (cases "mb_status m = MEMBER_ACTIVE")
    case False
    with Cons show ?thesis by (simp add: owed_collateral_def active_members_def)
  next
    case True
    then have owed: "owed_collateral c (m # ms) = cl_collateral_amount c + owed_collateral c ms"
      using assms(3) by (simp add: owed_collateral_def active_members_def algebra_simps)
    have "0 \<le> owed_collateral c ms" by (simp add: owed_collateral_def)
    with owed Cons.prems(3) have "cl_collateral_amount c \<le> funds (cb_ledger s)" by simp
    from pay_total [OF Cons.prems(2) _ assms(3) this, of "mb_address m"] Cons.prems(1) obtain l where
      t: "token_transfer (ce_token E) tok me (mb_address m) (cl_collateral_amount c) s
        = (Inr (s\<lparr>cb_ledger := l\<rparr>) :: (circle_error, _) res)" and l: "paid (cl_collateral_amount c) (cb_ledger s) l"
      by auto
    from Cons.IH [of "s\<lparr>cb_ledger := l\<rparr>"] Cons.prems l owed obtain l' where
      "refund_collateral E c ms (s\<lparr>cb_ledger := l\<rparr>) = Inr (s\<lparr>cb_ledger := l\<rparr>\<lparr>cb_ledger := l'\<rparr>)"
      by (auto simp: paid_def)
    with True t show ?thesis by (auto simp: assms(1,2))
  qed
qed

lemma round_fee_total:
  assumes "cl_token c = tok" "cl_id c = me" "0 \<le> fee" "fee_room round fee s"
    and "ok (cb_ledger s)" "fee \<le> funds (cb_ledger s)"
    and "\<And>tr. ci_treasury s = Some tr \<Longrightarrow> 0 < fee \<Longrightarrow> accepts (cb_ledger s) tr fee"
  shows "\<exists>s'. pay_round_fee E c round fee s = Inr s' \<and> ok (cb_ledger s')
    \<and> funds (cb_ledger s) - fee \<le> funds (cb_ledger s')"
proof (cases "0 < fee")
  case False
  with assms(3,5) show ?thesis by (simp add: pay_round_fee_def)
next
  case True
  have rec: "\<exists>s2. record_round_fee round fee 0 s1 = Inr s2 \<and> cb_ledger s2 = cb_ledger s1"
    if "ci_round_fee_ledger s1 = ci_round_fee_ledger s" for s1 :: "'l circle_state"
    using assms(3,4) that
    by (simp add: record_round_fee_def fee_room_def Let_def map_err_Inr safe_add_Inr seq_simps in_i128_def i128_min_def)
  show ?thesis
  proof (cases "ci_treasury s")
    case None
    with True assms(3,5) rec [of s] show ?thesis by (auto simp: pay_round_fee_def)
  next
    case (Some tr)
    from accepts_fee [OF assms(5) assms(7) [OF Some True] True] assms(6) obtain l where
      l: "ce_deposit_fee E (cb_ledger s) tr me fee me = Some l" by (auto simp: funds_def)
    obtain s2 where "record_round_fee round fee 0 (s\<lparr>cb_ledger := l\<rparr>) = Inr s2" "cb_ledger s2 = l"
      using rec [of "s\<lparr>cb_ledger := l\<rparr>"] by auto
    with True Some l have "pay_round_fee E c round fee s = Inr s2"
      by (simp add: pay_round_fee_def deposit_protocol_fee_def assms(1,2))
    with fee_ok [OF assms(5) l] fee_balance [OF assms(5) l, of tok] \<open>cb_ledger s2 = l\<close> show ?thesis
      by (auto simp: funds_def)
  qed
qed

lemma dust_total:
  assumes "cl_token c = tok" "cl_id c = me" "r \<in> payees" "0 \<le> d" "d \<le> net" "net \<le> i128_max"
    and "ok (cb_ledger s)" "net - d \<le> funds (cb_ledger s)" "room (net - d) ms"
  shows "\<exists>ms' ps' l. pay_dust E h c round pt net r ms ps d s = Inr (ms', ps', net, s\<lparr>cb_ledger := l\<rparr>)
    \<and> paid (net - d) (cb_ledger s) l"
proof (cases "d < net")
  case False
  have "s = s\<lparr>cb_ledger := cb_ledger s\<rparr>" by simp
  with False assms(5,7) paid_refl show ?thesis
    by (intro exI [of _ ms] exI [of _ ps] exI [of _ "cb_ledger s"]) (simp add: pay_dust_def)
next
  case True
  then have p: "0 < net - d" by simp
  from pay_total [OF assms(7,3) p assms(8)] obtain l where
    t: "token_transfer (ce_token E) tok me r (net - d) s = (Inr (s\<lparr>cb_ledger := l\<rparr>) :: (circle_error, _) res)"
    and l: "paid (net - d) (cb_ledger s) l" by blast
  from credit_total [OF assms(9) less_imp_le [OF p] order_refl] obtain ns where cr: "credit_members r (net - d) ms = Inr ns" by blast
  have sub: "map_err (\<lambda>_. circle_error.InvalidAmount) (safe_sub net d) = (Inr (net - d) :: (circle_error, int) res)"
    using assms(4-6) by (simp add: map_err_Inr safe_sub_Inr in_i128_def i128_min_def)
  have add: "add_or_invalid d (net - d) = Inr net"
    using assms(4-6) by (simp add: map_err_Inr safe_add_Inr in_i128_def i128_min_def)
  show ?thesis
    unfolding pay_dust_def assms(1,2) if_P [OF True] sub bind_res_simps t cr add using l by auto
qed

lemma completion_total:
  assumes "cl_token c = tok" "cl_id c = me" "mb_address ` set ms \<subseteq> payees" "ok (cb_ledger s)"
    and "owed_collateral c ms \<le> funds (cb_ledger s)" "ci_members s \<noteq> None"
  shows "\<exists>s'. complete_circle E h c ms s = Inr s'"
proof (cases "0 < cl_collateral_amount c")
  case False
  with assms(6) show ?thesis by (auto simp: complete_circle_def Let_def)
next
  case True
  let ?s = "publish (Event ''complete'' [AddrV (self h)] [IntV (cl_total_payouts c)]) s"
  from collateral_total [OF assms(1,2) True assms(3), of ?s] assms(4,5) obtain l where
    "refund_collateral E c ms ?s = Inr (?s\<lparr>cb_ledger := l\<rparr>)" by auto
  with True assms(6) show ?thesis by (auto simp: complete_circle_def Let_def)
qed

lemma distribution_total:
  assumes "cl_token c = tok" "cl_id c = me" "0 < net" "net \<le> i128_max" "distinct (map mb_address ms)"
    and "mb_address ` set ms \<subseteq> payees" "ok (cb_ledger s)" "net \<le> funds (cb_ledger s)" "room net ms"
    and w: "weigh_contributions (now h) round cs 0 Map.empty = (tw, mw)"
    and lim: "(\<Sum>x\<leftarrow>round_entries round cs. weight_at (now h) x) < 2 ^ 128"
  shows "\<exists>ms1 ps1 d1 l. (if pt = PAYOUT_RANDOM
      then share_loop E h c round pt net tw mw (map mb_address ms) ms ps 0 s
      else Inr (ms, ps, 0, s)) = (Inr (ms1, ps1, d1, s\<lparr>cb_ledger := l\<rparr>) :: (circle_error, _) res)
    \<and> 0 \<le> d1 \<and> d1 \<le> net \<and> paid d1 (cb_ledger s) l \<and> room (net - d1) ms1
    \<and> same_people ms ms1 \<and> map mb_status ms1 = map mb_status ms"
proof (cases "pt = PAYOUT_RANDOM")
  case False
  have "s = s\<lparr>cb_ledger := cb_ledger s\<rparr>" by simp
  with False assms(3,7,9) paid_refl show ?thesis
    by (intro exI [of _ ms] exI [of _ ps] exI [of _ 0] exI [of _ "cb_ledger s"]) simp
next
  case True
  have "weight_sum mw (map mb_address ms) \<le> tw"
    by (rule weigh_contributions_bound [OF w assms(5)]) (use lim in \<open>simp_all add: weight_sum_def\<close>)
  then have "net * int (weight_sum mw (map mb_address ms)) \<le> (net - 0) * int tw" using assms(3) by simp
  from share_loop_total [OF assms(1-4) _ assms(7) _ _ _ _ this, of ms h round pt ps] assms(3,6,8,9)
  obtain ms1 ps1 d1 l where
    sl: "share_loop E h c round pt net tw mw (map mb_address ms) ms ps 0 s = Inr (ms1, ps1, d1, s\<lparr>cb_ledger := l\<rparr>)"
    "0 \<le> d1" "d1 \<le> net" "paid (d1 - 0) (cb_ledger s) l" "room (net - d1) ms1" by auto
  from share_loop_frame [OF sl(1)] sl True show ?thesis by (auto simp del: share_loop.simps)
qed

lemma settle_round_total:
  assumes "ci_members s = Some ms" "ci_oracle s = None" "cl_token c = tok" "cl_id c = me"
    and net: "0 < net" "net \<le> i128_max" "0 \<le> fee" "fee_room round fee s" "room net ms"
    and ms: "distinct (map mb_address ms)" "r \<in> payees" "mb_address ` set ms \<subseteq> payees"
    and lim: "(\<Sum>x\<leftarrow>round_entries round (unwrap_or (ci_contributions s) []). weight_at (now h) x) < 2 ^ 128"
    and pay: "ok (cb_ledger s)" "net + fee + owed_collateral c ms \<le> funds (cb_ledger s)"
      "\<And>tr. ci_treasury s = Some tr \<Longrightarrow> 0 < fee \<Longrightarrow> accepts (cb_ledger s) tr fee"
    and num: "Suc (cl_current_round c) < 2 ^ 32" "in_i128 (cl_total_payouts c + net)" "in_i128 (cl_total_fees c + fee)"
  shows "\<exists>s'. settle_round E h c r pt round net fee s = Inr s'"
proof -
  let ?c = "mark_recipient r ms c"
  let ?ps = "unwrap_or (ci_payouts s) [] @ [payout_entry h r round net fee pt]"
  have c: "cl_token ?c = tok" "cl_id ?c = me" using assms(3,4) by simp_all
  obtain tw mw where w: "weigh_contributions (now h) round (unwrap_or (ci_contributions s) []) 0 Map.empty = (tw, mw)"
    by fastforce
  have col: "0 \<le> owed_collateral c ms" by (simp add: owed_collateral_def)
  with pay(2) net(3) have "net \<le> funds (cb_ledger s)" by linarith
  from distribution_total [OF c net(1,2) ms(1,3) pay(1) this net(5) w lim, of pt ?ps] obtain ms1 ps1 d1 l1 where
    sh: "(if pt = PAYOUT_RANDOM
      then share_loop E h ?c round pt net tw mw (map mb_address ms) ms ?ps 0 s
      else Inr (ms, ?ps, 0, s)) = (Inr (ms1, ps1, d1, s\<lparr>cb_ledger := l1\<rparr>) :: (circle_error, _) res)"
    and d1: "0 \<le> d1" "d1 \<le> net" "paid d1 (cb_ledger s) l1" "room (net - d1) ms1"
      "same_people ms ms1" "map mb_status ms1 = map mb_status ms" by blast
  let ?s1 = "s\<lparr>cb_ledger := l1\<rparr>"
  have l1: "ok l1" "funds l1 = funds (cb_ledger s) - d1" "\<And>tr y. accepts (cb_ledger s) tr y \<Longrightarrow> accepts l1 tr y"
    using d1(3) by (simp_all add: paid_def)
  have "\<exists>s'. pay_round_fee E ?c round fee ?s1 = Inr s' \<and> ok (cb_ledger s')
    \<and> funds (cb_ledger ?s1) - fee \<le> funds (cb_ledger s')"
    by (rule round_fee_total [OF c net(3)]) (use net(4) l1 pay d1(2) col in \<open>auto simp: fee_room_def\<close>)
  then obtain s2 where fe: "pay_round_fee E ?c round fee ?s1 = Inr s2" and s2: "ok (cb_ledger s2)"
    "funds l1 - fee \<le> funds (cb_ledger s2)" by auto
  have f2: "net - d1 + owed_collateral c ms \<le> funds (cb_ledger s2)" using s2(2) l1(2) pay(2) by linarith
  with col have "net - d1 \<le> funds (cb_ledger s2)" by linarith
  from dust_total [OF c ms(2) d1(1,2) net(2) s2(1) this d1(4), of h round pt ps1] obtain ms2 ps2 l3 where
    du: "pay_dust E h ?c round pt net r ms1 ps1 d1 s2 = Inr (ms2, ps2, net, s2\<lparr>cb_ledger := l3\<rparr>)"
    and l3: "paid (net - d1) (cb_ledger s2) l3" by blast
  have ok3: "ok l3" "owed_collateral c ms \<le> funds l3" using l3 f2 by (simp_all add: paid_def)
  obtain c4 s4 where adv: "advance_round E (?c\<lparr>cl_current_round := Suc (cl_current_round c),
       cl_total_payouts := cl_total_payouts c + net, cl_total_fees := cl_total_fees c + fee\<rparr>) (s2\<lparr>cb_ledger := l3\<rparr>) = (c4, s4)"
    by fastforce
  from advance_round_frame [OF adv] have c4: "cl_token c4 = tok" "cl_id c4 = me"
    "cl_collateral_amount c4 = cl_collateral_amount c" "cb_ledger s4 = l3" using c by auto
  from pay_dust_frame [OF du] d1(5,6) have ms2: "same_people ms ms2" "map mb_status ms2 = map mb_status ms"
    using same_people_trans by auto
  have "active_members ms2 = active_members ms"
    using arg_cong [OF ms2(2), of "\<lambda>xs. length (filter (\<lambda>x. x = MEMBER_ACTIVE) xs)"]
    by (simp add: active_members_def filter_map o_def)
  then have owed: "owed_collateral (c4\<lparr>cl_health_score := hs\<rparr>) ms2 = owed_collateral c ms" for hs
    by (simp add: owed_collateral_def c4)
  have fin: "\<exists>s'. complete_circle E h (c4\<lparr>cl_health_score := hs\<rparr>) ms2
      (publish ev (publish ev' (s4\<lparr>ci_circle := Some (c4\<lparr>cl_health_score := hs\<rparr>), ci_payouts := Some ps2,
        ci_members := Some ms2\<rparr>))) = Inr s'" for hs ev ev'
    by (rule completion_total) (use c4 ok3 owed joined_people [OF ms2(1)] ms(3) in \<open>simp_all\<close>)
  have y: "get_yield_rate E h round s = Inr (0, s)" using assms(2) by (simp add: get_yield_rate_def)
  have n: "u_checked_add 32 (cl_current_round ?c) 1 = Some (Suc (cl_current_round c))"
    using num(1) by (simp add: u_checked_add_def)
  have t: "add_or_invalid (cl_total_payouts ?c) net = Inr (cl_total_payouts c + net)"
    "add_or_invalid (cl_total_fees ?c) fee = Inr (cl_total_fees c + fee)"
    using num(2,3) by (simp_all add: map_err_Inr safe_add_Inr)
  show ?thesis
    unfolding settle_round_def y bind_res_simps prod.case Let_def w assms(1) ok_or_simps sh fe du n t adv
    using fin by (simp del: complete_circle_def)
qed

end

section \<open>Recipients that can be found\<close>

lemma pos_to_addr_seat:
  assumes "m \<in> set ms" "mb_status m = MEMBER_ACTIVE"
  shows "\<exists>a. map_of (pos_to_addr ms) (mb_position m) = Some a"
proof -
  have "(\<exists>a. map_of mp p = Some a) \<or> (\<exists>x\<in>set ms. mb_status x = MEMBER_ACTIVE \<and> mb_position x = p) \<Longrightarrow>
      \<exists>a. map_of (fold (\<lambda>m mp. if mb_status m = MEMBER_ACTIVE then om_set (mb_position m) (mb_address m) mp else mp)
        ms mp) p = Some a" for p and mp :: "(nat \<times> addr) list"
    by (induction ms arbitrary: mp) auto
  with assms show ?thesis unfolding pos_to_addr_def by blast
qed

text \<open>
  Whose turn it is: any unpaid active member in a random circle, the one at the seat in a fixed one, the
  one with the winning bid of the round in an auction, and the one the vote elects.
\<close>

definition turn_open :: "circle \<Rightarrow> circle_member list \<Rightarrow> 'l circle_state \<Rightarrow> bool" where
  "turn_open c ms s \<longleftrightarrow> (\<exists>m\<in>set ms. mb_status m = MEMBER_ACTIVE
     \<and> \<not> position_paid (cl_payout_bitmap c) (mb_position m)
     \<and> (cl_payout_type c = PAYOUT_RANDOM
        \<or> cl_payout_type c = PAYOUT_FIXED \<and> mb_position m = cl_current_round c mod cl_max_members c
        \<or> cl_payout_type c = PAYOUT_AUCTION
            \<and> (\<exists>b. wins_auction (cl_current_round c) (unwrap_or (ci_bids s) []) b \<and> find_member (bd_bidder b) ms = Some m)
        \<or> cl_payout_type c = PAYOUT_VOTE \<and> length (unwrap_or (ci_votes s) []) < 2 ^ 32
            \<and> (\<exists>w. wins_vote (cl_current_round c) (unwrap_or (ci_votes s) []) ms w \<and> find_member w ms = Some m)))"

lemma resolve_recipient_total:
  assumes "turn_open c ms s" and s: "ci_members s = Some ms" "draw_ready c s" "circle_ok c ms"
  shows "\<exists>rp s1. resolve_recipient E c (cl_current_round c) s = Inr (rp, s1)"
proof -
  let ?r = "cl_current_round c"
  from assms(1) obtain m where m: "m \<in> set ms" "mb_status m = MEMBER_ACTIVE"
    "\<not> position_paid (cl_payout_bitmap c) (mb_position m)"
    and t: "cl_payout_type c = PAYOUT_RANDOM
      \<or> cl_payout_type c = PAYOUT_FIXED \<and> mb_position m = ?r mod cl_max_members c
      \<or> cl_payout_type c = PAYOUT_AUCTION
          \<and> (\<exists>b. wins_auction ?r (unwrap_or (ci_bids s) []) b \<and> find_member (bd_bidder b) ms = Some m)
      \<or> cl_payout_type c = PAYOUT_VOTE \<and> length (unwrap_or (ci_votes s) []) < 2 ^ 32
          \<and> (\<exists>w. wins_vote ?r (unwrap_or (ci_votes s) []) ms w \<and> find_member w ms = Some m)"
    by (auto simp: turn_open_def)
  consider (random) "cl_payout_type c = PAYOUT_RANDOM"
    | (fixed) "cl_payout_type c = PAYOUT_FIXED" "mb_position m = ?r mod cl_max_members c"
    | (auction) b where "cl_payout_type c = PAYOUT_AUCTION" "wins_auction ?r (unwrap_or (ci_bids s) []) b"
        "find_member (bd_bidder b) ms = Some m"
    | (vote) w where "cl_payout_type c = PAYOUT_VOTE" "length (unwrap_or (ci_votes s) []) < 2 ^ 32"
        "wins_vote ?r (unwrap_or (ci_votes s) []) ms w" "find_member w ms = Some m"
    using t by blast
  then show ?thesis
  proof cases
    case random
    from m have "active_unpaid c ms (mb_address m)" by (auto simp: active_unpaid_def)
    with shuffle_ready [OF s(2,3)] resolve_random_total [OF s(1)] obtain a s1 where
      "resolve_random E c ?r s = Inr (a, s1)" by metis
    with random show ?thesis by (simp add: resolve_recipient_def)
  next
    case fixed
    from pos_to_addr_seat [OF m(1,2)] m(3) fixed(2) circle_okD(5) [OF s(3)]
    have "\<exists>a. resolve_fixed c ?r s = Inr a" by (auto simp: resolve_fixed_def Let_def s(1))
    with fixed(1) show ?thesis by (auto simp: resolve_recipient_def)
  next
    case auction
    then have "resolve_auction c ?r s = Inr (bd_bidder b, bd_discount_bips b)"
      using m s(1) unfolding resolve_auction_Inr by blast
    with auction(1) show ?thesis by (simp add: resolve_recipient_def)
  next
    case vote
    have few: "length ms < 2 ^ 32" using circle_okD(4,6) [OF s(3)] by simp
    have "resolve_vote c ?r s = Inr w"
      using resolve_vote_eq [OF s(1) few vote(2)] vote(3,4) m by blast
    with vote(1) show ?thesis by (simp add: resolve_recipient_def)
  qed
qed

lemma resolve_recipient_fees:
  assumes "resolve_recipient E c round s = Inr (rp, s')"
  shows "ci_round_fee_ledger s' = ci_round_fee_ledger s"
proof -
  have "ci_round_fee_ledger s1 = ci_round_fee_ledger s"
    if "resolve_random E c round s = Inr (r, s1)" for r s1
  proof -
    from resolve_random_Inr [OF that] have "vrf_frame s s1" by blast
    then show ?thesis by (cases s; cases s1; simp add: vrf_frame_def)
  qed
  with assms show ?thesis by (auto simp: resolve_recipient_def bind_res_Inr split: if_splits)
qed

lemma apply_fee_total:
  assumes "0 \<le> a" "a * 10000 \<le> i128_max" "bps \<le> 10000"
  shows "apply_fee a (int bps) = Inr (a - a * int bps div 10000, a * int bps div 10000)"
proof -
  have m: "0 \<le> a * int bps" "a * int bps \<le> a * 10000" using assms by (simp_all add: mult_left_mono)
  then have d: "0 \<le> a * int bps div 10000" "a * int bps div 10000 \<le> a" by simp_all
  have "calculate_percentage a (int bps) = Inr (a * int bps div 10000)"
    using m d assms by (simp add: calculate_percentage_Inr sdiv_nonneg in_i128_def i128_min_def)
  with d assms show ?thesis
    by (simp add: apply_fee_def safe_sub_Inr bind_res_Inr in_i128_def i128_min_def)
qed

lemma settle_empty_round_total:
  assumes "ci_members s = Some ms" "Suc (cl_current_round c) < 2 ^ 32"
  shows "\<exists>s'. settle_empty_round E h c r pt round s = Inr s'"
  using assms by (simp add: settle_empty_round_def u_checked_add_def Let_def split_beta)

section \<open>Settling a round that is due\<close>

text \<open>The counters of the circle can take another amount \<open>x\<close>.\<close>

definition counters_room :: "int \<Rightarrow> circle \<Rightarrow> 'l circle_state \<Rightarrow> bool" where
  "counters_room x c s \<longleftrightarrow> room x (get_members s) \<and> fee_room (cl_current_round c) x s
     \<and> 0 \<le> cl_total_payouts c \<and> cl_total_payouts c + x \<le> i128_max
     \<and> 0 \<le> cl_total_fees c \<and> cl_total_fees c + x \<le> i128_max"

context settling_world
begin

lemma trigger_internal_total:
  assumes c: "ci_circle s = Some c" "ci_members s = Some ms" "circle_ok c ms" "draw_ready c s"
      "cl_status c = STATUS_ACTIVE" "cl_token c = tok" "cl_id c = me"
    and turn: "turn_open c ms s" "mb_address ` set ms \<subseteq> payees"
    and due: "contribution_window_closed h c
        \<or> (\<forall>m\<in>set ms. mb_status m = MEMBER_ACTIVE \<longrightarrow> mb_address m \<in> set (round_contributors s (cl_current_round c)))"
      "cl_min_duration_seconds c \<le> now h - cl_created_at c"
    and s: "\<not> is_paused s" "ci_oracle s = None" "ok (cb_ledger s)" "get_fee_bps s \<le> 10000"
    and pool: "pool = round_contributed_total s (cl_current_round c)" "0 \<le> pool" "pool * 10000 \<le> i128_max"
    and lim: "(\<Sum>x\<leftarrow>round_entries (cl_current_round c) (unwrap_or (ci_contributions s) []). weight_at (now h) x) < 2 ^ 128"
    and pay: "pool + owed_collateral c ms \<le> funds (cb_ledger s)"
      "\<And>tr. ci_treasury s = Some tr \<Longrightarrow> 0 < pool * int (get_fee_bps s) div 10000
        \<Longrightarrow> accepts (cb_ledger s) tr (pool * int (get_fee_bps s) div 10000)"
    and num: "counters_room pool c s"
  shows "\<exists>s'. trigger_payout_internal E h (cl_current_round c) s = Inr s'"
proof -
  let ?r = "cl_current_round c" and ?fee = "pool * int (get_fee_bps s) div 10000"
  from resolve_recipient_total [OF turn(1) c(2,4,3)] obtain a pt s1 where
    r: "resolve_recipient E c ?r s = Inr ((a, pt), s1)" by fastforce
  from resolve_recipient_Inr [OF r] have core: "core_same s s1" and un: "active_unpaid c ms a" using c(2) by auto
  then have s1: "ci_members s1 = Some ms" "ci_contributions s1 = ci_contributions s"
    "round_contributed_total s1 ?r = pool" "round_contributors s1 ?r = round_contributors s ?r"
    using c(2) pool(1) unfolding core_same_def round_contributed_total_def round_contributors_def
    by presburger+
  have gov: "ci_oracle s1 = ci_oracle s" "ci_treasury s1 = ci_treasury s"
    using held.resolve_recipient_leaves [OF r] by (simp_all add: governed_def settings_of_def)
  note led = resolve_recipient_ledger [OF r]
  have fee: "0 \<le> ?fee" "?fee \<le> pool"
  proof -
    have "pool * int (get_fee_bps s) \<le> pool * 10000" using pool(2) s(4) by (intro mult_left_mono) simp_all
    moreover have "0 \<le> pool * int (get_fee_bps s)" using pool(2) by simp
    ultimately show "0 \<le> ?fee" "?fee \<le> pool" by simp_all
  qed
  have ap: "apply_fee (round_contributed_total s1 ?r) (int (unwrap_or (ci_fee_bps s1) 0)) = Inr (pool - ?fee, ?fee)"
    using apply_fee_total [OF pool(2,3) s(4)] s1(3) led by (simp add: get_fee_bps_def)
  have big: "pool \<le> i128_max" using pool(2,3) by linarith
  have a_in: "a \<in> payees" using un turn(2) by (auto simp: active_unpaid_def)
  have rd: "Suc ?r < 2 ^ 32" using circle_ok_round [OF c(3)] by simp
  have "\<exists>s'. (if pool - ?fee \<le> 0 then settle_empty_round E h c a pt ?r s1
      else settle_round E h c a pt ?r (pool - ?fee) ?fee s1) = Inr s'"
  proof (cases "pool - ?fee \<le> 0")
    case True
    with settle_empty_round_total [OF s1(1) rd] show ?thesis by simp
  next
    case False
    have rm: "room (pool - ?fee) ms" "fee_room ?r ?fee s1" "in_i128 (cl_total_payouts c + (pool - ?fee))"
      "in_i128 (cl_total_fees c + ?fee)"
      using num fee c(2) resolve_recipient_fees [OF r]
      by (auto simp: counters_room_def room_def fee_room_def Let_def get_members_def in_i128_def i128_min_def)
    have "\<exists>s'. settle_round E h c a pt ?r (pool - ?fee) ?fee s1 = Inr s'"
      by (rule settle_round_total [OF s1(1) _ c(6,7) _ _ fee(1) rm(2,1) circle_okD(1) [OF c(3)] a_in turn(2)])
        (use False fee big s led gov lim pay rd rm(3,4) in \<open>simp_all add: s1(2)\<close>)
    with False show ?thesis by simp
  qed
  moreover have "\<not> (\<not> contribution_window_closed h c
      \<and> active_members_awaiting ms (round_contributors s1 ?r) > 0)"
    using due(1) active_members_awaiting_zero [of ms "round_contributors s ?r"] by (auto simp: s1(4))
  moreover have "\<not> (cl_min_duration_seconds c > 0
      \<and> u_saturating_sub (now h) (cl_created_at c) < cl_min_duration_seconds c)" using due(2) by simp
  ultimately show ?thesis
    unfolding trigger_payout_internal_def using s(1) c(1,5) r s1(1) ap
    by (simp add: when_not_paused_def Let_def del: STATUS_ACTIVE_def)
qed

end

section \<open>Facts of a reachable round\<close>

lemma reachable_round:
  assumes init: "circle_init E h0 salt admin factory config (circle_empty l0) = Inr s1" "self h0 = me"
    and run: "ci_run E me s1 s" and circle: "ci_circle s = Some c"
  shows "\<exists>ms. ci_members s = Some ms \<and> circle_ok c ms" "cl_id c = me"
    "cl_contribution_amount c = cc_contribution_amount config" "draw_ready c s" "books_ok c s"
    "get_fee_bps s \<le> 10000" "\<exists>a. ci_admin s = Some a"
proof -
  note i = circle_init_Inr [OF init(1)] circle_init_mem_inv [OF init(1)]
  from ci_run_books_inv [OF run circle_init_books_inv [OF init(1) refl]] circle
  have "mem_inv s" and b: "books_ok c s" by (auto simp: books_inv_def)
  then show "\<exists>ms. ci_members s = Some ms \<and> circle_ok c ms" "books_ok c s" using circle by (auto simp: mem_inv_def)
  from ci_run_evolves [OF run _ i(2)] i(1) circle
  have "circle_evolves (new_circle h0 factory config) c" by auto
  then show "cl_id c = me" "cl_contribution_amount c = cc_contribution_amount config"
    using init(2) by (simp_all add: circle_evolves_def config_of_def new_circle_def)
  show "draw_ready c s" using ci_run_draw_inv [OF run circle_init_draw_inv [OF init(1)]] circle
    by (simp add: draw_inv_def)
  show "get_fee_bps s \<le> 10000" "\<exists>a. ci_admin s = Some a"
    using ci_run_officers [OF run] circle_init_settings [OF init(1)] by simp_all
qed

text \<open>The pool of a round is at most a hundred contributions, so neither the fee nor a weight overflows.\<close>

lemma round_pool_bounds:
  assumes b: "books_ok c s" and ms: "ci_members s = Some ms" "circle_ok c ms"
    and small: "cl_contribution_amount c * 1000000 \<le> i128_max"
      "cl_contribution_amount c * int t * int MAX_CIRCLE_MEMBERS < 2 ^ 128"
  shows "0 \<le> round_contributed_total s r" "round_contributed_total s (cl_current_round c) * 10000 \<le> i128_max"
    "(\<Sum>x\<leftarrow>round_entries (cl_current_round c) (unwrap_or (ci_contributions s) []). weight_at t x) < 2 ^ 128"
proof -
  let ?r = "cl_current_round c"
  from b obtain cs where cs: "ci_contributions s = Some cs" "\<forall>x\<in>set cs. co_amount x = cl_contribution_amount c"
    "0 \<le> cl_contribution_amount c" unfolding books_ok_def by blast
  have few: "length (round_entries ?r cs) \<le> MAX_CIRCLE_MEMBERS"
    by (rule round_contributors_few [OF b ms(2,1) cs(1)])
  show "0 \<le> round_contributed_total s r" using cs(3) by (simp add: books_ok_round(2) [OF b cs(1)] i128_max_def)
  have "round_contributed_total s ?r \<le> cl_contribution_amount c * int (length (round_entries ?r cs))"
    by (simp add: books_ok_round(2) [OF b cs(1)])
  also have "\<dots> \<le> cl_contribution_amount c * 100" using few cs(3) by (intro mult_left_mono) simp_all
  finally show "round_contributed_total s ?r * 10000 \<le> i128_max" using small(1) by simp
  show "(\<Sum>x\<leftarrow>round_entries ?r (unwrap_or (ci_contributions s) []). weight_at t x) < 2 ^ 128"
    using weights_in_range [OF _ cs(3) few small(2)] cs by (simp add: round_entries_def)
qed

section \<open>Property\<close>

text \<open>
  C8: A round that is due can be settled. Take an active circle of any of the four kinds, in any state a run
  reaches, when all active members have contributed or the window is closed, the minimum duration is
  over and it is the turn of an active member who has not been paid: any such member in random order, the
  one at the seat of the round in fixed order, the one with the winning bid, the one the vote elects. If the contract is neither paused nor in the middle of a call, has no oracle, and the world accepts its
  payments (the token pays the members, the treasury takes the fee, the account holds the pool and the
  collateral of the active members, no counter overflows), then \<open>trigger_payout\<close> by the organizer or the
  administrator returns and the circle stands at the next round. The nonces of the draw never run out.
\<close>

theorem due_round_can_be_settled:
  assumes laws: "settling_world E ok me tok payees accepts"
    and init: "circle_init E h0 salt admin factory config (circle_empty l0) = Inr s1" "self h0 = me"
    and run: "ci_run E me s1 s"
    and circle: "ci_circle s = Some c" "cl_status c = STATUS_ACTIVE" "cl_token c = tok"
    and due: "contribution_window_closed h c
        \<or> (\<forall>m\<in>set (get_members s). mb_status m = MEMBER_ACTIVE
              \<longrightarrow> mb_address m \<in> set (round_contributors s (cl_current_round c)))"
      "cl_min_duration_seconds c \<le> now h - cl_created_at c" "turn_open c (get_members s) s"
    and idle: "\<not> is_paused s" "cb_reent s \<noteq> Some True" "ci_oracle s = None"
    and caller: "caller = cl_organizer c \<or> ci_admin s = Some caller" "authorized h caller"
    and world: "ok (cb_ledger s)" "mb_address ` set (get_members s) \<subseteq> payees"
      "round_contributed_total s (cl_current_round c)
          + max 0 (cl_collateral_amount c) * int (active_members (get_members s))
        \<le> tk_balance (ce_token E) (cb_ledger s) tok me"
      "\<And>tr. ci_treasury s = Some tr
        \<Longrightarrow> 0 < round_contributed_total s (cl_current_round c) * int (get_fee_bps s) div 10000
        \<Longrightarrow> accepts (cb_ledger s) tr (round_contributed_total s (cl_current_round c) * int (get_fee_bps s) div 10000)"
    and small: "counters_room (round_contributed_total s (cl_current_round c)) c s"
      "cc_contribution_amount config * 1000000 \<le> i128_max"
      "cc_contribution_amount config * int (now h) * int MAX_CIRCLE_MEMBERS < 2 ^ 128"
  shows "\<exists>s' c'. trigger_payout E h caller (cl_current_round c) s = Inr s' \<and> ci_circle s' = Some c'
    \<and> cl_current_round c' = Suc (cl_current_round c)"
proof -
  let ?r = "cl_current_round c" and ?s = "s\<lparr>cb_reent := Some True\<rparr>"
  let ?pool = "round_contributed_total s ?r"
  note reach = reachable_round [OF init run circle(1)]
  from reach(1) obtain ms where ms: "ci_members s = Some ms" "circle_ok c ms" by blast
  then have gm: "get_members s = ms" by (simp add: get_members_def)
  note pool = round_pool_bounds [OF reach(5) ms small(2,3) [folded reach(3)]]
  have same: "round_contributed_total ?s ?r = ?pool" "round_contributors ?s ?r = round_contributors s ?r"
    "get_fee_bps ?s = get_fee_bps s" "is_paused ?s = is_paused s" "turn_open c ms ?s = turn_open c ms s"
    by (simp_all add: turn_open_def round_contributed_total_def round_contributors_def get_fee_bps_def is_paused_def
        cong: option.case_cong)
  have "\<exists>s'. trigger_payout_internal E h ?r ?s = Inr s'"
    by (rule settling_world.trigger_internal_total [OF laws, of _ c ms _ ?pool])
      (use circle ms reach(2,4,6) due idle world small(1) pool in \<open>simp_all add: same gm owed_collateral_def
        settling_world.funds_def [OF laws] counters_room_def fee_room_def get_members_def draw_ready_def\<close>)
  then obtain t where t: "trigger_payout_internal E h ?r ?s = Inr t" by blast
  from reach(7) obtain a where a: "ci_admin s = Some a" by blast
  have "trigger_payout E h caller ?r s = Inr (guard_leave t)"
    unfolding trigger_payout_def using idle(1,2) circle(1) a caller t
    by (auto simp: when_not_paused_def guard_new_def require_auth_def split: option.splits)
  with trigger_payout_internal_Inr [OF t] circle(1) show ?thesis by (fastforce simp: round_settled_def)
qed

section \<open>The governance token and a treasury settle\<close>

text \<open>A treasury of the token at 9 that is open and whose book balance can take the fee.\<close>

definition takes_fee :: "fee_world \<Rightarrow> addr \<Rightarrow> int \<Rightarrow> bool" where
  "takes_fee w tr x \<longleftrightarrow> tr \<noteq> 9 \<and> tr \<noteq> 100 \<and> tr_token (snd w tr) = Some 9 \<and> \<not> is_paused (snd w tr)
     \<and> in_i128 (unwrap_or (tr_balance (snd w tr)) 0 + x)"

abbreviation open_world :: "fee_world \<Rightarrow> bool" where
  "open_world w \<equiv> gt_ok (fst w) \<and> gov_open (fst w)"

lemma fee_env_token:
  "tk_balance (ce_token (fee_env h)) w t a = tk_balance (gt_api h) (fst w) t a"
  "tk_transfer (ce_token (fee_env h)) w t a b x = Some w' \<longleftrightarrow>
     (\<exists>l. tk_transfer (gt_api h) (fst w) t a b x = Some l \<and> w' = (l, snd w))"
  by (auto simp: fee_env_def)

interpretation settler: settling_world "fee_env payer_host" open_world 100 9 "UNIV - {9, 100}" takes_fee
proof
  fix w w' :: fee_world and t u a b c tr :: addr and x y r
  assume ok: "open_world w"
  then have gt: "gt_ok (fst w)" by simp
  show "0 \<le> tk_balance (ce_token (fee_env payer_host)) w t c \<and> tk_balance (ce_token (fee_env payer_host)) w t c \<le> i128_max"
    by (rule funded.balance_range [OF gt])
  show "\<exists>w'. tk_transfer (ce_token (fee_env payer_host)) w 9 100 b x = Some w'"
    if "b \<in> UNIV - {9, 100}" "0 < x" "x \<le> tk_balance (ce_token (fee_env payer_host)) w 9 100"
    using payer.pays [OF ok that(1,2)] that(3) by (auto simp: fee_env_token)
  show "\<exists>w'. ce_deposit_fee (fee_env payer_host) w tr 100 x 100 = Some w'"
    if acc: "takes_fee w tr x" and x: "0 < x" "x \<le> tk_balance (ce_token (fee_env payer_host)) w 9 100"
  proof -
    from acc have "tr \<in> UNIV - {9, 100}" by (simp add: takes_fee_def)
    from payer.pays [OF ok this x(1)] x(2) obtain l where
      l: "tk_transfer (gt_api payer_host) (fst w) 9 100 tr x = Some l" by (auto simp: fee_env_token)
    from acc have "treasury_deposit (gt_api payer_host) (payer_host\<lparr>self := tr\<rparr>) 100 x 100 ((snd w tr)\<lparr>cb_ledger := fst w\<rparr>)
        \<noteq> Inl e" for e
      using x(1) l by (simp add: treasury_deposit_def takes_fee_def when_not_paused_def is_paused_def
          treasury_token_client_def token_transfer_def i128_checked_add_def chk_i128_def Let_def)
    then show ?thesis by (auto simp: fee_env_def split: sum.split)
  qed
  show "open_world w'" if d: "ce_deposit_fee (fee_env payer_host) w tr 100 x 100 = Some w'"
  proof -
    from d obtain s where "treasury_deposit (gt_api payer_host) (payer_host\<lparr>self := tr\<rparr>) 100 x 100
        ((snd w tr)\<lparr>cb_ledger := fst w\<rparr>) = Inr s" "fst w' = cb_ledger s"
      by (auto simp: fee_env_def split: sum.splits)
    with treasury_deposit_ledger [OF this(1)] gov_open_transfer ok funded.fee_ok [OF gt d] show ?thesis by auto
  qed
  show "tk_balance (ce_token (fee_env payer_host)) w t 100 - x \<le> tk_balance (ce_token (fee_env payer_host)) w' t 100"
    if "ce_deposit_fee (fee_env payer_host) w tr 100 x 100 = Some w'" by (rule funded.fee_balance [OF gt that])
  show "open_world w'" if "ce_yield_rate (fee_env payer_host) w a r = Some (y, w')" using that by (simp add: fee_env_def)
  show "tk_balance (ce_token (fee_env payer_host)) w t 100 \<le> tk_balance (ce_token (fee_env payer_host)) w' t 100"
    if "ce_yield_rate (fee_env payer_host) w a r = Some (y, w')" using that by (simp add: fee_env_def)
  assume t: "tk_transfer (ce_token (fee_env payer_host)) w t a b x = Some w'"
  show "open_world w'" using t gov_open_transfer ok funded.transfer_ok [OF gt t] by (auto simp: fee_env_token)
  show "tk_balance (ce_token (fee_env payer_host)) w' t c = tk_balance (ce_token (fee_env payer_host)) w t c
      - (if c = a then x else 0) + (if c = b then x else 0)" by (rule funded.transfer_balance [OF gt t])
  show "0 \<le> x \<and> x \<le> tk_balance (ce_token (fee_env payer_host)) w t a" by (rule funded.transfer_amount [OF gt t])
  show "tk_balance (ce_token (fee_env payer_host)) w' u c = tk_balance (ce_token (fee_env payer_host)) w u c"
    if "u \<noteq> t" by (rule funded.transfer_other_token [OF gt t that])
  show "takes_fee w' tr y" if "takes_fee w tr y" using that t by (auto simp: fee_env_token takes_fee_def)
qed simp_all

lemma pw_run:
  "\<exists>s1 s2 c. circle_init (fee_env payer_host) (cw_host 5) [] 1 3 cw_config (circle_empty fw_start) = Inr s1
    \<and> ci_execs (fee_env payer_host) fw_round s1 = Inr s2 \<and> ci_circle s2 = Some c
    \<and> cl_status c = STATUS_ACTIVE \<and> cl_token c = 9 \<and> cl_organizer c = 2 \<and> cl_current_round c = 0
    \<and> cl_min_duration_seconds c = 0 \<and> cl_collateral_amount c = 0
    \<and> mb_address ` set (get_members s2) = {5, 6} \<and> set (round_contributors s2 0) = {5, 6}
    \<and> turn_open c (get_members s2) s2 \<and> \<not> is_paused s2 \<and> cb_reent s2 \<noteq> Some True \<and> ci_oracle s2 = None
    \<and> open_world (cb_ledger s2) \<and> tk_balance (gt_api payer_host) (fst (cb_ledger s2)) 9 100 = 100
    \<and> round_contributed_total s2 0 = 100 \<and> get_fee_bps s2 = 100 \<and> ci_treasury s2 = Some 50
    \<and> takes_fee (cb_ledger s2) 50 1 \<and> counters_room 100 c s2"
  by (simp add: fw_round_def cw_first_round_def cw_eval fw_eval payer_host_def get_members_def turn_open_def
      takes_fee_def counters_room_def room_def fee_room_def position_paid_def)
    (auto simp: gt_ok_def gt_inv_def gov_open_def msum_upd opt_val_def i128_max_def split: if_splits)

theorem due_round_can_be_settled_witness:
  "\<exists>(s :: fee_world circle_state) s' c'. round_contributed_total s 0 = 100 \<and> get_fee_bps s = 100
    \<and> trigger_payout (fee_env payer_host) (cw_host 14) 2 0 s = Inr s' \<and> ci_circle s' = Some c'
    \<and> cl_current_round c' = 1"
proof -
  obtain s1 s2 c where i: "circle_init (fee_env payer_host) (cw_host 5) [] 1 3 cw_config (circle_empty fw_start) = Inr s1"
    and e: "ci_execs (fee_env payer_host) fw_round s1 = Inr s2"
    and c: "ci_circle s2 = Some c" "cl_status c = STATUS_ACTIVE" "cl_token c = 9" "cl_organizer c = 2"
      "cl_current_round c = 0" "cl_min_duration_seconds c = 0" "cl_collateral_amount c = 0"
    and m: "mb_address ` set (get_members s2) = {5, 6}" "set (round_contributors s2 0) = {5, 6}"
      "turn_open c (get_members s2) s2"
    and s: "\<not> is_paused s2" "cb_reent s2 \<noteq> Some True" "ci_oracle s2 = None" "open_world (cb_ledger s2)"
      "tk_balance (gt_api payer_host) (fst (cb_ledger s2)) 9 100 = 100"
      "round_contributed_total s2 0 = 100" "get_fee_bps s2 = 100" "ci_treasury s2 = Some 50"
      "takes_fee (cb_ledger s2) 50 1" "counters_room 100 c s2"
    using pw_run by blast
  have "\<exists>s' c'. trigger_payout (fee_env payer_host) (cw_host 14) 2 (cl_current_round c) s2 = Inr s'
      \<and> ci_circle s' = Some c' \<and> cl_current_round c' = Suc (cl_current_round c)"
  proof (rule due_round_can_be_settled [OF settler.settling_world_axioms i _ ci_execs_run [OF e fw_hosts ci_refl] c(1-3)
      _ _ m(3) s(1-3) _ _ s(4)])
    show "contribution_window_closed (cw_host 14) c
        \<or> (\<forall>x\<in>set (get_members s2). mb_status x = MEMBER_ACTIVE
              \<longrightarrow> mb_address x \<in> set (round_contributors s2 (cl_current_round c)))"
      using m(1,2) c(5) by auto
    show "mb_address ` set (get_members s2) \<subseteq> UNIV - {9, 100}" using m(1) by auto
    show "takes_fee (cb_ledger s2) tr (round_contributed_total s2 (cl_current_round c) * int (get_fee_bps s2) div 10000)"
      if "ci_treasury s2 = Some tr" for tr using that s c(5) by simp
    show "round_contributed_total s2 (cl_current_round c)
          + max 0 (cl_collateral_amount c) * int (active_members (get_members s2))
        \<le> tk_balance (ce_token (fee_env payer_host)) (cb_ledger s2) 9 100"
      using c(5,7) s(5,6) by (simp add: fee_env_token)
    show "counters_room (round_contributed_total s2 (cl_current_round c)) c s2" using s(6,10) c(5) by simp
  qed (use c in \<open>simp_all add: cw_host_def cw_config_def i128_max_def\<close>)
  with c(5) s(6,7) show ?thesis by fastforce
qed

end
