(* ===== verification/Circle_Withdrawals.thy ===== *)
theory Circle_Withdrawals
  imports Circle_Settings
begin

text \<open>
  The limits on what the organizer and the administrator withdraw (\<open>withdraw_treasury\<close>): runs that ws
  every withdrawal with its day, the invariant that ties the ws to the two counters in the storage,
  and the limits per call and per day.
\<close>

section \<open>Runs that ws withdrawals\<close>

text \<open>
  The record \<open>ws\<close> holds the day and the amount of every withdrawal, the latest first; \<open>t\<close> is the time of the
  last call, which never goes back.
\<close>

inductive withdrawal_run ::
    "'l circle_env \<Rightarrow> addr \<Rightarrow> 'l circle_state \<Rightarrow> nat \<Rightarrow> (nat \<times> int) list \<Rightarrow> 'l circle_state \<Rightarrow> bool"
  for E :: "'l circle_env" and me :: addr and s0 :: "'l circle_state" where
  wr_start: "withdrawal_run E me s0 t [] s0"
| wr_withdraw: "withdrawal_run E me s0 t ws s \<Longrightarrow> self h = me \<Longrightarrow> t \<le> now h
    \<Longrightarrow> ci_exec E h (CiWithdrawTreasury who x) s = Inr s'
    \<Longrightarrow> withdrawal_run E me s0 (now h) ((now h div 86400, x) # ws) s'"
| wr_call: "withdrawal_run E me s0 t ws s \<Longrightarrow> self h = me \<Longrightarrow> t \<le> now h \<Longrightarrow> ci_exec E h op s = Inr s'
    \<Longrightarrow> \<nexists>who x. op = CiWithdrawTreasury who x \<Longrightarrow> withdrawal_run E me s0 (now h) ws s'"
| wr_env: "withdrawal_run E me s0 t ws s \<Longrightarrow> withdrawal_run E me s0 t ws (s\<lparr>cb_ledger := l\<rparr>)"

lemma withdrawal_run_run: "withdrawal_run E me s0 t ws s \<Longrightarrow> ci_run E me s0 s"
  by (induction rule: withdrawal_run.induct) (blast intro: ci_run.intros)+

definition day_total :: "nat \<Rightarrow> (nat \<times> int) list \<Rightarrow> int" where
  "day_total day ws = (\<Sum>(d, x)\<leftarrow>ws. if d = day then x else 0)"

lemma day_total_simps [simp]:
  "day_total day [] = 0"
  "day_total day ((d, x) # ws) = (if d = day then x else 0) + day_total day ws"
  by (simp_all add: day_total_def)

lemma day_total_later: "\<forall>(d, x)\<in>set ws. d < day \<Longrightarrow> day_total day ws = 0"
  by (induction ws) auto

section \<open>The counters agree with the ws\<close>

definition counted :: "circle_config \<Rightarrow> nat \<Rightarrow> (nat \<times> int) list \<Rightarrow> 'l circle_state \<Rightarrow> bool" where
  "counted config t ws s \<longleftrightarrow>
     (let day = unwrap_or (ci_withdrawal_day s) 0 in
      day \<le> t div 86400 \<and> unwrap_or (ci_withdrawal_amount s) 0 = day_total day ws
      \<and> (\<forall>(d, x)\<in>set ws. d \<le> day \<and> 0 < x
           \<and> (0 < cc_max_withdrawal_per_tx config \<longrightarrow> x \<le> cc_max_withdrawal_per_tx config))
      \<and> (0 < cc_daily_withdrawal_limit config \<longrightarrow>
           (\<forall>d. day_total d ws \<le> cc_daily_withdrawal_limit config)))"

lemma counted_same:
  assumes "counted config t ws s" "withdrawn_of s' = withdrawn_of s" "t \<le> t'"
  shows "counted config t' ws s'"
proof -
  have "t div 86400 \<le> t' div 86400" by (rule div_le_mono [OF assms(3)])
  with assms show ?thesis by (auto simp: counted_def withdrawn_of_def Let_def)
qed

lemma counted_withdraw:
  assumes "counted config t ws s" "withdraw_treasury E h a x s = Inr s'" "t \<le> now h"
    and "ci_circle s = Some c" "cl_max_withdrawal_per_tx c = cc_max_withdrawal_per_tx config"
      "cl_daily_withdrawal_limit c = cc_daily_withdrawal_limit config"
  shows "counted config (now h) ((now h div 86400, x) # ws) s'"
proof -
  let ?d = "now h div 86400" and ?p = "unwrap_or (ci_withdrawal_day s) 0"
  have "t div 86400 \<le> ?d" by (rule div_le_mono [OF assms(3)])
  with assms(1) have p: "?p \<le> ?d" by (simp add: counted_def Let_def)
  from assms(1) have r: "\<forall>(d, y)\<in>set ws. d \<le> ?p \<and> 0 < y
      \<and> (0 < cc_max_withdrawal_per_tx config \<longrightarrow> y \<le> cc_max_withdrawal_per_tx config)"
    and am: "unwrap_or (ci_withdrawal_amount s) 0 = day_total ?p ws"
    and lim: "0 < cc_daily_withdrawal_limit config \<longrightarrow> (\<forall>d. day_total d ws \<le> cc_daily_withdrawal_limit config)"
    by (simp_all add: counted_def Let_def)
  have on: "withdrawn_on ?d s = day_total ?d ws"
  proof (cases "?p = ?d")
    case True
    with am show ?thesis by (simp add: withdrawn_on_def)
  next
    case False
    with r p have "\<forall>(d, y)\<in>set ws. d < ?d" by fastforce
    with False day_total_later show ?thesis by (metis withdrawn_on_def)
  qed
  from withdraw_treasury_Inr [OF assms(2)] assms(4-6) on
  have w: "0 < x" "0 < cc_max_withdrawal_per_tx config \<longrightarrow> x \<le> cc_max_withdrawal_per_tx config"
      "0 < cc_daily_withdrawal_limit config \<longrightarrow> day_total ?d ws + x \<le> cc_daily_withdrawal_limit config"
      "ci_withdrawal_day s' = Some ?d" "ci_withdrawal_amount s' = Some (day_total ?d ws + x)"
    by auto
  from r p have "\<forall>(d, y)\<in>set ws. d \<le> ?d \<and> 0 < y
      \<and> (0 < cc_max_withdrawal_per_tx config \<longrightarrow> y \<le> cc_max_withdrawal_per_tx config)" by fastforce
  with w lim show ?thesis by (simp add: counted_def Let_def add.commute)
qed

lemma ci_exec_withdrawn:
  assumes "ci_exec E h op s = Inr s'" "\<nexists>a x. op = CiWithdrawTreasury a x"
  shows "withdrawn_of s' = withdrawn_of s"
  using setter_settings [OF assms(1) _ assms(2)] held.ungoverned_leaves [OF assms(1)]
  by (cases "governs op") (simp_all add: governed_def)

lemma withdrawal_run_counted:
  assumes "withdrawal_run E me s1 t ws s" "circle_init E h0 salt admin factory config (circle_empty l) = Inr s1"
  shows "counted config t ws s"
  using assms(1)
proof (induction rule: withdrawal_run.induct)
  case (wr_start t)
  from circle_init_settings [OF assms(2)] show ?case by (simp add: counted_def)
next
  case (wr_withdraw t ws s h who x s')
  from ci_run_evolves [OF withdrawal_run_run [OF wr_withdraw.hyps(1)] _ circle_init_mem_inv [OF assms(2)]]
    circle_init_Inr [OF assms(2)]
  obtain c where c: "ci_circle s = Some c" "circle_evolves (new_circle h0 factory config) c" by blast
  from c(2) have "cl_max_withdrawal_per_tx c = cc_max_withdrawal_per_tx config"
    "cl_daily_withdrawal_limit c = cc_daily_withdrawal_limit config"
    by (simp_all add: circle_evolves_def config_of_def new_circle_def)
  with counted_withdraw [OF wr_withdraw.IH _ wr_withdraw.hyps(3) c(1)] wr_withdraw.hyps(4) show ?case by simp
next
  case (wr_call t ws s h op s')
  from counted_same [OF wr_call.IH ci_exec_withdrawn [OF wr_call.hyps(4,5)] wr_call.hyps(3)] show ?case .
next
  case (wr_env t ws s l)
  then show ?case by (simp add: counted_def)
qed

section \<open>Property\<close>

text \<open>
  C12: Withdrawals stay within the configured limits. Along every run of a circle in which time does not go
  back, each withdrawal is of a positive amount; if the circle was configured with a cap per transaction,
  no withdrawal exceeds it; and if it was configured with a daily limit, the withdrawals of no day sum to
  more than the limit, whoever makes them and whatever else happens between them.
\<close>

theorem withdrawals_within_limits:
  assumes "circle_init E h0 salt admin factory config (circle_empty l) = Inr s1"
    and "withdrawal_run E me s1 t ws s"
  shows "(\<forall>(d, x)\<in>set ws. 0 < x \<and> (0 < cc_max_withdrawal_per_tx config \<longrightarrow> x \<le> cc_max_withdrawal_per_tx config))
    \<and> (0 < cc_daily_withdrawal_limit config \<longrightarrow>
        (\<Sum>(d, x)\<leftarrow>ws. if d = day then x else 0) \<le> cc_daily_withdrawal_limit config)"
  using withdrawal_run_counted [OF assms(2,1)] by (auto simp: counted_def Let_def day_total_def)

theorem withdrawals_within_limits_witness:
  "\<exists>s :: unit circle_state. withdrawn_on 0 s = 60
    \<and> (\<forall>t x s'. t < 86400 \<longrightarrow> 40 < x \<longrightarrow> 12 \<le> t \<longrightarrow> withdraw_treasury cw_env (cw_host t) 2 x s \<noteq> Inr s')"
proof -
  let ?config = "cw_config\<lparr>cc_daily_withdrawal_limit := 100\<rparr>"
  have "\<exists>s1 s2 s3. circle_init cw_env (cw_host 5) [] 1 3 ?config (circle_empty ()) = Inr s1
      \<and> ci_exec cw_env (cw_host 11) (CiSetTreasury 1 7) s1 = Inr s2
      \<and> ci_exec cw_env (cw_host 12) (CiWithdrawTreasury 2 60) s2 = Inr s3 \<and> withdrawn_on 0 s3 = 60"
    by (simp add: cw_eval withdraw_treasury_def set_treasury_def admin_only_def withdrawn_on_def)
  then obtain s1 s2 s3 where i: "circle_init cw_env (cw_host 5) [] 1 3 ?config (circle_empty ()) = Inr s1"
    and t: "ci_exec cw_env (cw_host 11) (CiSetTreasury 1 7) s1 = Inr s2"
    and w: "ci_exec cw_env (cw_host 12) (CiWithdrawTreasury 2 60) s2 = Inr s3" "withdrawn_on 0 s3 = 60" by blast
  have h: "self (cw_host n) = 100" "now (cw_host n) = n" for n by (simp_all add: cw_host_def)
  from wr_call [OF wr_start [of cw_env 100 s1 5] h(1) _ t] have "withdrawal_run cw_env 100 s1 11 [] s2" by (simp add: h)
  from wr_withdraw [OF this h(1) _ w(1)] have r: "withdrawal_run cw_env 100 s1 12 [(0, 60)] s3" by (simp add: h)
  have "withdraw_treasury cw_env (cw_host n) 2 x s3 \<noteq> Inr s'" if n: "n < 86400" "40 < x" "12 \<le> n" for n x s'
  proof
    assume "withdraw_treasury cw_env (cw_host n) 2 x s3 = Inr s'"
    then have "ci_exec cw_env (cw_host n) (CiWithdrawTreasury 2 x) s3 = Inr s'" by simp
    from wr_withdraw [OF r h(1) _ this] n have "withdrawal_run cw_env 100 s1 n [(0, x), (0, 60)] s'" by (simp add: h)
    from withdrawals_within_limits [OF i this, of 0] n show False by simp
  qed
  with w(2) show ?thesis by blast
qed

end
