(* ===== verification/Circle_Factory.thy ===== *)
theory Circle_Factory
  imports Circle_Funds
begin

text \<open>
  The circle factory (\<open>packages/circle-factory/src/contract.rs\<close>): it deploys circles, pushes the
  protocol's configuration into each of them, limits how many an organizer may deploy per period, and
  keeps the registry. Deployment and the call of the new circle are a parameter; the second half of
  the theory runs the factory against circles that are instances of the model of the savings circle.
\<close>

section \<open>Data and state\<close>

type_synonym factory_circle_config = circle_config

record fee_config =
  fe_fee_bps :: int
  fe_updated_at :: nat
  fe_updated_by :: addr

record factory_config =
  fc_treasury :: addr
  fc_reputation_registry :: addr
  fc_fee_bps :: nat

record circle_entry =
  en_circle_id :: addr
  en_name :: string
  en_organizer :: addr
  en_deployed_at :: nat
  en_status :: nat

type_synonym circle_registry = "circle_entry list"

record rate_limit_config =
  rl_limit :: nat
  rl_period_secs :: nat

datatype factory_error =
    NotInitialized | Unauthorized | ContractPaused | WasmHashNotSet | InvalidFeeBps
  | CircleDeployFailed | InvalidConfig | RateLimitExceeded | FactoryConfigNotSet
  | CircleConfigurationFailed | InvalidAddress

text \<open>
  The storage: \<open>'w\<close> is the state of all other contracts, the circles included. The keys of the
  deployments are the salts they were deployed with.
\<close>

record 'w factory = "'w token_base" +
  fa_admin :: "addr option"
  fa_fee_config :: "fee_config option"
  fa_circle_list :: "circle_entry list option"
  fa_circle_count :: "nat option"
  fa_wasm_hash :: "bytes option"
  fa_circle_config :: "addr \<Rightarrow> factory_circle_config option"
  fa_canonical :: "bytes \<Rightarrow> addr option"
  fa_rate_limit :: "rate_limit_config option"
  fa_period_count :: "addr \<times> nat \<Rightarrow> nat option"
  fa_factory_config :: "factory_config option"

definition factory_empty :: "'w \<Rightarrow> 'w factory" where
  "factory_empty w = \<lparr>cb_paused = None, cb_reent = None, cb_events = [], cb_ledger = w,
     fa_admin = None, fa_fee_config = None, fa_circle_list = None, fa_circle_count = None,
     fa_wasm_hash = None, fa_circle_config = Map.empty, fa_canonical = Map.empty,
     fa_rate_limit = None, fa_period_count = Map.empty, fa_factory_config = None\<rparr>"

lemma publish_factory [simp]:
  "fa_admin (publish ev s) = fa_admin s"
  "fa_fee_config (publish ev s) = fa_fee_config s"
  "fa_circle_list (publish ev s) = fa_circle_list s"
  "fa_circle_count (publish ev s) = fa_circle_count s"
  "fa_wasm_hash (publish ev s) = fa_wasm_hash s"
  "fa_circle_config (publish ev s) = fa_circle_config s"
  "fa_canonical (publish ev s) = fa_canonical s"
  "fa_rate_limit (publish ev s) = fa_rate_limit s"
  "fa_period_count (publish ev s) = fa_period_count s"
  "fa_factory_config (publish ev s) = fa_factory_config s"
  "cb_ledger (publish ev s) = cb_ledger s"
  by (simp_all add: publish_def)

text \<open>
  What the factory calls: SHA-256 and the XDR encoding of a configuration, the host's deployer (the
  hash of the code, the salt and the arguments of the constructor; \<open>None\<close> is a trap), and
  \<open>configure_from_factory\<close> of the circle at an address (\<open>None\<close> is a failure of the call, which the
  factory catches).
\<close>

record 'w deploy_api =
  dy_sha :: "bytes \<Rightarrow> bytes"
  dy_xdr :: "factory_circle_config \<Rightarrow> bytes"
  dy_deploy :: "'w \<Rightarrow> host \<Rightarrow> bytes \<Rightarrow> bytes \<Rightarrow> addr \<Rightarrow> addr \<Rightarrow> factory_circle_config \<Rightarrow> (addr \<times> 'w) option"
  dy_configure :: "'w \<Rightarrow> host \<Rightarrow> addr \<Rightarrow> addr \<Rightarrow> addr \<Rightarrow> addr \<Rightarrow> nat \<Rightarrow> 'w option"

section \<open>Operations\<close>

definition canonical_deployment_salt :: "'w deploy_api \<Rightarrow> factory_circle_config \<Rightarrow> bytes" where
  "canonical_deployment_salt A config = dy_sha A (dy_xdr A config)"

definition validate_config_address :: "addr \<Rightarrow> (factory_error, unit) res" where
  "validate_config_address a = (if a = zero_address then Inl (Err InvalidAddress) else Inr ())"

definition load_factory_config :: "'w factory \<Rightarrow> (factory_error, factory_config) res" where
  "load_factory_config s =
     bind_res (ok_or (fa_factory_config s) FactoryConfigNotSet) (\<lambda>config.
     if fc_fee_bps config > 10000 then Inl (Err InvalidFeeBps) else
     bind_res (validate_config_address (fc_treasury config)) (\<lambda>_.
     bind_res (validate_config_address (fc_reputation_registry config)) (\<lambda>_. Inr config)))"

definition configure_deployed_circle ::
    "'w deploy_api \<Rightarrow> host \<Rightarrow> addr \<Rightarrow> factory_config \<Rightarrow> 'w factory \<Rightarrow> (factory_error, 'w factory) res" where
  "configure_deployed_circle A h circle_id config s =
     (case dy_configure A (cb_ledger s) h circle_id (self h) (fc_treasury config)
             (fc_reputation_registry config) (fc_fee_bps config) of
        Some w \<Rightarrow> Inr (s\<lparr>cb_ledger := w\<rparr>)
      | None \<Rightarrow> Inl (Err CircleConfigurationFailed))"

definition factory_init ::
    "host \<Rightarrow> addr \<Rightarrow> int \<Rightarrow> bytes \<Rightarrow> nat \<Rightarrow> nat \<Rightarrow> 'w factory \<Rightarrow> (factory_error, 'w factory) res" where
  "factory_init h admin fee_bps circle_wasm_hash organizer_rate_limit rate_limit_period_secs s =
     bind_res (require_auth h admin) (\<lambda>_.
     if fee_bps < 0 \<or> fee_bps > 10000 then Inl (Err InvalidFeeBps)
     else if organizer_rate_limit > 0 \<and> rate_limit_period_secs = 0 then Inl (Err InvalidConfig)
     else Inr (s\<lparr>fa_admin := Some admin,
       fa_fee_config := Some \<lparr>fe_fee_bps = fee_bps, fe_updated_at = now h, fe_updated_by = admin\<rparr>,
       fa_wasm_hash := Some circle_wasm_hash, fa_circle_count := Some 0,
       fa_rate_limit := Some \<lparr>rl_limit = organizer_rate_limit, rl_period_secs = rate_limit_period_secs\<rparr>\<rparr>))"

definition config_event :: "host \<Rightarrow> addr \<Rightarrow> addr \<Rightarrow> nat \<Rightarrow> addr \<Rightarrow> event" where
  "config_event h treasury registry fee_bps admin = Event ''fcfg'' [AddrV (self h)]
     [AddrV treasury, AddrV registry, NatV fee_bps, AddrV admin]"

definition init_with_config ::
    "host \<Rightarrow> addr \<Rightarrow> int \<Rightarrow> addr \<Rightarrow> addr \<Rightarrow> bytes \<Rightarrow> 'w factory \<Rightarrow> (factory_error, 'w factory) res" where
  "init_with_config h admin fee_bps treasury registry circle_wasm_hash s =
     bind_res (factory_init h admin fee_bps circle_wasm_hash 0 0 s) (\<lambda>s.
     bind_res (validate_config_address treasury) (\<lambda>_.
     bind_res (validate_config_address registry) (\<lambda>_.
     Inr (publish (config_event h treasury registry (wrap_u 32 fee_bps) admin)
       (s\<lparr>fa_factory_config := Some \<lparr>fc_treasury = treasury, fc_reputation_registry = registry,
            fc_fee_bps = wrap_u 32 fee_bps\<rparr>\<rparr>)))))"

definition get_factory_config :: "'w factory \<Rightarrow> factory_config option" where
  "get_factory_config s = fa_factory_config s"

definition set_factory_config ::
    "host \<Rightarrow> addr \<Rightarrow> addr \<Rightarrow> addr \<Rightarrow> nat \<Rightarrow> 'w factory \<Rightarrow> (factory_error, 'w factory) res" where
  "set_factory_config h admin treasury registry fee_bps s =
     bind_res (require_auth h admin) (\<lambda>_.
     bind_res (ok_or (fa_admin s) NotInitialized) (\<lambda>stored_admin.
     if admin \<noteq> stored_admin then Inl (Err Unauthorized) else
     bind_res (not_paused_or ContractPaused s) (\<lambda>_.
     if fee_bps > 10000 then Inl (Err InvalidFeeBps) else
     bind_res (validate_config_address treasury) (\<lambda>_.
     bind_res (validate_config_address registry) (\<lambda>_.
     Inr (publish (config_event h treasury registry fee_bps admin)
       (s\<lparr>fa_factory_config := Some \<lparr>fc_treasury = treasury, fc_reputation_registry = registry,
            fc_fee_bps = fee_bps\<rparr>,
          fa_fee_config := Some \<lparr>fe_fee_bps = int fee_bps, fe_updated_at = now h, fe_updated_by = admin\<rparr>\<rparr>)))))))"

text \<open>The organizer's quota for the current period is charged before anything is deployed.\<close>

definition charge_quota ::
    "host \<Rightarrow> addr \<Rightarrow> 'w factory \<Rightarrow> (factory_error, 'w factory) res" where
  "charge_quota h organizer s =
     (let rl = unwrap_or (fa_rate_limit s) \<lparr>rl_limit = 0, rl_period_secs = 0\<rparr> in
      if rl_limit rl > 0 then
        if rl_period_secs rl = 0 then Inl Trap else
        let period = now h div rl_period_secs rl;
            key = (organizer, period);
            count = unwrap_or (fa_period_count s key) 0 in
        if count \<ge> rl_limit rl then Inl (Err RateLimitExceeded) else
        bind_res (ok_or (u_checked_add 32 count 1) InvalidConfig) (\<lambda>n.
        Inr (s\<lparr>fa_period_count := (fa_period_count s)(key \<mapsto> n)\<rparr>))
      else Inr s)"

definition deploy_circle ::
    "'w deploy_api \<Rightarrow> host \<Rightarrow> factory_circle_config \<Rightarrow> 'w factory \<Rightarrow> (factory_error, addr \<times> 'w factory) res" where
  "deploy_circle A h config s =
     bind_res (not_paused_or ContractPaused s) (\<lambda>_.
     bind_res (require_auth h (cc_organizer config)) (\<lambda>_.
     if cc_max_members config < 2 \<or> cc_contribution_amount config \<le> 0 \<or> cc_total_rounds config = 0
        \<or> cc_payout_type config > 3 then Inl (Err InvalidConfig) else
     bind_res (load_factory_config s) (\<lambda>factory_config.
     bind_res (charge_quota h (cc_organizer config) s) (\<lambda>s.
     bind_res (ok_or (fa_wasm_hash s) WasmHashNotSet) (\<lambda>wh.
     let salt = canonical_deployment_salt A config in
     if fa_canonical s salt \<noteq> None then Inl (Err CircleDeployFailed) else
     bind_res (or_trap (dy_deploy A (cb_ledger s) h wh salt (cc_organizer config) (self h) config)) (\<lambda>(cid, w).
     bind_res (configure_deployed_circle A h cid factory_config (s\<lparr>cb_ledger := w\<rparr>)) (\<lambda>s.
     let circles = unwrap_or (fa_circle_list s) [] @
           [\<lparr>en_circle_id = cid, en_name = cc_name config, en_organizer = cc_organizer config,
             en_deployed_at = now h, en_status = 0\<rparr>];
         s = s\<lparr>fa_canonical := (fa_canonical s)(salt \<mapsto> cid),
               fa_circle_config := (fa_circle_config s)(cid \<mapsto> config),
               fa_circle_list := Some circles\<rparr> in
     bind_res (ok_or (u_checked_add 32 (unwrap_or (fa_circle_count s) 0) 1) InvalidConfig) (\<lambda>new_count.
     Inr (cid, publish (Event ''deploy'' [AddrV (self h)]
              [AddrV (cc_organizer config), AddrV cid, SymV (cc_name config)])
            (s\<lparr>fa_circle_count := Some new_count\<rparr>))))))))))"

definition get_circle_config :: "'w factory \<Rightarrow> addr \<Rightarrow> (factory_error, factory_circle_config) res" where
  "get_circle_config s cid = ok_or (fa_circle_config s cid) InvalidConfig"

definition get_circles :: "'w factory \<Rightarrow> circle_registry" where
  "get_circles s = unwrap_or (fa_circle_list s) []"

definition get_circle_count :: "'w factory \<Rightarrow> nat" where
  "get_circle_count s = unwrap_or (fa_circle_count s) 0"

definition get_rate_limit_config :: "'w factory \<Rightarrow> rate_limit_config" where
  "get_rate_limit_config s = unwrap_or (fa_rate_limit s) \<lparr>rl_limit = 0, rl_period_secs = 0\<rparr>"

definition get_fee_config :: "host \<Rightarrow> 'w factory \<Rightarrow> fee_config" where
  "get_fee_config h s = unwrap_or (fa_fee_config s)
     \<lparr>fe_fee_bps = 0, fe_updated_at = 0, fe_updated_by = self h\<rparr>"

definition set_fee_config ::
    "host \<Rightarrow> addr \<Rightarrow> int \<Rightarrow> 'w factory \<Rightarrow> (factory_error, 'w factory) res" where
  "set_fee_config h admin fee_bps s =
     bind_res (not_paused_or ContractPaused s) (\<lambda>_.
     bind_res (require_auth h admin) (\<lambda>_.
     bind_res (ok_or (fa_admin s) NotInitialized) (\<lambda>stored.
     if admin \<noteq> stored then Inl (Err Unauthorized)
     else if fee_bps < 0 \<or> fee_bps > 10000 then Inl (Err InvalidFeeBps) else
     let old = get_fee_config h s;
         s = s\<lparr>fa_fee_config := Some \<lparr>fe_fee_bps = fee_bps, fe_updated_at = now h, fe_updated_by = admin\<rparr>\<rparr>;
         s = (case fa_factory_config s of
                Some factory_config \<Rightarrow>
                  s\<lparr>fa_factory_config := Some (factory_config\<lparr>fc_fee_bps := wrap_u 32 fee_bps\<rparr>)\<rparr>
              | None \<Rightarrow> s)
     in Inr (publish (Event ''fee_cfg'' [AddrV (self h)]
              [IntV (fe_fee_bps old), IntV fee_bps, AddrV admin]) s))))"

definition factory_pause :: "host \<Rightarrow> addr \<Rightarrow> 'w factory \<Rightarrow> (factory_error, 'w factory) res" where
  "factory_pause h admin s =
     bind_res (ok_or (fa_admin s) NotInitialized) (\<lambda>stored.
     if admin \<noteq> stored then Inl (Err Unauthorized)
     else map_err (\<lambda>_. ContractPaused) (common_pause h admin s))"

definition factory_unpause :: "host \<Rightarrow> addr \<Rightarrow> 'w factory \<Rightarrow> (factory_error, 'w factory) res" where
  "factory_unpause h admin s =
     bind_res (ok_or (fa_admin s) NotInitialized) (\<lambda>stored.
     if admin \<noteq> stored then Inl (Err Unauthorized)
     else map_err (\<lambda>_. ContractPaused) (common_unpause h admin s))"

section \<open>Runs\<close>

datatype factory_op =
    FaInit addr int bytes nat nat | FaInitWithConfig addr int addr addr bytes
  | FaSetConfig addr addr addr nat | FaDeploy factory_circle_config | FaSetFee addr int
  | FaPause addr | FaUnpause addr

fun fa_exec ::
    "'w deploy_api \<Rightarrow> host \<Rightarrow> factory_op \<Rightarrow> 'w factory \<Rightarrow> (factory_error, 'w factory) res" where
  "fa_exec A h (FaInit a f w n p) s = factory_init h a f w n p s"
| "fa_exec A h (FaInitWithConfig a f t r w) s = init_with_config h a f t r w s"
| "fa_exec A h (FaSetConfig a t r f) s = set_factory_config h a t r f s"
| "fa_exec A h (FaDeploy c) s = drop_value (deploy_circle A h c s)"
| "fa_exec A h (FaSetFee a f) s = set_fee_config h a f s"
| "fa_exec A h (FaPause a) s = factory_pause h a s"
| "fa_exec A h (FaUnpause a) s = factory_unpause h a s"

text \<open>
  A run of the factory at address \<open>me\<close>: its calls, and between them any change of the other contracts.
  \<open>inits\<close> says whether the run may call an initializer, which the code never refuses.
\<close>

fun initializes :: "factory_op \<Rightarrow> bool" where
  "initializes (FaInit a f w n p) = True"
| "initializes (FaInitWithConfig a f t r w) = True"
| "initializes _ = False"

inductive fa_run :: "'w deploy_api \<Rightarrow> addr \<Rightarrow> bool \<Rightarrow> 'w factory \<Rightarrow> 'w factory \<Rightarrow> bool"
  for A :: "'w deploy_api" and me :: addr and inits :: bool where
  fa_refl: "fa_run A me inits s s"
| fa_call: "fa_run A me inits s s1 \<Longrightarrow> self h = me \<Longrightarrow> initializes op \<longrightarrow> inits \<Longrightarrow>
    fa_exec A h op s1 = Inr s2 \<Longrightarrow> fa_run A me inits s s2"
| fa_env: "fa_run A me inits s s1 \<Longrightarrow> fa_run A me inits s (s1\<lparr>cb_ledger := w\<rparr>)"

section \<open>Inversion of the calls\<close>

text \<open>What a successful deployment has checked, and what it stores.\<close>

definition new_entry :: "host \<Rightarrow> addr \<Rightarrow> factory_circle_config \<Rightarrow> circle_entry" where
  "new_entry h cid config = \<lparr>en_circle_id = cid, en_name = cc_name config,
     en_organizer = cc_organizer config, en_deployed_at = now h, en_status = 0\<rparr>"

definition deployable :: "factory_circle_config \<Rightarrow> bool" where
  "deployable config \<longleftrightarrow> 2 \<le> cc_max_members config \<and> 0 < cc_contribution_amount config
     \<and> 0 < cc_total_rounds config \<and> cc_payout_type config \<le> 3"

lemma validate_config_address_Inr [res_simps]:
  "validate_config_address a = Inr u \<longleftrightarrow> a \<noteq> zero_address"
  by (auto simp: validate_config_address_def)

lemma load_factory_config_Inr [res_simps]:
  "load_factory_config s = Inr fc \<longleftrightarrow> fa_factory_config s = Some fc \<and> fc_fee_bps fc \<le> 10000
     \<and> fc_treasury fc \<noteq> zero_address \<and> fc_reputation_registry fc \<noteq> zero_address"
  by (auto simp: load_factory_config_def res_simps)

lemma charge_quota_effect:
  assumes "charge_quota h a s = Inr s'"
  obtains "rl_limit (get_rate_limit_config s) = 0" "s' = s"
  | n where "0 < rl_limit (get_rate_limit_config s)" "0 < rl_period_secs (get_rate_limit_config s)"
      "n = unwrap_or (fa_period_count s (a, now h div rl_period_secs (get_rate_limit_config s))) 0"
      "n < rl_limit (get_rate_limit_config s)"
      "s' = s\<lparr>fa_period_count := (fa_period_count s)
          ((a, now h div rl_period_secs (get_rate_limit_config s)) \<mapsto> Suc n)\<rparr>"
proof (cases "rl_limit (get_rate_limit_config s) = 0")
  case True
  with assms have "s' = s" by (simp add: charge_quota_def get_rate_limit_config_def [symmetric])
  with True show thesis by (rule that(1))
next
  case False
  with assms have "\<not> rl_period_secs (get_rate_limit_config s) = 0
    \<and> \<not> rl_limit (get_rate_limit_config s)
        \<le> unwrap_or (fa_period_count s (a, now h div rl_period_secs (get_rate_limit_config s))) 0
    \<and> s' = s\<lparr>fa_period_count := (fa_period_count s)((a, now h div rl_period_secs (get_rate_limit_config s))
        \<mapsto> Suc (unwrap_or (fa_period_count s (a, now h div rl_period_secs (get_rate_limit_config s))) 0))\<rparr>"
    by (simp add: charge_quota_def get_rate_limit_config_def [symmetric] Let_def bind_res_Inr ok_or_Inr
        u_checked_add_Some split: if_split_asm)
  with False show thesis by (intro that(2) [OF _ _ refl]) simp_all
qed

lemma deploy_circle_effect:
  assumes "deploy_circle A h config s = Inr (cid, s')"
  obtains fc wh w w' s1 where "\<not> is_paused s" "authorized h (cc_organizer config)" "deployable config"
    "fa_factory_config s = Some fc" "fc_fee_bps fc \<le> 10000" "fc_treasury fc \<noteq> zero_address"
    "fc_reputation_registry fc \<noteq> zero_address"
    "charge_quota h (cc_organizer config) s = Inr s1" "fa_wasm_hash s = Some wh"
    "fa_canonical s (canonical_deployment_salt A config) = None"
    "dy_deploy A (cb_ledger s) h wh (canonical_deployment_salt A config) (cc_organizer config) (self h) config
       = Some (cid, w)"
    "dy_configure A w h cid (self h) (fc_treasury fc) (fc_reputation_registry fc) (fc_fee_bps fc) = Some w'"
    "get_circle_count s + 1 < 2 ^ 32"
    "s' = publish (Event ''deploy'' [AddrV (self h)]
            [AddrV (cc_organizer config), AddrV cid, SymV (cc_name config)])
          (s1\<lparr>cb_ledger := w', fa_canonical := (fa_canonical s)(canonical_deployment_salt A config \<mapsto> cid),
              fa_circle_config := (fa_circle_config s)(cid \<mapsto> config),
              fa_circle_list := Some (get_circles s @ [new_entry h cid config]),
              fa_circle_count := Some (get_circle_count s + 1)\<rparr>)"
proof -
  from assms obtain fc s1 wh w w' s2 n where p: "\<not> is_paused s" "authorized h (cc_organizer config)"
    "load_factory_config s = Inr fc" "charge_quota h (cc_organizer config) s = Inr s1"
    "fa_wasm_hash s1 = Some wh" "fa_canonical s1 (canonical_deployment_salt A config) = None"
    "dy_deploy A (cb_ledger s1) h wh (canonical_deployment_salt A config) (cc_organizer config) (self h) config
       = Some (cid, w)"
    "dy_configure A w h cid (self h) (fc_treasury fc) (fc_reputation_registry fc) (fc_fee_bps fc) = Some w'"
    "s1\<lparr>cb_ledger := w'\<rparr> = s2" "u_checked_add 32 (unwrap_or (fa_circle_count s2) 0) (Suc 0) = Some n"
    "s' = publish (Event ''deploy'' [AddrV (self h)]
            [AddrV (cc_organizer config), AddrV cid, SymV (cc_name config)])
          (s2\<lparr>fa_canonical := (fa_canonical s2)(canonical_deployment_salt A config \<mapsto> cid),
              fa_circle_config := (fa_circle_config s2)(cid \<mapsto> config),
              fa_circle_list := Some (get_circles s2 @ [new_entry h cid config]), fa_circle_count := Some n\<rparr>)"
    and d: "\<not> (cc_max_members config < 2 \<or> cc_contribution_amount config \<le> 0 \<or> cc_total_rounds config = 0
        \<or> cc_payout_type config > 3)"
    unfolding deploy_circle_def bind_res_Inr map_err_Inr ok_or_Inr or_trap_Inr if_Inl_Inr Let_def
      require_auth_Inr when_not_paused_Inr configure_deployed_circle_def case_option_Inr
    by (simp add: split_paired_Ex bind_res_Inr map_err_Inr ok_or_Inr or_trap_Inr if_Inl_Inr
        require_auth_Inr case_option_Inr)
      (elim exE conjE, rule that, (assumption | (rule sym, assumption) | simp add: new_entry_def get_circles_def | force simp: new_entry_def get_circles_def)+)
  from p(4) have "fa_wasm_hash s1 = fa_wasm_hash s" "fa_canonical s1 = fa_canonical s"
    "cb_ledger s1 = cb_ledger s" "get_circle_count s1 = get_circle_count s"
    "fa_circle_config s1 = fa_circle_config s" "get_circles s1 = get_circles s"
    by (auto elim!: charge_quota_effect simp: get_circle_count_def get_circles_def)
  note keep = this
  from p(3) have "fa_factory_config s = Some fc" "fc_fee_bps fc \<le> 10000" "fc_treasury fc \<noteq> zero_address"
    "fc_reputation_registry fc \<noteq> zero_address" by (simp_all add: load_factory_config_Inr)
  moreover from d have "deployable config" by (simp add: deployable_def)
  moreover from p(9,10) keep(4) have "n = get_circle_count s + 1" "get_circle_count s + 1 < 2 ^ 32"
    by (auto simp: int_simps get_circle_count_def)
  moreover from p(9) have "get_circles s2 = get_circles s1" "fa_canonical s2 = fa_canonical s1"
    "fa_circle_config s2 = fa_circle_config s1" by (auto simp: get_circles_def)
  ultimately show thesis using p by (intro that) (auto simp: keep)
qed

section \<open>What the calls keep\<close>

lemma not_deploy_keeps:
  assumes "fa_exec A h op s = Inr s'" "\<And>c. op \<noteq> FaDeploy c"
  shows "get_circles s' = get_circles s" "fa_canonical s' = fa_canonical s"
    "fa_circle_config s' = fa_circle_config s" "fa_period_count s' = fa_period_count s"
    "\<not> initializes op \<Longrightarrow> get_circle_count s' = get_circle_count s"
    "\<not> initializes op \<Longrightarrow> get_rate_limit_config s' = get_rate_limit_config s"
    "initializes op \<Longrightarrow> get_circle_count s' = 0"
  using assms
  by (cases op; auto simp: factory_init_def init_with_config_def set_factory_config_def set_fee_config_def
      factory_pause_def factory_unpause_def common_pause_def common_unpause_def res_simps Let_def
      get_circles_def get_circle_count_def get_rate_limit_config_def split: if_splits option.splits)+

lemma charge_quota_keeps:
  assumes "charge_quota h a s = Inr s'"
  shows "get_rate_limit_config s' = get_rate_limit_config s"
  using assms by (auto elim!: charge_quota_effect simp: get_rate_limit_config_def)

lemma deploy_circle_keeps:
  assumes "deploy_circle A h config s = Inr (cid, s')"
  shows "get_circles s' = get_circles s @ [new_entry h cid config]"
    "fa_canonical s' = (fa_canonical s)(canonical_deployment_salt A config \<mapsto> cid)"
    "fa_circle_config s' = (fa_circle_config s)(cid \<mapsto> config)"
    "get_circle_count s' = get_circle_count s + 1"
    "get_rate_limit_config s' = get_rate_limit_config s"
    "\<exists>s1. charge_quota h (cc_organizer config) s = Inr s1 \<and> fa_period_count s' = fa_period_count s1"
  using assms charge_quota_keeps
  by (auto elim!: deploy_circle_effect simp: get_circles_def get_circle_count_def get_rate_limit_config_def)

lemma fa_exec_deploy:
  "fa_exec A h (FaDeploy c) s = Inr s' \<longleftrightarrow> (\<exists>cid. deploy_circle A h c s = Inr (cid, s'))"
  by (auto simp: bind_res_Inr)

section \<open>The registry\<close>

text \<open>
  What the factory relies on of the host's deployer: the address of a deployed contract is a function of
  the deploying contract and the salt, and different salts have different addresses.
\<close>

locale deployer =
  fixes A :: "'w deploy_api" and address_of :: "addr \<Rightarrow> bytes \<Rightarrow> addr"
  assumes deploy_address: "dy_deploy A w h wh salt org fac c = Some (cid, w') \<Longrightarrow> cid = address_of (self h) salt"
    and address_inj: "address_of f x = address_of f y \<Longrightarrow> x = y"

definition registry_ids :: "'w factory \<Rightarrow> addr list" where
  "registry_ids s = map en_circle_id (get_circles s)"

definition registry_ok :: "'w deploy_api \<Rightarrow> (bytes \<Rightarrow> addr) \<Rightarrow> 'w factory \<Rightarrow> bool" where
  "registry_ok A addr_of s \<longleftrightarrow> distinct (registry_ids s)
     \<and> dom (fa_circle_config s) = set (registry_ids s)
     \<and> (\<forall>e\<in>set (get_circles s). \<exists>c. fa_circle_config s (en_circle_id e) = Some c \<and> deployable c
          \<and> en_name e = cc_name c \<and> en_organizer e = cc_organizer c
          \<and> en_circle_id e = addr_of (canonical_deployment_salt A c)
          \<and> fa_canonical s (canonical_deployment_salt A c) = Some (en_circle_id e))"

context deployer
begin

lemma deploy_registry_ok:
  assumes "deploy_circle A h config s = Inr (cid, s')" "registry_ok A (address_of (self h)) s"
  shows "registry_ok A (address_of (self h)) s'"
proof -
  let ?salt = "canonical_deployment_salt A config"
  from assms(1) obtain wh w where new: "fa_canonical s ?salt = None" "deployable config"
    "dy_deploy A (cb_ledger s) h wh ?salt (cc_organizer config) (self h) config = Some (cid, w)"
    by (rule deploy_circle_effect)
  then have cid: "cid = address_of (self h) ?salt" by (intro deploy_address)
  note keep = deploy_circle_keeps [OF assms(1)]
  have fresh: "cid \<noteq> en_circle_id e" "?salt \<noteq> canonical_deployment_salt A c"
    if "e \<in> set (get_circles s)" "fa_circle_config s (en_circle_id e) = Some c" for e c
  proof -
    from that assms(2) have "fa_canonical s (canonical_deployment_salt A c) = Some (en_circle_id e)"
      "en_circle_id e = address_of (self h) (canonical_deployment_salt A c)"
      by (auto simp: registry_ok_def)
    with new(1) cid address_inj show "?salt \<noteq> canonical_deployment_salt A c" "cid \<noteq> en_circle_id e" by force+
  qed
  have "cid \<notin> set (registry_ids s)"
  proof
    assume "cid \<in> set (registry_ids s)"
    then obtain e where e: "e \<in> set (get_circles s)" "cid = en_circle_id e" by (auto simp: registry_ids_def)
    with assms(2) obtain c where "fa_circle_config s (en_circle_id e) = Some c" by (auto simp: registry_ok_def)
    with fresh e show False by blast
  qed
  moreover have "\<exists>c. fa_circle_config s' (en_circle_id e) = Some c \<and> deployable c
          \<and> en_name e = cc_name c \<and> en_organizer e = cc_organizer c
          \<and> en_circle_id e = address_of (self h) (canonical_deployment_salt A c)
          \<and> fa_canonical s' (canonical_deployment_salt A c) = Some (en_circle_id e)"
    if "e \<in> set (get_circles s')" for e
  proof (cases "e \<in> set (get_circles s)")
    case True
    with assms(2) obtain c where c: "fa_circle_config s (en_circle_id e) = Some c" "deployable c"
      "en_name e = cc_name c" "en_organizer e = cc_organizer c"
      "en_circle_id e = address_of (self h) (canonical_deployment_salt A c)"
      "fa_canonical s (canonical_deployment_salt A c) = Some (en_circle_id e)" by (auto simp: registry_ok_def)
    with fresh [OF True c(1)] show ?thesis by (intro exI [of _ c]) (auto simp: keep)
  next
    case False
    with that keep(1) have "e = new_entry h cid config" by simp
    with new(2) cid show ?thesis by (auto simp: keep new_entry_def)
  qed
  ultimately show ?thesis using assms(2)
    by (auto simp: registry_ok_def registry_ids_def keep new_entry_def)
qed

lemma fa_run_registry_ok:
  assumes "fa_run A me inits s s'" "registry_ok A (address_of me) s" "get_circle_count s \<le> length (get_circles s)"
  shows "registry_ok A (address_of me) s' \<and> get_circle_count s' \<le> length (get_circles s')
    \<and> (\<not> inits \<longrightarrow> get_circle_count s = length (get_circles s) \<longrightarrow> get_circle_count s' = length (get_circles s'))"
  using assms
proof (induction rule: fa_run.induct)
  case (fa_call s s1 h op s2)
  show ?case
  proof (cases "\<exists>c. op = FaDeploy c")
    case True
    then obtain c where "op = FaDeploy c" by blast
    with fa_call.hyps(4) obtain cid where d: "deploy_circle A h c s1 = Inr (cid, s2)"
      by (auto simp only: fa_exec_deploy)
    from deploy_registry_ok [OF this] fa_call deploy_circle_keeps [OF d] show ?thesis by auto
  next
    case False
    note keep = not_deploy_keeps [OF fa_call.hyps(4)]
    from False keep(1-3) fa_call have "registry_ok A (address_of me) s2"
      by (simp add: registry_ok_def registry_ids_def)
    with False keep fa_call show ?thesis by (cases "initializes op") auto
  qed
qed (simp_all add: registry_ok_def registry_ids_def get_circles_def get_circle_count_def)

end

lemma factory_init_fresh:
  assumes "fa_exec A h op (factory_empty w) = Inr s" "initializes op"
  shows "get_circles s = []" "fa_canonical s = Map.empty" "fa_circle_config s = Map.empty"
    "fa_period_count s = Map.empty" "get_circle_count s = 0"
proof -
  from assms(2) have "\<And>c. op \<noteq> FaDeploy c" by auto
  note keep = not_deploy_keeps [OF assms(1) this]
  from keep assms(2) show "get_circles s = []" "fa_canonical s = Map.empty" "fa_circle_config s = Map.empty"
    "fa_period_count s = Map.empty" "get_circle_count s = 0"
    by (simp_all add: factory_empty_def get_circles_def)
qed

section \<open>The quota of an organizer\<close>

definition deployed_in :: "nat \<Rightarrow> addr \<Rightarrow> nat \<Rightarrow> 'w factory \<Rightarrow> nat" where
  "deployed_in secs org p s = length (filter (\<lambda>e. en_organizer e = org \<and> en_deployed_at e div secs = p) (get_circles s))"

definition quota_ok :: "nat \<Rightarrow> nat \<Rightarrow> 'w factory \<Rightarrow> bool" where
  "quota_ok l secs s \<longleftrightarrow> get_rate_limit_config s = \<lparr>rl_limit = l, rl_period_secs = secs\<rparr>
     \<and> (\<forall>org p. unwrap_or (fa_period_count s (org, p)) 0 = deployed_in secs org p s \<and> deployed_in secs org p s \<le> l)"

lemma deploy_quota_ok:
  assumes "deploy_circle A h config s = Inr (cid, s')" "quota_ok l secs s" "0 < l"
  shows "quota_ok l secs s'" "deployed_in secs (cc_organizer config) (now h div secs) s < l"
proof -
  note keep = deploy_circle_keeps [OF assms(1)]
  obtain s1 where s1: "charge_quota h (cc_organizer config) s = Inr s1" "fa_period_count s' = fa_period_count s1"
    using keep(6) by blast
  from s1(1) assms(2,3) have less: "deployed_in secs (cc_organizer config) (now h div secs) s < l"
    and count: "fa_period_count s' = (fa_period_count s)((cc_organizer config, now h div secs)
      \<mapsto> Suc (deployed_in secs (cc_organizer config) (now h div secs) s))"
    by (auto elim!: charge_quota_effect simp: quota_ok_def s1(2))
  show "deployed_in secs (cc_organizer config) (now h div secs) s < l" by (fact less)
  have "deployed_in secs org p s' = deployed_in secs org p s
      + (if org = cc_organizer config \<and> p = now h div secs then 1 else 0)" for org p
    by (auto simp: deployed_in_def keep(1) new_entry_def)
  with less assms(2) show "quota_ok l secs s'" by (auto simp: quota_ok_def count keep(5))
qed

lemma fa_run_quota_ok:
  assumes "fa_run A me False s s'" "quota_ok l secs s" "0 < l"
  shows "quota_ok l secs s'"
  using assms
proof (induction rule: fa_run.induct)
  case (fa_call s s1 h op s2)
  show ?case
  proof (cases "\<exists>c. op = FaDeploy c")
    case True
    then obtain c where "op = FaDeploy c" by blast
    with fa_call.hyps(4) obtain cid where "deploy_circle A h c s1 = Inr (cid, s2)" by (auto simp only: fa_exec_deploy)
    from deploy_quota_ok(1) [OF this] fa_call show ?thesis by blast
  next
    case False
    with not_deploy_keeps [OF fa_call.hyps(4)] fa_call show ?thesis by (simp add: quota_ok_def deployed_in_def)
  qed
qed (simp_all add: quota_ok_def deployed_in_def get_circles_def get_rate_limit_config_def)

lemma factory_init_quota_ok:
  assumes "factory_init h admin fee_bps wh l secs (factory_empty w) = Inr s"
  shows "quota_ok l secs s" "0 < l \<Longrightarrow> 0 < secs"
  using assms
  by (auto simp: factory_init_def res_simps factory_empty_def quota_ok_def get_rate_limit_config_def
      deployed_in_def get_circles_def)

end
