(* ===== verification/Factory_World.thy ===== *)
theory Factory_World
  imports Circle_Factory
begin

text \<open>
  The factory together with the circles it deploys: a world in which every deployed contract is an
  instance of the model of the savings circle, the laws of deployment that the factory relies on, and
  the properties of the registry, of the quota and of a deployed circle.
\<close>

section \<open>The laws of a world of circles\<close>

text \<open>
  \<open>circle_at w a\<close> is the storage of the circle deployed at \<open>a\<close>. Deploying the circle's code at a free
  address runs its constructor with the arguments of the factory; a call of \<open>configure_from_factory\<close>
  runs that handler on the storage it finds; both leave the other circles alone.
\<close>

locale circle_deployer = deployer A address_of
  for A :: "'w deploy_api" and address_of :: "addr \<Rightarrow> bytes \<Rightarrow> addr" +
  fixes E :: "'l circle_env" and circle_at :: "'w \<Rightarrow> addr \<Rightarrow> 'l circle_state option" and code :: bytes
  assumes deploy_constructs:
      "dy_deploy A w h code salt org fac c = Some (cid, w') \<Longrightarrow> circle_at w cid = None
        \<and> (\<exists>h' seed l k. self h' = cid \<and> now h' = now h
            \<and> circle_init E h' seed org fac c (circle_empty l) = Inr k \<and> circle_at w' = (circle_at w)(cid \<mapsto> k))"
    and configure_calls:
      "dy_configure A w h cid f t r n = Some w' \<Longrightarrow>
        \<exists>h' k k'. self h' = cid \<and> circle_at w cid = Some k \<and> configure_from_factory h' f t r n k = Inr k'
            \<and> circle_at w' = (circle_at w)(cid \<mapsto> k')"

text \<open>What the constructor and the configuration leave in the storage of a circle.\<close>

definition configured_circle ::
    "host \<Rightarrow> addr \<Rightarrow> factory_circle_config \<Rightarrow> factory_config \<Rightarrow> 'l circle_state \<Rightarrow> bool" where
  "configured_circle h cid config fc k \<longleftrightarrow>
     ci_circle k = Some ((new_circle h (self h) config)\<lparr>cl_id := cid\<rparr>)
     \<and> ci_admin k = Some (cc_organizer config) \<and> ci_factory k = Some (self h) \<and> get_members k = []
     \<and> get_treasury k = Some (fc_treasury fc) \<and> ci_registry k = Some (fc_reputation_registry fc)
     \<and> get_fee_bps k = fc_fee_bps fc"

lemma constructed_circle:
  assumes "circle_init E h seed admin factory config (circle_empty l) = Inr k"
  shows "ci_circle k = Some (new_circle h factory config)" "ci_admin k = Some admin"
    "ci_factory k = Some factory" "ci_members k = Some []"
  using assms
  by (auto simp: circle_init_def seq_simps Let_def init_vrf_def split: if_splits)

lemma configured_from_factory:
  assumes "configure_from_factory h f t r n k = Inr k'"
  shows "ci_circle k' = ci_circle k" "ci_admin k' = ci_admin k" "ci_factory k' = ci_factory k"
    "ci_members k' = ci_members k" "ci_treasury k' = Some t" "ci_registry k' = Some r"
    "ci_fee_bps k' = Some n" "ci_factory k = Some f"
  using assms by (auto simp: configure_from_factory_def seq_simps split: if_splits)

context circle_deployer
begin

lemma deploy_circle_configures:
  assumes "deploy_circle A h config s = Inr (cid, s')" "fa_wasm_hash s = Some code"
  obtains fc h1 h2 seed l k0 k where "get_factory_config s = Some fc" "fc_fee_bps fc \<le> 10000"
    "circle_at (cb_ledger s) cid = None"
    "self h1 = cid" "circle_init E h1 seed (cc_organizer config) (self h) config (circle_empty l) = Inr k0"
    "self h2 = cid"
    "configure_from_factory h2 (self h) (fc_treasury fc) (fc_reputation_registry fc) (fc_fee_bps fc) k0 = Inr k"
    "configured_circle h cid config fc k" "circle_at (cb_ledger s') = (circle_at (cb_ledger s))(cid \<mapsto> k)"
proof -
  from assms obtain fc w w' salt where fc: "fa_factory_config s = Some fc" "fc_fee_bps fc \<le> 10000"
    and d: "dy_deploy A (cb_ledger s) h code salt (cc_organizer config) (self h) config = Some (cid, w)"
    and c: "dy_configure A w h cid (self h) (fc_treasury fc) (fc_reputation_registry fc) (fc_fee_bps fc) = Some w'"
    and s': "cb_ledger s' = w'"
    by (elim deploy_circle_effect) auto
  from deploy_constructs [OF d] obtain h1 seed l k0 where k0: "circle_at (cb_ledger s) cid = None"
    "self h1 = cid" "now h1 = now h"
    "circle_init E h1 seed (cc_organizer config) (self h) config (circle_empty l) = Inr k0"
    "circle_at w = (circle_at (cb_ledger s))(cid \<mapsto> k0)" by blast
  from configure_calls [OF c] k0(5) obtain h2 k where k: "self h2 = cid"
    "configure_from_factory h2 (self h) (fc_treasury fc) (fc_reputation_registry fc) (fc_fee_bps fc) k0 = Inr k"
    "circle_at w' = (circle_at (cb_ledger s))(cid \<mapsto> k)" by auto
  have "configured_circle h cid config fc k"
    using constructed_circle [OF k0(4)] configured_from_factory [OF k(2)] k0(2,3)
    by (simp add: configured_circle_def get_treasury_def get_fee_bps_def get_members_def new_circle_def)
  with fc k0(1,2,4) k s' show thesis by (intro that) (auto simp: get_factory_config_def)
qed

end

section \<open>A world of circles\<close>

text \<open>
  Every contract deployed from the factory is a circle of the model; \<open>hb_ledger\<close> is the state of the
  contracts around them. The address of a deployment encodes its salt.
\<close>

record 'l hub =
  hb_ledger :: 'l
  hb_circles :: "addr \<Rightarrow> 'l circle_state option"

fun salt_address :: "bytes \<Rightarrow> addr" where
  "salt_address [] = 0"
| "salt_address (b # bs) = Suc (unat b) + 257 * salt_address bs"

lemma unat_byte: "unat (b :: 8 word) < 256"
  using unsigned_less [of b] by simp

lemma digits_eq:
  assumes "a + 257 * x = b + 257 * y" "a < 257" "b < (257 :: nat)"
  shows "a = b" "x = y"
proof -
  from assms(1) have "(a + 257 * x) mod 257 = (b + 257 * y) mod 257" "(a + 257 * x) div 257 = (b + 257 * y) div 257"
    by simp_all
  with assms(2,3) show "a = b" "x = y" by simp_all
qed

lemma salt_address_inj: "salt_address x = salt_address y \<Longrightarrow> x = y"
proof (induction x arbitrary: y)
  case Nil
  then show ?case by (cases y) simp_all
next
  case (Cons b bs)
  then obtain c cs where y: "y = c # cs" by (cases y) simp_all
  with Cons.prems have eq: "Suc (unat b) + 257 * salt_address bs = Suc (unat c) + 257 * salt_address cs" by simp
  have "Suc (unat b) < 257" "Suc (unat c) < 257" using unat_byte by simp_all
  from digits_eq [OF eq this] have "unat b = unat c" "salt_address bs = salt_address cs" by simp_all
  then have "b = c" "bs = cs" using Cons.IH by (auto intro: unsigned_word_eqI)
  with y show ?case by simp
qed

definition hub_deploy ::
    "'l circle_env \<Rightarrow> bytes \<Rightarrow> 'l hub \<Rightarrow> host \<Rightarrow> bytes \<Rightarrow> bytes \<Rightarrow> addr \<Rightarrow> addr \<Rightarrow> factory_circle_config
      \<Rightarrow> (addr \<times> 'l hub) option" where
  "hub_deploy E code w h wh salt org fac config =
     (let cid = salt_address salt in
      if wh \<noteq> code \<or> hb_circles w cid \<noteq> None then None
      else case circle_init E (h\<lparr>self := cid\<rparr>) salt org fac config (circle_empty (hb_ledger w)) of
          Inl _ \<Rightarrow> None
        | Inr k \<Rightarrow> Some (cid, w\<lparr>hb_circles := (hb_circles w)(cid \<mapsto> k)\<rparr>))"

definition hub_configure ::
    "'l hub \<Rightarrow> host \<Rightarrow> addr \<Rightarrow> addr \<Rightarrow> addr \<Rightarrow> addr \<Rightarrow> nat \<Rightarrow> 'l hub option" where
  "hub_configure w h cid f t r n =
     (case hb_circles w cid of
        None \<Rightarrow> None
      | Some k \<Rightarrow>
          (case configure_from_factory
                  (h\<lparr>self := cid, authorized := (\<lambda>a. a = self h \<or> authorized h a)\<rparr>) f t r n k of
             Inl _ \<Rightarrow> None
           | Inr k' \<Rightarrow> Some (w\<lparr>hb_circles := (hb_circles w)(cid \<mapsto> k')\<rparr>)))"

definition hub_api ::
    "'l circle_env \<Rightarrow> bytes \<Rightarrow> (bytes \<Rightarrow> bytes) \<Rightarrow> (factory_circle_config \<Rightarrow> bytes) \<Rightarrow> 'l hub deploy_api" where
  "hub_api E code sha xdr = \<lparr>dy_sha = sha, dy_xdr = xdr, dy_deploy = hub_deploy E code, dy_configure = hub_configure\<rparr>"

interpretation hub: circle_deployer "hub_api E code sha xdr" "\<lambda>_. salt_address" E hb_circles code
  for E :: "'l circle_env" and code sha xdr
proof
  fix w :: "'l hub" and h salt org fac c cid w'
  show "cid = salt_address salt" if "dy_deploy (hub_api E code sha xdr) w h wh salt org fac c = Some (cid, w')" for wh
    using that by (auto simp: hub_api_def hub_deploy_def Let_def split: if_splits sum.splits)
  show "hb_circles w cid = None
        \<and> (\<exists>h' seed l k. self h' = cid \<and> now h' = now h
            \<and> circle_init E h' seed org fac c (circle_empty l) = Inr k \<and> hb_circles w' = (hb_circles w)(cid \<mapsto> k))"
    if "dy_deploy (hub_api E code sha xdr) w h code salt org fac c = Some (cid, w')"
  proof -
    from that obtain k where "hb_circles w cid = None"
      "circle_init E (h\<lparr>self := cid\<rparr>) salt org fac c (circle_empty (hb_ledger w)) = Inr k"
      "hb_circles w' = (hb_circles w)(cid \<mapsto> k)"
      by (auto simp: hub_api_def hub_deploy_def Let_def split: if_splits sum.splits)
    then show ?thesis by (intro conjI exI [of _ "h\<lparr>self := cid\<rparr>"] exI) auto
  qed
next
  fix w :: "'l hub" and h cid f t r n w'
  assume "dy_configure (hub_api E code sha xdr) w h cid f t r n = Some w'"
  then obtain k k' where "hb_circles w cid = Some k"
    "configure_from_factory (h\<lparr>self := cid, authorized := (\<lambda>a. a = self h \<or> authorized h a)\<rparr>) f t r n k = Inr k'"
    "hb_circles w' = (hb_circles w)(cid \<mapsto> k')"
    by (auto simp: hub_api_def hub_configure_def split: option.splits sum.splits)
  then show "\<exists>h' k k'. self h' = cid \<and> hb_circles w cid = Some k \<and> configure_from_factory h' f t r n k = Inr k'
            \<and> hb_circles w' = (hb_circles w)(cid \<mapsto> k')"
    by (intro exI [of _ "h\<lparr>self := cid, authorized := (\<lambda>a. a = self h \<or> authorized h a)\<rparr>"] exI [of _ k] exI [of _ k']) auto
qed (rule salt_address_inj)

section \<open>A sample run\<close>

text \<open>A factory at address 3, with a quota of one circle an hour, that deploys the sample circle.\<close>

definition fx_host :: "nat \<Rightarrow> host" where
  "fx_host t = \<lparr>self = 3, now = t, seq = t, authorized = \<lambda>a. a \<noteq> 3\<rparr>"

definition fx_api :: "unit hub deploy_api" where
  "fx_api = hub_api cw_env [1] (\<lambda>b. b) (\<lambda>c. [of_nat (cc_total_rounds c)])"

definition fx_start :: "unit hub factory" where
  "fx_start = factory_empty \<lparr>hb_ledger = (), hb_circles = Map.empty\<rparr>"

lemmas fx_eval = fx_host_def fx_api_def fx_start_def hub_api_def hub_deploy_def hub_configure_def factory_init_def
  set_factory_config_def deploy_circle_def charge_quota_def load_factory_config_def validate_config_address_def
  zero_address_def canonical_deployment_salt_def configure_deployed_circle_def configure_from_factory_def
  config_event_def factory_empty_def

lemma fx_steps:
  "\<exists>s0 s1 s2 cid. factory_init (fx_host 1) 1 100 [1] 1 3600 fx_start = Inr s0
    \<and> set_factory_config (fx_host 2) 1 20 21 100 s0 = Inr s1 \<and> fa_wasm_hash s1 = Some [1]
    \<and> deploy_circle fx_api (fx_host 5) cw_config s1 = Inr (cid, s2)"
  by (simp add: fx_eval cw_eval)

lemma fx_run:
  obtains s0 s1 s2 cid where "factory_init (fx_host 1) 1 100 [1] 1 3600 fx_start = Inr s0"
    "fa_run fx_api 3 False s0 s1" "fa_wasm_hash s1 = Some [1]"
    "deploy_circle fx_api (fx_host 5) cw_config s1 = Inr (cid, s2)" "fa_run fx_api 3 False s0 s2"
    "get_circles s2 = [new_entry (fx_host 5) cid cw_config]"
proof -
  obtain s0 s1 s2 cid where i: "factory_init (fx_host 1) 1 100 [1] 1 3600 fx_start = Inr s0"
    "set_factory_config (fx_host 2) 1 20 21 100 s0 = Inr s1" "fa_wasm_hash s1 = Some [1]"
    "deploy_circle fx_api (fx_host 5) cw_config s1 = Inr (cid, s2)" using fx_steps by blast
  have self: "self (fx_host t) = 3" for t by (simp add: fx_host_def)
  have r1: "fa_run fx_api 3 False s0 s1"
    using fa_call [OF fa_refl self [of 2], of "FaSetConfig 1 20 21 100"] i(2) by simp
  have r2: "fa_run fx_api 3 False s0 s2"
    using fa_call [OF r1 self [of 5], of "FaDeploy cw_config"] i(4) by simp
  have "get_circles s0 = []"
    using factory_init_fresh(1) [of fx_api "fx_host 1" "FaInit 1 100 [1] 1 3600"] i(1) by (simp add: fx_start_def)
  then have "get_circles s1 = []"
    using not_deploy_keeps(1) [of fx_api "fx_host 2" "FaSetConfig 1 20 21 100" s0 s1] i(2) by simp
  with deploy_circle_keeps(1) [OF i(4)] have "get_circles s2 = [new_entry (fx_host 5) cid cw_config]" by simp
  with i r1 r2 show thesis by (intro that)
qed

section \<open>Properties\<close>

text \<open>
  C10: A deployed circle is configured, and stays what the registry says. When the deployer keeps its laws,
  a successful \<open>deploy_circle\<close> creates at a free address exactly one circle, for the organizer of the
  configuration as its administrator and with the calling factory as its factory: pending, without
  members, with the terms of the configuration, the time of the call as its creation time and the
  treasury, the reputation registry and the fee of the factory's configuration; every other circle is
  untouched. The registry then answers with that configuration, and in every later state of the circle
  all terms but the token are still those.
\<close>

theorem deployed_circle_is_configured:
  assumes laws: "circle_deployer A address_of E circle_at code"
    and deploy: "deploy_circle A h config s = Inr (cid, s')" and code: "fa_wasm_hash s = Some code"
  shows "\<exists>fc k c. get_factory_config s = Some fc \<and> fc_fee_bps fc \<le> 10000
    \<and> circle_at (cb_ledger s) cid = None \<and> circle_at (cb_ledger s') = (circle_at (cb_ledger s))(cid \<mapsto> k)
    \<and> ci_circle k = Some c \<and> config_of c = config \<and> cl_id c = cid \<and> cl_status c = STATUS_PENDING
    \<and> cl_created_at c = now h \<and> get_members k = [] \<and> ci_admin k = Some (cc_organizer config)
    \<and> ci_factory k = Some (self h) \<and> get_treasury k = Some (fc_treasury fc)
    \<and> ci_registry k = Some (fc_reputation_registry fc) \<and> get_fee_bps k = fc_fee_bps fc
    \<and> get_circle_config s' cid = Inr config
    \<and> (\<forall>k' c'. ci_run E cid k k' \<longrightarrow> ci_circle k' = Some c' \<longrightarrow>
         config_of (c'\<lparr>cl_token := cc_token config\<rparr>) = config)"
proof -
  obtain fc h1 h2 seed l k0 k where p: "get_factory_config s = Some fc" "fc_fee_bps fc \<le> 10000"
    "circle_at (cb_ledger s) cid = None"
    "self h1 = cid" "circle_init E h1 seed (cc_organizer config) (self h) config (circle_empty l) = Inr k0"
    "self h2 = cid"
    "configure_from_factory h2 (self h) (fc_treasury fc) (fc_reputation_registry fc) (fc_fee_bps fc) k0 = Inr k"
    "configured_circle h cid config fc k" "circle_at (cb_ledger s') = (circle_at (cb_ledger s))(cid \<mapsto> k)"
    using circle_deployer.deploy_circle_configures [OF laws deploy code] by metis
  let ?c = "(new_circle h (self h) config)\<lparr>cl_id := cid\<rparr>"
  have c: "ci_circle k = Some ?c" using p(8) by (simp add: configured_circle_def)
  have terms: "config_of ?c = config" "cl_token ?c = cc_token config" by (simp_all add: config_of_def new_circle_def)
  have run: "ci_run E cid k0 k"
    using ci_call [OF ci_refl p(6), of E "CiConfigure (self h) (fc_treasury fc) (fc_reputation_registry fc) (fc_fee_bps fc)"]
      p(7) by simp
  then have "mem_inv k" by (rule ci_run_mem_inv [OF _ circle_init_mem_inv [OF p(5)]])
  then have "config_of (c'\<lparr>cl_token := cc_token config\<rparr>) = config"
    if "ci_run E cid k k'" "ci_circle k' = Some c'" for k' and c' :: circle
    using ci_run_evolves [OF that(1) c] that(2) terms by (auto simp: circle_evolves_def)
  moreover have "get_circle_config s' cid = Inr config"
    by (simp add: get_circle_config_def deploy_circle_keeps(3) [OF deploy])
  ultimately show ?thesis using p(1-3,8,9) c terms(1)
    by (intro exI [of _ fc] exI [of _ k] exI [of _ ?c]) (simp add: configured_circle_def new_circle_def)
qed

theorem deployed_circle_is_configured_witness:
  "\<exists>(s :: unit hub factory) cid s' k. deploy_circle fx_api (fx_host 5) cw_config s = Inr (cid, s')
    \<and> hb_circles (cb_ledger s') cid = Some k \<and> get_members k = [] \<and> ci_admin k = Some 2"
proof -
  obtain s1 s2 cid where d: "deploy_circle fx_api (fx_host 5) cw_config s1 = Inr (cid, s2)" "fa_wasm_hash s1 = Some [1]"
    by (rule fx_run)
  have "circle_deployer fx_api (\<lambda>_. salt_address) cw_env hb_circles [1]"
    unfolding fx_api_def by (rule hub.circle_deployer_axioms)
  from deployed_circle_is_configured [OF this d] obtain k where
    "hb_circles (cb_ledger s2) = (hb_circles (cb_ledger s1))(cid \<mapsto> k)" "get_members k = []"
    "ci_admin k = Some (cc_organizer cw_config)" by blast
  moreover have "cc_organizer cw_config = 2" by (simp add: cw_config_def)
  ultimately show ?thesis using d(1)
    by (intro exI [of _ s1] exI [of _ cid] exI [of _ s2] exI [of _ k]) simp
qed

text \<open>
  C11: The registry lists every deployment once. In every state the factory reaches after it has been
  initialized, under calls by anybody (repeated initializations included) and any change of the other
  contracts: the identifiers of the listed circles are pairwise distinct; exactly they have a stored
  configuration, which passed the checks of \<open>deploy_circle\<close> and carries the name and the organizer of
  the entry; no configuration has been deployed twice; and the counter never exceeds the length of the
  list and equals it as long as no initializer is called again.
\<close>

theorem registry_lists_each_deployment_once:
  assumes "deployer A address_of"
    and init: "fa_exec A h0 op0 (factory_empty w) = Inr s0" "initializes op0"
    and run: "fa_run A me inits s0 s"
  shows "distinct (map en_circle_id (get_circles s))
    \<and> (\<forall>cid. (\<exists>e\<in>set (get_circles s). en_circle_id e = cid) \<longleftrightarrow> (\<exists>c. get_circle_config s cid = Inr c))
    \<and> (\<forall>e\<in>set (get_circles s). \<exists>c. get_circle_config s (en_circle_id e) = Inr c \<and> en_name e = cc_name c
      \<and> en_organizer e = cc_organizer c \<and> 2 \<le> cc_max_members c \<and> 0 < cc_contribution_amount c
      \<and> 0 < cc_total_rounds c \<and> cc_payout_type c \<le> 3)
    \<and> (\<forall>i j c. get_circle_config s i = Inr c \<longrightarrow> get_circle_config s j = Inr c \<longrightarrow> i = j)
    \<and> get_circle_count s \<le> length (get_circles s)
    \<and> (\<not> inits \<longrightarrow> get_circle_count s = length (get_circles s))"
proof (intro conjI)
  have "registry_ok A (address_of me) s0" "get_circle_count s0 = length (get_circles s0)"
    using factory_init_fresh [OF init] by (simp_all add: registry_ok_def registry_ids_def)
  from deployer.fa_run_registry_ok [OF assms(1) run this(1)] this(2)
  have ok: "registry_ok A (address_of me) s" "get_circle_count s \<le> length (get_circles s)"
    "\<not> inits \<longrightarrow> get_circle_count s = length (get_circles s)" by simp_all
  then show "distinct (map en_circle_id (get_circles s))" "get_circle_count s \<le> length (get_circles s)"
    "\<not> inits \<longrightarrow> get_circle_count s = length (get_circles s)" by (simp_all add: registry_ok_def registry_ids_def)
  from ok(1) show mem: "\<forall>cid. (\<exists>e\<in>set (get_circles s). en_circle_id e = cid) \<longleftrightarrow> (\<exists>c. get_circle_config s cid = Inr c)"
    by (auto simp: registry_ok_def registry_ids_def get_circle_config_def ok_or_Inr dom_def set_eq_iff image_iff Bex_def)
  from ok(1) show "\<forall>e\<in>set (get_circles s). \<exists>c. get_circle_config s (en_circle_id e) = Inr c \<and> en_name e = cc_name c
      \<and> en_organizer e = cc_organizer c \<and> 2 \<le> cc_max_members c \<and> 0 < cc_contribution_amount c
      \<and> 0 < cc_total_rounds c \<and> cc_payout_type c \<le> 3"
    by (fastforce simp: registry_ok_def deployable_def get_circle_config_def)
  have "i = address_of me (canonical_deployment_salt A c)" if c: "get_circle_config s i = Inr c" for i c
  proof -
    from mem c obtain e where "e \<in> set (get_circles s)" "en_circle_id e = i" by blast
    with ok(1) c show ?thesis by (auto simp: registry_ok_def get_circle_config_def ok_or_Inr)
  qed
  then show "\<forall>i j c. get_circle_config s i = Inr c \<longrightarrow> get_circle_config s j = Inr c \<longrightarrow> i = j" by metis
qed

theorem registry_lists_each_deployment_once_witness:
  "\<exists>(s :: unit hub factory) e. get_circles s = [e] \<and> get_circle_count s = 1
    \<and> (\<exists>c. get_circle_config s (en_circle_id e) = Inr c \<and> cc_organizer c = 2)"
proof -
  obtain s0 s2 cid where i: "factory_init (fx_host 1) 1 100 [1] 1 3600 fx_start = Inr s0"
    and r: "fa_run fx_api 3 False s0 s2" and c: "get_circles s2 = [new_entry (fx_host 5) cid cw_config]"
    by (rule fx_run)
  have "deployer fx_api (\<lambda>_. salt_address)" unfolding fx_api_def by (rule hub.deployer_axioms)
  note once = registry_lists_each_deployment_once [OF this, of "fx_host 1" "FaInit 1 100 [1] 1 3600"
      "\<lparr>hb_ledger = (), hb_circles = Map.empty\<rparr>", OF _ _ r]
  from i have "fa_exec fx_api (fx_host 1) (FaInit 1 100 [1] 1 3600) (factory_empty \<lparr>hb_ledger = (), hb_circles = Map.empty\<rparr>) = Inr s0"
    by (simp add: fx_start_def)
  note once = once [OF this]
  have e: "en_organizer (new_entry (fx_host 5) cid cw_config) = 2" by (simp add: new_entry_def cw_config_def)
  from once c obtain x where "get_circle_config s2 (en_circle_id (new_entry (fx_host 5) cid cw_config)) = Inr x"
    "cc_organizer x = 2" using e by auto
  with once c show ?thesis by (intro exI [of _ s2] exI [of _ "new_entry (fx_host 5) cid cw_config"]) auto
qed

text \<open>A span of one period's length meets two fixed periods at most.\<close>

lemma rolling_count_le:
  fixes dep :: "'e \<Rightarrow> nat"
  assumes "0 < secs" "\<And>p. length (filter (\<lambda>e. P e \<and> dep e div secs = p) xs) \<le> limit"
  shows "length (filter (\<lambda>e. P e \<and> t \<le> dep e \<and> dep e < t + secs) xs) \<le> 2 * limit"
proof -
  let ?in = "\<lambda>p e. P e \<and> dep e div secs = p"
  have two: "dep e div secs = t div secs \<or> dep e div secs = Suc (t div secs)"
    if "t \<le> dep e" "dep e < t + secs" for e
  proof -
    have "t div secs \<le> dep e div secs" using that(1) by (rule div_le_mono)
    moreover have "dep e div secs \<le> (t + secs) div secs" using that(2) by (intro div_le_mono) simp
    moreover have "(t + secs) div secs = Suc (t div secs)"
      using assms(1) div_add_self2 [of secs t] by (metis Suc_eq_plus1 less_not_refl2)
    ultimately show ?thesis by linarith
  qed
  have "length (filter (\<lambda>e. P e \<and> t \<le> dep e \<and> dep e < t + secs) ys)
      \<le> length (filter (?in (t div secs)) ys) + length (filter (?in (Suc (t div secs))) ys)" for ys
  proof (induction ys)
    case Nil
    then show ?case by simp
  next
    case (Cons e ys)
    then show ?case using two [of e] by auto
  qed
  from this [of xs] assms(2) [of "t div secs"] assms(2) [of "Suc (t div secs)"] show ?thesis by linarith
qed

text \<open>
  C23: The quota of an organizer is kept, period by period. After a factory has been initialized with a
  limit above zero, and as long as no initializer is called again (which anybody can do, and which sets
  a new limit), the registry never lists more circles of one organizer created in one of the fixed periods
  that follow each other from time zero than the limit, and a deployment succeeds only while there are
  fewer, whatever else happens. The period is not the rolling one the documents speak of: a span of the
  same length that begins anywhere can hold twice the limit, and not more.
\<close>

theorem deployments_stay_within_quota:
  assumes init: "factory_init h0 admin fee_bps wh limit secs (factory_empty w) = Inr s0" "0 < limit"
    and run: "fa_run A me False s0 s"
  shows "length (filter (\<lambda>e. en_organizer e = org \<and> en_deployed_at e div secs = period) (get_circles s)) \<le> limit
    \<and> (deploy_circle A h config s = Inr r \<longrightarrow>
      length (filter (\<lambda>e. en_organizer e = cc_organizer config \<and> en_deployed_at e div secs = now h div secs)
        (get_circles s)) < limit)
    \<and> length (filter (\<lambda>e. en_organizer e = org \<and> t \<le> en_deployed_at e \<and> en_deployed_at e < t + secs)
        (get_circles s)) \<le> 2 * limit"
proof (intro conjI impI)
  from fa_run_quota_ok [OF run factory_init_quota_ok(1) [OF init(1)] init(2)]
  have q: "quota_ok limit secs s" .
  then have one: "length (filter (\<lambda>e. en_organizer e = org \<and> en_deployed_at e div secs = p) (get_circles s)) \<le> limit" for p
    by (simp add: quota_ok_def deployed_in_def)
  from one show "length (filter (\<lambda>e. en_organizer e = org \<and> en_deployed_at e div secs = period) (get_circles s)) \<le> limit" .
  show "length (filter (\<lambda>e. en_organizer e = cc_organizer config \<and> en_deployed_at e div secs = now h div secs)
        (get_circles s)) < limit" if "deploy_circle A h config s = Inr r"
    using deploy_quota_ok(2) [OF _ q init(2), of A h config "fst r" "snd r"] that by (simp add: deployed_in_def)
  have "0 < secs" using init by (auto simp: factory_init_def res_simps split: if_splits)
  from rolling_count_le [OF this one]
  show "length (filter (\<lambda>e. en_organizer e = org \<and> t \<le> en_deployed_at e \<and> en_deployed_at e < t + secs)
        (get_circles s)) \<le> 2 * limit" .
qed

theorem deployments_stay_within_quota_witness:
  "\<exists>s :: unit hub factory. length (get_circles s) = 1
    \<and> (\<forall>t config r. 5 \<le> t \<and> t < 3600 \<and> cc_organizer config = 2 \<longrightarrow> deploy_circle fx_api (fx_host t) config s \<noteq> Inr r)"
proof -
  obtain s0 s2 cid where i: "factory_init (fx_host 1) 1 100 [1] 1 3600 fx_start = Inr s0"
    and r: "fa_run fx_api 3 False s0 s2" and c: "get_circles s2 = [new_entry (fx_host 5) cid cw_config]"
    by (rule fx_run)
  note quota = deployments_stay_within_quota [OF i [unfolded fx_start_def] _ r, THEN conjunct2, THEN conjunct1, rule_format]
  have "deploy_circle fx_api (fx_host t) config s2 \<noteq> Inr x" if "t < 3600" "cc_organizer config = 2" for t config x
  proof
    assume "deploy_circle fx_api (fx_host t) config s2 = Inr x"
    from quota [OF _ this] that show False by (simp add: c new_entry_def cw_config_def fx_host_def)
  qed
  with c show ?thesis by (intro exI [of _ s2]) simp
qed

end
