(* ===== verification/Spec2Isabelle.thy ===== *)
theory Spec2Isabelle
  imports Token_Types Staking Vrf Registry_Lifetime Treasury Escrow Governance Legacy_Circle
    Circle_Leaderboard Circle_Progress Circle_Withdrawals Factory_World
begin

text \<open>
  Moistello is a set of Soroban contracts for rotating savings circles: the members of a circle pay a
  fixed contribution every round, and every round one of them receives the pool. This library models the
  contracts of \<open>packages/*\<close> and the earlier single-file \<open>circle.rs\<close> as functions on explicit state, and
  proves what the money, the rounds, the votes and the scores do along every sequence of calls.

  \<^bold>\<open>How a contract is modelled.\<close> The storage of a contract is one record with a field for every storage
  key (\<open>option\<close> for an entry that may be absent, a map for a key with arguments) that extends
  \<open>contract_base\<close> of \<open>Prelude\<close> (pause flag, re-entrancy flag, published events) and, for a contract that
  calls others, \<open>token_base\<close>, whose \<open>cb_ledger\<close> is the state of all the other contracts of the ledger. A
  handler takes the host (address, time, sequence, authorizations), its arguments and the storage and
  returns \<open>Inr\<close> the new storage, \<open>Inl (Err e)\<close> for an error value of the contract, or \<open>Inl Trap\<close> where the
  host aborts; after any \<open>Inl\<close> the transaction rolls back, so a run has only the \<open>Inr\<close> steps. Guards,
  early returns and the order of the writes are those of the source. Amounts are \<open>int\<close> with the \<open>i128\<close>
  range written out at every checked, saturating, wrapping or plain operation; counters and times are
  \<open>nat\<close> with the width in the operation; the payout bitmap is a \<open>128 word\<close>. Plain arithmetic wraps, as the
  release profile of the workspace compiles it.

  \<^bold>\<open>Parts, and how they interact.\<close>
  \<^item> \<open>Prelude\<close>: results, host, events, machine arithmetic, sums over maps and the collections \<open>res_simps\<close>
    (inversion of a call that returned) and \<open>int_simps\<close> (checked arithmetic). \<open>Token_Interface\<close>: the
    locale \<open>sep41\<close>, the laws of a token that its clients rely on. \<open>Common_Lib\<close>: \<open>packages/common\<close> (checked
    arithmetic, pause, re-entrancy guard, access control, token transfer, upgrade, explorer links). \<open>Vrf\<close>:
    \<open>common/src/vrf.rs\<close>. \<open>Ordered_Map\<close>: the host's sorted map.
  \<^item> \<open>Gov_Token\<close> (\<open>governance-token\<close>): balances, supply, allowances, freezing, allowlist; the
    interpretation of \<open>sep41\<close> that every other contract's witnesses use. \<open>Token_Types\<close>: its storage is
    well typed.
  \<^item> \<open>Treasury\<close>, \<open>Escrow\<close>, \<open>Staking\<close>: contracts that hold tokens; each has a run relation in which all its
    calls alternate with arbitrary moves of the other accounts of the token. The initializers that the
    code accepts again are calls of these runs like the others. \<open>sk_run\<close> of \<open>Staking\<close> has a predicate on
    the calls, with which a property states which repeated initializations it excludes, if any; \<open>tr_run\<close>
    of \<open>Treasury\<close> sums up the deposits that name the treasury as their own depositor.
  \<^item> \<open>Governance\<close>: proposals, votes, delegation, timelocked execution and configuration. Voting power is a
    call to another contract, the locale \<open>vote_source\<close>; its interpretation on \<open>Staking\<close> carries the
    property of this theory.
  \<^item> \<open>Reputation\<close> (\<open>reputation-registry\<close>): the activity log in pages and the two score tables. The circle
    links the scoring functions of this crate; they run on the circle's own storage. \<open>Registry_Lifetime\<close>
    adds how long the entries of the registry live: the helpers of \<open>common/src/ttl.rs\<close> and the accesses of
    every entry point, under the host's rule for extensions (the locale \<open>ttl_laws\<close>).
  \<^item> the savings circle (\<open>packages/circle\<close>): \<open>Circle_Types\<close> (types and storage, error codes of the
    clients), \<open>Circle_Payout\<close> (\<open>payout.rs\<close>, the four rules that choose a recipient), \<open>Circle_Core\<close>
    (constructor, join, contribute, deadline sweep, settling of a round), \<open>Circle_Auction\<close> (bids, refunds
    of losing bids, Dutch auctions, votes, schedules), \<open>Circle_Admin\<close> (exit, reports, disputes, batches),
    \<open>Circle_Queries\<close> (referrals, streaks, settings, withdrawals, queries).
  \<^item> \<open>Circle_Machine\<close>: the circle as a state machine, one operation per entry point of \<open>lib.rs\<close>, and runs.
    \<open>Circle_Rounds\<close>, \<open>Circle_Invariant\<close>: rounds, bitmap and members. \<open>Circle_Money\<close>: the movements of a
    settlement, transfer by transfer, with their recipients. \<open>Circle_Books\<close>: the contribution records.
    \<open>Circle_Funds\<close>: where the pool of a round goes. \<open>Circle_Frame\<close>: the locales \<open>circle_frame\<close> and
    \<open>quiet_frame\<close>, what an operation leaves alone, proved once for any part of the storage and interpreted
    on the settings and on the draw. \<open>Circle_Settings\<close>: by whose authority the settings change.
    \<open>Circle_Withdrawals\<close>: the limits per call and per day. \<open>Circle_Leaderboard\<close>, \<open>Circle_Refunds\<close>: the
    ranking and the refunds of bids. \<open>Circle_Progress\<close>: the draw never runs out of nonces, and a due round
    can be settled in a \<open>settling_world\<close>, of which the governance token with a treasury of the model is an
    instance.
  \<^item> \<open>Circle_Factory\<close> (\<open>packages/circle-factory\<close>): deployment, registry, quota per organizer and period.
    The host's deployer is the locale \<open>deployer\<close>; \<open>Factory_World\<close> interprets it on a world whose contracts
    are circles of the model, so that the factory and the circle are composed.
  \<^item> \<open>Legacy_Circle\<close>: \<open>circle.rs\<close> at the root.

  \<^bold>\<open>What is proved.\<close>
  \<^item> Governance: an executed proposal had passed its vote under the configuration in force and waited its
    timelock; tallies are the sums of the recorded votes; statuses move only along the life cycle; changes
    of the configuration wait 48 hours; delegation is one level deep.
  \<^item> Circle: in every reachable state only positions of members are marked as paid, and at least as many as
    rounds are finished; terms stay and progress never goes back; a successful payout is an exact round,
    and the member whose position it marks is the one its log names and its transfers pay; a round that is
    due can be settled, whatever the kind of the circle; a settled round moves exactly the pool, split
    into fee and net; one contribution per member and round, and the totals are sums of the records;
    withdrawals of a day stay within the limit; settings change only by authority of the administrator or
    the factory; the auction and the vote choose the stated recipient; the leaderboard is the beginning of
    a sort; what the refund resolution pays; the refunds of losing bids terminate.
  \<^item> Factory: a deployed circle holds the configuration it was deployed with; the registry lists every
    deployment once; no organizer exceeds its quota in one of the fixed periods (nor twice the quota in
    any span of that length), until the factory is initialized again.
  \<^item> Token, staking, escrow, treasury: supply is the sum of balances and balances fall only with authority;
    the contract's token balance covers what its books owe (for staking as long as a repeated \<open>init\<close> names
    the same token, for the treasury up to what was deposited from the treasury itself, see
    \<open>self_deposit_inflates_balance\<close>); positions, unbonding and swaps follow their life cycles.
  \<^item> Reputation: scores are bounded, a page of history is a slice of the log, an entry that is used lives
    for thirty days more (and not always for the ninety of \<open>docs/TTL.md\<close>), the instance for seven where an
    entry point extends it. VRF: no nonce is used twice.

  Each component states its invariant as a definition, has one lemma per operation (\<open>_Inr\<close>, \<open>_InrD\<close> or
  \<open>_effect\<close> lemmas invert a successful call, \<open>_core\<close>, \<open>_frame\<close>, \<open>_books\<close> and \<open>_mem_inv\<close> lemmas say what it
  keeps) and a rule induction over runs; the properties apply these. Witnesses are runs of the model from
  the constructor, evaluated by simplification.

  \<^bold>\<open>Bounds, loops and termination.\<close> Every loop of the source goes over a vector or a counter and is a
  structurally recursive function or a \<open>fold\<close>; there is no fuel anywhere and no partial function. The
  bound of 128 positions comes from the bitmap and the constructor's limit of 100 members is under it.

  \<^bold>\<open>Parameters.\<close> SHA-256, Ed25519 verification, the PRNG, the XDR encoding, the deployer, the token behind
  an address, the treasury, registry and oracle behind an address, the lifetime the host gives an entry
  and the call of an executed proposal are arguments of the definitions, in the records \<open>token_api\<close>,
  \<open>circle_env\<close>, \<open>deploy_api\<close>, \<open>gov_env\<close>, \<open>ttl_host\<close> or as single functions. Theorems name the laws they
  need as hypotheses; every such law is discharged on a model of this library in a witness.

  \<^bold>\<open>Not modelled.\<close> Archival of the storage of the contracts that never extend a lifetime (all but the
  registry): they run as if their entries were restored in time. Re-entrant calls of the token into the
  contract during a transfer: the guard flag is modelled and refuses them, but a token of the model cannot
  call back. Host budgets and fees. The \<open>CircleConfig\<close> of \<open>common/src/types.rs\<close>, which no contract uses,
  the \<open>cfg(test)\<close> methods of \<open>circle.rs\<close>, tests, scripts, generated bindings and documentation.
\<close>

section \<open>Properties that span components\<close>

text \<open>
  C25: Votes weigh what is staked. When governance uses the staking contract, after any run of all of that
  contract's entry points (a repeated \<open>init\<close> included), and provided that no position is negative at
  that time (executing a slash notice can overdraw one, lemma \<open>execute_slash_overdraws\<close>), every vote record
  a call of \<open>cast_vote\<close> adds has as its power the account's staked amount times the multiplier of its
  lock period (0 without a position), and no counter of the proposal goes down.
\<close>

theorem vote_weight_is_staked_power:
  assumes cast: "cast_vote W h a i v s = Inr s'" and W: "ge_power W = staking_power" "gv_staking s = Some c"
    and run: "staking_init h0 ad t (staking_empty l) = Inr k0" "sk_run T P me k0 (gv_world s c)"
    and nn: "\<forall>u p. get_stake u (gv_world s c) = Some p \<longrightarrow> 0 \<le> sp_amount p"
  shows "(\<forall>b r. get_vote i b s = None \<longrightarrow> get_vote i b s' = Some r \<longrightarrow>
      vr_power r = (case get_stake b (gv_world s c) of None \<Rightarrow> 0
        | Some p \<Rightarrow> sp_amount p * int (multiplier (sp_period p))))
    \<and> (\<exists>p q. get_proposal i s = Inr p \<and> get_proposal i s' = Inr q \<and> pr_votes_for p \<le> pr_votes_for q
      \<and> pr_votes_against p \<le> pr_votes_against q \<and> pr_votes_abstain p \<le> pr_votes_abstain q)"
proof -
  let ?k = "gv_world s c"
  have "registry_inv False ?k"
    by (rule registry_run [OF run(2) conjunct1 [OF staking_init_registry [OF run(1)]]]) simp
  with nn have pw: "sp_voting_power p = sp_amount p * int (multiplier (sp_period p))" "0 \<le> sp_amount p"
    if "sk_stake ?k b = Some p" for b p
    using that by (auto simp: registry_inv_def position_ok_def get_stake_def)
  then have "powers_ok (gv_world s) c" by (auto simp: powers_ok_def ran_def)
  note cw = staked.cast_vote_weight [OF cast W this]
  have "stake_weight (gv_world s) c b = (case get_stake b ?k of None \<Rightarrow> 0
        | Some p \<Rightarrow> sp_amount p * int (multiplier (sp_period p)))" for b
    using pw(1) [of b] by (simp add: stake_weight_def get_stake_def split: option.split)
  note weight = this
  have "vr_power r = (case get_stake b ?k of None \<Rightarrow> 0 | Some p \<Rightarrow> sp_amount p * int (multiplier (sp_period p)))"
    if "get_vote i b s = None" "get_vote i b s' = Some r" for b r
  proof -
    from that have "votes_on i s b = None" "votes_on i s' b = Some r" by (simp_all add: get_vote_def votes_on_def)
    with cw(1) have "vr_power r = stake_weight (gv_world s) c b" by fastforce
    then show ?thesis by (simp only: weight)
  qed
  moreover from cw(2) obtain p x where "gv_proposals s i = Some p" "gv_proposals s' i = Some (add_votes v x p)" "0 \<le> x"
    by blast
  then have "\<exists>p q. get_proposal i s = Inr p \<and> get_proposal i s' = Inr q \<and> pr_votes_for p \<le> pr_votes_for q
      \<and> pr_votes_against p \<le> pr_votes_against q \<and> pr_votes_abstain p \<le> pr_votes_abstain q"
    by (simp add: get_proposal_def)
  ultimately show ?thesis by blast
qed

definition staked_gov :: "'l staking \<Rightarrow> (addr \<Rightarrow> 'l staking) governance" where
  "staked_gov k = (governance_empty (\<lambda>_. k))\<lparr>gv_proposals := [0 \<mapsto> gv_prop proposal_status.Active 0 0], gv_staking := Some 77\<rparr>"

theorem vote_weight_is_staked_power_witness:
  "\<exists>k s'. sk_run sk_api (\<lambda>_. True) 100 sk_start k
     \<and> cast_vote \<lparr>ge_power = staking_power, ge_invoke = (\<lambda>w t m as. None)\<rparr> (gv_host 20) 7 0 For (staked_gov k) = Inr s'
     \<and> (\<exists>r. get_vote 0 7 s' = Some r \<and> vr_power r = 40000000)"
proof -
  let ?W = "\<lparr>ge_power = staking_power, ge_invoke = (\<lambda>w t m as. None)\<rparr>"
  obtain k where k: "sk_run sk_api (\<lambda>_. True) 100 sk_start k" "sk_stake k = [7 \<mapsto> sk_position]"
    using sk_sample_staked [of "\<lambda>_. True"] by blast
  have "\<exists>s' r. cast_vote ?W (gv_host 20) 7 0 For (staked_gov k) = Inr s' \<and> get_vote 0 7 s' = Some r"
    by (simp add: gv_eval cast_vote_def staked_gov_def get_vote_power_def record_vote_def staking_power_def
      get_voting_power_def k(2) safe_add_def i128_checked_add_def chk_i128_def in_i128_def i128_max_def i128_min_def
      gv_prop_def sk_position_def get_vote_def)
  then obtain s' r where c: "cast_vote ?W (gv_host 20) 7 0 For (staked_gov k) = Inr s'" "get_vote 0 7 s' = Some r"
    by blast
  have w: "gv_world (staked_gov k) c = k" "get_vote 0 7 (staked_gov k) = None" "gv_staking (staked_gov k) = Some 77" for c
    by (simp_all add: staked_gov_def governance_empty_def get_vote_def)
  have "vr_power r = 40000000"
    using vote_weight_is_staked_power [OF c(1) _ w(3) sk_start_init, unfolded w(1), OF _ k(1)] k(2) c(2) w(2)
    by (auto simp: get_stake_def sk_position_def)
  with k(1) c show ?thesis by blast
qed

end
